(* ===== verification/Prelude.thy ===== *)
theory Prelude
  imports Complex_Main "HOL-Library.Word"
begin

text \<open>
  Shared vocabulary of the development: the exceptions of \<open>backend/src/types/errors.ts\<close>,
  results that may be exceptions, JSON values and HTTP responses, and the operations on
  JavaScript strings that the backend uses.

  Conventions. A JavaScript string is a \<open>string\<close> of bytes (its UTF-8 text; the backend's own
  data is ASCII, so \<open>length\<close> agrees with the source). A \<open>throw\<close> is \<open>Inl\<close> of an \<open>exn\<close>,
  a value \<open>Inr\<close>. \<open>null\<close> and \<open>undefined\<close> are \<open>None\<close>.
\<close>

section \<open>Collections of rewrite rules\<close>

text \<open>
  \<open>table_eval\<close> evaluates the tests of the tables on rows that are given (\<open>Db\<close> fills it);
  \<open>client_eval\<close> evaluates what a client reads of a response that is given (\<open>Client\<close>).
\<close>

named_theorems table_eval
named_theorems client_eval

section \<open>Exceptions and results\<close>

text \<open>UTF-8 bytes of the punctuation that occurs in the backend's messages.\<close>

definition emdash :: string where
  "emdash = [CHR 0xE2, CHR 0x80, CHR 0x94]"

datatype exn =
    Error string
  | SyntaxError string
  | RangeError string
  | StarknetConnectionError string
  | TransactionNotFoundError string
  | TransactionRevertedError string
  | CommitmentMismatchError string string

type_synonym 'a res = "exn + 'a"

fun message :: "exn \<Rightarrow> string" where
  "message (Error m) = m"
| "message (SyntaxError m) = m"
| "message (RangeError m) = m"
| "message (StarknetConnectionError m) = m"
| "message (TransactionNotFoundError h) = ''Transaction not found on Starknet Sepolia: '' @ h"
| "message (TransactionRevertedError h) = ''Transaction reverted on-chain: '' @ h"
| "message (CommitmentMismatchError e a) =
     ''Commitment mismatch '' @ emdash @ '' expected: '' @ e @ '', found in event: '' @ a"

definition bind_res :: "'a res \<Rightarrow> ('a \<Rightarrow> 'b res) \<Rightarrow> 'b res" where
  "bind_res r k = (case r of Inl e \<Rightarrow> Inl e | Inr x \<Rightarrow> k x)"

lemma bind_res_simps [simp]:
  "bind_res (Inl e) k = Inl e"
  "bind_res (Inr x) k = k x"
  by (simp_all add: bind_res_def)

lemma bind_res_eq_Inr [simp]:
  "bind_res r k = Inr y \<longleftrightarrow> (\<exists>x. r = Inr x \<and> k x = Inr y)"
  by (cases r) auto

definition is_ok :: "'a res \<Rightarrow> bool" where
  "is_ok r = (case r of Inl _ \<Rightarrow> False | Inr _ \<Rightarrow> True)"

lemma is_ok_simps [simp]: "\<not> is_ok (Inl e)" "is_ok (Inr x)"
  by (simp_all add: is_ok_def)

lemma is_ok_iff: "is_ok r \<longleftrightarrow> (\<exists>x. r = Inr x)"
  by (cases r) auto

section \<open>JSON and HTTP responses\<close>

text \<open>
  What awaiting \<open>fetch\<close> and reading the body can give: it rejects, the response is not \<open>ok\<close>
  (with the text the caller reads of it), or it has a body.
\<close>

datatype 'a http = NetFail exn | NotOk string | HttpOk 'a

definition http_res :: "string \<Rightarrow> 'a http \<Rightarrow> 'a res" where
  "http_res prefix r = (case r of
     NetFail e \<Rightarrow> Inl e | NotOk t \<Rightarrow> Inl (Error (prefix @ t)) | HttpOk x \<Rightarrow> Inr x)"

lemma http_res_Inr [simp]: "http_res p r = Inr x \<longleftrightarrow> r = HttpOk x"
  by (cases r) (auto simp: http_res_def)

lemma http_res_HttpOk [simp]: "http_res p (HttpOk x) = Inr x"
  by simp

text \<open>A JSON number is a double, hence a rational.\<close>

datatype json =
    JNull
  | JBool bool
  | JNum rat
  | JStr string
  | JArr "json list"
  | JObj "(string \<times> json) list"

definition JInt :: "int \<Rightarrow> json" where
  "JInt n = JNum (of_int n)"

definition JOpt :: "string option \<Rightarrow> json" where
  "JOpt s = (case s of None \<Rightarrow> JNull | Some t \<Rightarrow> JStr t)"

record response =
  code :: nat
  body :: json

definition respond :: "nat \<Rightarrow> (string \<times> json) list \<Rightarrow> response" where
  "respond c fs = \<lparr>code = c, body = JObj fs\<rparr>"

definition fail_with :: "nat \<Rightarrow> string \<Rightarrow> response" where
  "fail_with c msg = respond c [(''success'', JBool False), (''error'', JStr msg)]"

lemma code_respond [simp]: "code (respond c fs) = c"
  by (simp add: respond_def)

lemma code_fail_with [simp]: "code (fail_with c m) = c"
  by (simp add: fail_with_def)

section \<open>Strings\<close>

text \<open>Character codes are \<open>int\<close>, whose numerals the kernel evaluates in binary.\<close>

definition char_code :: "char \<Rightarrow> int" where
  "char_code c = of_char c"

definition starts_with :: "string \<Rightarrow> string \<Rightarrow> bool" where
  "starts_with s p = (take (length p) s = p)"

fun str_includes :: "string \<Rightarrow> string \<Rightarrow> bool" where
  "str_includes [] p = (p = [])"
| "str_includes (c # s) p = (starts_with (c # s) p \<or> str_includes s p)"

text \<open>\<open>s.replace(p, r)\<close> with a string pattern: the first occurrence only.\<close>

fun replace_first :: "string \<Rightarrow> string \<Rightarrow> string \<Rightarrow> string" where
  "replace_first [] p r = (if p = [] then r else [])"
| "replace_first (c # s) p r =
     (if starts_with (c # s) p then r @ drop (length p) (c # s)
      else c # replace_first s p r)"

definition lower_char :: "char \<Rightarrow> char" where
  "lower_char c = (let n = char_code c in
     if 65 \<le> n \<and> n \<le> 90 then char_of (n + 32) else c)"

definition to_lower :: "string \<Rightarrow> string" where
  "to_lower = map lower_char"

definition pad_start :: "nat \<Rightarrow> char \<Rightarrow> string \<Rightarrow> string" where
  "pad_start n c s = replicate (n - length s) c @ s"

lemma length_pad_start: "length (pad_start n c s) = max n (length s)"
  by (simp add: pad_start_def)

lemma length_to_lower [simp]: "length (to_lower s) = length s"
  by (simp add: to_lower_def)

lemma starts_with_append [simp]: "starts_with (p @ s) p"
  by (simp add: starts_with_def)

lemma starts_with_iff: "starts_with s p \<longleftrightarrow> (\<exists>t. s = p @ t)"
  by (metis append_take_drop_id append_eq_conv_conj starts_with_def)

lemma str_includes_iff: "str_includes s p \<longleftrightarrow> (\<exists>u v. s = u @ p @ v)"
proof (induction s)
  case Nil
  then show ?case by auto
next
  case (Cons c s)
  show ?case
  proof
    assume "str_includes (c # s) p"
    then consider "starts_with (c # s) p" | "str_includes s p" by auto
    then show "\<exists>u v. c # s = u @ p @ v"
    proof cases
      case 1
      then show ?thesis by (auto simp: starts_with_iff intro: exI [of _ "[]"])
    next
      case 2
      then obtain u v where "s = u @ p @ v" using Cons.IH by blast
      then have "c # s = (c # u) @ p @ v" by simp
      then show ?thesis by blast
    qed
  next
    assume "\<exists>u v. c # s = u @ p @ v"
    then obtain u v where e: "c # s = u @ p @ v" by blast
    show "str_includes (c # s) p"
    proof (cases u)
      case Nil
      then have "starts_with (c # s) p" using e starts_with_iff by force
      then show ?thesis by simp
    next
      case (Cons d u')
      then have "s = u' @ p @ v" using e by simp
      then show ?thesis using Cons.IH by auto
    qed
  qed
qed

text \<open>White space trimmed by \<open>String.prototype.trim\<close> (the ASCII part of it).\<close>

definition is_space :: "char \<Rightarrow> bool" where
  "is_space c = (let n = char_code c in n = 32 \<or> (9 \<le> n \<and> n \<le> 13))"

definition trim :: "string \<Rightarrow> string" where
  "trim s = rev (dropWhile is_space (rev (dropWhile is_space s)))"

section \<open>Digits\<close>

definition is_digit :: "char \<Rightarrow> bool" where
  "is_digit c = (48 \<le> char_code c \<and> char_code c \<le> 57)"

definition hex_val :: "char \<Rightarrow> int option" where
  "hex_val c = (let n = char_code c in
     if 48 \<le> n \<and> n \<le> 57 then Some (n - 48)
     else if 97 \<le> n \<and> n \<le> 102 then Some (n - 87)
     else if 65 \<le> n \<and> n \<le> 70 then Some (n - 55)
     else None)"

definition is_hex :: "char \<Rightarrow> bool" where
  "is_hex c = (hex_val c \<noteq> None)"

definition digit_char :: "int \<Rightarrow> char" where
  "digit_char d = char_of (if d < 10 then 48 + d else 87 + d)"

text \<open>The regular expression \<open>/^0x[0-9a-fA-F]{lo,hi}$/\<close>.\<close>

definition hex_0x :: "nat \<Rightarrow> nat \<Rightarrow> string \<Rightarrow> bool" where
  "hex_0x lo hi s =
     (starts_with s ''0x'' \<and> list_all is_hex (drop 2 s)
      \<and> lo \<le> length (drop 2 s) \<and> length (drop 2 s) \<le> hi)"

text \<open>\<open>n.toString(b)\<close> for a non-negative integer, and its inverse.\<close>

function digits_acc :: "int \<Rightarrow> int \<Rightarrow> string \<Rightarrow> string" where
  "digits_acc b n acc =
     (if b < 2 \<or> n < b then digit_char n # acc
      else digits_acc b (n div b) (digit_char (n mod b) # acc))"
  by pat_completeness auto
termination
proof (relation "measure (\<lambda>(b, n, acc). nat n)", goal_cases)
  case (2 b n acc)
  then have b: "2 \<le> b" and n: "b \<le> n" by auto
  then have "n div b < n" by (intro int_div_less_self) auto
  then show ?case using b n by simp
qed simp

declare digits_acc.simps [simp del]

definition to_base :: "int \<Rightarrow> int \<Rightarrow> string" where
  "to_base b n = digits_acc b n []"

definition str_of_int :: "int \<Rightarrow> string" where
  "str_of_int z = (if z < 0 then CHR ''-'' # to_base 10 (- z) else to_base 10 z)"

definition str_of_nat :: "nat \<Rightarrow> string" where
  "str_of_nat n = str_of_int (int n)"

definition digit_val :: "int \<Rightarrow> char \<Rightarrow> int option" where
  "digit_val b c = (case hex_val c of None \<Rightarrow> None | Some d \<Rightarrow> if d < b then Some d else None)"

fun of_base_acc :: "int \<Rightarrow> int \<Rightarrow> string \<Rightarrow> int option" where
  "of_base_acc b acc [] = Some acc"
| "of_base_acc b acc (c # s) =
     (case digit_val b c of None \<Rightarrow> None | Some d \<Rightarrow> of_base_acc b (acc * b + d) s)"

text \<open>A non-empty string of base-\<open>b\<close> digits.\<close>

definition of_base :: "int \<Rightarrow> string \<Rightarrow> int option" where
  "of_base b s = (if s = [] then None else of_base_acc b 0 s)"

text \<open>
  \<open>BigInt(s)\<close> of a string: surrounding white space is ignored, the empty string is 0, a
  \<open>0x\<close> prefix introduces hexadecimal digits (without a sign), anything else is a signed
  decimal; \<open>None\<close> is the \<open>SyntaxError\<close>. (The \<open>0o\<close> and \<open>0b\<close> forms, which no caller
  produces, are not read.)
\<close>

definition big_int :: "string \<Rightarrow> int option" where
  "big_int s0 = (let s = trim s0 in
     if s = [] then Some 0
     else if starts_with s ''0x'' \<or> starts_with s ''0X'' then of_base 16 (drop 2 s)
     else if starts_with s ''-'' then map_option uminus (of_base 10 (drop 1 s))
     else if starts_with s ''+'' then of_base 10 (drop 1 s)
     else of_base 10 s)"

definition big_int_res :: "string \<Rightarrow> int res" where
  "big_int_res s = (case big_int s of
     None \<Rightarrow> Inl (SyntaxError (''Cannot convert '' @ s @ '' to a BigInt''))
   | Some z \<Rightarrow> Inr z)"

subsection \<open>Round trip of the number formats\<close>

lemma char_code_digit_char:
  assumes "0 \<le> d" "d < 36"
  shows "char_code (digit_char d) = (if d < 10 then 48 + d else 87 + d)"
proof -
  have "(if d < 10 then 48 + d else 87 + d) mod 256 = (if d < 10 then 48 + d else 87 + d)"
    using assms by auto
  then show ?thesis
    by (simp add: char_code_def digit_char_def of_char_of)
qed

lemma hex_val_digit_char: "0 \<le> d \<Longrightarrow> d < 16 \<Longrightarrow> hex_val (digit_char d) = Some d"
  by (simp add: hex_val_def Let_def char_code_digit_char)

lemma digit_val_digit_char:
  "0 \<le> d \<Longrightarrow> d < b \<Longrightarrow> b \<le> 16 \<Longrightarrow> digit_val b (digit_char d) = Some d"
  by (simp add: digit_val_def hex_val_digit_char)

lemma of_base_acc_digits_acc:
  assumes "2 \<le> b" "b \<le> 16" "0 \<le> n"
  shows "of_base_acc b 0 (digits_acc b n acc) = of_base_acc b n acc"
  using assms
proof (induction b n acc rule: digits_acc.induct)
  case (1 b n acc)
  show ?case
  proof (cases "n < b")
    case True
    then show ?thesis using "1.prems"
      by (subst digits_acc.simps) (simp add: digit_val_digit_char)
  next
    case False
    have q: "0 \<le> n div b" using "1.prems" by (simp add: pos_imp_zdiv_nonneg_iff)
    have "of_base_acc b 0 (digits_acc b n acc)
        = of_base_acc b (n div b) (digit_char (n mod b) # acc)"
      using False "1.prems" "1.IH" q by (subst digits_acc.simps) auto
    also have "\<dots> = of_base_acc b n acc"
      using "1.prems" by (simp add: digit_val_digit_char)
    finally show ?thesis .
  qed
qed

lemma digits_acc_nonempty: "digits_acc b n acc \<noteq> []"
proof (induction b n acc rule: digits_acc.induct)
  case (1 b n acc)
  then show ?case by (subst digits_acc.simps) auto
qed

theorem of_base_to_base: "2 \<le> b \<Longrightarrow> b \<le> 16 \<Longrightarrow> 0 \<le> n \<Longrightarrow> of_base b (to_base b n) = Some n"
  by (simp add: of_base_def to_base_def digits_acc_nonempty of_base_acc_digits_acc)

lemma set_digits_acc:
  assumes "2 \<le> b" "b \<le> 16" "0 \<le> n"
  shows "set (digits_acc b n acc) \<subseteq> digit_char ` {0..<b} \<union> set acc"
  using assms
proof (induction b n acc rule: digits_acc.induct)
  case (1 b n acc)
  show ?case
  proof (cases "n < b")
    case True
    then show ?thesis using "1.prems" by (subst digits_acc.simps) auto
  next
    case False
    have q: "0 \<le> n div b" using "1.prems" by (simp add: pos_imp_zdiv_nonneg_iff)
    have "digit_char (n mod b) \<in> digit_char ` {0..<b}" using "1.prems" by auto
    then show ?thesis using False "1.prems" "1.IH" q by (subst digits_acc.simps) auto
  qed
qed

lemma set_to_base: "2 \<le> b \<Longrightarrow> b \<le> 16 \<Longrightarrow> 0 \<le> n \<Longrightarrow> set (to_base b n) \<subseteq> digit_char ` {0..<b}"
  using set_digits_acc [of b n "[]"] by (simp add: to_base_def)

lemma digit_char_not_space: "0 \<le> d \<Longrightarrow> d < 16 \<Longrightarrow> \<not> is_space (digit_char d)"
  by (auto simp: is_space_def Let_def char_code_digit_char split: if_splits)

lemma trim_id: "(\<forall>c \<in> set s. \<not> is_space c) \<Longrightarrow> trim s = s"
proof -
  assume h: "\<forall>c \<in> set s. \<not> is_space c"
  have d: "dropWhile is_space t = t" if "\<forall>c \<in> set t. \<not> is_space c" for t
    using that by (cases t) auto
  then show ?thesis using h d [of "rev s"] by (simp add: trim_def)
qed

lemma trim_to_base: "2 \<le> b \<Longrightarrow> b \<le> 16 \<Longrightarrow> 0 \<le> n \<Longrightarrow> trim (to_base b n) = to_base b n"
  using set_to_base [of b n] digit_char_not_space by (fastforce intro!: trim_id)

lemma to_base_nonempty [simp]: "to_base b n \<noteq> []"
  by (simp add: to_base_def digits_acc_nonempty)

lemma char_code_in_to_base:
  "2 \<le> b \<Longrightarrow> b \<le> 16 \<Longrightarrow> 0 \<le> n \<Longrightarrow> c \<in> set (to_base b n) \<Longrightarrow>
     hex_val c \<noteq> None \<and> \<not> is_space c"
proof -
  assume h: "2 \<le> b" "b \<le> 16" "0 \<le> n" "c \<in> set (to_base b n)"
  then have "c \<in> digit_char ` {0..<b}" using set_to_base [OF h(1-3)] by blast
  then obtain d where "0 \<le> d" "d < b" "c = digit_char d" by auto
  then show ?thesis using h by (simp add: hex_val_digit_char digit_char_not_space)
qed

lemma hex_val_x: "hex_val (CHR ''x'') = None" "hex_val (CHR ''X'') = None"
  "hex_val (CHR ''-'') = None" "hex_val (CHR ''+'') = None"
  by (simp_all add: hex_val_def char_code_def)

lemma to_base_no_prefix:
  assumes "2 \<le> b" "b \<le> 16" "0 \<le> n"
  shows "\<not> starts_with (to_base b n) ''0x''" "\<not> starts_with (to_base b n) ''0X''"
    "\<not> starts_with (to_base b n) ''-''" "\<not> starts_with (to_base b n) ''+''"
proof -
  have h: "\<not> starts_with (to_base b n) (p @ [c])" if "hex_val c = None" for p c
  proof
    assume "starts_with (to_base b n) (p @ [c])"
    then have "c \<in> set (to_base b n)" by (auto simp: starts_with_iff)
    then show False using char_code_in_to_base [OF assms, of c] that by simp
  qed
  show "\<not> starts_with (to_base b n) ''0x''" using h [of "CHR ''x''" "''0''"] hex_val_x by simp
  show "\<not> starts_with (to_base b n) ''0X''" using h [of "CHR ''X''" "''0''"] hex_val_x by simp
  show "\<not> starts_with (to_base b n) ''-''" using h [of "CHR ''-''" "[]"] hex_val_x by simp
  show "\<not> starts_with (to_base b n) ''+''" using h [of "CHR ''+''" "[]"] hex_val_x by simp
qed

lemma big_int_to_base10: "0 \<le> n \<Longrightarrow> big_int (to_base 10 n) = Some n"
  using to_base_no_prefix [of 10 n] of_base_to_base [of 10 n]
  by (simp add: big_int_def Let_def trim_to_base)

lemma trim_minus_to_base: "0 \<le> n \<Longrightarrow> trim (CHR ''-'' # to_base 10 n) = CHR ''-'' # to_base 10 n"
  using char_code_in_to_base [of 10 n] by (auto intro!: trim_id simp: is_space_def char_code_def)

theorem big_int_str_of_int: "big_int (str_of_int z) = Some z"
proof (cases "z < 0")
  case True
  then have "big_int (CHR ''-'' # to_base 10 (- z)) = Some z"
    using of_base_to_base [of 10 "- z"]
    by (simp add: big_int_def Let_def trim_minus_to_base starts_with_def)
  then show ?thesis using True by (simp add: str_of_int_def)
next
  case False
  then show ?thesis by (simp add: str_of_int_def big_int_to_base10)
qed

lemma big_int_res_str_of_int [simp]: "big_int_res (str_of_int z) = Inr z"
  by (simp add: big_int_res_def big_int_str_of_int)

lemma trim_hex: "list_all is_hex s \<Longrightarrow> trim (''0x'' @ s) = ''0x'' @ s"
proof -
  assume "list_all is_hex s"
  then have "\<not> is_space c" if "c \<in> set s" for c
    using that by (auto simp: list_all_iff is_hex_def hex_val_def is_space_def Let_def split: if_splits)
  then show ?thesis by (intro trim_id) (auto simp: is_space_def char_code_def)
qed

lemma list_all_is_hex_to_base: "2 \<le> b \<Longrightarrow> b \<le> 16 \<Longrightarrow> 0 \<le> n \<Longrightarrow> list_all is_hex (to_base b n)"
  using char_code_in_to_base [of b n] by (auto simp: list_all_iff is_hex_def)

lemma big_int_hex: "list_all is_hex s \<Longrightarrow> big_int (''0x'' @ s) = of_base 16 s"
  using trim_hex [of s] by (simp add: big_int_def Let_def starts_with_def)

lemma hex_val_0 [simp]: "hex_val (CHR ''0'') = Some 0"
  by (simp add: hex_val_def char_code_def)

lemma list_all_is_hex_pad: "list_all is_hex s \<Longrightarrow> list_all is_hex (pad_start n (CHR ''0'') s)"
  by (auto simp: pad_start_def list_all_iff is_hex_def)

lemma of_base_acc_zeros: "of_base_acc 16 0 (replicate n (CHR ''0'') @ s) = of_base_acc 16 0 s"
  by (induction n) (auto simp: digit_val_def)

lemma of_base_pad: "of_base 16 s = Some z \<Longrightarrow> of_base 16 (pad_start n (CHR ''0'') s) = Some z"
  by (simp add: of_base_def pad_start_def of_base_acc_zeros split: if_splits)

end
