(* ===== verification/LockManager.thy ===== *)
theory LockManager
  imports Prelude
begin

text \<open>
  \<open>backend/src/middleware/lockManager.ts\<close>: an in-memory lock per key with a safety timeout.

  \<open>locks\<close> and \<open>timeouts\<close> are the two \<open>Map\<close>s of the class. \<open>armed\<close> holds the timers that
  \<open>setTimeout\<close> has created and nobody has cleared or fired, \<open>inside\<close> the calls of
  \<open>withLock\<close> that are awaiting their \<open>fn()\<close>; both are the state of the event loop, which the
  class does not store itself. A call, and the timer it creates, is named by a number.
\<close>

type_synonym call = nat

record lock_state =
  locks :: "string \<Rightarrow> bool option"
  timeouts :: "string \<Rightarrow> call option"
  armed :: "(call \<times> string) list"
  inside :: "(call \<times> string) list"

definition init_locks :: lock_state where
  "init_locks = \<lparr>locks = (\<lambda>_. None), timeouts = (\<lambda>_. None), armed = [], inside = []\<rparr>"

definition isLocked :: "lock_state \<Rightarrow> string \<Rightarrow> bool" where
  "isLocked s k = (locks s k = Some True)"

text \<open>\<open>clearTimeout\<close> of the timer that \<open>timeouts\<close> holds for the key, if any.\<close>

definition releaseLock :: "string \<Rightarrow> lock_state \<Rightarrow> lock_state" where
  "releaseLock k s = (let s1 = s\<lparr>locks := (locks s)(k := None)\<rparr> in
     case timeouts s1 k of
       None \<Rightarrow> s1
     | Some t \<Rightarrow> s1\<lparr>armed := filter (\<lambda>(c, _). c \<noteq> t) (armed s1),
                     timeouts := (timeouts s1)(k := None)\<rparr>)"

definition locked_error :: exn where
  "locked_error = Error (''Resource is locked '' @ emdash @ '' concurrent operation in progress'')"

text \<open>The part of \<open>withLock\<close> before \<open>await fn()\<close>: the test, the lock, the timer.\<close>

definition withLock_enter :: "call \<Rightarrow> string \<Rightarrow> lock_state \<Rightarrow> lock_state res" where
  "withLock_enter c k s =
     (if isLocked s k then Inl locked_error
      else Inr (s\<lparr>locks := (locks s)(k \<mapsto> True),
                  armed := (c, k) # armed s,
                  timeouts := (timeouts s)(k \<mapsto> c),
                  inside := (c, k) # inside s\<rparr>))"

text \<open>The \<open>finally\<close> block, when \<open>fn()\<close> has settled.\<close>

definition withLock_exit :: "call \<Rightarrow> string \<Rightarrow> lock_state \<Rightarrow> lock_state" where
  "withLock_exit c k s = releaseLock k (s\<lparr>inside := filter (\<lambda>(d, _). d \<noteq> c) (inside s)\<rparr>)"

text \<open>The timer's callback, 30 seconds after it was armed.\<close>

definition on_timeout :: "call \<Rightarrow> string \<Rightarrow> lock_state \<Rightarrow> lock_state" where
  "on_timeout c k s = (let s1 = s\<lparr>armed := filter (\<lambda>(d, _). d \<noteq> c) (armed s)\<rparr> in
     case locks s1 k of None \<Rightarrow> s1 | Some _ \<Rightarrow> releaseLock k s1)"

text \<open>
  \<open>withLock(key, fn)\<close> when \<open>fn\<close> runs without awaiting anything, as it does at every call site
  of the backend (better-sqlite3 is synchronous): no other event comes between entering and
  leaving. \<open>fn\<close> maps a state to its result and the new state.
\<close>

definition withLock :: "call \<Rightarrow> string \<Rightarrow> ('s \<Rightarrow> 'a res \<times> 's) \<Rightarrow> lock_state \<Rightarrow> 's
    \<Rightarrow> 'a res \<times> lock_state \<times> 's" where
  "withLock c k fn l s = (case withLock_enter c k l of
     Inl e \<Rightarrow> (Inl e, l, s)
   | Inr l1 \<Rightarrow> (case fn s of (r, s') \<Rightarrow> (r, withLock_exit c k l1, s')))"

section \<open>The event loop around the locks\<close>

text \<open>
  Each event is one turn of the event loop: a new call (with a fresh number) enters or is
  refused, a call leaves, a timer fires. A timer can fire only while it is armed.
\<close>

inductive lock_step :: "lock_state \<Rightarrow> lock_state \<Rightarrow> bool" where
  enter: "\<forall>k'. (c, k') \<notin> set (inside s) \<union> set (armed s) \<Longrightarrow>
     withLock_enter c k s = Inr s' \<Longrightarrow> lock_step s s'"
| leave: "(c, k) \<in> set (inside s) \<Longrightarrow> lock_step s (withLock_exit c k s)"

inductive timer_step :: "lock_state \<Rightarrow> lock_state \<Rightarrow> bool" where
  fire: "(c, k) \<in> set (armed s) \<Longrightarrow> timer_step s (on_timeout c k s)"

inductive_cases lock_stepE: "lock_step s s'"
inductive_simps timer_step_iff: "timer_step s s'"

text \<open>States reached while every \<open>fn()\<close> settles within its 30 seconds, and all states.\<close>

inductive timely :: "lock_state \<Rightarrow> bool" where
  init: "timely init_locks"
| step: "timely s \<Longrightarrow> lock_step s s' \<Longrightarrow> timely s'"

inductive reachable :: "lock_state \<Rightarrow> bool" where
  init: "reachable init_locks"
| step: "reachable s \<Longrightarrow> lock_step s s' \<Longrightarrow> reachable s'"
| timer: "reachable s \<Longrightarrow> timer_step s s' \<Longrightarrow> reachable s'"

section \<open>Lemmas\<close>

text \<open>
  What ties the four fields together while no timer fires: a key is locked exactly while one
  call is inside it, and that call's timer is the one on record.
\<close>

definition lock_inv :: "lock_state \<Rightarrow> bool" where
  "lock_inv s \<longleftrightarrow>
     (\<forall>k. isLocked s k \<longleftrightarrow> (\<exists>c. (c, k) \<in> set (inside s))) \<and>
     (\<forall>c d k. (c, k) \<in> set (inside s) \<longrightarrow> (d, k) \<in> set (inside s) \<longrightarrow> c = d) \<and>
     (\<forall>c k. (c, k) \<in> set (inside s) \<longleftrightarrow> timeouts s k = Some c) \<and>
     (\<forall>c k k'. (c, k) \<in> set (inside s) \<longrightarrow> (c, k') \<in> set (inside s) \<longrightarrow> k = k') \<and>
     set (armed s) = set (inside s)"

lemma releaseLock_simps [simp]:
  "locks (releaseLock k s) = (locks s)(k := None)"
  "timeouts (releaseLock k s) = (timeouts s)(k := None)"
  "inside (releaseLock k s) = inside s"
  by (auto simp: releaseLock_def Let_def fun_eq_iff split: option.splits)

lemma armed_releaseLock:
  "set (armed (releaseLock k s)) = {(c, k') \<in> set (armed s). timeouts s k \<noteq> Some c}"
  by (auto simp: releaseLock_def Let_def split: option.splits)

lemma lock_inv_init: "lock_inv init_locks"
  by (simp add: lock_inv_def init_locks_def isLocked_def)

lemma lock_inv_enter:
  assumes inv: "lock_inv s" and fresh: "\<forall>k'. (c, k') \<notin> set (inside s) \<union> set (armed s)"
    and ok: "withLock_enter c k s = Inr s'"
  shows "lock_inv s'"
proof -
  from ok have nl: "\<not> isLocked s k"
    and s': "s' = s\<lparr>locks := (locks s)(k \<mapsto> True), armed := (c, k) # armed s,
                timeouts := (timeouts s)(k \<mapsto> c), inside := (c, k) # inside s\<rparr>"
    by (auto simp: withLock_enter_def split: if_splits)
  show ?thesis
    using inv fresh nl unfolding s' lock_inv_def isLocked_def by auto
qed

lemma lock_inv_leave:
  assumes inv: "lock_inv s" and "(c, k) \<in> set (inside s)"
  shows "lock_inv (withLock_exit c k s)"
proof -
  have t: "timeouts s k = Some c" using assms unfolding lock_inv_def by blast
  show ?thesis
    using assms t
    unfolding lock_inv_def withLock_exit_def isLocked_def
    by (simp add: armed_releaseLock) (safe; metis)
qed

lemma lock_inv_step: "lock_inv s \<Longrightarrow> lock_step s s' \<Longrightarrow> lock_inv s'"
  by (auto elim!: lock_stepE intro: lock_inv_enter lock_inv_leave)

lemma timely_inv: "timely s \<Longrightarrow> lock_inv s"
  by (induction rule: timely.induct) (auto intro: lock_inv_init lock_inv_step)

lemma withLock_sync_released:
  assumes "withLock c k fn l s = (r, l', s')" "\<not> isLocked l k"
  shows "\<not> isLocked l' k \<and> fn s = (r, s')"
  using assms
  by (auto simp: withLock_def withLock_enter_def withLock_exit_def isLocked_def split: prod.splits)

section \<open>Properties\<close>

text \<open>
  C23. Mutual exclusion: as long as every critical section settles before its 30-second safety
  timer fires, two calls of \<open>withLock\<close> are never inside the same key.
\<close>

theorem lock_mutual_exclusion:
  assumes "timely s" and "(c, k) \<in> set (inside s)" and "(d, k) \<in> set (inside s)"
  shows "c = d"
  using timely_inv [OF assms(1)] assms(2,3) unfolding lock_inv_def by blast

theorem lock_mutual_exclusion_witness:
  "\<exists>s. timely s \<and> (1, ''k'') \<in> set (inside s) \<and> {d. (d, ''k'') \<in> set (inside s)} = {1}"
proof -
  let ?s = "\<lparr>locks = (\<lambda>_. None)(''k'' \<mapsto> True), timeouts = (\<lambda>_. None)(''k'' \<mapsto> 1),
              armed = [(1, ''k'')], inside = [(1, ''k'')]\<rparr>"
  have "lock_step init_locks ?s"
    by (rule lock_step.enter [of 1 _ "''k''"])
       (simp_all add: init_locks_def withLock_enter_def isLocked_def)
  then have t: "timely ?s" using timely.init timely.step by blast
  have i: "(1, ''k'') \<in> set (inside ?s)" by simp
  have "d = 1" if "(d, ''k'') \<in> set (inside ?s)" for d by (rule lock_mutual_exclusion [OF t that i])
  then have "{d. (d, ''k'') \<in> set (inside ?s)} = {1}" using i by blast
  then show ?thesis using t i by blast
qed

text \<open>
  The safety timer gives exclusion up: after it has force-released a key whose first holder
  is still running, a second call enters; and because \<open>finally\<close> releases the key without
  checking who holds it, the first holder's exit then unlocks the second holder's key and
  cancels its timer, so that a third call enters beside the second.
\<close>

theorem lock_timeout_breaks_exclusion:
  "\<exists>s. reachable s \<and> (2, ''k'') \<in> set (inside s) \<and> (3, ''k'') \<in> set (inside s)"
proof -
  define f where "f = (\<lambda>c s. case withLock_enter c ''k'' s of Inr s' \<Rightarrow> s' | Inl _ \<Rightarrow> s)"
  let ?a = "f 1 init_locks"
  let ?b = "on_timeout 1 ''k'' ?a"
  let ?c = "f 2 ?b"
  let ?d = "withLock_exit 1 ''k'' ?c"
  let ?e = "f 3 ?d"
  note defs = f_def init_locks_def withLock_enter_def isLocked_def on_timeout_def
    withLock_exit_def releaseLock_def Let_def
  have "reachable ?a"
    by (rule reachable.step [OF reachable.init], rule lock_step.enter [of 1 _ "''k''"])
       (simp_all add: defs)
  then have "reachable ?b"
    by (rule reachable.timer) (auto simp: timer_step_iff defs)
  then have "reachable ?c"
    by (rule reachable.step, intro lock_step.enter [of 2 _ "''k''"]) (simp_all add: defs)
  then have "reachable ?d"
    by (rule reachable.step, intro lock_step.leave) (simp add: defs)
  then have "reachable ?e"
    by (rule reachable.step, intro lock_step.enter [of 3 _ "''k''"]) (simp_all add: defs)
  moreover have "(2, ''k'') \<in> set (inside ?e)" "(3, ''k'') \<in> set (inside ?e)"
    by (simp_all add: defs)
  ultimately show ?thesis by blast
qed

end
