(* ===== verification/Bytes.thy ===== *)
theory Bytes
  imports Prelude
begin

text \<open>
  Node's \<open>Buffer\<close>: a list of bytes. Reads outside the buffer throw (\<open>RangeError\<close>), indexing
  outside gives \<open>undefined\<close>, \<open>slice\<close> clamps its bounds. The hexadecimal and base64 codecs of
  \<open>Buffer.from\<close> and \<open>toString\<close> are defined here with their round trips.
\<close>

type_synonym byte = "8 word"
type_synonym buffer = "byte list"

section \<open>Integers in buffers\<close>

text \<open>The byte an integer is stored as, modulo 256.\<close>

definition byte_of :: "int \<Rightarrow> byte" where
  "byte_of v = word_of_int v"

lemma byte_of_uint [simp]: "byte_of (uint b) = b"
  by (simp add: byte_of_def)

lemma uint_byte_of: "0 \<le> v \<Longrightarrow> v < 256 \<Longrightarrow> uint (byte_of v) = v"
  by (simp add: byte_of_def uint_word_of_int take_bit_eq_mod)

lemma uint_byte_bound: "0 \<le> uint (b::byte) \<and> uint b < 256"
  using uint_lt2p [of b] by simp

fun le_uint :: "buffer \<Rightarrow> int" where
  "le_uint [] = 0"
| "le_uint (b # bs) = uint b + 256 * le_uint bs"

definition be_uint :: "buffer \<Rightarrow> int" where
  "be_uint bs = le_uint (rev bs)"

fun le_bytes :: "nat \<Rightarrow> int \<Rightarrow> buffer" where
  "le_bytes 0 v = []"
| "le_bytes (Suc n) v = byte_of (v mod 256) # le_bytes n (v div 256)"

definition be_bytes :: "nat \<Rightarrow> int \<Rightarrow> buffer" where
  "be_bytes n v = rev (le_bytes n v)"

definition slice :: "nat \<Rightarrow> nat \<Rightarrow> 'a list \<Rightarrow> 'a list" where
  "slice i j bs = take (j - i) (drop i bs)"

definition elem_at :: "'a list \<Rightarrow> nat \<Rightarrow> 'a option" where
  "elem_at bs i = (if i < length bs then Some (bs ! i) else None)"

definition out_of_range :: exn where
  "out_of_range = RangeError ''The value of \"offset\" is out of range.''"

definition read_le :: "nat \<Rightarrow> buffer \<Rightarrow> nat \<Rightarrow> int res" where
  "read_le n bs off =
     (if off + n \<le> length bs then Inr (le_uint (slice off (off + n) bs)) else Inl out_of_range)"

definition read_be :: "nat \<Rightarrow> buffer \<Rightarrow> nat \<Rightarrow> int res" where
  "read_be n bs off =
     (if off + n \<le> length bs then Inr (be_uint (slice off (off + n) bs)) else Inl out_of_range)"

lemma length_le_bytes [simp]: "length (le_bytes n v) = n"
  by (induction n arbitrary: v) auto

lemma length_be_bytes [simp]: "length (be_bytes n v) = n"
  by (simp add: be_bytes_def)

lemma le_uint_le_bytes: "0 \<le> v \<Longrightarrow> v < 256 ^ n \<Longrightarrow> le_uint (le_bytes n v) = v"
proof (induction n arbitrary: v)
  case (Suc n)
  have "v div 256 < 256 ^ n" using Suc.prems by auto
  then have "le_uint (le_bytes n (v div 256)) = v div 256" using Suc by simp
  then show ?case by (simp add: uint_byte_of)
qed simp

lemma le_uint_bound: "0 \<le> le_uint bs \<and> le_uint bs < 256 ^ length bs"
proof (induction bs)
  case (Cons b bs)
  then show ?case using uint_byte_bound [of b] by auto
qed simp

lemma le_bytes_le_uint: "le_bytes (length bs) (le_uint bs) = bs"
proof (induction bs)
  case (Cons b bs)
  have "(uint b + 256 * le_uint bs) mod 256 = uint b"
    using uint_byte_bound [of b] by simp
  moreover have "(uint b + 256 * le_uint bs) div 256 = le_uint bs"
    using uint_byte_bound [of b] by simp
  ultimately show ?case using Cons by simp
qed simp

lemma le_uint_append: "le_uint (as @ bs) = le_uint as + 256 ^ length as * le_uint bs"
  by (induction as) (auto simp: algebra_simps)

lemma be_uint_be_bytes: "0 \<le> v \<Longrightarrow> v < 256 ^ n \<Longrightarrow> be_uint (be_bytes n v) = v"
  by (simp add: be_uint_def be_bytes_def le_uint_le_bytes)

lemma slice_append2: "length as = i \<Longrightarrow> slice i (i + length bs) (as @ bs @ cs) = bs"
  by (simp add: slice_def)

lemma read_le_append:
  "length as = off \<Longrightarrow> length bs = n \<Longrightarrow> read_le n (as @ bs @ cs) off = Inr (le_uint bs)"
  by (auto simp: read_le_def slice_append2)

text \<open>Consecutive big-endian 32-bit words.\<close>

fun be_words :: "buffer \<Rightarrow> int list" where
  "be_words (a # b # c # d # bs) = be_uint [a, b, c, d] # be_words bs"
| "be_words _ = []"

lemma list32: "length bs = 32 \<Longrightarrow> length (be_words bs) = 8"
  by (simp add: numeral_eq_Suc length_Suc_conv) (elim exE conjE, simp)

lemma be_bytes_be_uint: "length bs = 4 \<Longrightarrow> be_bytes 4 (be_uint bs) = bs"
  using le_bytes_le_uint [of "rev bs"] by (simp add: be_bytes_def be_uint_def)

lemma be_words_bytes: "length bs = 4 * n \<Longrightarrow> concat (map (be_bytes 4) (be_words bs)) = bs"
proof (induction bs arbitrary: n rule: be_words.induct)
  case (1 a b c d bs)
  then show ?case using be_bytes_be_uint [of "[a, b, c, d]"] by (cases n) auto
qed (auto, presburger+)

section \<open>Text codecs\<close>

text \<open>What the services rely on of a text encoding: decoding inverts it.\<close>

locale text_codec =
  fixes enc :: "'a \<Rightarrow> string" and dec :: "string \<Rightarrow> 'b" and img :: "'a \<Rightarrow> 'b" and ok :: "'a \<Rightarrow> bool"
  assumes dec_enc: "ok x \<Longrightarrow> dec (enc x) = img x"
begin

lemma enc_inject:
  "ok x \<Longrightarrow> ok y \<Longrightarrow> enc x = enc y \<Longrightarrow> inj_on img (Collect ok) \<Longrightarrow> x = y"
  by (metis dec_enc inj_on_def mem_Collect_eq)

end

subsection \<open>Hexadecimal\<close>

text \<open>\<open>Buffer.from(s, 'hex')\<close> stops at the first pair that is not two hexadecimal digits.\<close>

fun hex_decode :: "string \<Rightarrow> buffer" where
  "hex_decode (a # b # s) =
     (case (hex_val a, hex_val b) of
        (Some x, Some y) \<Rightarrow> byte_of (16 * x + y) # hex_decode s
      | _ \<Rightarrow> [])"
| "hex_decode _ = []"

definition hex_byte :: "byte \<Rightarrow> string" where
  "hex_byte b = [digit_char (uint b div 16), digit_char (uint b mod 16)]"

definition hex_encode :: "buffer \<Rightarrow> string" where
  "hex_encode bs = concat (map hex_byte bs)"

lemma hex_encode_simps [simp]:
  "hex_encode [] = []"
  "hex_encode (b # bs) = hex_byte b @ hex_encode bs"
  by (simp_all add: hex_encode_def)

lemma hex_encode_append: "hex_encode (as @ bs) = hex_encode as @ hex_encode bs"
  by (simp add: hex_encode_def)

lemma length_hex_encode [simp]: "length (hex_encode bs) = 2 * length bs"
  by (induction bs) (auto simp: hex_byte_def)

lemma hex_nibbles:
  "hex_val (digit_char (uint (b::byte) div 16)) = Some (uint b div 16)"
  "hex_val (digit_char (uint b mod 16)) = Some (uint b mod 16)"
  using uint_byte_bound [of b]
  by (auto intro!: hex_val_digit_char simp: pos_imp_zdiv_nonneg_iff)

lemma is_hex_hex_encode: "list_all is_hex (hex_encode bs)"
  using hex_nibbles by (induction bs) (auto simp: hex_byte_def is_hex_def)

lemma hex_decode_encode_append: "hex_decode (hex_encode bs @ s) = bs @ hex_decode s"
proof (induction bs)
  case (Cons b bs)
  have "16 * (uint b div 16) + uint b mod 16 = uint b" by simp
  then show ?case using Cons by (simp add: hex_byte_def hex_nibbles)
qed simp

lemma hex_decode_encode [simp]: "hex_decode (hex_encode bs) = bs"
  using hex_decode_encode_append [of bs "[]"] by simp

interpretation hex: text_codec hex_encode hex_decode "\<lambda>bs. bs" "\<lambda>_. True"
  by unfold_locales simp

lemma hex_encode_inject: "hex_encode as = hex_encode bs \<longleftrightarrow> as = bs"
  using hex.enc_inject [of as bs] by auto

lemma hex_val_bound: "hex_val c = Some x \<Longrightarrow> 0 \<le> x \<and> x < 16"
  by (auto simp: hex_val_def Let_def split: if_splits)

text \<open>Decoding a whole string of digit pairs loses only the case of the digits.\<close>

lemma length_hex_decode:
  "list_all is_hex s \<Longrightarrow> even (length s) \<Longrightarrow> length (hex_decode s) = length s div 2"
  by (induction s rule: hex_decode.induct) (auto simp: is_hex_def)

lemma hex_decode_bound: "length (hex_decode s) \<le> length s div 2"
  by (induction s rule: hex_decode.induct) (auto split: option.splits)

subsection \<open>Base64\<close>

definition b64_char :: "int \<Rightarrow> char" where
  "b64_char v = char_of (if v < 26 then 65 + v else if v < 52 then 71 + v
                         else if v < 62 then v - 4 else if v = 62 then 43 else 47)"

text \<open>\<open>Buffer.from(s, 'base64')\<close> also takes the URL alphabet and skips foreign characters.\<close>

definition b64_val :: "char \<Rightarrow> int option" where
  "b64_val c = (let n = char_code c in
     if 65 \<le> n \<and> n \<le> 90 then Some (n - 65)
     else if 97 \<le> n \<and> n \<le> 122 then Some (n - 71)
     else if 48 \<le> n \<and> n \<le> 57 then Some (n + 4)
     else if n = 43 \<or> n = 45 then Some 62
     else if n = 47 \<or> n = 95 then Some 63
     else None)"

fun b64_encode :: "buffer \<Rightarrow> string" where
  "b64_encode [] = []"
| "b64_encode [a] =
     [b64_char (uint a div 4), b64_char (uint a mod 4 * 16), CHR ''='', CHR ''='']"
| "b64_encode [a, b] =
     [b64_char (uint a div 4), b64_char (uint a mod 4 * 16 + uint b div 16),
      b64_char (uint b mod 16 * 4), CHR ''='']"
| "b64_encode (a # b # c # bs) =
     [b64_char (uint a div 4), b64_char (uint a mod 4 * 16 + uint b div 16),
      b64_char (uint b mod 16 * 4 + uint c div 64), b64_char (uint c mod 64)] @ b64_encode bs"

fun sextets :: "int list \<Rightarrow> buffer" where
  "sextets (w # x # y # z # vs) =
     byte_of (w * 4 + x div 16) # byte_of (x mod 16 * 16 + y div 4) #
     byte_of (y mod 4 * 64 + z) # sextets vs"
| "sextets [w, x, y] = [byte_of (w * 4 + x div 16), byte_of (x mod 16 * 16 + y div 4)]"
| "sextets [w, x] = [byte_of (w * 4 + x div 16)]"
| "sextets _ = []"

definition b64_decode :: "string \<Rightarrow> buffer" where
  "b64_decode s = sextets (List.map_filter b64_val s)"

lemma b64_val_char:
  assumes "0 \<le> v" "v < 64"
  shows "b64_val (b64_char v) = Some v"
proof -
  let ?n = "if v < 26 then 65 + v else if v < 52 then 71 + v
            else if v < 62 then v - 4 else if v = 62 then 43 else 47"
  have "0 \<le> ?n" "?n < 256" using assms by auto
  then have "char_code (b64_char v) = ?n"
    by (simp only: char_code_def b64_char_def of_char_of) simp
  then show ?thesis using assms by (auto simp: b64_val_def Let_def)
qed

lemma b64_val_pad [simp]: "b64_val (CHR ''='') = None"
  by (simp add: b64_val_def char_code_def)

lemma sextet_bounds:
  "0 \<le> uint (a::byte) div 4" "uint a div 4 < 64"
  "0 \<le> uint a mod 4 * 16" "uint a mod 4 * 16 < 64"
  "0 \<le> uint a mod 4 * 16 + uint (b::byte) div 16" "uint a mod 4 * 16 + uint b div 16 < 64"
  "0 \<le> uint a mod 16 * 4" "uint a mod 16 * 4 < 64"
  "0 \<le> uint a mod 16 * 4 + uint b div 64" "uint a mod 16 * 4 + uint b div 64 < 64"
  "0 \<le> uint a mod 64" "uint a mod 64 < 64"
proof -
  have a: "0 \<le> uint a" "uint a < 256" and b: "0 \<le> uint b" "uint b < 256"
    using uint_byte_bound by auto
  have q: "uint b div 16 < 16" "0 \<le> uint b div 16" "uint b div 64 < 4" "0 \<le> uint b div 64"
    using b by (auto simp: pos_imp_zdiv_nonneg_iff)
  have r: "uint a mod 4 < 4" "0 \<le> uint a mod 4" "uint a mod 16 < 16" "0 \<le> uint a mod 16"
    by auto
  show "0 \<le> uint a div 4" "uint a div 4 < 64" using a by (auto simp: pos_imp_zdiv_nonneg_iff)
  show "0 \<le> uint a mod 4 * 16" "uint a mod 4 * 16 < 64"
    "0 \<le> uint a mod 4 * 16 + uint b div 16" "uint a mod 4 * 16 + uint b div 16 < 64"
    "0 \<le> uint a mod 16 * 4" "uint a mod 16 * 4 < 64"
    "0 \<le> uint a mod 16 * 4 + uint b div 64" "uint a mod 16 * 4 + uint b div 64 < 64"
    "0 \<le> uint a mod 64" "uint a mod 64 < 64"
    using q r by linarith+
qed

lemma div_mod_join:
  fixes a q r :: int
  assumes "0 \<le> r" "r < q"
  shows "(a * q + r) div q = a" "(a * q + r) mod q = r"
  using assms by simp_all

lemma sextets_join:
  "uint (a::byte) div 4 * 4 + uint a mod 4 * 16 div 16 = uint a"
  "uint a div 4 * 4 + (uint a mod 4 * 16 + uint (b::byte) div 16) div 16 = uint a"
  "(uint a mod 4 * 16 + uint b div 16) mod 16 * 16 + uint b mod 16 * 4 div 4 = uint b"
  "(uint a mod 4 * 16 + uint b div 16) mod 16 * 16 + (uint b mod 16 * 4 + uint (c::byte) div 64) div 4
     = uint b"
  "(uint b mod 16 * 4 + uint c div 64) mod 4 * 64 + uint c mod 64 = uint c"
proof -
  have "0 \<le> uint b" "uint b < 256" "0 \<le> uint c" "uint c < 256"
    using uint_byte_bound by auto
  then have q: "0 \<le> uint b div 16" "uint b div 16 < 16" "0 \<le> uint c div 64" "uint c div 64 < 4"
    by (auto simp: pos_imp_zdiv_nonneg_iff)
  note j = div_mod_join [OF q(1,2)] div_mod_join [OF q(3,4)]
  show "uint a div 4 * 4 + uint a mod 4 * 16 div 16 = uint a" by simp
  show "uint a div 4 * 4 + (uint a mod 4 * 16 + uint b div 16) div 16 = uint a"
    by (simp only: j) simp
  show "(uint a mod 4 * 16 + uint b div 16) mod 16 * 16 + uint b mod 16 * 4 div 4 = uint b"
    by (simp only: j) simp
  show "(uint a mod 4 * 16 + uint b div 16) mod 16 * 16
      + (uint b mod 16 * 4 + uint c div 64) div 4 = uint b"
    by (simp only: j) simp
  show "(uint b mod 16 * 4 + uint c div 64) mod 4 * 64 + uint c mod 64 = uint c"
    by (simp only: j) simp
qed

lemma map_filter_b64 [simp]:
  "List.map_filter b64_val [] = []"
  "0 \<le> v \<Longrightarrow> v < 64 \<Longrightarrow> List.map_filter b64_val (b64_char v # s) = v # List.map_filter b64_val s"
  "List.map_filter b64_val (CHR ''='' # s) = List.map_filter b64_val s"
  by (simp_all add: List.map_filter_def b64_val_char)

lemma b64_decode_encode [simp]: "b64_decode (b64_encode bs) = bs"
proof (induction bs rule: b64_encode.induct)
  case 1
  show ?case by (simp add: b64_decode_def)
next
  case (2 a)
  show ?case
    by (simp only: b64_decode_def b64_encode.simps map_filter_b64 sextet_bounds sextets.simps
        sextets_join byte_of_uint)
next
  case (3 a b)
  show ?case
    by (simp only: b64_decode_def b64_encode.simps map_filter_b64 sextet_bounds sextets.simps
        sextets_join byte_of_uint)
next
  case (4 a b c bs)
  then show ?case
    by (simp only: b64_decode_def b64_encode.simps append.simps map_filter_b64 sextet_bounds
        sextets.simps sextets_join byte_of_uint)
qed

interpretation b64: text_codec b64_encode b64_decode "\<lambda>bs. bs" "\<lambda>_. True"
  by unfold_locales simp

subsection \<open>Text\<close>

text \<open>\<open>Buffer.from(s, 'utf8')\<close> and \<open>toString('utf8')\<close> on the bytes a string is.\<close>

definition utf8 :: "string \<Rightarrow> buffer" where
  "utf8 s = map (\<lambda>c. byte_of (char_code c)) s"

definition of_utf8 :: "buffer \<Rightarrow> string" where
  "of_utf8 bs = map (\<lambda>b. char_of (uint b)) bs"

lemma char_code_bound: "0 \<le> char_code c \<and> char_code c < 256"
proof -
  have "char_code c = char_code c mod 256"
    by (simp add: char_code_def)
  then show ?thesis
    using pos_mod_bound [of 256 "char_code c"] pos_mod_sign [of 256 "char_code c"] by linarith
qed

lemma of_utf8_utf8 [simp]: "of_utf8 (utf8 s) = s"
proof -
  have "char_of (uint (byte_of (char_code c))) = c" for c
    using char_code_bound [of c] by (simp add: uint_byte_of) (simp add: char_code_def)
  then show ?thesis by (induction s) (auto simp: utf8_def of_utf8_def)
qed

end
