(* ===== verification/JsNum.thy ===== *)
theory JsNum
  imports Prelude
begin

text \<open>
  The JavaScript \<open>Number\<close> operations the backend computes amounts with. A finite double is the
  rational number it denotes; \<open>fl\<close> rounds a rational to the nearest double (ties to even), so
  that \<open>a * b\<close> of the source is \<open>fl (a * b)\<close>. \<open>NaN\<close> is \<open>None\<close> where a parse may give it.
  Subnormal numbers and overflow to infinity lie outside the model: amounts are at least one
  satoshi and at most some \<open>10 ^ 26\<close> wei.
\<close>

section \<open>Rounding to doubles\<close>

function bitlen :: "int \<Rightarrow> int" where
  "bitlen n = (if n \<le> 0 then 0 else 1 + bitlen (n div 2))"
  by pat_completeness auto
termination by (relation "measure nat") auto

declare bitlen.simps [simp del]

text \<open>Division of \<open>a\<close> by \<open>b > 0\<close> rounded to the nearest integer, ties to even.\<close>

definition div_half_even :: "int \<Rightarrow> int \<Rightarrow> int" where
  "div_half_even a b = (let q = a div b; r = a mod b in
     if 2 * r < b \<or> (2 * r = b \<and> even q) then q else q + 1)"

text \<open>\<open>n / d\<close> divided by \<open>2 ^ e\<close>, as a fraction of integers.\<close>

definition scaled :: "int \<Rightarrow> int \<Rightarrow> int \<Rightarrow> int \<times> int" where
  "scaled n d e = (if e \<ge> 0 then (n, d * 2 ^ nat e) else (n * 2 ^ nat (- e), d))"

definition pow2 :: "int \<Rightarrow> rat" where
  "pow2 e = (if e \<ge> 0 then of_int (2 ^ nat e) else 1 / of_int (2 ^ nat (- e)))"

definition fl_exp :: "int \<Rightarrow> int \<Rightarrow> int" where
  "fl_exp n d = (let e0 = bitlen n - bitlen d - 53; (a, b) = scaled n d e0 in
     if a \<ge> b * 2 ^ 53 then e0 + 1 else e0)"

definition fl_pos :: "int \<Rightarrow> int \<Rightarrow> rat" where
  "fl_pos n d = (let e = fl_exp n d; (a, b) = scaled n d e in
     of_int (div_half_even a b) * pow2 e)"

definition fl :: "rat \<Rightarrow> rat" where
  "fl q = (case quotient_of q of (n, d) \<Rightarrow>
     if n = 0 then 0 else if n > 0 then fl_pos n d else - fl_pos (- n) d)"

definition mul :: "rat \<Rightarrow> rat \<Rightarrow> rat" where "mul x y = fl (x * y)"
definition dvd_js :: "rat \<Rightarrow> rat \<Rightarrow> rat" where "dvd_js x y = fl (x / y)"

text \<open>\<open>Number(b)\<close> of a \<open>bigint\<close>, \<open>Math.round\<close>.\<close>

definition number_of_big :: "int \<Rightarrow> rat" where "number_of_big n = fl (of_int n)"
definition math_round :: "rat \<Rightarrow> int" where "math_round x = \<lfloor>x + 1 / 2\<rfloor>"

section \<open>Parsing numbers\<close>

fun take_digits :: "int \<Rightarrow> nat \<Rightarrow> string \<Rightarrow> int \<times> nat \<times> string" where
  "take_digits acc k [] = (acc, k, [])"
| "take_digits acc k (c # s) =
     (case digit_val 10 c of
        None \<Rightarrow> (acc, k, c # s)
      | Some d \<Rightarrow> take_digits (acc * 10 + d) (Suc k) s)"

definition take_sign :: "string \<Rightarrow> int \<times> string" where
  "take_sign s = (case s of
     [] \<Rightarrow> (1, [])
   | c # t \<Rightarrow> if c = CHR ''-'' then (-1, t) else if c = CHR ''+'' then (1, t) else (1, s))"

text \<open>An exponent part \<open>e[+-]digits\<close>; anything else is left in the rest.\<close>

definition take_exponent :: "string \<Rightarrow> int \<times> string" where
  "take_exponent s = (case s of
     [] \<Rightarrow> (0, [])
   | c # t \<Rightarrow>
       if c = CHR ''e'' \<or> c = CHR ''E'' then
         (case take_sign t of (sg, u) \<Rightarrow>
            (case take_digits 0 0 u of (x, k, v) \<Rightarrow> if k = 0 then (0, s) else (sg * x, v)))
       else (0, s))"

definition pow10 :: "int \<Rightarrow> rat" where
  "pow10 e = (if e \<ge> 0 then of_int (10 ^ nat e) else 1 / of_int (10 ^ nat (- e)))"

text \<open>The longest prefix that is a decimal literal, with its exact value, and the rest.\<close>

definition decimal_prefix :: "string \<Rightarrow> (rat \<times> string) option" where
  "decimal_prefix s0 = (case take_sign s0 of (sg, s) \<Rightarrow>
     (case take_digits 0 0 s of (i, ik, s1) \<Rightarrow>
     (case (if starts_with s1 ''.'' then take_digits i 0 (tl s1) else (i, 0, s1)) of (m, fk, s2) \<Rightarrow>
       if ik + fk = 0 then None
       else (case take_exponent s2 of (e, s3) \<Rightarrow>
         Some (of_int (sg * m) * pow10 (e - int fk), s3)))))"

definition parseFloat :: "string \<Rightarrow> rat option" where
  "parseFloat s = map_option (\<lambda>(v, _). fl v) (decimal_prefix (dropWhile is_space s))"

text \<open>\<open>parseInt(s, 10)\<close>.\<close>

definition parseInt :: "string \<Rightarrow> int option" where
  "parseInt s0 = (case take_sign (dropWhile is_space s0) of (sg, s) \<Rightarrow>
     (case take_digits 0 0 s of (i, k, _) \<Rightarrow> if k = 0 then None else Some (sg * i)))"

text \<open>\<open>Number(s)\<close> of a string: the whole trimmed string must be a literal; empty is 0.\<close>

definition number_of_string :: "string \<Rightarrow> rat option" where
  "number_of_string s0 = (let s = trim s0 in
     if s = [] then Some 0
     else if starts_with s ''0x'' \<or> starts_with s ''0X'' then
       map_option (\<lambda>n. fl (of_int n)) (of_base 16 (drop 2 s))
     else (case decimal_prefix s of Some (v, []) \<Rightarrow> Some (fl v) | _ \<Rightarrow> None))"

section \<open>Printing numbers\<close>

text \<open>
  \<open>Number.prototype.toString\<close>: the shortest decimal digits that read back as the same double,
  laid out by the position \<open>n\<close> of the decimal point (\<open>10 ^ (n - 1) \<le> x < 10 ^ n\<close>).
\<close>

function lead_zeros :: "int \<Rightarrow> int \<Rightarrow> int" where
  "lead_zeros a b = (if a \<le> 0 \<or> b \<le> 10 * a then 0 else 1 + lead_zeros (10 * a) b)"
  by pat_completeness auto
termination by (relation "measure (\<lambda>(a, b). nat (b - a))") auto

declare lead_zeros.simps [simp del]

definition point_pos :: "int \<Rightarrow> int \<Rightarrow> int" where
  "point_pos a b = (if b \<le> a then int (length (to_base 10 (a div b))) else - lead_zeros a b)"

definition digits_at :: "int \<Rightarrow> int \<Rightarrow> int \<Rightarrow> int \<Rightarrow> int" where
  "digits_at a b n k = (if n \<ge> k then div_half_even a (b * 10 ^ nat (n - k))
                        else div_half_even (a * 10 ^ nat (k - n)) b)"

fun shortest :: "rat \<Rightarrow> int \<Rightarrow> int \<Rightarrow> int \<Rightarrow> int list \<Rightarrow> int \<times> int" where
  "shortest x a b n [] = (digits_at a b n 17, 17)"
| "shortest x a b n (k # ks) = (let s = digits_at a b n k in
     if fl (of_int s * pow10 (n - k)) = x then (s, k) else shortest x a b n ks)"

definition exp_part :: "int \<Rightarrow> string" where
  "exp_part e = (if e < 0 then ''e-'' @ to_base 10 (- e) else ''e+'' @ to_base 10 e)"

definition lay_out :: "string \<Rightarrow> int \<Rightarrow> string" where
  "lay_out ds n = (let k = int (length ds) in
     if k \<le> n \<and> n \<le> 21 then ds @ replicate (nat (n - k)) (CHR ''0'')
     else if 0 < n \<and> n \<le> 21 then take (nat n) ds @ ''.'' @ drop (nat n) ds
     else if -6 < n \<and> n \<le> 0 then ''0.'' @ replicate (nat (- n)) (CHR ''0'') @ ds
     else if k = 1 then ds @ exp_part (n - 1)
     else take 1 ds @ ''.'' @ drop 1 ds @ exp_part (n - 1))"

definition num_str_pos :: "rat \<Rightarrow> string" where
  "num_str_pos x = (case quotient_of x of (a, b) \<Rightarrow>
     let n = point_pos a b in
     case shortest x a b n [1..17] of (s, k) \<Rightarrow> lay_out (to_base 10 s) n)"

definition num_str :: "rat \<Rightarrow> string" where
  "num_str x = (if x = 0 then ''0'' else if x < 0 then CHR ''-'' # num_str_pos (- x)
                else num_str_pos x)"

section \<open>Integers that are doubles\<close>

lemma bitlen_le: "n < 2 ^ k \<Longrightarrow> bitlen n \<le> int k"
proof (induction k arbitrary: n)
  case 0
  then show ?case by (simp add: bitlen.simps)
next
  case (Suc k)
  show ?case
  proof (cases "n \<le> 0")
    case True
    then show ?thesis by (simp add: bitlen.simps)
  next
    case False
    have "n div 2 < 2 ^ k" using Suc.prems by auto
    then have "bitlen (n div 2) \<le> int k" by (rule Suc.IH)
    then show ?thesis using False by (subst bitlen.simps) simp
  qed
qed

lemma bitlen_shift: "0 < m \<Longrightarrow> bitlen (m * 2 ^ j) = bitlen m + int j"
proof (induction j)
  case (Suc j)
  have "0 < m * 2 ^ j" using Suc.prems by simp
  then have "bitlen (m * 2 ^ Suc j) = 1 + bitlen (m * 2 ^ Suc j div 2)"
    by (subst bitlen.simps) auto
  also have "m * 2 ^ Suc j div 2 = m * 2 ^ j" by simp
  finally show ?case using Suc by simp
qed simp

lemma bitlen_1 [simp]: "bitlen 1 = 1"
  by (simp add: bitlen.simps)

lemma div_half_even_exact: "b \<noteq> 0 \<Longrightarrow> 0 < b \<Longrightarrow> div_half_even (q * b) b = q"
  by (simp add: div_half_even_def)

text \<open>An integer \<open>m * 2 ^ j\<close> whose factor \<open>m\<close> fits in 53 bits is not rounded.\<close>

lemma fl_pos_exact:
  assumes m: "0 < m" "m < 2 ^ 53"
  shows "fl_pos (m * 2 ^ j) 1 = of_int (m * 2 ^ j)"
proof -
  let ?n = "m * 2 ^ j" and ?e = "fl_exp (m * 2 ^ j) 1"
  have "bitlen ?n \<le> 53 + int j"
    using bitlen_le [OF m(2)] bitlen_shift [OF m(1), of j] by simp
  then have e: "?e \<le> int j"
    by (auto simp: fl_exp_def Let_def split: prod.splits)
  show ?thesis
  proof (cases "?e \<ge> 0")
    case True
    have "?n = (m * 2 ^ (j - nat ?e)) * 2 ^ nat ?e"
      using e True by (simp flip: power_add)
    then have "div_half_even ?n (2 ^ nat ?e) = m * 2 ^ (j - nat ?e)"
      by (metis div_half_even_exact zero_less_numeral zero_less_power less_irrefl)
    moreover have "(2::rat) ^ (j - nat ?e) * 2 ^ nat ?e = 2 ^ j"
      using e True by (simp flip: power_add)
    ultimately show ?thesis using True
      by (simp add: fl_pos_def scaled_def pow2_def Let_def mult.assoc)
  next
    case False
    have "div_half_even (?n * 2 ^ nat (- ?e)) 1 = ?n * 2 ^ nat (- ?e)"
      by (simp add: div_half_even_def)
    then show ?thesis using False
      by (simp add: fl_pos_def scaled_def pow2_def Let_def)
  qed
qed

lemma fl_exact: "0 \<le> m \<Longrightarrow> m < 2 ^ 53 \<Longrightarrow> fl (of_int (m * 2 ^ j)) = of_int (m * 2 ^ j)"
proof (cases "m = 0")
  case True
  then show ?thesis by (simp add: fl_def)
next
  case False
  assume "0 \<le> m" "m < 2 ^ 53"
  moreover have "quotient_of (of_int (m * 2 ^ j)) = (m * 2 ^ j, 1)"
    by (rule quotient_of_rat_of_int)
  ultimately show ?thesis using False fl_pos_exact [of m j]
    by (simp only: fl_def prod.case) (auto simp: zero_less_mult_iff)
qed

lemma fl_int: "0 \<le> n \<Longrightarrow> n < 2 ^ 53 \<Longrightarrow> fl (of_int n) = of_int n"
  using fl_exact [of n 0] by simp

section \<open>Fractions of one\<close>

lemma bitlen_nonneg: "0 \<le> bitlen n"
proof (induction n rule: bitlen.induct)
  case (1 n)
  then show ?case by (subst bitlen.simps) simp
qed

lemma bitlen_mono: "n \<le> m \<Longrightarrow> bitlen n \<le> bitlen m"
proof (induction m arbitrary: n rule: bitlen.induct)
  case (1 m)
  show ?case
  proof (cases "n \<le> 0")
    case True
    then show ?thesis using bitlen_nonneg by (simp add: bitlen.simps [of n])
  next
    case False
    then have "\<not> m \<le> 0" using "1.prems" by simp
    moreover have "n div 2 \<le> m div 2" using "1.prems" by (rule zdiv_mono1) simp
    ultimately have "bitlen (n div 2) \<le> bitlen (m div 2)" by (rule "1.IH")
    then show ?thesis using False \<open>\<not> m \<le> 0\<close> by (simp add: bitlen.simps [of n] bitlen.simps [of m])
  qed
qed

lemma div_half_even_bounds: "0 \<le> a \<Longrightarrow> 0 < b \<Longrightarrow> 0 \<le> div_half_even a b \<and> div_half_even a b * b \<le> a + b"
proof -
  assume h: "0 \<le> a" "0 < b"
  have "a div b * b \<le> a" "0 \<le> a div b" using h by (simp_all add: pos_imp_zdiv_nonneg_iff) (metis mult.commute mult_div_mod_eq h(2) pos_mod_sign le_add_same_cancel1)
  then show ?thesis using h by (auto simp: div_half_even_def Let_def distrib_right intro: order_trans)
qed

lemma fl_pos_le:
  assumes "0 < n" "n \<le> d"
  shows "0 \<le> fl_pos n d \<and> fl_pos n d \<le> of_int n / of_int d + 1 / 2 ^ 52"
proof -
  let ?e = "fl_exp n d"
  have "bitlen n - bitlen d - 53 \<le> - 53" using bitlen_mono [OF assms(2)] by simp
  then have e: "?e \<le> - 52" by (auto simp: fl_exp_def Let_def split: prod.splits)
  let ?k = "nat (- ?e)" and ?q = "div_half_even (n * 2 ^ nat (- ?e)) d"
  have q: "0 \<le> ?q" "?q * d \<le> n * 2 ^ ?k + d"
    using div_half_even_bounds [of "n * 2 ^ ?k" d] assms by auto
  have f: "fl_pos n d = of_int ?q / 2 ^ ?k"
    using e by (simp add: fl_pos_def scaled_def pow2_def Let_def)
  have d: "(0::rat) < of_int d" using assms by simp
  have "(of_int (?q * d) :: rat) \<le> of_int (n * 2 ^ ?k + d)" using q(2) by (simp only: of_int_le_iff)
  then have "(of_int ?q :: rat) \<le> of_int n / of_int d * 2 ^ ?k + 1"
    using d by (simp add: field_simps)
  then have "fl_pos n d \<le> of_int n / of_int d + 1 / 2 ^ ?k"
    unfolding f by (simp add: field_simps)
  moreover have "(1::rat) / 2 ^ ?k \<le> 1 / 2 ^ 52"
  proof -
    have "52 \<le> ?k" using e by simp
    then have "(2::rat) ^ 52 \<le> 2 ^ ?k" by (rule power_increasing) simp
    then show ?thesis by (simp only: frac_le zero_le_one zero_less_power zero_less_numeral order.refl)
  qed
  moreover have "0 \<le> fl_pos n d" using q(1) f by simp
  ultimately show ?thesis by (simp only: order_trans [OF _ add_left_mono])
qed

text \<open>Below one, rounding adds at most \<open>2 ^ -52\<close>.\<close>

lemma fl_fraction:
  assumes "0 \<le> x" "x \<le> 1"
  shows "0 \<le> fl x \<and> fl x \<le> x + 1 / 2 ^ 52"
proof -
  obtain n d where q: "quotient_of x = (n, d)" by fastforce
  have d: "0 < d" and x: "x = of_int n / of_int d"
    using q quotient_of_denom_pos quotient_of_div by blast+
  have "0 \<le> n" using assms(1) d x by (simp add: zero_le_divide_iff)
  moreover have "n \<le> d" using assms(2) d x by (simp add: divide_le_eq)
  ultimately show ?thesis using fl_pos_le [of n d] q x
    by (cases "n = 0") (auto simp: fl_def)
qed

section \<open>The rounding error\<close>

lemma bitlen_lower: "0 < n \<Longrightarrow> 2 ^ nat (bitlen n - 1) \<le> n"
proof (induction n rule: bitlen.induct)
  case (1 n)
  show ?case
  proof (cases "n = 1")
    case False
    then have h: "0 < n div 2" "bitlen n = 1 + bitlen (n div 2)" using "1.prems" by (auto simp: bitlen.simps [of n])
    have "0 < bitlen (n div 2)" using h(1) bitlen_nonneg [of "n div 2 div 2"] by (simp add: bitlen.simps [of "n div 2"])
    then have "(2 :: int) ^ nat (bitlen n - 1) = 2 * 2 ^ nat (bitlen (n div 2) - 1)"
      using h(2) by (simp add: nat_diff_distrib flip: power_Suc)
    also have "\<dots> \<le> 2 * (n div 2)" using "1.IH" h(1) "1.prems" by simp
    finally show ?thesis by simp
  qed simp
qed

lemma bitlen_upper: "n < 2 ^ nat (bitlen n)"
proof (induction n rule: bitlen.induct)
  case (1 n)
  show ?case
  proof (cases "n \<le> 0")
    case True
    then show ?thesis by (simp add: bitlen.simps)
  next
    case False
    have "n < 2 * (n div 2 + 1)" by simp
    also have "\<dots> \<le> 2 * 2 ^ nat (bitlen (n div 2))" using "1.IH" False by simp
    also have "\<dots> = 2 ^ nat (bitlen n)"
      using False bitlen_nonneg [of "n div 2"] by (simp add: bitlen.simps [of n] nat_add_distrib flip: power_Suc)
    finally show ?thesis .
  qed
qed

lemma pow2_powi: "pow2 e = 2 powi e"
  by (simp add: pow2_def power_int_def power_one_over)

lemma scaled_quotient:
  assumes "scaled n d e = (a, b)" "0 < d"
  shows "0 < b \<and> (of_int a / of_int b :: rat) = of_int n / of_int d / pow2 e"
  using assms by (auto simp: scaled_def pow2_def split: if_splits)

lemma div_half_even_near:
  assumes "0 < b"
  shows "\<bar>of_int (div_half_even a b) - (of_int a / of_int b :: rat)\<bar> \<le> 1 / 2"
proof -
  have "a = b * (a div b) + a mod b" by simp
  then have q: "(of_int a :: rat) = of_int b * of_int (a div b) + of_int (a mod b)"
    by (metis of_int_add of_int_mult)
  have r: "0 \<le> a mod b" "a mod b < b" using assms by auto
  have "2 * (a mod b) \<le> b \<and> div_half_even a b = a div b \<or> b \<le> 2 * (a mod b) \<and> div_half_even a b = a div b + 1"
    by (auto simp: div_half_even_def Let_def)
  then show ?thesis
  proof
    assume h: "2 * (a mod b) \<le> b \<and> div_half_even a b = a div b"
    then have "(2 * of_int (a mod b) :: rat) \<le> of_int b" by (metis of_int_le_iff of_int_mult of_int_numeral)
    then show ?thesis using h q assms r by (auto simp: field_simps abs_le_iff)
  next
    assume h: "b \<le> 2 * (a mod b) \<and> div_half_even a b = a div b + 1"
    then have "(of_int b :: rat) \<le> 2 * of_int (a mod b)" by (metis of_int_le_iff of_int_mult of_int_numeral)
    moreover have "(of_int (a mod b) :: rat) \<le> of_int b" using r by simp
    ultimately show ?thesis using h q assms by (auto simp: field_simps abs_le_iff)
  qed
qed

lemma fl_exp_lower:
  assumes "0 < n" "0 < d"
  shows "2 ^ 52 * pow2 (fl_exp n d) \<le> (of_int n / of_int d :: rat)"
proof -
  let ?e0 = "bitlen n - bitlen d - 53"
  obtain a b where s: "scaled n d ?e0 = (a, b)" by fastforce
  note b = scaled_quotient [OF s assms(2)]
  have "(2 :: rat) ^ nat (bitlen n - 1) \<le> of_int n"
    using bitlen_lower [OF assms(1)] by (metis of_int_le_iff of_int_numeral of_int_power)
  moreover have "(of_int d :: rat) \<le> 2 ^ nat (bitlen d)"
    using bitlen_upper [of d] by (metis less_imp_le of_int_le_iff of_int_numeral of_int_power)
  ultimately have "(2 :: rat) ^ nat (bitlen n - 1) / 2 ^ nat (bitlen d) \<le> of_int n / of_int d"
    using assms by (intro frac_le) auto
  moreover have "1 \<le> bitlen n" using assms(1) bitlen_nonneg [of "n div 2"] by (simp add: bitlen.simps [of n])
  then have "(2 :: rat) ^ nat (bitlen n - 1) = 2 powi (bitlen n - 1)" "(2 :: rat) ^ nat (bitlen d) = 2 powi bitlen d"
    using bitlen_nonneg [of d] by (simp_all add: power_int_def)
  then have "(2 :: rat) ^ nat (bitlen n - 1) / 2 ^ nat (bitlen d) = 2 powi (bitlen n - 1 - bitlen d)"
    using power_int_diff [of "2 :: rat" "bitlen n - 1" "bitlen d"] by (metis zero_neq_numeral)
  moreover have "(2 :: rat) powi (bitlen n - 1 - bitlen d) = 2 ^ 52 * pow2 ?e0"
  proof -
    have "bitlen n - 1 - bitlen d = 52 + ?e0" by simp
    then show ?thesis using power_int_add [of "2 :: rat" 52 ?e0] unfolding pow2_powi
      by (metis power_int_numeral zero_neq_numeral)
  qed
  ultimately have lo: "2 ^ 52 * pow2 ?e0 \<le> (of_int n / of_int d :: rat)" by simp
  show ?thesis
  proof (cases "a \<ge> b * 2 ^ 53")
    case False
    then have "fl_exp n d = ?e0" using s by (simp add: fl_exp_def Let_def)
    then show ?thesis using lo by simp
  next
    case True
    have "(of_int (b * 2 ^ 53) :: rat) \<le> of_int a" using True by (simp only: of_int_le_iff)
    then have "(2 :: rat) ^ 53 \<le> of_int a / of_int b" using conjunct1 [OF b] by (simp add: pos_le_divide_eq mult.commute)
    then have "2 ^ 53 \<le> of_int n / of_int d / pow2 ?e0" using b by simp
    moreover have "0 < pow2 ?e0" by (simp add: pow2_powi)
    ultimately have "2 ^ 53 * pow2 ?e0 \<le> (of_int n / of_int d :: rat)"
      by (simp only: pos_le_divide_eq)
    moreover have "fl_exp n d = ?e0 + 1" using s True by (simp add: fl_exp_def Let_def)
    moreover have "pow2 (?e0 + 1) = pow2 ?e0 * 2"
      unfolding pow2_powi by (rule power_int_add_1) simp
    then have "2 ^ 52 * pow2 (?e0 + 1) = 2 ^ 53 * pow2 ?e0"
      by (simp only: mult.assoc mult.commute power_Suc [of _ 52, simplified]) simp
    ultimately show ?thesis by (simp only:)
  qed
qed

text \<open>Rounding changes a positive number by at most its \<open>2 ^ 53\<close>th part.\<close>

lemma fl_error:
  assumes "0 < x"
  shows "\<bar>fl x - x\<bar> \<le> x / 2 ^ 53"
proof -
  obtain n d where q: "quotient_of x = (n, d)" by fastforce
  have d: "0 < d" and x: "x = of_int n / of_int d"
    using q quotient_of_denom_pos quotient_of_div by blast+
  have n: "0 < n" using assms d x by (simp add: zero_less_divide_iff)
  let ?e = "fl_exp n d"
  obtain a b where s: "scaled n d ?e = (a, b)" by fastforce
  note b = scaled_quotient [OF s d]
  have p: "0 < pow2 ?e" by (simp add: pow2_powi)
  have f: "fl x = of_int (div_half_even a b) * pow2 ?e" using q n s by (simp add: fl_def fl_pos_def Let_def)
  have "x = of_int a / of_int b * pow2 ?e" using b x p by simp
  then have "fl x - x = (of_int (div_half_even a b) - of_int a / of_int b) * pow2 ?e"
    unfolding f by (simp add: left_diff_distrib)
  then have "\<bar>fl x - x\<bar> \<le> 1 / 2 * pow2 ?e"
    using div_half_even_near [of b a] b p by (simp add: abs_mult mult_right_mono)
  moreover have "2 ^ 52 * pow2 ?e \<le> x" using fl_exp_lower [OF n d] x by simp
  ultimately show ?thesis by simp
qed

section \<open>Printed integers are read back\<close>

lemma take_digits_of_base:
  "of_base_acc 10 acc s = Some z \<Longrightarrow> take_digits acc k s = (z, k + length s, [])"
  by (induction s arbitrary: acc k) (auto split: option.splits)

lemma take_sign_digits:
  assumes "0 \<le> n"
  shows "take_sign (to_base 10 n) = (1, to_base 10 n)"
proof -
  obtain c s where s: "to_base 10 n = c # s" by (cases "to_base 10 n") auto
  then have "hex_val c \<noteq> None" using char_code_in_to_base [of 10 n c] assms by simp
  moreover have "hex_val (CHR ''-'') = None" "hex_val (CHR ''+'') = None" by (code_simp, code_simp)
  ultimately show ?thesis using s by (auto simp: take_sign_def)
qed

lemma take_digits_to_base: "0 \<le> n \<Longrightarrow> \<exists>k. take_digits 0 0 (to_base 10 n) = (n, Suc k, [])"
proof -
  assume "0 \<le> n"
  then have "of_base_acc 10 0 (to_base 10 n) = Some n"
    using of_base_to_base [of 10 n] by (simp add: of_base_def)
  then have "take_digits 0 0 (to_base 10 n) = (n, 0 + length (to_base 10 n), [])" by (rule take_digits_of_base)
  moreover obtain c s where "to_base 10 n = c # s" by (cases "to_base 10 n") auto
  ultimately show ?thesis by simp
qed

lemma parseInt_str_of_int: "parseInt (str_of_int z) = Some z"
proof (cases "z < 0")
  case False
  have "dropWhile is_space (to_base 10 z) = to_base 10 z"
    using False char_code_in_to_base [of 10 z] by (cases "to_base 10 z") auto
  then show ?thesis using False take_sign_digits [of z] take_digits_to_base [of z]
    by (auto simp: parseInt_def str_of_int_def)
next
  case True
  have "\<not> is_space (CHR ''-'')" by code_simp
  then show ?thesis using True take_digits_to_base [of "- z"]
    by (auto simp: parseInt_def str_of_int_def take_sign_def)
qed

lemma str_of_int_nonempty [simp]: "str_of_int z \<noteq> []"
  by (simp add: str_of_int_def)

end
