(* ===== verification/Crypto.thy ===== *)
theory Crypto
  imports Bytes JsNum
begin

text \<open>
  \<open>backend/src/services/CryptoService.ts\<close>. The hash functions of starknet.js and the cipher and
  key derivation of Node's \<open>crypto\<close> are not part of the repository: they are the fields of
  \<open>crypto_lib\<close>. Random bytes are arguments of the operations that draw them. What the code
  relies on is named: \<open>aead_law\<close> (opening what was sealed returns it; tags have 16 bytes) and
  \<open>pedersen_law\<close> (the hash is a \<open>0x\<close>-prefixed hexadecimal string of at most 64 digits).
\<close>

record crypto_lib =
  pedersen :: "string \<Rightarrow> string \<Rightarrow> string res"
  poseidon :: "string \<Rightarrow> string \<Rightarrow> string res"
  sha256 :: "buffer \<Rightarrow> buffer"
  hkdf :: "buffer \<Rightarrow> buffer \<Rightarrow> buffer"
  gcm_seal :: "buffer \<Rightarrow> buffer \<Rightarrow> buffer \<Rightarrow> buffer \<times> buffer"
  gcm_open :: "buffer \<Rightarrow> buffer \<Rightarrow> buffer \<Rightarrow> buffer \<Rightarrow> buffer res"
  encryption_key :: string

definition aead_law :: "crypto_lib \<Rightarrow> bool" where
  "aead_law cl \<longleftrightarrow> (\<forall>key iv pt. case gcm_seal cl key iv pt of (tag, ct) \<Rightarrow>
     length tag = 16 \<and> gcm_open cl key iv tag ct = Inr pt)"

definition pedersen_law :: "crypto_lib \<Rightarrow> bool" where
  "pedersen_law cl \<longleftrightarrow> (\<forall>a b h. pedersen cl a b = Inr h \<longrightarrow> hex_0x 1 64 h)"

definition prime :: int where
  "prime = 2 ^ 251 + 17 * 2 ^ 192 + 1"

section \<open>Key material\<close>

definition generateSalt :: "buffer \<Rightarrow> string" where
  "generateSalt bytes32 = hex_encode bytes32"

definition generateRandomness :: "buffer \<Rightarrow> string res" where
  "generateRandomness bytes31 =
     bind_res (big_int_res (''0x'' @ hex_encode bytes31)) (\<lambda>bigVal.
       Inr (''0x'' @ pad_start 62 (CHR ''0'') (to_base 16 (bigVal mod prime))))"

section \<open>Encryption\<close>

definition deriveKey :: "crypto_lib \<Rightarrow> string \<Rightarrow> buffer" where
  "deriveKey cl salt = hkdf cl (utf8 (encryption_key cl)) (hex_decode salt)"

definition encryptRandomness :: "crypto_lib \<Rightarrow> buffer \<Rightarrow> string \<Rightarrow> string \<Rightarrow> string" where
  "encryptRandomness cl iv randomness salt =
     (let key = deriveKey cl salt; (authTag, encrypted) = gcm_seal cl key iv (utf8 randomness)
      in b64_encode (iv @ authTag @ encrypted))"

definition decryptRandomness :: "crypto_lib \<Rightarrow> string \<Rightarrow> string \<Rightarrow> string res" where
  "decryptRandomness cl encryptedBase64 salt =
     (let packed = b64_decode encryptedBase64;
          iv = slice 0 12 packed; authTag = slice 12 28 packed; ciphertext = drop 28 packed;
          key = deriveKey cl salt
      in bind_res (gcm_open cl key iv authTag ciphertext) (\<lambda>pt. Inr (of_utf8 pt)))"

definition encryptAmount :: "crypto_lib \<Rightarrow> buffer \<Rightarrow> int \<Rightarrow> string \<Rightarrow> string" where
  "encryptAmount cl iv amountSats salt =
     (let key = deriveKey cl salt; plaintext = str_of_int amountSats;
          (authTag, encrypted) = gcm_seal cl key iv (utf8 plaintext)
      in b64_encode (iv @ authTag @ encrypted))"

definition decryptAmount :: "crypto_lib \<Rightarrow> string \<Rightarrow> string \<Rightarrow> int res" where
  "decryptAmount cl encryptedBase64 salt =
     (let packed = b64_decode encryptedBase64;
          iv = slice 0 12 packed; authTag = slice 12 28 packed; ciphertext = drop 28 packed;
          key = deriveKey cl salt
      in bind_res (gcm_open cl key iv authTag ciphertext) (\<lambda>pt. big_int_res (of_utf8 pt)))"

section \<open>Field elements, commitments, nullifiers\<close>

definition bounds_error :: exn where
  "bounds_error = Error ''Value exceeds Starknet field prime (felt252 bounds)''"

definition big_hex :: "int \<Rightarrow> string" where
  "big_hex z = (if z < 0 then CHR ''-'' # to_base 16 (- z) else to_base 16 z)"

definition validateFelt252 :: "string \<Rightarrow> string res" where
  "validateFelt252 val =
     (let attempt = bind_res (big_int_res val) (\<lambda>bigVal.
        if bigVal < 0 \<or> bigVal \<ge> prime then Inl bounds_error else Inr (big_hex bigVal))
      in case attempt of
           Inr s \<Rightarrow> Inr s
         | Inl e \<Rightarrow> if str_includes (message e) ''bounds'' then Inl e
                    else Inl (Error (''Invalid felt252 format: '' @ val)))"

definition generateCommitment :: "crypto_lib \<Rightarrow> string \<Rightarrow> string \<Rightarrow> string res" where
  "generateCommitment cl amountBTC secret =
     (let amountSats = (case parseFloat amountBTC of
            None \<Rightarrow> ''NaN''
          | Some v \<Rightarrow> num_str (of_int (math_round (mul v (10 ^ 8)))))
      in if parseInt amountSats = None then Inl (Error (''Invalid amount: '' @ amountBTC))
         else pedersen cl amountSats secret)"

definition generateNullifier :: "crypto_lib \<Rightarrow> string \<Rightarrow> string \<Rightarrow> string res" where
  "generateNullifier cl commitmentHash secret = pedersen cl commitmentHash secret"

text \<open>The 32-byte buffer \<open>timingSafeEqual\<close> compares; it throws when the lengths differ.\<close>

definition padded_buffer :: "int \<Rightarrow> buffer" where
  "padded_buffer z = hex_decode (pad_start 64 (CHR ''0'') (big_hex z))"

definition timingSafeEqual :: "buffer \<Rightarrow> buffer \<Rightarrow> bool res" where
  "timingSafeEqual a b = (if length a \<noteq> length b
     then Inl (RangeError ''Input buffers must have the same byte length'') else Inr (a = b))"

definition compare_hashes :: "string res \<Rightarrow> string \<Rightarrow> bool" where
  "compare_hashes computed given =
     (case bind_res computed (\<lambda>expected.
           bind_res (big_int_res expected) (\<lambda>e.
           bind_res (big_int_res given) (\<lambda>g.
             timingSafeEqual (padded_buffer e) (padded_buffer g)))) of
        Inr b \<Rightarrow> b
      | Inl _ \<Rightarrow> False)"

definition verifyCommitment :: "crypto_lib \<Rightarrow> string \<Rightarrow> string \<Rightarrow> string \<Rightarrow> bool" where
  "verifyCommitment cl amount secret commitment =
     compare_hashes (generateCommitment cl amount secret) commitment"

definition verifyNullifier :: "crypto_lib \<Rightarrow> string \<Rightarrow> string \<Rightarrow> string \<Rightarrow> bool" where
  "verifyNullifier cl commitmentHash secret nullifierHash =
     compare_hashes (generateNullifier cl commitmentHash secret) nullifierHash"

definition isValidAddress :: "string \<Rightarrow> bool" where
  "isValidAddress addr = hex_0x 63 66 addr"

section \<open>Lemmas\<close>

lemma slice_packed:
  assumes "length iv = 12" "length tag = 16"
  shows "slice 0 12 (iv @ tag @ ct) = iv" "slice 12 28 (iv @ tag @ ct) = tag"
    "drop 28 (iv @ tag @ ct) = ct"
  using assms by (simp_all add: slice_def)

lemma of_base_acc_hex_encode:
  "of_base_acc 16 acc (hex_encode bs) = Some (acc * 256 ^ length bs + be_uint bs)"
proof (induction bs arbitrary: acc)
  case (Cons b bs)
  have v: "(acc * 16 + uint b div 16) * 16 + uint b mod 16 = acc * 256 + uint b"
    by (simp add: algebra_simps)
  have d: "digit_val 16 (digit_char (uint b div 16)) = Some (uint b div 16)"
    "digit_val 16 (digit_char (uint b mod 16)) = Some (uint b mod 16)"
    using uint_byte_bound [of b] by (auto intro!: digit_val_digit_char simp: pos_imp_zdiv_nonneg_iff)
  have "of_base_acc 16 acc (hex_encode (b # bs)) = of_base_acc 16 (acc * 256 + uint b) (hex_encode bs)"
    by (simp add: hex_byte_def d v) (simp add: algebra_simps)
  also have "\<dots> = Some ((acc * 256 + uint b) * 256 ^ length bs + be_uint bs)"
    by (rule Cons)
  finally show ?case
    by (simp add: be_uint_def le_uint_append algebra_simps)
qed (simp add: be_uint_def)

lemma big_int_hex_encode: "bs \<noteq> [] \<Longrightarrow> big_int (''0x'' @ hex_encode bs) = Some (be_uint bs)"
proof -
  assume "bs \<noteq> []"
  then have "hex_encode bs \<noteq> []" by (cases bs) (auto simp: hex_byte_def)
  then show ?thesis
    using big_int_hex [OF is_hex_hex_encode, of bs] of_base_acc_hex_encode [of 0 bs]
    by (simp add: of_base_def)
qed

lemma be_uint_bound: "0 \<le> be_uint bs \<and> be_uint bs < 256 ^ length bs"
  using le_uint_bound [of "rev bs"] by (simp add: be_uint_def)

lemma digits_acc_append: "2 \<le> b \<Longrightarrow> 0 \<le> n \<Longrightarrow> digits_acc b n acc = digits_acc b n [] @ acc"
proof (induction "nat n" arbitrary: n acc rule: less_induct)
  case less
  show ?case
  proof (cases "n < b")
    case True
    then show ?thesis by (simp add: digits_acc.simps [of b n])
  next
    case False
    have q: "0 \<le> n div b" "\<not> (b < 2 \<or> n < b)"
      using less.prems False by (auto simp: pos_imp_zdiv_nonneg_iff)
    have "n div b < n" using less.prems False by (intro int_div_less_self) auto
    then have IH: "digits_acc b (n div b) x = digits_acc b (n div b) [] @ x" for x
      using less.hyps [of "n div b" x] less.prems q False by simp
    show ?thesis
      using q IH [of "digit_char (n mod b) # acc"] IH [of "[digit_char (n mod b)]"]
      by (simp add: digits_acc.simps [of b n])
  qed
qed

lemma length_to_base: "2 \<le> b \<Longrightarrow> 0 \<le> n \<Longrightarrow> n < b ^ Suc k \<Longrightarrow> length (to_base b n) \<le> Suc k"
proof (induction k arbitrary: n)
  case 0
  then show ?case by (simp add: to_base_def digits_acc.simps)
next
  case (Suc k)
  show ?case
  proof (cases "n < b")
    case True
    then show ?thesis by (simp add: to_base_def digits_acc.simps)
  next
    case False
    have "n div b * b \<le> n"
      using Suc.prems mod_int_pos_iff [of n b] div_mult_mod_eq [of n b] by linarith
    also have "n < b ^ Suc k * b" using Suc.prems(3) by (simp only: power_Suc mult_ac)
    finally have "n div b < b ^ Suc k"
      by (rule mult_right_less_imp_less) (use Suc.prems in simp)
    moreover have "0 \<le> n div b" using Suc.prems by (simp add: pos_imp_zdiv_nonneg_iff)
    ultimately have l: "length (to_base b (n div b)) \<le> Suc k" using Suc by simp
    have "to_base b n = to_base b (n div b) @ [digit_char (n mod b)]"
      using False Suc.prems digits_acc_append [of b "n div b" "[digit_char (n mod b)]"]
      by (simp add: to_base_def digits_acc.simps [of b n] pos_imp_zdiv_nonneg_iff)
    then show ?thesis using l by simp
  qed
qed

text \<open>The compared buffers are the 32 big-endian bytes of the two numbers.\<close>

lemma of_base_acc_hex_decode:
  "list_all is_hex s \<Longrightarrow> even (length s) \<Longrightarrow>
     of_base_acc 16 acc s = Some (acc * 256 ^ (length s div 2) + be_uint (hex_decode s))"
proof (induction s arbitrary: acc rule: hex_decode.induct)
  case (1 a b s)
  obtain x y where xy: "hex_val a = Some x" "hex_val b = Some y"
    using "1.prems" by (auto simp: is_hex_def)
  then have r: "0 \<le> x" "x < 16" "0 \<le> y" "y < 16" using hex_val_bound by blast+
  have u: "uint (byte_of (16 * x + y)) = 16 * x + y" using r by (simp add: uint_byte_of)
  have "length (hex_decode s) = length s div 2"
    using "1.prems" by (intro length_hex_decode) auto
  then show ?case
    using "1.IH" [OF refl xy, of "(acc * 16 + x) * 16 + y"] "1.prems" xy r u
    by (simp add: digit_val_def be_uint_def le_uint_append algebra_simps)
qed (auto simp: be_uint_def)

lemma padded_buffer:
  assumes "0 \<le> z" "z < 2 ^ 256"
  shows "length (padded_buffer z) = 32" "be_uint (padded_buffer z) = z"
proof -
  let ?p = "pad_start 64 (CHR ''0'') (to_base 16 z)"
  have "length (to_base 16 z) \<le> 64" using length_to_base [of 16 z 63] assms by simp
  then have l: "length ?p = 64" by (simp add: length_pad_start)
  have h: "list_all is_hex ?p"
    using assms by (intro list_all_is_hex_pad list_all_is_hex_to_base) auto
  have "of_base 16 ?p = Some z"
    using assms by (intro of_base_pad) (simp add: of_base_to_base)
  then have "of_base_acc 16 0 ?p = Some z" by (simp add: of_base_def split: if_splits)
  then show "length (padded_buffer z) = 32" "be_uint (padded_buffer z) = z"
    using h l of_base_acc_hex_decode [OF h, of 0] length_hex_decode [OF h] assms
    by (simp_all add: padded_buffer_def big_hex_def)
qed

lemma timingSafeEqual_padded:
  assumes "0 \<le> e" "e < 2 ^ 256" "0 \<le> g" "g < 2 ^ 256"
  shows "timingSafeEqual (padded_buffer e) (padded_buffer g) = Inr (e = g)"
proof -
  have l: "length (padded_buffer e) = length (padded_buffer g)"
    using padded_buffer(1) [OF assms(1,2)] padded_buffer(1) [OF assms(3,4)] by (rule trans [OF _ sym])
  have "padded_buffer e = padded_buffer g \<longleftrightarrow> e = g"
    using padded_buffer(2) [OF assms(1,2)] padded_buffer(2) [OF assms(3,4)] by metis
  then show ?thesis using l by (simp only: timingSafeEqual_def simp_thms if_False)
qed

lemma of_base_acc_bound:
  "of_base_acc b acc s = Some z \<Longrightarrow> 2 \<le> b \<Longrightarrow> 0 \<le> acc \<Longrightarrow> acc * b ^ length s \<le> z \<and> z < (acc + 1) * b ^ length s"
proof (induction s arbitrary: acc)
  case (Cons c s)
  then obtain d where d: "digit_val b c = Some d" and z: "of_base_acc b (acc * b + d) s = Some z"
    by (auto split: option.splits)
  have "0 \<le> d" "d < b"
    using d hex_val_bound by (auto simp: digit_val_def split: option.splits if_splits)
  then have "(acc * b + d) * b ^ length s \<le> z \<and> z < (acc * b + d + 1) * b ^ length s"
    using Cons.IH [OF z] Cons.prems by simp
  moreover have "acc * b * b ^ length s \<le> (acc * b + d) * b ^ length s"
    using \<open>0 \<le> d\<close> Cons.prems by (intro mult_right_mono) auto
  moreover have "(acc * b + d + 1) * b ^ length s \<le> (acc * b + b) * b ^ length s"
    using \<open>d < b\<close> Cons.prems by (intro mult_right_mono) auto
  ultimately show ?case by (simp add: algebra_simps)
qed simp

lemma hex_0x_big_int:
  assumes "hex_0x lo hi h" "0 < lo" "hi \<le> 64"
  shows "\<exists>z. big_int h = Some z \<and> 0 \<le> z \<and> z < 2 ^ 256"
proof -
  obtain s where h: "h = ''0x'' @ s" using assms(1) by (auto simp: hex_0x_def starts_with_iff)
  then have s: "list_all is_hex s" "0 < length s" "length s \<le> 64"
    using assms by (auto simp: hex_0x_def)
  have dv: "\<exists>z. of_base_acc 16 acc t = Some z" if "list_all is_hex t" for acc t
    using that
    by (induction t arbitrary: acc)
       (auto simp: is_hex_def digit_val_def dest: hex_val_bound split: option.splits)
  then obtain z where z: "of_base_acc 16 0 s = Some z" using s by blast
  then have b: "0 \<le> z" "z < 16 ^ length s" using of_base_acc_bound [OF z] by auto
  have "(16::int) ^ length s \<le> 16 ^ 64" using s by (intro power_increasing) auto
  then have "z < 2 ^ 256" using b by simp
  moreover have "big_int h = Some z"
    using big_int_hex [OF s(1)] z s(2) by (auto simp: h of_base_def)
  ultimately show ?thesis using b by blast
qed

lemma decrypt_encrypt:
  assumes "aead_law cl" and "length iv = 12"
  shows "decryptAmount cl (encryptAmount cl iv amountSats salt) salt = Inr amountSats"
proof -
  obtain tag ct where s: "gcm_seal cl (deriveKey cl salt) iv (utf8 (str_of_int amountSats)) = (tag, ct)"
    by fastforce
  then have "length tag = 16"
    and "gcm_open cl (deriveKey cl salt) iv tag ct = Inr (utf8 (str_of_int amountSats))"
    using assms(1) unfolding aead_law_def by (auto split: prod.splits)
  then show ?thesis using s assms(2)
    by (simp add: encryptAmount_def decryptAmount_def Let_def slice_packed)
qed

section \<open>Properties\<close>

text \<open>
  C36. Round trip of the amount field: decrypting what \<open>encryptAmount\<close> produced, with the same
  salt, gives the amount back, for every amount, salt and 12-byte IV.
\<close>

theorem decryptAmount_encryptAmount:
  assumes "aead_law cl" and "length iv = 12"
  shows "decryptAmount cl (encryptAmount cl iv amountSats salt) salt = Inr amountSats"
  using assms by (rule decrypt_encrypt)

text \<open>A cipher that satisfies the law: the plaintext behind a constant tag.\<close>

definition demo_lib :: crypto_lib where
  "demo_lib = \<lparr>pedersen = (\<lambda>a b. Inr (''0x'' @ hex_encode (take 15 (utf8 a) @ take 15 (utf8 b)) @ ''0'')),
     poseidon = (\<lambda>a b. Inr (''0x'' @ hex_encode (take 30 (utf8 a)))),
     sha256 = (\<lambda>b. b), hkdf = (\<lambda>k s. k @ s),
     gcm_seal = (\<lambda>k i p. (replicate 16 0, p)), gcm_open = (\<lambda>k i t c. Inr c),
     encryption_key = ''0123456789abcdef0123456789abcdef''\<rparr>"

lemma aead_law_demo: "aead_law demo_lib"
  by (simp add: aead_law_def demo_lib_def)

theorem decryptAmount_encryptAmount_witness:
  "aead_law demo_lib \<and> length (replicate 12 (7::byte)) = 12 \<and>
   decryptAmount demo_lib (encryptAmount demo_lib (replicate 12 7) 10000 ''ab'') ''ab'' = Inr 10000"
proof -
  have l: "length (replicate 12 (7::byte)) = 12" by simp
  show ?thesis
    using aead_law_demo l decryptAmount_encryptAmount [OF aead_law_demo l, of 10000 "''ab''"] by blast
qed

text \<open>
  \<open>validateFelt252\<close> accepts exactly the strings that \<open>BigInt\<close> reads as a number in
  \<open>[0, prime)\<close>, and returns that number in hexadecimal, which reads back as the same number.
\<close>

theorem validateFelt252_iff:
  "validateFelt252 val = Inr s \<longleftrightarrow>
     (\<exists>z. big_int val = Some z \<and> 0 \<le> z \<and> z < prime \<and> s = big_hex z \<and> big_int (''0x'' @ s) = Some z)"
proof -
  have b: "big_int (''0x'' @ big_hex z) = Some z" if "0 \<le> z" for z
    using that by (simp add: big_hex_def big_int_hex list_all_is_hex_to_base of_base_to_base del: append.simps)
  show ?thesis
    using b by (auto simp: validateFelt252_def Let_def big_int_res_def not_le simp del: append.simps
        split: option.splits if_splits)
qed

text \<open>
  The ZK secret drawn by \<open>generateRandomness\<close> is a valid field element: 31 random bytes
  are below the prime, so the reduction never changes them, the text has the promised 62
  digits, and \<open>validateFelt252\<close> accepts it.
\<close>

theorem generateRandomness_valid:
  assumes "length bytes = 31"
  shows "\<exists>r. generateRandomness bytes = Inr r \<and> length r = 64 \<and> big_int r = Some (be_uint bytes)
             \<and> is_ok (validateFelt252 r)"
proof -
  have ne: "bytes \<noteq> []" using assms by auto
  have bound: "0 \<le> be_uint bytes" "be_uint bytes < 256 ^ 31"
    using be_uint_bound [of bytes] assms by auto
  then have p: "be_uint bytes mod prime = be_uint bytes"
    by (simp add: prime_def)
  let ?h = "pad_start 62 (CHR ''0'') (to_base 16 (be_uint bytes))"
  have len: "length (to_base 16 (be_uint bytes)) \<le> 62"
    using length_to_base [of 16 "be_uint bytes" 61] bound by simp
  have hx: "list_all is_hex ?h"
    using list_all_is_hex_to_base [of 16 "be_uint bytes"] bound
    by (intro list_all_is_hex_pad) simp
  have "of_base 16 (to_base 16 (be_uint bytes)) = Some (be_uint bytes)"
    using bound by (simp add: of_base_to_base)
  then have "of_base 16 ?h = Some (be_uint bytes)"
    by (rule of_base_pad)
  then have big: "big_int (''0x'' @ ?h) = Some (be_uint bytes)"
    using big_int_hex [OF hx] by simp
  have gen: "generateRandomness bytes = Inr (''0x'' @ ?h)"
    by (simp add: generateRandomness_def big_int_res_def big_int_hex_encode [OF ne] p
        del: append.simps)
  have "be_uint bytes < prime" using bound by (simp add: prime_def)
  then have "validateFelt252 (''0x'' @ ?h) = Inr (big_hex (be_uint bytes))"
    using big bound
    by (simp add: validateFelt252_def big_int_res_def Let_def del: append.simps)
  then show ?thesis using gen big len
    by (intro exI [of _ "''0x'' @ ?h"]) (simp add: length_pad_start del: append.simps)
qed

theorem generateRandomness_valid_witness:
  "\<exists>r. generateRandomness (replicate 31 255) = Inr r \<and> length r = 64
       \<and> big_int r = Some (be_uint (replicate 31 255)) \<and> is_ok (validateFelt252 r)"
  by (rule generateRandomness_valid) simp

text \<open>
  \<open>verifyCommitment\<close> says yes exactly when recomputing the commitment succeeds and gives the
  same number as the stored one: prefix, letter case and leading zeros do not matter.
\<close>

theorem verifyCommitment_iff:
  assumes "pedersen_law cl" and "big_int commitment = Some g" and "0 \<le> g" and "g < 2 ^ 256"
  shows "verifyCommitment cl amount secret commitment \<longleftrightarrow>
           (\<exists>h. generateCommitment cl amount secret = Inr h \<and> big_int h = Some g)"
proof (cases "generateCommitment cl amount secret")
  case (Inl e)
  then show ?thesis by (simp add: verifyCommitment_def compare_hashes_def)
next
  case (Inr h)
  then have "hex_0x 1 64 h"
    using assms(1) by (auto simp: generateCommitment_def pedersen_law_def Let_def split: if_splits)
  then obtain z where "big_int h = Some z" "0 \<le> z" "z < 2 ^ 256"
    using hex_0x_big_int by fastforce
  then show ?thesis using Inr assms
    by (simp add: verifyCommitment_def compare_hashes_def big_int_res_def timingSafeEqual_padded)
qed

lemma pedersen_law_demo: "pedersen_law demo_lib"
proof -
  have "hex_0x 1 64 (''0x'' @ hex_encode (take 15 (utf8 a) @ take 15 (utf8 b)) @ ''0'')" for a b
    using is_hex_hex_encode [of "take 15 (utf8 a) @ take 15 (utf8 b)"]
    by (simp add: hex_0x_def starts_with_def is_hex_def)
  then show ?thesis by (simp add: pedersen_law_def demo_lib_def del: append.simps)
qed

theorem verifyCommitment_iff_witness:
  "verifyCommitment demo_lib ''0.001'' ''77'' ''0x0003130303030303737370''
     \<longleftrightarrow> (\<exists>h. generateCommitment demo_lib ''0.001'' ''77'' = Inr h
              \<and> big_int h = Some 0x3130303030303737370)"
proof -
  have b: "big_int ''0x0003130303030303737370'' = Some 0x3130303030303737370" by code_simp
  show ?thesis by (rule verifyCommitment_iff [OF pedersen_law_demo b]) simp_all
qed

end
