(* ===== verification/Utxo.thy ===== *)
theory Utxo
  imports Prelude "HOL-Library.Multiset"
begin

text \<open>
  Unspent outputs, transactions under construction, and the contract of a coin selection that
  takes the largest outputs first: shared by the covenant payout and the hot-wallet payout,
  which differ in their fee and in how their loops are written. Amounts are satoshis; every sum
  is below \<open>2 ^ 53\<close> (there are 21 * 10 ^ 14 satoshis), so JavaScript's arithmetic on them is
  exact and they are \<open>int\<close>.
\<close>

record utxo =
  txid :: string
  vout :: nat
  u_value :: int
  u_script :: string

record tx_out =
  o_address :: string
  o_value :: int

record psbt =
  p_inputs :: "utxo list"
  p_outputs :: "tx_out list"

definition total :: "utxo list \<Rightarrow> int" where
  "total us = sum_list (map u_value us)"

definition total_out :: "psbt \<Rightarrow> int" where
  "total_out p = sum_list (map o_value (p_outputs p))"

text \<open>\<open>sort((a, b) => b.value - a.value)\<close>, a stable sort.\<close>

definition desc :: "utxo list \<Rightarrow> utxo list" where
  "desc us = sort_key (\<lambda>u. - u_value u) us"

lemma total_simps [simp]: "total [] = 0" "total (u # us) = u_value u + total us"
  "total (us @ vs) = total us + total vs"
  by (simp_all add: total_def)

lemma total_mset: "total us = sum_mset (image_mset u_value (mset us))"
  by (simp add: total_def flip: sum_mset_sum_list)

lemma mset_desc [simp]: "mset (desc us) = mset us"
  by (simp add: desc_def)

lemma length_desc [simp]: "length (desc us) = length us"
  by (simp add: desc_def)

lemma total_desc [simp]: "total (desc us) = total us"
  by (simp add: total_mset)

section \<open>The largest outputs are worth the most\<close>

lemma sub_sorted_total:
  assumes "sorted_wrt (\<lambda>a b. u_value b \<le> u_value a) us" and "M \<subseteq># mset us"
  shows "sum_mset (image_mset u_value M) \<le> total (take (size M) us)"
  using assms
proof (induction us arbitrary: M)
  case (Cons u us)
  show ?case
  proof (cases "M = {#}")
    case False
    obtain x N where M: "M = add_mset x N" and N: "N \<subseteq># mset us" and x: "u_value x \<le> u_value u"
    proof (cases "u \<in># M")
      case True
      then obtain N where "M = add_mset u N" by (metis insert_DiffM)
      then show ?thesis using that Cons.prems(2) by auto
    next
      case False
      obtain y N where y: "M = add_mset y N" using \<open>M \<noteq> {#}\<close> multiset_cases by blast
      have "count M z \<le> count (mset us) z" for z
        using mset_subset_eq_count [OF Cons.prems(2), of z] False
        by (cases "z = u") (auto simp: not_in_iff)
      then have "M \<subseteq># mset us" by (rule mset_subset_eqI)
      then have "y \<in># mset us" "N \<subseteq># mset us"
        using y by (auto dest: mset_subset_eq_insertD intro: subset_mset.less_imp_le)
      then show ?thesis using that y Cons.prems(1) by auto
    qed
    have "sum_mset (image_mset u_value N) \<le> total (take (size N) us)"
      using Cons N by simp
    then show ?thesis using x by (simp add: M)
  qed simp
qed simp

lemma desc_best:
  assumes "mset s \<subseteq># mset us"
  shows "total s \<le> total (take (length s) (desc us))"
proof -
  have "sorted_wrt (\<lambda>a b. u_value b \<le> u_value a) (desc us)"
    using sorted_sort_key [of "\<lambda>u. - u_value u" us]
    by (simp add: desc_def sorted_wrt_map)
  then show ?thesis
    using sub_sorted_total [of "desc us" "mset s"] assms by (simp add: total_mset [of s])
qed

section \<open>The contract of a selection\<close>

text \<open>
  \<open>fee k\<close> is the fee for \<open>k\<close> inputs. A selection returns the shortest non-empty prefix of the
  outputs in descending order that covers the amount and the fee, and fails only when no prefix
  does.
\<close>

locale coin_selection =
  fixes sel :: "utxo list \<Rightarrow> int \<Rightarrow> (utxo list \<times> int) res" and fee :: "nat \<Rightarrow> int"
  assumes sel_prefix: "sel us amount = Inr (s, tot) \<Longrightarrow>
      \<exists>k. 0 < k \<and> k \<le> length us \<and> s = take k (desc us) \<and> tot = total s \<and> amount + fee k \<le> tot
          \<and> (\<forall>j. 0 < j \<longrightarrow> j < k \<longrightarrow> total (take j (desc us)) < amount + fee j)"
    and sel_complete: "0 < k \<Longrightarrow> k \<le> length us \<Longrightarrow> amount + fee k \<le> total (take k (desc us))
      \<Longrightarrow> is_ok (sel us amount)"
begin

lemma sel_sound:
  assumes "sel us amount = Inr (s, tot)"
  shows "mset s \<subseteq># mset us" "s \<noteq> []" "tot = total s" "amount + fee (length s) \<le> tot"
proof -
  obtain k where k: "0 < k" "k \<le> length us" "s = take k (desc us)" "tot = total s" "amount + fee k \<le> tot"
    using sel_prefix [OF assms] by blast
  have "mset (take k (desc us)) \<subseteq># mset (take k (desc us)) + mset (drop k (desc us))" by simp
  also have "\<dots> = mset us" by (metis append_take_drop_id mset_append mset_desc)
  finally show "mset s \<subseteq># mset us" using k by simp
  show "s \<noteq> []" using k by (metis length_desc length_greater_0_conv length_take min.absorb2)
  show "tot = total s" "amount + fee (length s) \<le> tot" using k by auto
qed

text \<open>No affordable choice of outputs is missed, and none uses fewer inputs.\<close>

lemma sel_optimal:
  assumes "mset c \<subseteq># mset us" "c \<noteq> []" "amount + fee (length c) \<le> total c"
  shows "\<exists>s tot. sel us amount = Inr (s, tot) \<and> length s \<le> length c"
proof -
  let ?n = "length c"
  have n: "0 < ?n" "?n \<le> length us"
    using assms size_mset_mono [OF assms(1)] by auto
  have cover: "amount + fee ?n \<le> total (take ?n (desc us))"
    using desc_best [OF assms(1)] assms(3) by simp
  then obtain s tot where s: "sel us amount = Inr (s, tot)"
    using sel_complete [OF n cover] by (auto simp: is_ok_iff)
  then obtain k where k: "0 < k" "k \<le> length us" "s = take k (desc us)"
      "\<forall>j. 0 < j \<longrightarrow> j < k \<longrightarrow> total (take j (desc us)) < amount + fee j"
    using sel_prefix by blast
  then have "k \<le> ?n" using n cover by (metis not_le)
  then show ?thesis using s k by auto
qed

lemma sel_fails_iff:
  "\<not> is_ok (sel us amount) \<longleftrightarrow>
     \<not> (\<exists>c. mset c \<subseteq># mset us \<and> c \<noteq> [] \<and> amount + fee (length c) \<le> total c)"
proof
  assume n: "\<not> is_ok (sel us amount)"
  show "\<not> (\<exists>c. mset c \<subseteq># mset us \<and> c \<noteq> [] \<and> amount + fee (length c) \<le> total c)"
    using n sel_optimal by (metis is_ok_iff)
next
  assume n: "\<not> (\<exists>c. mset c \<subseteq># mset us \<and> c \<noteq> [] \<and> amount + fee (length c) \<le> total c)"
  show "\<not> is_ok (sel us amount)"
  proof
    assume "is_ok (sel us amount)"
    then obtain s tot where s: "sel us amount = Inr (s, tot)" by (auto simp: is_ok_iff)
    then show False using n sel_sound [OF s] by metis
  qed
qed

end

section \<open>Outputs of a payout\<close>

text \<open>The recipient's output, and the change when it is above the dust limit of 546.\<close>

definition payment_outputs :: "string \<Rightarrow> int \<Rightarrow> string \<Rightarrow> int \<Rightarrow> tx_out list" where
  "payment_outputs recipient amount change_address change =
     \<lparr>o_address = recipient, o_value = amount\<rparr> #
     (if change > 546 then [\<lparr>o_address = change_address, o_value = change\<rparr>] else [])"

lemma payment_balance:
  assumes "amount + fee \<le> total ins"
    and "p = \<lparr>p_inputs = ins, p_outputs = payment_outputs r amount c (total ins - amount - fee)\<rparr>"
  shows "fee \<le> total (p_inputs p) - total_out p" "total (p_inputs p) - total_out p \<le> fee + 546"
  using assms by (auto simp: payment_outputs_def total_out_def)

end
