(* ===== verification/Db.thy ===== *)
theory Db
  imports Prelude
begin

text \<open>
  The SQLite database of \<open>backend/src/db/schema.ts\<close>: one record per row, one list of rows per
  table in insertion order, and the constraints of the schema. A statement that would break a
  constraint throws and leaves the database as it was. \<open>CHECK(status IN ...)\<close> and
  \<open>CHECK(type IN ...)\<close> are the datatypes below. The rows of \<open>htlcs\<close>, \<open>sc_commitments\<close> and
  \<open>sharp_proofs\<close> live in the theories of the services that own them; \<open>kv_store\<close> in the
  header relay's.
\<close>

section \<open>Tables as lists of rows\<close>

definition row_by :: "('r \<Rightarrow> 'k) \<Rightarrow> 'k \<Rightarrow> 'r list \<Rightarrow> 'r option" where
  "row_by key k t = List.find (\<lambda>r. key r = k) t"

definition update_by :: "('r \<Rightarrow> bool) \<Rightarrow> ('r \<Rightarrow> 'r) \<Rightarrow> 'r list \<Rightarrow> 'r list" where
  "update_by p f t = map (\<lambda>r. if p r then f r else r) t"

definition uniq :: "('r \<Rightarrow> 'k) \<Rightarrow> 'r list \<Rightarrow> bool" where
  "uniq key t = distinct (map key t)"

text \<open>\<open>UNIQUE\<close> on a nullable column: \<open>NULL\<close>s never clash.\<close>

definition uniq_opt :: "('r \<Rightarrow> 'k option) \<Rightarrow> 'r list \<Rightarrow> bool" where
  "uniq_opt key t = distinct (List.map_filter key t)"

text \<open>\<open>s LIKE 'p%'\<close>, which in SQLite ignores the case of ASCII letters.\<close>

definition like_prefix :: "string \<Rightarrow> string \<Rightarrow> bool" where
  "like_prefix p s = (to_lower (take (length p) s) = to_lower p)"

definition tx_hash_ok :: "string \<Rightarrow> bool" where
  "tx_hash_ok s = (34 \<le> length s \<and> like_prefix ''0x'' s)"

lemma row_by_Some: "row_by key k t = Some r \<Longrightarrow> r \<in> set t \<and> key r = k"
  by (auto simp: row_by_def find_Some_iff)

lemma row_by_None: "row_by key k t = None \<longleftrightarrow> k \<notin> key ` set t"
  by (auto simp: row_by_def find_None_iff)

lemma row_by_append:
  "row_by key k (t @ u) = (case row_by key k t of None \<Rightarrow> row_by key k u | Some r \<Rightarrow> Some r)"
  by (induction t) (auto simp: row_by_def)

lemma row_by_unique: "uniq key t \<Longrightarrow> r \<in> set t \<Longrightarrow> row_by key (key r) t = Some r"
  by (induction t) (auto simp: row_by_def uniq_def)

lemma row_by_update:
  assumes "\<And>r. key (f r) = key r"
  shows "row_by key k (update_by p f t) = map_option (\<lambda>r. if p r then f r else r) (row_by key k t)"
  using assms by (induction t) (auto simp: row_by_def update_by_def)

lemma map_update_by: "(\<And>r. key (f r) = key r) \<Longrightarrow> map key (update_by p f t) = map key t"
  by (simp add: update_by_def)

lemma uniq_update [simp]: "(\<And>r. key (f r) = key r) \<Longrightarrow> uniq key (update_by p f t) = uniq key t"
  by (simp add: uniq_def map_update_by)

lemma map_filter_cong_list:
  "map f xs = map g ys \<Longrightarrow> List.map_filter f xs = List.map_filter g ys"
proof (induction xs arbitrary: ys)
  case (Cons x xs)
  then show ?case by (cases ys) (auto simp: List.map_filter_def)
qed (simp add: List.map_filter_def)

lemma uniq_opt_update [simp]:
  "(\<And>r. key (f r) = key r) \<Longrightarrow> uniq_opt key (update_by p f t) = uniq_opt key t"
  unfolding uniq_opt_def using map_filter_cong_list [OF map_update_by, of key f p t] by simp

lemma set_update_by: "set (update_by p f t) = (\<lambda>r. if p r then f r else r) ` set t"
  by (simp add: update_by_def)

lemma update_by_id: "(\<And>r. r \<in> set t \<Longrightarrow> \<not> p r) \<Longrightarrow> update_by p f t = t"
  by (simp add: update_by_def map_idI)

text \<open>
  What a service relies on of a table with a unique key: an insert appends a row whose key was
  absent. Lookups after inserts follow.
\<close>

locale keyed_table =
  fixes key :: "'r \<Rightarrow> 'k" and rows :: "'d \<Rightarrow> 'r list" and ins :: "'r \<Rightarrow> 'd \<Rightarrow> 'd res"
  assumes ins_rows: "ins r d = Inr d' \<Longrightarrow> rows d' = rows d @ [r]"
    and ins_unique: "ins r d = Inr d' \<Longrightarrow> uniq key (rows d')"
begin

lemma ins_fresh: "ins r d = Inr d' \<Longrightarrow> key r \<notin> key ` set (rows d)"
  using ins_rows ins_unique by (force simp: uniq_def)

lemma lookup_inserted: "ins r d = Inr d' \<Longrightarrow> row_by key (key r) (rows d') = Some r"
  using ins_rows ins_unique row_by_unique [of key "rows d'" r] by simp

lemma lookup_other: "ins r d = Inr d' \<Longrightarrow> k \<noteq> key r \<Longrightarrow> row_by key k (rows d') = row_by key k (rows d)"
  by (auto dest!: ins_rows simp: row_by_append split: option.splits) (simp add: row_by_def)

lemma lookup_kept: "ins r d = Inr d' \<Longrightarrow> row_by key k (rows d) = Some q \<Longrightarrow> row_by key k (rows d') = Some q"
  by (auto dest!: ins_rows simp: row_by_append)

lemma double_insert: "ins r d = Inr d' \<Longrightarrow> key q = key r \<Longrightarrow> \<not> is_ok (ins q d')"
proof
  assume a: "ins r d = Inr d'" "key q = key r" "is_ok (ins q d')"
  then obtain d'' where "ins q d' = Inr d''" by (auto simp: is_ok_iff)
  then have "key q \<notin> key ` set (rows d')" by (rule ins_fresh)
  then show False using ins_rows [OF a(1)] a(2) by simp
qed

end

section \<open>Rows\<close>

datatype vault_status = pending | active | withdrawn

fun vault_status_str :: "vault_status \<Rightarrow> string" where
  "vault_status_str pending = ''pending''"
| "vault_status_str active = ''active''"
| "vault_status_str withdrawn = ''withdrawn''"

record vault_row =
  v_id :: string
  owner_address :: string
  v_commitment :: string
  encrypted_amount :: string
  salt :: string
  randomness_hint :: string
  lock_duration_days :: int
  v_created_at :: int
  unlock_at :: int
  v_status :: vault_status
  deposit_tx_hash :: "string option"
  withdraw_tx_hash :: "string option"
  v_bitcoin_txid :: "string option"
  v_nullifier_hash :: "string option"
  bitcoin_withdrawal_address :: "string option"
  deposit_sender_address :: "string option"

record commitment_row =
  c_commitment :: string
  c_vault_id :: string
  c_block_number :: "int option"
  c_revealed :: int

record nullifier_row =
  n_nullifier_hash :: string
  n_vault_id :: string
  used_at :: int
  n_withdraw_tx_hash :: string

datatype tx_type = Deposit | Withdraw
datatype exec_status = SUCCEEDED | REVERTED

record tx_row =
  t_id :: string
  t_vault_id :: "string option"
  t_tx_hash :: string
  t_type :: tx_type
  amount_encrypted :: string
  t_block_number :: "int option"
  t_block_timestamp :: "int option"
  t_execution_status :: "exec_status option"
  t_timestamp :: int

datatype auth_status = a_pending | a_processing | a_completed | a_failed

fun auth_status_str :: "auth_status \<Rightarrow> string" where
  "auth_status_str a_pending = ''pending''"
| "auth_status_str a_processing = ''processing''"
| "auth_status_str a_completed = ''completed''"
| "auth_status_str a_failed = ''failed''"

record auth_row =
  a_id :: string
  a_vault_id :: string
  a_nullifier_hash :: string
  starknet_tx_hash :: string
  bitcoin_address :: string
  amount_sats :: int
  a_status :: auth_status
  a_created_at :: int
  confirmed_at :: "int option"
  a_bitcoin_txid :: "string option"
  error_message :: "string option"

record db =
  vaults :: "vault_row list"
  commitments :: "commitment_row list"
  nullifiers :: "nullifier_row list"
  transactions :: "tx_row list"
  auths :: "auth_row list"

definition empty_db :: db where
  "empty_db = \<lparr>vaults = [], commitments = [], nullifiers = [], transactions = [], auths = []\<rparr>"

section \<open>Constraints\<close>

definition sql_error :: "string \<Rightarrow> exn" where
  "sql_error m = Error m"

definition unique_error :: "string \<Rightarrow> exn" where
  "unique_error c = sql_error (''UNIQUE constraint failed: '' @ c)"

definition check_error :: "string \<Rightarrow> exn" where
  "check_error c = sql_error (''CHECK constraint failed: '' @ c)"

definition fk_error :: exn where
  "fk_error = sql_error ''FOREIGN KEY constraint failed''"

text \<open>The first constraint of the table that a list of rows breaks.\<close>

definition vaults_violation :: "vault_row list \<Rightarrow> exn option" where
  "vaults_violation t =
     (if \<not> list_all (\<lambda>v. lock_duration_days v \<in> {30, 90, 365}) t
        then Some (check_error ''lock_duration_days IN (30, 90, 365)'')
      else if \<not> list_all (\<lambda>v. pred_option tx_hash_ok (deposit_tx_hash v)) t
        then Some (check_error ''deposit_tx_hash IS NULL OR (length(deposit_tx_hash) >= 34 AND deposit_tx_hash LIKE '0x%')'')
      else if \<not> list_all (\<lambda>v. pred_option tx_hash_ok (withdraw_tx_hash v)) t
        then Some (check_error ''withdraw_tx_hash IS NULL OR (length(withdraw_tx_hash) >= 34 AND withdraw_tx_hash LIKE '0x%')'')
      else if \<not> uniq v_id t then Some (unique_error ''vaults.id'')
      else if \<not> uniq v_commitment t then Some (unique_error ''vaults.commitment'')
      else if \<not> uniq_opt v_nullifier_hash t then Some (unique_error ''vaults.nullifier_hash'')
      else None)"

definition set_vaults :: "vault_row list \<Rightarrow> db \<Rightarrow> db res" where
  "set_vaults t d = (case vaults_violation t of
     Some e \<Rightarrow> Inl e | None \<Rightarrow> Inr (d\<lparr>vaults := t\<rparr>))"

definition has_vault :: "db \<Rightarrow> string \<Rightarrow> bool" where
  "has_vault d i = list_ex (\<lambda>v. v_id v = i) (vaults d)"

definition insert_vault :: "vault_row \<Rightarrow> db \<Rightarrow> db res" where
  "insert_vault v d = set_vaults (vaults d @ [v]) d"

definition update_vaults :: "(vault_row \<Rightarrow> bool) \<Rightarrow> (vault_row \<Rightarrow> vault_row) \<Rightarrow> db \<Rightarrow> db res" where
  "update_vaults p f d = set_vaults (update_by p f (vaults d)) d"

definition insert_commitment :: "commitment_row \<Rightarrow> db \<Rightarrow> db res" where
  "insert_commitment c d =
     (if \<not> uniq c_commitment (commitments d @ [c]) then Inl (unique_error ''commitments.commitment'')
      else if \<not> has_vault d (c_vault_id c) then Inl fk_error
      else Inr (d\<lparr>commitments := commitments d @ [c]\<rparr>))"

definition insert_nullifier :: "nullifier_row \<Rightarrow> db \<Rightarrow> db res" where
  "insert_nullifier n d =
     (if \<not> uniq n_nullifier_hash (nullifiers d @ [n]) then Inl (unique_error ''nullifiers.nullifier_hash'')
      else if \<not> has_vault d (n_vault_id n) then Inl fk_error
      else Inr (d\<lparr>nullifiers := nullifiers d @ [n]\<rparr>))"

text \<open>The trigger \<open>enforce_real_tx_hash\<close> runs before the constraints.\<close>

definition fake_tx_hash :: exn where
  "fake_tx_hash = sql_error ''FAKE_TX_HASH: tx_hash must be a real Starknet transaction hash (0x + 63-64 hex chars)''"

definition insert_transaction :: "tx_row \<Rightarrow> db \<Rightarrow> db res" where
  "insert_transaction t d =
     (if \<not> like_prefix ''0x'' (t_tx_hash t) \<or> length (t_tx_hash t) < 34 then Inl fake_tx_hash
      else if \<not> uniq t_id (transactions d @ [t]) then Inl (unique_error ''transactions.id'')
      else if \<not> uniq t_tx_hash (transactions d @ [t]) then Inl (unique_error ''transactions.tx_hash'')
      else if \<not> pred_option (has_vault d) (t_vault_id t) then Inl fk_error
      else Inr (d\<lparr>transactions := transactions d @ [t]\<rparr>))"

definition auths_violation :: "auth_row list \<Rightarrow> exn option" where
  "auths_violation t =
     (if \<not> list_all (\<lambda>a. tx_hash_ok (starknet_tx_hash a)) t
        then Some (check_error ''starknet_tx_hash LIKE '0x%' AND length(starknet_tx_hash) >= 34'')
      else if \<not> list_all (\<lambda>a. like_prefix ''tb1'' (bitcoin_address a)) t
        then Some (check_error (''bitcoin_address LIKE '' @ [CHR 0x27] @ ''tb1%'' @ [CHR 0x27]))
      else if \<not> uniq a_id t then Some (unique_error ''withdrawal_authorizations.id'')
      else if \<not> uniq a_nullifier_hash t then Some (unique_error ''withdrawal_authorizations.nullifier_hash'')
      else if \<not> uniq starknet_tx_hash t then Some (unique_error ''withdrawal_authorizations.starknet_tx_hash'')
      else None)"

definition insert_auth :: "auth_row \<Rightarrow> db \<Rightarrow> db res" where
  "insert_auth a d = (case auths_violation (auths d @ [a]) of
     Some e \<Rightarrow> Inl e
   | None \<Rightarrow> if \<not> has_vault d (a_vault_id a) then Inl fk_error
             else Inr (d\<lparr>auths := auths d @ [a]\<rparr>))"

text \<open>
  The backend's only update of \<open>withdrawal_authorizations\<close> writes columns without constraints
  (other than the status), for one id.
\<close>

definition update_auth :: "string \<Rightarrow> (auth_row \<Rightarrow> auth_row) \<Rightarrow> db \<Rightarrow> db" where
  "update_auth i f d = d\<lparr>auths := update_by (\<lambda>a. a_id a = i) f (auths d)\<rparr>"

section \<open>What the schema guarantees\<close>

definition schema_ok :: "db \<Rightarrow> bool" where
  "schema_ok d \<longleftrightarrow>
     vaults_violation (vaults d) = None \<and> auths_violation (auths d) = None \<and>
     uniq c_commitment (commitments d) \<and> uniq n_nullifier_hash (nullifiers d) \<and>
     uniq t_id (transactions d) \<and> uniq t_tx_hash (transactions d) \<and>
     list_all (\<lambda>c. has_vault d (c_vault_id c)) (commitments d) \<and>
     list_all (\<lambda>n. has_vault d (n_vault_id n)) (nullifiers d) \<and>
     list_all (\<lambda>t. pred_option (has_vault d) (t_vault_id t) \<and> tx_hash_ok (t_tx_hash t)) (transactions d) \<and>
     list_all (\<lambda>a. has_vault d (a_vault_id a)) (auths d)"

lemma vaults_violation_None:
  "vaults_violation t = None \<longleftrightarrow>
     list_all (\<lambda>v. lock_duration_days v \<in> {30, 90, 365} \<and> pred_option tx_hash_ok (deposit_tx_hash v)
                  \<and> pred_option tx_hash_ok (withdraw_tx_hash v)) t
     \<and> uniq v_id t \<and> uniq v_commitment t \<and> uniq_opt v_nullifier_hash t"
  by (auto simp: vaults_violation_def list_all_iff)

lemma auths_violation_None:
  "auths_violation t = None \<longleftrightarrow>
     list_all (\<lambda>a. tx_hash_ok (starknet_tx_hash a) \<and> like_prefix ''tb1'' (bitcoin_address a)) t
     \<and> uniq a_id t \<and> uniq a_nullifier_hash t \<and> uniq starknet_tx_hash t"
  by (auto simp: auths_violation_def list_all_iff)

lemma insert_vaultD:
  "insert_vault v d = Inr d' \<Longrightarrow> d' = d\<lparr>vaults := vaults d @ [v]\<rparr> \<and> vaults_violation (vaults d @ [v]) = None"
  by (auto simp: insert_vault_def set_vaults_def split: option.splits)

lemma update_vaultsD:
  "update_vaults p f d = Inr d' \<Longrightarrow>
     d' = d\<lparr>vaults := update_by p f (vaults d)\<rparr> \<and> vaults_violation (update_by p f (vaults d)) = None"
  by (auto simp: update_vaults_def set_vaults_def split: option.splits)

lemma insert_authD:
  "insert_auth a d = Inr d' \<Longrightarrow>
     d' = d\<lparr>auths := auths d @ [a]\<rparr> \<and> auths_violation (auths d @ [a]) = None \<and> has_vault d (a_vault_id a)"
  by (auto simp: insert_auth_def split: option.splits if_splits)

lemma insert_nullifierD:
  "insert_nullifier n d = Inr d' \<Longrightarrow> d' = d\<lparr>nullifiers := nullifiers d @ [n]\<rparr>
     \<and> uniq n_nullifier_hash (nullifiers d @ [n]) \<and> has_vault d (n_vault_id n)"
  by (auto simp: insert_nullifier_def split: if_splits)

lemma insert_commitmentD:
  "insert_commitment c d = Inr d' \<Longrightarrow> d' = d\<lparr>commitments := commitments d @ [c]\<rparr>
     \<and> uniq c_commitment (commitments d @ [c]) \<and> has_vault d (c_vault_id c)"
  by (auto simp: insert_commitment_def split: if_splits)

lemma insert_transactionD:
  "insert_transaction t d = Inr d' \<Longrightarrow> d' = d\<lparr>transactions := transactions d @ [t]\<rparr>
     \<and> tx_hash_ok (t_tx_hash t) \<and> uniq t_id (transactions d @ [t]) \<and> uniq t_tx_hash (transactions d @ [t])
     \<and> pred_option (has_vault d) (t_vault_id t)"
  by (auto simp: insert_transaction_def tx_hash_ok_def split: if_splits)

lemmas db_writes = insert_vaultD update_vaultsD insert_authD insert_nullifierD insert_commitmentD
  insert_transactionD

interpretation vault_by_id: keyed_table v_id vaults insert_vault
  by unfold_locales (auto dest!: insert_vaultD simp: vaults_violation_None)

interpretation vault_by_commitment: keyed_table v_commitment vaults insert_vault
  by unfold_locales (auto dest!: insert_vaultD simp: vaults_violation_None)

interpretation auth_by_id: keyed_table a_id auths insert_auth
  by unfold_locales (auto dest!: insert_authD simp: auths_violation_None)

interpretation auth_by_nullifier: keyed_table a_nullifier_hash auths insert_auth
  by unfold_locales (auto dest!: insert_authD simp: auths_violation_None)

interpretation auth_by_tx: keyed_table starknet_tx_hash auths insert_auth
  by unfold_locales (auto dest!: insert_authD simp: auths_violation_None)

interpretation nullifier_by_hash: keyed_table n_nullifier_hash nullifiers insert_nullifier
  by unfold_locales (auto dest!: insert_nullifierD)

interpretation tx_by_hash: keyed_table t_tx_hash transactions insert_transaction
  by unfold_locales (auto dest!: insert_transactionD)

text \<open>Every write keeps the guarantees.\<close>

lemma has_vault_append: "has_vault (d\<lparr>vaults := vaults d @ vs\<rparr>) i \<longleftrightarrow> has_vault d i \<or> i \<in> v_id ` set vs"
  by (auto simp: has_vault_def list_ex_iff)

lemma has_vault_update:
  "(\<And>v. v_id (f v) = v_id v) \<Longrightarrow> has_vault (d\<lparr>vaults := update_by p f (vaults d)\<rparr>) = has_vault d"
  by (auto simp: has_vault_def list_ex_iff set_update_by fun_eq_iff)

lemma has_vault_other [simp]:
  "has_vault (d\<lparr>auths := x\<rparr>) = has_vault d" "has_vault (d\<lparr>nullifiers := y\<rparr>) = has_vault d"
  "has_vault (d\<lparr>commitments := z\<rparr>) = has_vault d" "has_vault (d\<lparr>transactions := w\<rparr>) = has_vault d"
  by (simp_all add: has_vault_def fun_eq_iff)

lemma pred_has_vault_append:
  "pred_option (has_vault d) x \<Longrightarrow> pred_option (has_vault (d\<lparr>vaults := vaults d @ vs\<rparr>)) x"
  by (cases x) (auto simp: has_vault_append)

lemma schema_insert_vault: "schema_ok d \<Longrightarrow> insert_vault v d = Inr d' \<Longrightarrow> schema_ok d'"
  by (drule insert_vaultD)
     (auto simp: schema_ok_def has_vault_append list_all_iff pred_has_vault_append)

lemma schema_update_vaults:
  "schema_ok d \<Longrightarrow> update_vaults p f d = Inr d' \<Longrightarrow> (\<And>v. v_id (f v) = v_id v) \<Longrightarrow> schema_ok d'"
  by (drule update_vaultsD)
     (auto simp: schema_ok_def has_vault_update list_all_iff)

lemma schema_insert_auth: "schema_ok d \<Longrightarrow> insert_auth a d = Inr d' \<Longrightarrow> schema_ok d'"
  by (drule insert_authD) (auto simp: schema_ok_def list_all_iff)

lemma schema_insert_nullifier: "schema_ok d \<Longrightarrow> insert_nullifier n d = Inr d' \<Longrightarrow> schema_ok d'"
  by (drule insert_nullifierD) (auto simp: schema_ok_def list_all_iff)

lemma schema_insert_commitment: "schema_ok d \<Longrightarrow> insert_commitment c d = Inr d' \<Longrightarrow> schema_ok d'"
  by (drule insert_commitmentD) (auto simp: schema_ok_def list_all_iff)

lemma schema_insert_transaction: "schema_ok d \<Longrightarrow> insert_transaction t d = Inr d' \<Longrightarrow> schema_ok d'"
  by (drule insert_transactionD) (auto simp: schema_ok_def list_all_iff)

lemma schema_update_auth:
  assumes "schema_ok d"
    and f: "\<And>a. a_id (f a) = a_id a" "\<And>a. a_nullifier_hash (f a) = a_nullifier_hash a"
      "\<And>a. starknet_tx_hash (f a) = starknet_tx_hash a" "\<And>a. bitcoin_address (f a) = bitcoin_address a"
      "\<And>a. a_vault_id (f a) = a_vault_id a"
  shows "schema_ok (update_auth i f d)"
  using assms
  by (auto simp: schema_ok_def update_auth_def auths_violation_None list_all_iff set_update_by
     )

lemmas schema_writes = schema_insert_vault schema_update_vaults schema_insert_auth
  schema_insert_nullifier schema_insert_commitment schema_insert_transaction

section \<open>Evaluation of the constraints\<close>

declare schema_ok_def [table_eval] empty_db_def [table_eval] vaults_violation_def [table_eval]
  auths_violation_def [table_eval] uniq_def [table_eval] uniq_opt_def [table_eval]
  List.map_filter_def [table_eval] tx_hash_ok_def [table_eval] like_prefix_def [table_eval]
  to_lower_def [table_eval] has_vault_def [table_eval] update_vaults_def [table_eval]
  set_vaults_def [table_eval] update_by_def [table_eval]

lemma schema_empty: "schema_ok empty_db"
  by (simp add: table_eval)

end
