(* ===== verification/Authorization.thy ===== *)
theory Authorization
  imports Db
begin

text \<open>
  \<open>backend/src/services/WithdrawalAuthorizationService.ts\<close>: the table that says which Bitcoin
  payouts the backend owes. Every method is a function of the database; fresh ids and the clock
  (in seconds) are arguments. Console warnings (the privacy guards only warn) are not modelled.
\<close>

section \<open>The service\<close>

record auth_params =
  vaultId :: string
  nullifierHash :: string
  starknetTxHash :: string
  bitcoinAddress :: string
  amountSats :: int

definition getAuthorizationById :: "string \<Rightarrow> db \<Rightarrow> auth_row option" where
  "getAuthorizationById i d = row_by a_id i (auths d)"

definition getAuthorizationByNullifier :: "string \<Rightarrow> db \<Rightarrow> auth_row option" where
  "getAuthorizationByNullifier n d = row_by a_nullifier_hash n (auths d)"

definition getAuthorizationByStarknetTx :: "string \<Rightarrow> db \<Rightarrow> auth_row option" where
  "getAuthorizationByStarknetTx h d = row_by starknet_tx_hash h (auths d)"

text \<open>
  A commitment counts as unspent while its vault is active and its nullifier is not in the
  \<open>nullifiers\<close> table.
\<close>

definition unspent :: "db \<Rightarrow> vault_row \<Rightarrow> bool" where
  "unspent d v = (case v_nullifier_hash v of
     None \<Rightarrow> True
   | Some n \<Rightarrow> \<not> list_ex (\<lambda>r. n_nullifier_hash r = n) (nullifiers d))"

definition getAnonymitySetSize :: "db \<Rightarrow> nat" where
  "getAnonymitySetSize d = length (filter (\<lambda>v. v_status v = active \<and> unspent d v) (vaults d))"

text \<open>The row that \<open>INSERT\<close> writes.\<close>

definition new_auth :: "string \<Rightarrow> int \<Rightarrow> auth_params \<Rightarrow> auth_row" where
  "new_auth uuid now p = \<lparr>a_id = uuid, a_vault_id = vaultId p, a_nullifier_hash = nullifierHash p,
     starknet_tx_hash = starknetTxHash p, bitcoin_address = bitcoinAddress p,
     amount_sats = amountSats p, a_status = a_pending, a_created_at = now,
     confirmed_at = None, a_bitcoin_txid = None, error_message = None\<rparr>"

definition createAuthorization :: "string \<Rightarrow> int \<Rightarrow> auth_params \<Rightarrow> db \<Rightarrow> auth_row res \<times> db" where
  "createAuthorization uuid now p d =
     (if \<not> starts_with (bitcoinAddress p) ''tb1'' then
        (Inl (Error ''Invalid Bitcoin address - must be Signet testnet (starts with tb1)''), d)
      else if \<not> starts_with (starknetTxHash p) ''0x'' \<or> length (starknetTxHash p) < 34 then
        (Inl (Error ''Invalid Starknet transaction hash''), d)
      else if list_ex (\<lambda>a. a_nullifier_hash a = nullifierHash p \<or> starknet_tx_hash a = starknetTxHash p) (auths d) then
        (Inl (Error ''Authorization already exists for this withdrawal''), d)
      else (case insert_auth (new_auth uuid now p) d of
              Inl e \<Rightarrow> (Inl e, d)
            | Inr d' \<Rightarrow> (case getAuthorizationById uuid d' of
                Some a \<Rightarrow> (Inr a, d')
              | None \<Rightarrow> (Inl (Error ''unreachable''), d'))))"

definition getPendingAuthorizations :: "db \<Rightarrow> auth_row list" where
  "getPendingAuthorizations d = sort_key a_created_at (filter (\<lambda>a. a_status a = a_pending) (auths d))"

definition truthy :: "string option \<Rightarrow> bool" where
  "truthy s = (case s of None \<Rightarrow> False | Some t \<Rightarrow> t \<noteq> [])"

definition updateStatus :: "int \<Rightarrow> string \<Rightarrow> auth_status \<Rightarrow> string option \<Rightarrow> string option \<Rightarrow> db \<Rightarrow> db res" where
  "updateStatus now i status bitcoinTxid errorMessage d =
     (if status = a_completed \<and> \<not> truthy bitcoinTxid then
        Inl (Error ''Bitcoin TXID required for completed status'')
      else Inr (update_auth i (\<lambda>a.
        let a1 = a\<lparr>a_status := status\<rparr>;
            a2 = (if status = a_completed
                  then a1\<lparr>confirmed_at := Some now, a_bitcoin_txid := bitcoinTxid\<rparr> else a1)
        in if truthy errorMessage then a2\<lparr>error_message := errorMessage\<rparr> else a2) d))"

record validation =
  valid :: bool
  authorization :: "auth_row option"
  v_error :: "string option"

definition invalid :: "string \<Rightarrow> validation" where
  "invalid m = \<lparr>valid = False, authorization = None, v_error = Some m\<rparr>"

text \<open>A template literal prints \<open>null\<close> for a column that is \<open>NULL\<close>.\<close>

definition verifyAuthorization :: "string \<Rightarrow> db \<Rightarrow> validation" where
  "verifyAuthorization n d = (case getAuthorizationByNullifier n d of
     None \<Rightarrow> invalid ''No authorization found - withdrawal not authorized''
   | Some a \<Rightarrow>
       if a_status a = a_completed then invalid ''Authorization already used - Bitcoin already sent''
       else if a_status a = a_failed then
         invalid (''Authorization failed previously: '' @ (case error_message a of None \<Rightarrow> ''null'' | Some m \<Rightarrow> m))
       else if a_status a \<noteq> a_pending \<and> a_status a \<noteq> a_processing then
         invalid (''Invalid authorization status: '' @ auth_status_str (a_status a))
       else \<lparr>valid = True, authorization = Some a, v_error = None\<rparr>)"

record auth_stats =
  n_pending :: nat
  n_processing :: nat
  n_completed :: nat
  n_failed :: nat

definition count_status :: "auth_status \<Rightarrow> db \<Rightarrow> nat" where
  "count_status s d = length (filter (\<lambda>a. a_status a = s) (auths d))"

definition getStats :: "db \<Rightarrow> auth_stats" where
  "getStats d = \<lparr>n_pending = count_status a_pending d, n_processing = count_status a_processing d,
                 n_completed = count_status a_completed d, n_failed = count_status a_failed d\<rparr>"

definition getAuthorizationsByVaultId :: "string \<Rightarrow> db \<Rightarrow> auth_row list" where
  "getAuthorizationsByVaultId v d =
     sort_key (\<lambda>a. - a_created_at a) (filter (\<lambda>a. a_vault_id a = v) (auths d))"

definition getExpiredAuthorizations :: "int \<Rightarrow> int \<Rightarrow> db \<Rightarrow> auth_row list" where
  "getExpiredAuthorizations now hours d = (let expiryTime = now - hours * 3600 in
     sort_key a_created_at
       (filter (\<lambda>a. a_status a = a_pending \<and> a_created_at a < expiryTime) (auths d)))"

section \<open>Runs of the service\<close>

text \<open>The two methods that write, as commands; a command that throws changes nothing.\<close>

datatype auth_cmd =
    Create string int auth_params
  | Update int string auth_status "string option" "string option"

fun auth_step :: "auth_cmd \<Rightarrow> db \<Rightarrow> db" where
  "auth_step (Create uuid now p) d = snd (createAuthorization uuid now p d)"
| "auth_step (Update now i s txid err) d =
     (case updateStatus now i s txid err d of Inl _ \<Rightarrow> d | Inr d' \<Rightarrow> d')"

definition auth_run :: "auth_cmd list \<Rightarrow> db \<Rightarrow> db" where
  "auth_run cs d = fold auth_step cs d"

text \<open>What a payout pays, and for which burn.\<close>

definition terms :: "auth_row \<Rightarrow> string \<times> string \<times> string \<times> string \<times> string \<times> int" where
  "terms a = (a_id a, a_vault_id a, a_nullifier_hash a, starknet_tx_hash a, bitcoin_address a, amount_sats a)"

text \<open>A completed authorization carries its Bitcoin transaction and confirmation time.\<close>

definition evidence :: "auth_row \<Rightarrow> bool" where
  "evidence a = (a_status a = a_completed \<longrightarrow> truthy (a_bitcoin_txid a) \<and> confirmed_at a \<noteq> None)"

section \<open>Lemmas\<close>

lemma new_auth_simps [simp]:
  "a_id (new_auth uuid now p) = uuid" "a_vault_id (new_auth uuid now p) = vaultId p"
  "a_nullifier_hash (new_auth uuid now p) = nullifierHash p"
  "starknet_tx_hash (new_auth uuid now p) = starknetTxHash p"
  "bitcoin_address (new_auth uuid now p) = bitcoinAddress p"
  "amount_sats (new_auth uuid now p) = amountSats p"
  "a_status (new_auth uuid now p) = a_pending" "a_created_at (new_auth uuid now p) = now"
  by (simp_all add: new_auth_def)

lemma createAuthorization_cases:
  obtains (fail) e where "createAuthorization uuid now p d = (Inl e, d)"
  | (ok) d' where "createAuthorization uuid now p d = (Inr (new_auth uuid now p), d')"
      "insert_auth (new_auth uuid now p) d = Inr d'"
proof (cases "insert_auth (new_auth uuid now p) d")
  case (Inl e)
  then have "\<exists>e. createAuthorization uuid now p d = (Inl e, d)"
    by (auto simp: createAuthorization_def)
  then show ?thesis using fail by blast
next
  case (Inr d')
  then have "getAuthorizationById uuid d' = Some (new_auth uuid now p)"
    using auth_by_id.lookup_inserted [OF Inr] by (simp add: getAuthorizationById_def)
  then have "(\<exists>e. createAuthorization uuid now p d = (Inl e, d))
      \<or> createAuthorization uuid now p d = (Inr (new_auth uuid now p), d')"
    using Inr by (auto simp: createAuthorization_def)
  then show ?thesis using Inr fail ok by blast
qed

lemma updateStatus_auths:
  "updateStatus now i s txid err d = Inr d' \<Longrightarrow>
     \<exists>f. d' = update_auth i f d \<and> (\<forall>a. terms (f a) = terms a \<and> a_status (f a) = s
        \<and> a_created_at (f a) = a_created_at a \<and> (evidence a \<longrightarrow> evidence (f a)))"
  by (auto simp: updateStatus_def terms_def evidence_def Let_def truthy_def split: if_splits)

lemma auth_step_terms:
  "\<exists>new. map terms (auths (auth_step c d)) = map terms (auths d) @ new"
proof (cases c)
  case (Create uuid now p)
  show ?thesis
    by (rule createAuthorization_cases [of uuid now p d])
       (auto simp: Create dest!: insert_authD)
next
  case (Update now i s txid err)
  show ?thesis
  proof (cases "updateStatus now i s txid err d")
    case (Inr d')
    then obtain f where "d' = update_auth i f d" "\<forall>a. terms (f a) = terms a"
      using updateStatus_auths by blast
    then show ?thesis using Inr by (simp add: Update update_auth_def map_update_by)
  qed (simp add: Update)
qed

lemma auth_step_schema: "schema_ok d \<Longrightarrow> schema_ok (auth_step c d)"
proof (cases c)
  case (Create uuid now p)
  assume "schema_ok d"
  then show ?thesis
    by (cases rule: createAuthorization_cases [of uuid now p d]) (auto simp: Create intro: schema_writes)
next
  case (Update now i s txid err)
  assume ok: "schema_ok d"
  show ?thesis
  proof (cases "updateStatus now i s txid err d")
    case (Inr d')
    then obtain f where f: "d' = update_auth i f d" "\<forall>a. terms (f a) = terms a"
      using updateStatus_auths by blast
    then have "schema_ok d'" using ok by (auto simp: terms_def intro!: schema_update_auth)
    then show ?thesis using Inr by (simp add: Update)
  qed (simp add: Update ok)
qed

lemma auth_step_evidence:
  "list_all evidence (auths d) \<Longrightarrow> list_all evidence (auths (auth_step c d))"
proof (cases c)
  case (Create uuid now p)
  assume "list_all evidence (auths d)"
  then show ?thesis
    by (cases rule: createAuthorization_cases [of uuid now p d])
       (auto simp: Create evidence_def dest!: insert_authD)
next
  case (Update now i s txid err)
  assume ok: "list_all evidence (auths d)"
  show ?thesis
  proof (cases "updateStatus now i s txid err d")
    case (Inr d')
    then obtain f where f: "d' = update_auth i f d" "\<forall>a. evidence a \<longrightarrow> evidence (f a)"
      using updateStatus_auths by blast
    then show ?thesis using Inr ok
      by (auto simp: Update update_auth_def list_all_iff set_update_by)
  qed (simp add: Update ok)
qed

section \<open>Properties\<close>

text \<open>
  The terms of a payout are fixed at creation: no sequence of service calls removes an
  authorization or changes its burn, nullifier, recipient or amount, and there is never a
  second authorization for the same nullifier or the same burn.
\<close>

theorem auth_terms_immutable:
  assumes "schema_ok d"
  shows "(\<exists>new. map terms (auths (auth_run cs d)) = map terms (auths d) @ new)
         \<and> uniq a_nullifier_hash (auths (auth_run cs d)) \<and> uniq starknet_tx_hash (auths (auth_run cs d))"
proof -
  have "(\<exists>new. map terms (auths (auth_run cs d)) = map terms (auths d) @ new) \<and> schema_ok (auth_run cs d)"
    using assms
  proof (induction cs arbitrary: d)
    case (Cons c cs)
    then show ?case
      using auth_step_terms [of c d] auth_step_schema [OF Cons.prems, of c]
      by (fastforce simp: auth_run_def)
  qed (simp add: auth_run_def)
  then show ?thesis by (auto simp: schema_ok_def auths_violation_None)
qed

theorem auth_terms_immutable_witness:
  "schema_ok empty_db \<and>
   uniq a_nullifier_hash (auths (auth_run [Create ''a'' 5 \<lparr>vaultId = ''v'', nullifierHash = ''n'',
     starknetTxHash = ''0x00112233445566778899aabbccddeeff'', bitcoinAddress = ''tb1q'', amountSats = 7\<rparr>] empty_db))"
  using schema_empty auth_terms_immutable [OF schema_empty] by blast

text \<open>
  Nothing is ever marked completed without its Bitcoin transaction id: starting from a
  database where completed authorizations carry a transaction id and a confirmation time, every
  sequence of service calls keeps it so.
\<close>

theorem completed_has_txid:
  assumes "list_all evidence (auths d)"
  shows "list_all evidence (auths (auth_run cs d))"
  using assms
  by (induction cs arbitrary: d) (auto simp: auth_run_def intro: auth_step_evidence)

theorem completed_has_txid_witness:
  "list_all evidence (auths (auth_run [Update 1 ''a'' a_completed (Some ''tx'') None] empty_db))"
  by (rule completed_has_txid) (simp add: empty_db_def)

text \<open>
  \<open>verifyAuthorization\<close> lets a payout through exactly for an authorization that is pending or
  processing; missing, completed and failed ones are refused.
\<close>

theorem verifyAuthorization_iff:
  "valid (verifyAuthorization n d) \<longleftrightarrow>
     (\<exists>a. getAuthorizationByNullifier n d = Some a \<and> a_status a \<in> {a_pending, a_processing})"
  by (auto simp: verifyAuthorization_def invalid_def split: option.splits)

definition auth_admissible :: "string \<Rightarrow> auth_params \<Rightarrow> db \<Rightarrow> bool" where
  "auth_admissible uuid p d \<longleftrightarrow>
     starts_with (bitcoinAddress p) ''tb1'' \<and> starts_with (starknetTxHash p) ''0x'' \<and>
     34 \<le> length (starknetTxHash p) \<and>
     list_all (\<lambda>a. a_nullifier_hash a \<noteq> nullifierHash p \<and> starknet_tx_hash a \<noteq> starknetTxHash p
                  \<and> a_id a \<noteq> uuid) (auths d) \<and> has_vault d (vaultId p)"

lemma like_prefix_starts: "starts_with s p \<Longrightarrow> like_prefix p s"
  by (simp add: starts_with_def like_prefix_def)

text \<open>
  What \<open>createAuthorization\<close> requires: it succeeds exactly when the address is a Signet
  address, the burn's hash has the real format, neither the nullifier nor the burn is already
  authorized, the id is fresh and the vault exists; the new authorization is pending with the
  given terms, and on every failure the database is unchanged.
\<close>

theorem createAuthorization_iff:
  assumes "schema_ok d"
  shows "(\<exists>a d'. createAuthorization uuid now p d = (Inr a, d')
             \<and> terms a = (uuid, vaultId p, nullifierHash p, starknetTxHash p, bitcoinAddress p, amountSats p)
             \<and> a_status a = a_pending \<and> getAuthorizationById uuid d' = Some a)
         = auth_admissible uuid p d
       \<and> (auth_admissible uuid p d \<or> (\<exists>e. createAuthorization uuid now p d = (Inl e, d)))"
proof -
  have adm: "\<exists>d'. insert_auth (new_auth uuid now p) d = Inr d'" if "auth_admissible uuid p d"
  proof -
    have "auths_violation (auths d @ [new_auth uuid now p]) = None"
      using that assms
      by (auto simp: auth_admissible_def schema_ok_def auths_violation_None uniq_def
          tx_hash_ok_def like_prefix_starts list_all_iff)
    then show ?thesis using that by (simp add: insert_auth_def auth_admissible_def)
  qed
  show ?thesis
  proof (cases rule: createAuthorization_cases [of uuid now p d])
    case (fail e)
    have "\<not> auth_admissible uuid p d"
    proof
      assume a: "auth_admissible uuid p d"
      then obtain d' where i: "insert_auth (new_auth uuid now p) d = Inr d'" using adm by blast
      then have "getAuthorizationById uuid d' = Some (new_auth uuid now p)"
        using auth_by_id.lookup_inserted [OF i] by (simp add: getAuthorizationById_def)
      then show False using fail a i
        by (auto simp: createAuthorization_def auth_admissible_def list_ex_iff list_all_iff
            split: if_splits)
    qed
    then show ?thesis using fail by auto
  next
    case (ok d')
    have get: "getAuthorizationById uuid d' = Some (new_auth uuid now p)"
      using auth_by_id.lookup_inserted [OF ok(2)] by (simp add: getAuthorizationById_def)
    have fresh: "uuid \<notin> a_id ` set (auths d)"
      using auth_by_id.ins_fresh [OF ok(2)] by simp
    have "auth_admissible uuid p d"
      using ok(1) insert_authD [OF ok(2)] fresh
      by (auto simp: auth_admissible_def createAuthorization_def list_ex_iff list_all_iff
          split: if_splits)
    then show ?thesis using ok get by (auto simp: terms_def)
  qed
qed

definition demo_vault :: vault_row where
  "demo_vault = \<lparr>v_id = ''v'', owner_address = ''0x1'', v_commitment = ''0xc'', encrypted_amount = [],
     salt = [], randomness_hint = [], lock_duration_days = 30, v_created_at = 0, unlock_at = 0,
     v_status = active, deposit_tx_hash = None, withdraw_tx_hash = None, v_bitcoin_txid = None,
     v_nullifier_hash = Some ''n'', bitcoin_withdrawal_address = None, deposit_sender_address = None\<rparr>"

definition demo_db :: db where
  "demo_db = empty_db\<lparr>vaults := [demo_vault]\<rparr>"

definition demo_params :: auth_params where
  "demo_params = \<lparr>vaultId = ''v'', nullifierHash = ''n'',
     starknetTxHash = ''0x00112233445566778899aabbccddeeff'', bitcoinAddress = ''tb1q'', amountSats = 7\<rparr>"

lemma schema_demo: "schema_ok demo_db"
  by (simp add: demo_db_def demo_vault_def table_eval)

theorem createAuthorization_iff_witness:
  "schema_ok demo_db \<and> auth_admissible ''a'' demo_params demo_db \<and>
   (\<exists>a d'. createAuthorization ''a'' 5 demo_params demo_db = (Inr a, d')
      \<and> getAuthorizationById ''a'' d' = Some a)"
proof -
  have "auth_admissible ''a'' demo_params demo_db"
    by (simp add: auth_admissible_def demo_params_def demo_db_def empty_db_def demo_vault_def
        has_vault_def starts_with_def)
  then show ?thesis
    using createAuthorization_iff [OF schema_demo, of "''a''" 5 demo_params] schema_demo by blast
qed

end
