(* ===== verification/Covenant.thy ===== *)
theory Covenant
  imports Utxo Authorization Bytes
begin

text \<open>
  \<open>backend/src/services/BitcoinCovenantService.ts\<close>: payouts from the P2TR covenant address. The
  explorer's HTTP API and bitcoinjs-lib are parameters (\<open>covenant_env\<close>): the list of unspent
  outputs, the output scripts of a transaction, signing and extracting (\<open>sign_and_extract\<close>,
  which may throw), and the broadcast, of which \<open>api_post_tx\<close> is what its caller sees and \<open>api_lost\<close> tells
  whether the network took the transaction although the call fails: an answer that was lost, the abort after 10
  seconds, or an error of a gateway. (An answer with status 2xx means that it was taken.) The derivation of the address from the signing key calls
  bitcoinjs and elliptic-curve arithmetic (\<open>taproot_lib\<close>); \<open>covenant_address\<close> is its result.
\<close>

record covenant_env =
  covenant_address :: string
  api_utxos :: "utxo list http"
  api_tx_scripts :: "string \<Rightarrow> string list res"
  sign_and_extract :: "psbt \<Rightarrow> (string \<times> string) res"
  api_post_tx :: "string \<Rightarrow> string http"
  api_lost :: "string \<Rightarrow> bool"

section \<open>UTXOs\<close>

text \<open>\<open>tx.vout[utxo.vout].scriptpubkey\<close>; an index out of range is a \<open>TypeError\<close>.\<close>

definition attach_script :: "(string \<Rightarrow> string list res) \<Rightarrow> utxo \<Rightarrow> utxo res" where
  "attach_script tx_scripts u = bind_res (tx_scripts (txid u)) (\<lambda>outs.
     if vout u < length outs then Inr (u\<lparr>u_script := outs ! vout u\<rparr>)
     else Inl (Error ''Cannot read properties of undefined (reading 'scriptpubkey')''))"

fun attach_scripts :: "(string \<Rightarrow> string list res) \<Rightarrow> utxo list \<Rightarrow> utxo list res" where
  "attach_scripts tx_scripts [] = Inr []"
| "attach_scripts tx_scripts (u # us) =
     bind_res (attach_script tx_scripts u) (\<lambda>v. bind_res (attach_scripts tx_scripts us) (\<lambda>vs. Inr (v # vs)))"

definition fetchCovenantUtxos :: "covenant_env \<Rightarrow> utxo list res" where
  "fetchCovenantUtxos env = bind_res (http_res ''Failed to fetch UTXOs: '' (api_utxos env)) (attach_scripts (api_tx_scripts env))"

text \<open>The loop of \<open>selectUtxos\<close> over the sorted outputs; \<open>None\<close> when it runs off the end.\<close>

fun select_loop :: "int \<Rightarrow> int \<Rightarrow> utxo list \<Rightarrow> utxo list \<Rightarrow> int \<Rightarrow> (utxo list \<times> int) option" where
  "select_loop amount feePerInput [] selected totalValue = None"
| "select_loop amount feePerInput (u # us) selected totalValue =
     (let selected' = selected @ [u]; totalValue' = totalValue + u_value u;
          fee = feePerInput * int (length selected')
      in if totalValue' \<ge> amount + fee then Some (selected', totalValue')
         else select_loop amount feePerInput us selected' totalValue')"

definition selectUtxos :: "int \<Rightarrow> utxo list \<Rightarrow> int \<Rightarrow> (utxo list \<times> int) res" where
  "selectUtxos feePerInput utxos amount =
     (let sorted = desc utxos in
      case select_loop amount feePerInput sorted [] 0 of
        Some r \<Rightarrow> Inr r
      | None \<Rightarrow> Inl (Error (''Insufficient funds. Need '' @ str_of_int (amount + feePerInput)
                  @ '' sats (incl. fee), covenant total: '' @ str_of_int (total utxos)
                  @ '' sats across '' @ str_of_nat (length sorted) @ '' UTXO(s).'')))"

section \<open>Withdrawals\<close>

definition FEE_PER_INPUT :: int where "FEE_PER_INPUT = 2000"

text \<open>Steps 1 to 4 of \<open>createCovenantWithdrawal\<close>: everything up to the unsigned transaction.\<close>

definition covenant_psbt :: "covenant_env \<Rightarrow> string \<Rightarrow> db \<Rightarrow> psbt res" where
  "covenant_psbt env authorizationId d =
     (case getAuthorizationById authorizationId d of
        None \<Rightarrow> Inl (Error ''Authorization not found'')
      | Some auth \<Rightarrow> bind_res (fetchCovenantUtxos env) (\<lambda>utxos.
          if utxos = [] then Inl (Error ''No funds in covenant vault'')
          else bind_res (selectUtxos FEE_PER_INPUT utxos (amount_sats auth)) (\<lambda>(selectedUtxos, totalValue).
            let fee = FEE_PER_INPUT * int (length selectedUtxos);
                change = totalValue - amount_sats auth - fee
            in Inr \<lparr>p_inputs = selectedUtxos,
                    p_outputs = payment_outputs (bitcoin_address auth) (amount_sats auth)
                                  (covenant_address env) change\<rparr>)))"

definition createCovenantWithdrawal :: "covenant_env \<Rightarrow> string \<Rightarrow> db \<Rightarrow> (psbt \<times> string \<times> string) res" where
  "createCovenantWithdrawal env authorizationId d =
     bind_res (covenant_psbt env authorizationId d) (\<lambda>p.
     bind_res (sign_and_extract env p) (\<lambda>(txHex, tid). Inr (p, txHex, tid)))"

definition broadcastCovenantTransaction :: "covenant_env \<Rightarrow> string \<Rightarrow> string res" where
  "broadcastCovenantTransaction env txHex = http_res ''Broadcast failed: '' (api_post_tx env txHex)"

text \<open>
  The payout: the transaction the network took, if it took one, and the result of the call. The two are independent
  when the call fails.
\<close>

definition executeCovenantWithdrawal :: "covenant_env \<Rightarrow> string \<Rightarrow> db \<Rightarrow> psbt option \<times> string res" where
  "executeCovenantWithdrawal env authorizationId d =
     (case createCovenantWithdrawal env authorizationId d of
        Inl e \<Rightarrow> (None, Inl e)
      | Inr (p, txHex, _) \<Rightarrow> (case broadcastCovenantTransaction env txHex of
          Inl e \<Rightarrow> (if api_lost env txHex then Some p else None, Inl e)
        | Inr tid \<Rightarrow> (Some p, Inr tid)))"

section \<open>Status\<close>

record covenant_status =
  cs_address :: string
  cs_balance :: int
  cs_utxoCount :: nat
  cs_network :: string

definition getCovenantStatus :: "covenant_env \<Rightarrow> covenant_status" where
  "getCovenantStatus env =
     (let utxos = (case fetchCovenantUtxos env of Inl _ \<Rightarrow> [] | Inr us \<Rightarrow> us)
      in \<lparr>cs_address = covenant_address env, cs_balance = total utxos, cs_utxoCount = length utxos,
          cs_network = ''opcat-signet''\<rparr>)"

definition getCovenantBalance :: "covenant_env \<Rightarrow> int" where
  "getCovenantBalance env = (case fetchCovenantUtxos env of Inl _ \<Rightarrow> 0 | Inr us \<Rightarrow> total us)"

section \<open>Varints and witness stacks\<close>

definition varInt :: "int \<Rightarrow> buffer" where
  "varInt n = (if n < 0xfd then [byte_of n]
     else if n \<le> 0xffff then 0xfd # le_bytes 2 n
     else 0xfe # le_bytes 4 n)"

definition vi :: "int \<Rightarrow> buffer" where
  "vi n = (if n < 0xfd then [byte_of n]
     else if n < 0x10000 then 0xfd # le_bytes 2 n
     else if n < 0x100000000 then 0xfe # le_bytes 4 n
     else 0xff # le_bytes 8 n)"

definition encodeWitnessStack :: "buffer list \<Rightarrow> buffer" where
  "encodeWitnessStack witness =
     fold (\<lambda>w buf. buf @ vi (int (length w)) @ w) witness (vi (int (length witness)))"

section \<open>Deriving the address\<close>

text \<open>
  \<open>pointFromScalar\<close> (compressed; \<open>None\<close> is \<open>null\<close>), compiling \<open><key> OP_CHECKSIG\<close>, the P2TR payment's
  address and spending witness for an internal key and a leaf, and the tagged hash.
\<close>

record taproot_lib =
  point_from_scalar :: "buffer \<Rightarrow> buffer option"
  compile_checksig :: "buffer \<Rightarrow> buffer"
  p2tr_address :: "buffer \<Rightarrow> buffer \<Rightarrow> string"
  p2tr_witness :: "buffer \<Rightarrow> buffer \<Rightarrow> buffer list"
  tagged_hash :: "string \<Rightarrow> buffer \<Rightarrow> buffer"

record covenant_keys =
  ck_address :: string
  ck_tapscript :: buffer
  ck_internalPubkey :: buffer
  ck_controlBlock :: buffer
  ck_xOnlyPubkey :: buffer
  ck_privKey :: buffer

definition NUMS_KEY :: buffer where
  "NUMS_KEY = hex_decode ''50929b74c1a04954b78b4b6035e97a5e078a5a0f28ec96d547bfee9ace803ac0''"

definition deriveCovenant :: "taproot_lib \<Rightarrow> string option \<Rightarrow> covenant_keys res" where
  "deriveCovenant lib signing_key =
     (if \<not> truthy signing_key then Inl (Error ''SEQUENCER_SIGNING_KEY not set in .env'')
      else let privKey = hex_decode (the signing_key) in
        (case point_from_scalar lib privKey of
           None \<Rightarrow> Inl (Error ''The first argument must be of type string or an instance of Buffer, ArrayBuffer, or Array or an Array-like Object. Received null'')
         | Some compressedPub \<Rightarrow>
             let xOnlyPubkey = drop 1 compressedPub; tapscript = compile_checksig lib xOnlyPubkey;
                 w = p2tr_witness lib NUMS_KEY tapscript
             in if w = [] then Inl (Error ''Could not derive control block'')
                else Inr \<lparr>ck_address = p2tr_address lib NUMS_KEY tapscript, ck_tapscript = tapscript,
                       ck_internalPubkey = NUMS_KEY, ck_controlBlock = last w, ck_xOnlyPubkey = xOnlyPubkey,
                       ck_privKey = privKey\<rparr>))"

text \<open>The hash that every input is signed for.\<close>

definition tapLeafHash :: "taproot_lib \<Rightarrow> covenant_keys \<Rightarrow> buffer" where
  "tapLeafHash lib ck = tagged_hash lib ''TapLeaf''
     ([0xc0] @ varInt (int (length (ck_tapscript ck))) @ ck_tapscript ck)"

section \<open>Lemmas\<close>

lemma select_loop_Some:
  assumes "select_loop amount f us sel t = Some (s, tot)" and "t = total sel"
  shows "\<exists>k. 0 < k \<and> k \<le> length us \<and> s = sel @ take k us \<and> tot = total s
     \<and> amount + f * int (length sel + k) \<le> tot
     \<and> (\<forall>j. 0 < j \<longrightarrow> j < k \<longrightarrow> total (sel @ take j us) < amount + f * int (length sel + j))"
  using assms
proof (induction us arbitrary: sel t)
  case (Cons u us)
  show ?case
  proof (cases "t + u_value u \<ge> amount + f * int (Suc (length sel))")
    case True
    then show ?thesis using Cons.prems
      by (intro exI [of _ 1]) (auto simp: Let_def)
  next
    case False
    then have "select_loop amount f us (sel @ [u]) (t + u_value u) = Some (s, tot)"
      using Cons.prems by (simp add: Let_def)
    from Cons.IH [OF this] Cons.prems(2) obtain k where k: "0 < k" "k \<le> length us"
      "s = sel @ u # take k us" "tot = total s" "amount + f * int (length sel + Suc k) \<le> tot"
      "\<forall>j. 0 < j \<longrightarrow> j < k \<longrightarrow> total (sel @ u # take j us) < amount + f * int (length sel + Suc j)"
      by (auto simp: add.assoc)
    have "\<forall>j. 0 < j \<longrightarrow> j < Suc k \<longrightarrow>
        total (sel @ take j (u # us)) < amount + f * int (length sel + j)"
    proof (intro allI impI)
      fix j :: nat
      assume "0 < j" "j < Suc k"
      then show "total (sel @ take j (u # us)) < amount + f * int (length sel + j)"
        using k(6) False Cons.prems(2) by (cases j; cases "j = 1") (auto simp: gr0_conv_Suc)
    qed
    then show ?thesis using k by (intro exI [of _ "Suc k"]) auto
  qed
qed simp

lemma select_loop_None:
  assumes "select_loop amount f us sel t = None" and "t = total sel" and "0 < k" and "k \<le> length us"
  shows "total (sel @ take k us) < amount + f * int (length sel + k)"
  using assms
proof (induction us arbitrary: sel t k)
  case (Cons u us)
  have n: "\<not> t + u_value u \<ge> amount + f * int (Suc (length sel))"
    and r: "select_loop amount f us (sel @ [u]) (t + u_value u) = None"
    using Cons.prems(1) by (auto simp: Let_def split: if_splits)
  obtain m where m: "k = Suc m" using Cons.prems(3) by (cases k) auto
  show ?case
  proof (cases "m = 0")
    case True
    then show ?thesis using n Cons.prems m by simp
  next
    case False
    then show ?thesis using Cons.IH [OF r, of m] Cons.prems m by simp
  qed
qed simp

interpretation cov: coin_selection "selectUtxos f" "\<lambda>k. f * int k" for f
proof
  fix us amount s tot
  assume "selectUtxos f us amount = Inr (s, tot)"
  then have "select_loop amount f (desc us) [] 0 = Some (s, tot)"
    by (simp add: selectUtxos_def Let_def split: option.splits)
  from select_loop_Some [OF this]
  show "\<exists>k. 0 < k \<and> k \<le> length us \<and> s = take k (desc us) \<and> tot = total s \<and> amount + f * int k \<le> tot
      \<and> (\<forall>j. 0 < j \<longrightarrow> j < k \<longrightarrow> total (take j (desc us)) < amount + f * int j)"
    by simp
next
  fix k us amount
  assume k: "0 < k" "k \<le> length us" "amount + f * int k \<le> total (take k (desc us))"
  then have "select_loop amount f (desc us) [] 0 \<noteq> None"
    using select_loop_None [of amount f "desc us" "[]" 0 k] by (intro notI) simp
  then show "is_ok (selectUtxos f us amount)"
    by (cases "select_loop amount f (desc us) [] 0") (auto simp: selectUtxos_def Let_def)
qed

lemma attach_scripts_values:
  "attach_scripts tx_scripts us = Inr vs \<Longrightarrow> map u_value vs = map u_value us \<and> map txid vs = map txid us"
  by (induction us arbitrary: vs) (auto simp: attach_script_def split: if_splits)

section \<open>Properties\<close>

text \<open>
  C27. The coin selection is optimal: whenever some choice of covenant outputs covers the amount
  and 2000 satoshis per input, the greedy selection succeeds, with no more inputs than that
  choice has.
\<close>

theorem selectUtxos_optimal:
  assumes "mset c \<subseteq># mset us" and "c \<noteq> []" and "amount + FEE_PER_INPUT * int (length c) \<le> total c"
  shows "\<exists>s tot. selectUtxos FEE_PER_INPUT us amount = Inr (s, tot) \<and> length s \<le> length c"
  using assms by (rule cov.sel_optimal)

definition demo_coin :: "int \<Rightarrow> utxo" where
  "demo_coin v = \<lparr>txid = ''aa'', vout = 0, u_value = v, u_script = ''51''\<rparr>"

theorem selectUtxos_optimal_witness:
  "\<exists>s tot. selectUtxos FEE_PER_INPUT [demo_coin 3000, demo_coin 50000, demo_coin 9000] 52000 = Inr (s, tot)
           \<and> length s \<le> 2"
proof -
  have "mset [demo_coin 50000, demo_coin 9000]
      \<subseteq># mset [demo_coin 3000, demo_coin 50000, demo_coin 9000]"
    by (simp add: subset_mset.le_iff_add exI [of _ "{#demo_coin 3000#}"])
  from selectUtxos_optimal [OF this, of 52000] show ?thesis
    by (simp add: demo_coin_def FEE_PER_INPUT_def numeral_2_eq_2)
qed

text \<open>
  A selection that is returned is sound: it consists of available outputs, covers the
  amount and the fee, and it fails exactly when no non-empty choice of outputs would do.
\<close>

theorem selectUtxos_sound:
  "(case selectUtxos f us amount of
      Inr (s, tot) \<Rightarrow> mset s \<subseteq># mset us \<and> s \<noteq> [] \<and> tot = total s \<and> amount + f * int (length s) \<le> tot
    | Inl _ \<Rightarrow> {c. mset c \<subseteq># mset us \<and> c \<noteq> [] \<and> amount + f * int (length c) \<le> total c} = {})"
proof (cases "selectUtxos f us amount")
  case (Inl e)
  then show ?thesis using cov.sel_fails_iff [of f us amount] by simp
next
  case (Inr r)
  then show ?thesis using cov.sel_sound by (cases r) auto
qed

text \<open>
  C15. A covenant payout pays what was authorized and conserves value: the first output gives
  exactly the authorized amount to the authorized address, the only other output returns change
  to the covenant, and what is left to the miners is the flat fee of 2000 per input plus at most
  546 satoshis of unreturned dust.
\<close>

theorem covenant_payout_balance:
  assumes "executeCovenantWithdrawal env i d = (Some p, r)"
  shows "\<exists>a. getAuthorizationById i d = Some a
     \<and> hd (p_outputs p) = \<lparr>o_address = bitcoin_address a, o_value = amount_sats a\<rparr>
     \<and> set (map o_address (tl (p_outputs p))) \<subseteq> {covenant_address env} \<and> length (p_outputs p) \<le> 2
     \<and> 2000 * int (length (p_inputs p)) \<le> total (p_inputs p) - total_out p
     \<and> total (p_inputs p) - total_out p \<le> 2000 * int (length (p_inputs p)) + 546"
proof -
  have "covenant_psbt env i d = Inr p"
    using assms by (auto simp: executeCovenantWithdrawal_def createCovenantWithdrawal_def
        split: sum.splits prod.splits if_splits)
  then obtain a us s tot where a: "getAuthorizationById i d = Some a"
    and sel: "selectUtxos FEE_PER_INPUT us (amount_sats a) = Inr (s, tot)"
    and p: "p = \<lparr>p_inputs = s, p_outputs = payment_outputs (bitcoin_address a) (amount_sats a)
              (covenant_address env) (tot - amount_sats a - FEE_PER_INPUT * int (length s))\<rparr>"
    by (auto simp: covenant_psbt_def Let_def split: option.splits if_splits)
  note snd = cov.sel_sound [OF sel]
  note bal = payment_balance [OF snd(4) [unfolded snd(3)], of p "bitcoin_address a" "covenant_address env"]
  show ?thesis using a p bal snd(3)
    by (auto simp: payment_outputs_def FEE_PER_INPUT_def)
qed

definition demo_auth_db :: db where
  "demo_auth_db = demo_db\<lparr>auths := [new_auth ''a'' 5 (demo_params\<lparr>amountSats := 10000\<rparr>)]\<rparr>"

definition demo_env :: covenant_env where
  "demo_env = \<lparr>covenant_address = ''tb1pcov'', api_utxos = HttpOk [demo_coin 50000],
     api_tx_scripts = (\<lambda>_. Inr [''5120'']), sign_and_extract = (\<lambda>_. Inr (''02'', ''t'')),
     api_post_tx = (\<lambda>_. HttpOk ''t''), api_lost = (\<lambda>_. False)\<rparr>"

theorem covenant_payout_balance_witness:
  "\<exists>p r a. executeCovenantWithdrawal demo_env ''a'' demo_auth_db = (Some p, r)
     \<and> getAuthorizationById ''a'' demo_auth_db = Some a
     \<and> hd (p_outputs p) = \<lparr>o_address = bitcoin_address a, o_value = amount_sats a\<rparr>"
proof -
  have "\<exists>p r. executeCovenantWithdrawal demo_env ''a'' demo_auth_db = (Some p, r)"
    by (simp add: executeCovenantWithdrawal_def createCovenantWithdrawal_def covenant_psbt_def
        demo_auth_db_def demo_env_def getAuthorizationById_def row_by_def fetchCovenantUtxos_def
        attach_script_def demo_coin_def selectUtxos_def desc_def FEE_PER_INPUT_def
        broadcastCovenantTransaction_def Let_def demo_params_def)
  then obtain p r where e: "executeCovenantWithdrawal demo_env ''a'' demo_auth_db = (Some p, r)" by blast
  show ?thesis using e covenant_payout_balance [OF e] by blast
qed

end
