(* ===== verification/Broadcast.thy ===== *)
theory Broadcast
  imports Covenant JsNum
begin

text \<open>
  \<open>backend/src/services/BitcoinBroadcastService.ts\<close>: payouts from the custodian's hot wallet. The
  environment variables, the mempool API, key parsing and bitcoinjs-lib are the fields of
  \<open>btc_env\<close>; \<open>b_build\<close> stands for adding the outputs, signing and extracting, each of which
  may throw. As in \<open>Covenant\<close>, \<open>b_lost\<close> tells whether the network took a transaction although posting it
  failed. A fee rate is a double, the estimated fee its product with an integer, rounded
  up.
\<close>

record btc_env =
  cfg_key :: "string option"
  cfg_sender :: "string option"
  cfg_vault :: "string option"
  from_wif :: "string \<Rightarrow> string res"
  b_utxos :: "string \<Rightarrow> utxo list http"
  b_fees :: "(string \<Rightarrow> rat option) http"
  b_tx_scripts :: "string \<Rightarrow> string list res"
  b_build :: "string \<Rightarrow> psbt \<Rightarrow> string res"
  b_post :: "string \<Rightarrow> string http"
  b_lost :: "string \<Rightarrow> bool"

section \<open>Coin selection with a fee rate\<close>

text \<open>\<open>fees['1'] || fees['2'] || fees['3'] || 1\<close>; any failure leaves the rate at 1.\<close>

definition num_truthy :: "rat option \<Rightarrow> bool" where
  "num_truthy x = (case x of None \<Rightarrow> False | Some r \<Rightarrow> r \<noteq> 0)"

definition feeRate :: "btc_env \<Rightarrow> rat" where
  "feeRate env = (case b_fees env of
     HttpOk fees \<Rightarrow>
       if num_truthy (fees ''1'') then the (fees ''1'')
       else if num_truthy (fees ''2'') then the (fees ''2'')
       else if num_truthy (fees ''3'') then the (fees ''3'')
       else 1
   | _ \<Rightarrow> 1)"

definition estimatedFee :: "rat \<Rightarrow> nat \<Rightarrow> int" where
  "estimatedFee rate k = \<lceil>mul (of_nat (k * 68 + 2 * 31 + 12)) rate\<rceil>"

text \<open>The selection loop: what is selected, its total and the fee when it ends.\<close>

fun pick_loop :: "int \<Rightarrow> rat \<Rightarrow> utxo list \<Rightarrow> utxo list \<Rightarrow> int \<Rightarrow> int \<Rightarrow> utxo list \<times> int \<times> int" where
  "pick_loop sats rate [] selected totalInput fee = (selected, totalInput, fee)"
| "pick_loop sats rate (u # us) selected totalInput fee =
     (let selected' = selected @ [u]; totalInput' = totalInput + u_value u;
          fee' = estimatedFee rate (length selected')
      in if totalInput' \<ge> sats + fee' then (selected', totalInput', fee')
         else pick_loop sats rate us selected' totalInput' fee')"

definition pickUtxos :: "rat \<Rightarrow> (int \<Rightarrow> int \<Rightarrow> string) \<Rightarrow> utxo list \<Rightarrow> int \<Rightarrow> (utxo list \<times> int) res" where
  "pickUtxos rate msg utxos sats =
     (case pick_loop sats rate (desc utxos) [] 0 0 of (selected, totalInput, fee) \<Rightarrow>
        if totalInput < sats + fee then Inl (Error (msg totalInput (sats + fee)))
        else Inr (selected, totalInput))"

section \<open>Building and sending\<close>

text \<open>Steps 1 to 6, shared by the two public methods; \<open>msgs\<close> are their error texts.\<close>

record send_msgs =
  m_no_utxos :: string
  m_insufficient :: "int \<Rightarrow> int \<Rightarrow> string"
  m_broadcast :: string

definition fetch_utxos :: "btc_env \<Rightarrow> send_msgs \<Rightarrow> string \<Rightarrow> utxo list res" where
  "fetch_utxos env m sender = bind_res (http_res ''Fetch UTXOs failed: '' (b_utxos env sender))
     (\<lambda>us. if us = [] then Inl (Error (m_no_utxos m)) else Inr us)"

definition send_psbt :: "btc_env \<Rightarrow> send_msgs \<Rightarrow> string \<Rightarrow> string \<Rightarrow> int \<Rightarrow> psbt res" where
  "send_psbt env m sender recipient sats =
     bind_res (fetch_utxos env m sender) (\<lambda>us.
     bind_res (pickUtxos (feeRate env) (m_insufficient m) us sats) (\<lambda>(selected, totalInput).
     bind_res (attach_scripts (b_tx_scripts env) selected) (\<lambda>ins.
       Inr \<lparr>p_inputs = ins,
            p_outputs = payment_outputs recipient sats sender
              (totalInput - sats - estimatedFee (feeRate env) (length selected))\<rparr>)))"

text \<open>The transaction the network took, if it took one, and the result of the call.\<close>

definition send_tx :: "btc_env \<Rightarrow> send_msgs \<Rightarrow> string \<Rightarrow> string \<Rightarrow> string \<Rightarrow> int \<Rightarrow> psbt option \<times> string res" where
  "send_tx env m wif sender recipient sats =
     (case bind_res (from_wif env wif) (\<lambda>keyPair.
             bind_res (send_psbt env m sender recipient sats) (\<lambda>p.
             bind_res (b_build env keyPair p) (\<lambda>txHex. Inr (p, txHex)))) of
        Inl e \<Rightarrow> (None, Inl e)
      | Inr (p, txHex) \<Rightarrow> (case http_res (m_broadcast m) (b_post env txHex) of
          Inl e \<Rightarrow> (if b_lost env txHex then Some p else None, Inl e)
        | Inr tid \<Rightarrow> (Some p, Inr tid)))"

definition vault_msgs :: send_msgs where
  "vault_msgs = \<lparr>m_no_utxos = ''No UTXOs found for sender address.'',
     m_insufficient = (\<lambda>have need. ''Insufficient funds: Have '' @ str_of_int have @ '', need '' @ str_of_int need),
     m_broadcast = ''Broadcast failed: ''\<rparr>"

definition broadcastSignetTransaction :: "btc_env \<Rightarrow> int \<Rightarrow> psbt option \<times> string res" where
  "broadcastSignetTransaction env sats =
     (if \<not> truthy (cfg_key env) \<or> \<not> truthy (cfg_sender env) \<or> \<not> truthy (cfg_vault env) then
        (None, Inl (Error ''Missing Bitcoin configuration in .env (SENDER_PRIVATE_KEY, SENDER_ADDRESS, or VAULT_ADDRESS_BTC)''))
      else send_tx env vault_msgs (the (cfg_key env)) (the (cfg_sender env)) (the (cfg_vault env)) sats)"

definition payout_msgs :: "string \<Rightarrow> send_msgs" where
  "payout_msgs sender = \<lparr>
     m_no_utxos = ''No UTXOs found for sender address '' @ sender @ ''. Cannot process withdrawal.'',
     m_insufficient = (\<lambda>have need. ''Insufficient funds in custodian wallet. Have: '' @ str_of_int have
        @ '' sats, Need: '' @ str_of_int need @ '' sats (amount + fee). Fund '' @ sender @ '' with Signet BTC.''),
     m_broadcast = ''Bitcoin broadcast failed: ''\<rparr>"

definition sendBitcoinToAddress :: "btc_env \<Rightarrow> string \<Rightarrow> int \<Rightarrow> psbt option \<times> string res" where
  "sendBitcoinToAddress env recipientAddress sats =
     (if \<not> truthy (cfg_key env) \<or> \<not> truthy (cfg_sender env) then
        (None, Inl (Error ''Missing Bitcoin configuration in .env (SENDER_PRIVATE_KEY or SENDER_ADDRESS)''))
      else if recipientAddress = [] \<or> \<not> starts_with recipientAddress ''tb1'' then
        (None, Inl (Error ''Invalid recipient address - must be a Signet testnet address (starts with tb1)''))
      else let sender = the (cfg_sender env)
           in send_tx env (payout_msgs sender) (the (cfg_key env)) sender recipientAddress sats)"

definition sendBitcoinToAddressUnsafe :: "btc_env \<Rightarrow> string \<Rightarrow> int \<Rightarrow> psbt option \<times> string res" where
  "sendBitcoinToAddressUnsafe env recipientAddress sats = sendBitcoinToAddress env recipientAddress sats"

text \<open>
  The authorized payout. The \<open>catch\<close> block also covers the update to \<open>completed\<close>, which throws
  when the API answered with an empty transaction id.
\<close>

definition sendBitcoinWithAuthorization
    :: "btc_env \<Rightarrow> int \<Rightarrow> string \<Rightarrow> db \<Rightarrow> psbt option \<times> string res \<times> db" where
  "sendBitcoinWithAuthorization env now authorizationId d =
     (case getAuthorizationById authorizationId d of
        None \<Rightarrow> (None, Inl (Error (''Authorization not found: '' @ authorizationId)), d)
      | Some auth \<Rightarrow>
          let v = verifyAuthorization (a_nullifier_hash auth) d in
          if \<not> valid v then
            (None, Inl (Error (''Invalid authorization: '' @ (case v_error v of None \<Rightarrow> ''undefined'' | Some m \<Rightarrow> m))), d)
          else
            let d1 = auth_step (Update now authorizationId a_processing None None) d;
                fail = (\<lambda>p e. (p, Inl e, auth_step (Update now authorizationId a_failed None (Some (message e))) d1))
            in (case sendBitcoinToAddress env (bitcoin_address auth) (amount_sats auth) of
                  (p, Inl e) \<Rightarrow> fail p e
                | (p, Inr tid) \<Rightarrow>
                    (case updateStatus now authorizationId a_completed (Some tid) None d1 of
                       Inl e \<Rightarrow> fail p e
                     | Inr d2 \<Rightarrow> (p, Inr tid, d2))))"

section \<open>Lemmas\<close>

text \<open>What the loop leaves when it took \<open>k\<close> of the outputs \<open>us\<close> after \<open>sel\<close>.\<close>

definition picked :: "int \<Rightarrow> rat \<Rightarrow> utxo list \<Rightarrow> utxo list \<Rightarrow> utxo list \<Rightarrow> int \<Rightarrow> int \<Rightarrow> nat \<Rightarrow> bool" where
  "picked amount rate sel us s tot fee k \<longleftrightarrow>
     k \<le> length us \<and> s = sel @ take k us \<and> tot = total s \<and> s \<noteq> [] \<and> fee = estimatedFee rate (length s)
     \<and> (k < length us \<longrightarrow> amount + fee \<le> tot)
     \<and> (\<forall>j. 0 < j \<longrightarrow> j < k \<longrightarrow>
           total (sel @ take j us) < amount + estimatedFee rate (length sel + j))"

lemma pick_loop_spec:
  assumes "pick_loop amount rate us sel t fee = (s, tot, fee')" and "t = total sel"
    and "us \<noteq> [] \<or> (sel \<noteq> [] \<and> fee = estimatedFee rate (length sel))"
  shows "\<exists>k. picked amount rate sel us s tot fee' k"
  using assms
proof (induction us arbitrary: sel t fee)
  case (Cons u us)
  show ?case
  proof (cases "t + u_value u \<ge> amount + estimatedFee rate (Suc (length sel))")
    case True
    then show ?thesis using Cons.prems
      by (intro exI [of _ 1]) (auto simp: Let_def picked_def)
  next
    case False
    then have "pick_loop amount rate us (sel @ [u]) (t + u_value u) (estimatedFee rate (length (sel @ [u])))
        = (s, tot, fee')"
      using Cons.prems by (simp add: Let_def)
    from Cons.IH [OF this] Cons.prems(2) obtain k where k: "picked amount rate (sel @ [u]) us s tot fee' k"
      by auto
    have "total (sel @ take j (u # us)) < amount + estimatedFee rate (length sel + j)"
      if "0 < j" "j < Suc k" for j
    proof (cases "j = 1")
      case True
      then show ?thesis using False Cons.prems(2) by simp
    next
      case False
      then have i: "j = Suc (j - 1)" "0 < j - 1" "j - 1 < k" using that by auto
      then have "total ((sel @ [u]) @ take (j - 1) us)
          < amount + estimatedFee rate (length (sel @ [u]) + (j - 1))"
        using k unfolding picked_def by blast
      moreover have "take j (u # us) = u # take (j - 1) us" using that(1) by (simp add: take_Cons')
      ultimately show ?thesis using i by simp
    qed
    then have "picked amount rate sel (u # us) s tot fee' (Suc k)"
      using k unfolding picked_def by auto
    then show ?thesis by blast
  qed
next
  case Nil
  then show ?case by (intro exI [of _ 0]) (auto simp: picked_def)
qed

lemma pick_loop_desc:
  assumes "us \<noteq> []" and e: "pick_loop amount rate (desc us) [] 0 0 = (s, tot, fee)"
  shows "\<exists>k. 0 < k \<and> k \<le> length us \<and> s = take k (desc us) \<and> tot = total s \<and> fee = estimatedFee rate k
     \<and> (k < length us \<longrightarrow> amount + fee \<le> tot)
     \<and> (\<forall>j. 0 < j \<longrightarrow> j < k \<longrightarrow> total (take j (desc us)) < amount + estimatedFee rate j)"
proof -
  have ne: "desc us \<noteq> []" using assms by (metis length_0_conv length_desc)
  then obtain k where k: "picked amount rate [] (desc us) s tot fee k"
    using pick_loop_spec [OF e] by auto
  then have "length s = k" "0 < k" by (simp_all add: picked_def) (metis gr0I take0)
  then show ?thesis using k by (intro exI [of _ k]) (auto simp: picked_def)
qed

interpretation wallet: coin_selection "\<lambda>us a. if us = [] then Inl (Error []) else pickUtxos rate msg us a"
  "estimatedFee rate" for rate msg
proof
  fix us amount s tot
  assume a: "(if us = [] then Inl (Error []) else pickUtxos rate msg us amount) = Inr (s, tot)"
  then have ne: "us \<noteq> []" by auto
  then obtain fee where e: "pick_loop amount rate (desc us) [] 0 0 = (s, tot, fee)"
    and c: "amount + fee \<le> tot"
    using a by (auto simp: pickUtxos_def split: prod.splits if_splits)
  show "\<exists>k. 0 < k \<and> k \<le> length us \<and> s = take k (desc us) \<and> tot = total s \<and> amount + estimatedFee rate k \<le> tot
      \<and> (\<forall>j. 0 < j \<longrightarrow> j < k \<longrightarrow> total (take j (desc us)) < amount + estimatedFee rate j)"
    using pick_loop_desc [OF ne e] c by blast
next
  fix k us amount
  assume k: "0 < k" "k \<le> length us" "amount + estimatedFee rate k \<le> total (take k (desc us))"
  then have ne: "us \<noteq> []" by auto
  obtain s tot fee where e: "pick_loop amount rate (desc us) [] 0 0 = (s, tot, fee)"
    by (metis prod_cases3)
  then obtain l where l: "0 < l" "l \<le> length us" "s = take l (desc us)" "tot = total s"
      "fee = estimatedFee rate l" "l < length us \<longrightarrow> amount + fee \<le> tot"
      "\<forall>j. 0 < j \<longrightarrow> j < l \<longrightarrow> total (take j (desc us)) < amount + estimatedFee rate j"
    using pick_loop_desc [OF ne] by blast
  have "amount + fee \<le> tot"
  proof (cases "l < length us")
    case False
    then have "l = length us" using l(2) by simp
    moreover have "\<not> k < l" using k(1,3) l(7) by (metis not_le)
    ultimately show ?thesis using k l(3,4,5) by simp
  qed (use l(6) in simp)
  then show "is_ok (if us = [] then Inl (Error []) else pickUtxos rate msg us amount)"
    using ne e by (simp add: pickUtxos_def)
qed

lemma send_psbt_sound:
  assumes "send_psbt env m sender recipient amount = Inr p"
  shows "hd (p_outputs p) = \<lparr>o_address = recipient, o_value = amount\<rparr>"
    "set (map o_address (tl (p_outputs p))) \<subseteq> {sender}" "length (p_outputs p) \<le> 2"
    "estimatedFee (feeRate env) (length (p_inputs p)) \<le> total (p_inputs p) - total_out p"
    "total (p_inputs p) - total_out p \<le> estimatedFee (feeRate env) (length (p_inputs p)) + 546"
proof -
  obtain us s tot ins where u: "fetch_utxos env m sender = Inr us"
    and s: "pickUtxos (feeRate env) (m_insufficient m) us amount = Inr (s, tot)"
    and i: "attach_scripts (b_tx_scripts env) s = Inr ins"
    and p: "p = \<lparr>p_inputs = ins, p_outputs = payment_outputs recipient amount sender
              (tot - amount - estimatedFee (feeRate env) (length s))\<rparr>"
    using assms by (auto simp: send_psbt_def)
  have "us \<noteq> []" using u by (auto simp: fetch_utxos_def split: http.splits if_splits)
  then have "tot = total s" "amount + estimatedFee (feeRate env) (length s) \<le> tot"
    using wallet.sel_sound(3,4) [of us "feeRate env" "m_insufficient m" amount s tot] s by simp_all
  moreover have "total ins = total s" "length ins = length s"
    using attach_scripts_values [OF i] by (simp_all add: total_def) (metis length_map)
  ultimately show "hd (p_outputs p) = \<lparr>o_address = recipient, o_value = amount\<rparr>"
    "set (map o_address (tl (p_outputs p))) \<subseteq> {sender}" "length (p_outputs p) \<le> 2"
    "estimatedFee (feeRate env) (length (p_inputs p)) \<le> total (p_inputs p) - total_out p"
    "total (p_inputs p) - total_out p \<le> estimatedFee (feeRate env) (length (p_inputs p)) + 546"
    using payment_balance [of amount "estimatedFee (feeRate env) (length s)" ins p recipient sender] p
    by (auto simp: payment_outputs_def)
qed

lemma send_tx_psbt:
  assumes "send_tx env m wif sender r amount = (Some p, x)"
  shows "send_psbt env m sender r amount = Inr p
     \<and> (\<exists>h. (\<exists>t. x = Inr t \<and> b_post env h = HttpOk t) \<or> (\<exists>e. x = Inl e \<and> b_lost env h))"
proof -
  obtain k q h where s: "from_wif env wif = Inr k" "send_psbt env m sender r amount = Inr q" "b_build env k q = Inr h"
    using assms by (auto simp: send_tx_def split: sum.splits)
  then have "(Some p, x) = (case http_res (m_broadcast m) (b_post env h) of
      Inl e \<Rightarrow> (if b_lost env h then Some q else None, Inl e) | Inr tid \<Rightarrow> (Some q, Inr tid))"
    using assms by (simp add: send_tx_def)
  then show ?thesis using s(2) by (cases "b_post env h") (auto simp: http_res_def split: if_splits)
qed

lemma sendBitcoinToAddress_psbt:
  assumes "sendBitcoinToAddress env r amount = (Some p, x)"
  shows "\<exists>m h. send_psbt env m (the (cfg_sender env)) r amount = Inr p
     \<and> ((\<exists>t. x = Inr t \<and> b_post env h = HttpOk t) \<or> (\<exists>e. x = Inl e \<and> b_lost env h)) \<and> starts_with r ''tb1''"
proof -
  have "send_tx env (payout_msgs (the (cfg_sender env))) (the (cfg_key env)) (the (cfg_sender env)) r amount = (Some p, x)"
    "starts_with r ''tb1''"
    using assms by (auto simp: sendBitcoinToAddress_def Let_def split: if_splits)
  then show ?thesis using send_tx_psbt by blast
qed

lemma sendBitcoinToAddress_fails: "sendBitcoinToAddress env r amount = (None, x) \<Longrightarrow> \<not> is_ok x"
  by (auto simp: sendBitcoinToAddress_def send_tx_def Let_def is_ok_def split: if_splits sum.splits prod.splits)

end
