(* ===== verification/Processor.thy ===== *)
theory Processor
  imports Broadcast
begin

text \<open>
  \<open>backend/src/services/WithdrawalProcessor.ts\<close>: the background process that turns pending
  authorizations into Bitcoin payouts. What the network answers while one authorization is
  processed is a \<open>proc_env\<close>; a pass over the pending authorizations has one environment per
  authorization, since the network changes between them. Payouts that reached the Bitcoin network
  are logged with the id of their authorization.
\<close>

record proc_config =
  pollIntervalMs :: int
  minConfirmations :: int
  useCovenants :: bool

text \<open>
  \<open>receipt\<close> is what \<open>getTransactionReceipt\<close> gives within the 15 seconds of the race, \<open>None\<close>
  when it has not settled by then.
\<close>

record proc_env =
  clock :: int
  receipt :: "string \<Rightarrow> string res option"
  wallet_env :: btc_env
  cov_env :: covenant_env

section \<open>Processing one authorization\<close>

definition verifyStarknetTransaction :: "proc_env \<Rightarrow> string \<Rightarrow> bool" where
  "verifyStarknetTransaction env txHash = (case receipt env txHash of
     None \<Rightarrow> True
   | Some (Inl e) \<Rightarrow> False
   | Some (Inr execution_status) \<Rightarrow> execution_status = ''SUCCEEDED'')"

text \<open>Step 2: the payout through the covenant or the hot wallet.\<close>

definition payout :: "proc_config \<Rightarrow> proc_env \<Rightarrow> string \<Rightarrow> db \<Rightarrow> psbt option \<times> string res \<times> db" where
  "payout cfg env i d =
     (if useCovenants cfg
      then (case executeCovenantWithdrawal (cov_env env) i d of (p, r) \<Rightarrow> (p, r, d))
      else sendBitcoinWithAuthorization (wallet_env env) (clock env) i d)"

definition processAuthorization :: "proc_config \<Rightarrow> proc_env \<Rightarrow> auth_row \<Rightarrow> db \<Rightarrow> psbt option \<times> db" where
  "processAuthorization cfg env auth d =
     (let i = a_id auth;
          reset = auth_step (Update (clock env) i a_pending None None);
          d1 = auth_step (Update (clock env) i a_processing None None) d
      in if \<not> verifyStarknetTransaction env (starknet_tx_hash auth) then (None, reset d1)
         else (case payout cfg env i d1 of
           (p, Inl e, d2) \<Rightarrow> (p, reset d2)
         | (p, Inr tid, d2) \<Rightarrow>
             (case updateStatus (clock env) i a_completed (Some tid) None d2 of
                Inl e \<Rightarrow> (p, reset d2)
              | Inr d3 \<Rightarrow> (p, d3))))"

section \<open>A pass, and a run\<close>

type_synonym payments = "(string \<times> psbt) list"

fun process_all :: "proc_config \<Rightarrow> (string \<Rightarrow> proc_env) \<Rightarrow> auth_row list \<Rightarrow> db \<Rightarrow> payments \<times> db" where
  "process_all cfg envs [] d = ([], d)"
| "process_all cfg envs (auth # todo) d =
     (case processAuthorization cfg (envs (a_id auth)) auth d of (p, d1) \<Rightarrow>
      case process_all cfg envs todo d1 of (paid, d2) \<Rightarrow>
        ((case p of None \<Rightarrow> [] | Some t \<Rightarrow> [(a_id auth, t)]) @ paid, d2))"

definition processAuthorizations :: "proc_config \<Rightarrow> (string \<Rightarrow> proc_env) \<Rightarrow> db \<Rightarrow> payments \<times> db" where
  "processAuthorizations cfg envs d = process_all cfg envs (getPendingAuthorizations d) d"

text \<open>The passes of one poll chain, one after the other.\<close>

fun processor_run :: "proc_config \<Rightarrow> (string \<Rightarrow> proc_env) list \<Rightarrow> db \<Rightarrow> payments \<times> db" where
  "processor_run cfg [] d = ([], d)"
| "processor_run cfg (envs # rest) d =
     (case processAuthorizations cfg envs d of (log1, d1) \<Rightarrow>
      case processor_run cfg rest d1 of (log2, d2) \<Rightarrow> (log1 @ log2, d2))"

section \<open>The poll loop\<close>

text \<open>
  \<open>isRunning\<close>, and the number of \<open>setTimeout\<close> callbacks that \<open>poll\<close> has scheduled and that have
  not fired yet.
\<close>

record processor =
  isRunning :: bool
  timers :: nat

definition poll :: "processor \<Rightarrow> processor" where
  "poll p = (if \<not> isRunning p then p else p\<lparr>timers := Suc (timers p)\<rparr>)"

definition start_processor :: "proc_config \<Rightarrow> (string \<Rightarrow> proc_env) \<Rightarrow> processor \<Rightarrow> db \<Rightarrow> processor \<times> payments \<times> db" where
  "start_processor cfg envs p d =
     (if isRunning p then (p, [], d)
      else let p1 = p\<lparr>isRunning := True\<rparr> in
        case processAuthorizations cfg envs d of (paid, d1) \<Rightarrow> (poll p1, paid, d1))"

definition stop_processor :: "processor \<Rightarrow> processor" where
  "stop_processor p = p\<lparr>isRunning := False\<rparr>"

text \<open>The callback does not test \<open>isRunning\<close> before its pass, only \<open>poll\<close> does after it.\<close>

definition on_poll :: "proc_config \<Rightarrow> (string \<Rightarrow> proc_env) \<Rightarrow> processor \<Rightarrow> db \<Rightarrow> processor \<times> payments \<times> db" where
  "on_poll cfg envs p d = (case processAuthorizations cfg envs d of (paid, d1) \<Rightarrow>
     (poll (p\<lparr>timers := timers p - 1\<rparr>), paid, d1))"

record processor_stats =
  running :: bool
  pollIntervalSeconds :: rat
  st_minConfirmations :: int
  covenantMode :: bool
  authorizations :: auth_stats

definition getProcessorStats :: "proc_config \<Rightarrow> processor \<Rightarrow> db \<Rightarrow> processor_stats" where
  "getProcessorStats cfg p d = \<lparr>running = isRunning p,
     pollIntervalSeconds = dvd_js (of_int (pollIntervalMs cfg)) 1000,
     st_minConfirmations = minConfirmations cfg, covenantMode = useCovenants cfg,
     authorizations = getStats d\<rparr>"

section \<open>Lemmas\<close>

definition status_of :: "string \<Rightarrow> db \<Rightarrow> auth_status option" where
  "status_of i d = map_option a_status (getAuthorizationById i d)"

text \<open>\<open>d'\<close> comes from \<open>d\<close> by status updates of authorization \<open>i\<close> alone.\<close>

inductive touches :: "string \<Rightarrow> db \<Rightarrow> db \<Rightarrow> bool" for i where
  none: "touches i d d"
| update: "touches i d d1 \<Longrightarrow> touches i d (auth_step (Update now i s t e) d1)"

lemma touches_trans: "touches i d1 d2 \<Longrightarrow> touches i d d1 \<Longrightarrow> touches i d d2"
  by (induction rule: touches.induct) (auto intro: touches.intros simp del: auth_step.simps)

lemma get_update_auth:
  "(\<And>a. a_id (f a) = a_id a) \<Longrightarrow>
     getAuthorizationById j (update_auth i f d) =
       map_option (\<lambda>a. if a_id a = i then f a else a) (getAuthorizationById j d)"
  by (simp add: getAuthorizationById_def update_auth_def row_by_update)

lemma auth_step_get:
  "\<exists>f. (\<forall>a. terms (f a) = terms a) \<and>
     getAuthorizationById j (auth_step (Update now i s t e) d)
       = map_option (\<lambda>a. if a_id a = i then f a else a) (getAuthorizationById j d)"
proof (cases "updateStatus now i s t e d")
  case (Inl x)
  then show ?thesis by (intro exI [of _ id]) (cases "getAuthorizationById j d", auto)
next
  case (Inr d')
  then obtain f where "d' = update_auth i f d" "\<forall>a. terms (f a) = terms a"
    using updateStatus_auths by blast
  then show ?thesis using Inr get_update_auth [of f j i d]
    by (intro exI [of _ f]) (auto simp: terms_def)
qed

lemma get_id: "getAuthorizationById j d = Some a \<Longrightarrow> a_id a = j"
  by (auto simp: getAuthorizationById_def dest: row_by_Some)

lemma updateStatus_status:
  assumes "updateStatus now i s t e d = Inr d'"
  shows "status_of i d' = map_option (\<lambda>_. s) (status_of i d)"
proof -
  obtain f where "d' = update_auth i f d" "\<forall>a. terms (f a) = terms a \<and> a_status (f a) = s"
    using updateStatus_auths [OF assms] by blast
  then show ?thesis using get_update_auth [of f i i d]
    by (cases "getAuthorizationById i d") (auto simp: status_of_def terms_def dest: get_id)
qed

lemma status_step:
  "s \<noteq> a_completed \<Longrightarrow> status_of i (auth_step (Update now i s t e) d) = map_option (\<lambda>_. s) (status_of i d)"
  using updateStatus_status [of now i s t e d] by (auto simp: updateStatus_def)

lemma touches_other: "touches i d d' \<Longrightarrow> j \<noteq> i \<Longrightarrow> getAuthorizationById j d' = getAuthorizationById j d"
proof (induction rule: touches.induct)
  case (update d d1 now s t e)
  obtain f where "getAuthorizationById j (auth_step (Update now i s t e) d1)
       = map_option (\<lambda>a. if a_id a = i then f a else a) (getAuthorizationById j d1)"
    using auth_step_get by blast
  moreover have "map_option (\<lambda>a. if a_id a = i then f a else a) (getAuthorizationById j d1)
      = getAuthorizationById j d1"
    using update.prems get_id [of j d1] by (cases "getAuthorizationById j d1") auto
  ultimately show ?case using update by simp
qed simp

lemma touches_terms: "touches i d d' \<Longrightarrow>
    map_option terms (getAuthorizationById j d') = map_option terms (getAuthorizationById j d)"
proof (induction rule: touches.induct)
  case (update d d1 now s t e)
  obtain f where "\<forall>a. terms (f a) = terms a" "getAuthorizationById j (auth_step (Update now i s t e) d1)
       = map_option (\<lambda>a. if a_id a = i then f a else a) (getAuthorizationById j d1)"
    using auth_step_get by blast
  then show ?case using update by (cases "getAuthorizationById j d1") auto
qed simp

lemma touches_schema: "touches i d d' \<Longrightarrow> schema_ok d \<Longrightarrow> schema_ok d'"
  by (induction rule: touches.induct) (auto intro: auth_step_schema simp del: auth_step.simps)

lemma touches_completed:
  "updateStatus now i s t e d1 = Inr d2 \<Longrightarrow> touches i d d1 \<Longrightarrow> touches i d d2"
  using touches.update [of i d d1 now s t e] by simp

lemma sendBitcoinWithAuthorization_touches:
  "sendBitcoinWithAuthorization env now i d = (p, r, d') \<Longrightarrow> touches i d d'"
  by (auto simp: sendBitcoinWithAuthorization_def Let_def simp del: auth_step.simps
      intro: touches.intros touches_completed split: option.splits if_splits prod.splits sum.splits)

text \<open>
  The answers to broadcasts arrive: a transaction that the network takes is answered with its id, and no call fails whose
  transaction was taken.
\<close>

definition broadcasts_answered :: "proc_env \<Rightarrow> bool" where
  "broadcasts_answered env \<longleftrightarrow> (\<forall>h t. api_post_tx (cov_env env) h = HttpOk t \<longrightarrow> t \<noteq> [])
     \<and> (\<forall>h t. b_post (wallet_env env) h = HttpOk t \<longrightarrow> t \<noteq> [])
     \<and> (\<forall>h. \<not> api_lost (cov_env env) h) \<and> (\<forall>h. \<not> b_lost (wallet_env env) h)"

definition pays_terms :: "psbt \<Rightarrow> auth_row \<Rightarrow> bool" where
  "pays_terms p a \<longleftrightarrow> hd (p_outputs p) = \<lparr>o_address = bitcoin_address a, o_value = amount_sats a\<rparr>"

lemma payout_legacy:
  assumes "sendBitcoinWithAuthorization env now i d = (p, r, d')"
  shows "(\<exists>e. p = None \<and> r = Inl e)
       \<or> (\<exists>q h a. p = Some q \<and> getAuthorizationById i d = Some a \<and> pays_terms q a
             \<and> ((\<exists>t. b_post env h = HttpOk t \<and> (t \<noteq> [] \<longrightarrow> r = Inr t)) \<or> b_lost env h))"
proof (cases "getAuthorizationById i d")
  case None
  then show ?thesis using assms by (auto simp: sendBitcoinWithAuthorization_def)
next
  case (Some a)
  obtain p0 r0 where s: "sendBitcoinToAddress env (bitcoin_address a) (amount_sats a) = (p0, r0)"
    by fastforce
  show ?thesis
  proof (cases p0)
    case None
    then have "\<not> is_ok r0" using sendBitcoinToAddress_fails s by blast
    then obtain e where "r0 = Inl e" by (cases r0) auto
    then show ?thesis using assms s Some None
      by (auto simp: sendBitcoinWithAuthorization_def Let_def split: if_splits)
  next
    case (Some q)
    obtain m h where q: "send_psbt env m (the (cfg_sender env)) (bitcoin_address a) (amount_sats a) = Inr q"
      "(\<exists>t. r0 = Inr t \<and> b_post env h = HttpOk t) \<or> (\<exists>e. r0 = Inl e \<and> b_lost env h)"
      using sendBitcoinToAddress_psbt [of env "bitcoin_address a" "amount_sats a" q r0] s Some by blast
    have "pays_terms q a" using send_psbt_sound(1) [OF q(1)] by (simp add: pays_terms_def)
    then show ?thesis using assms s Some q(2) \<open>getAuthorizationById i d = Some a\<close>
      by (fastforce simp: sendBitcoinWithAuthorization_def Let_def updateStatus_def truthy_def split: if_splits)
  qed
qed

lemma payout_covenant:
  assumes "executeCovenantWithdrawal env i d = (p, r)"
  shows "(\<exists>e. p = None \<and> r = Inl e)
       \<or> (\<exists>q h a. p = Some q \<and> getAuthorizationById i d = Some a \<and> pays_terms q a
             \<and> ((\<exists>t. api_post_tx env h = HttpOk t \<and> r = Inr t) \<or> api_lost env h))"
proof (cases "createCovenantWithdrawal env i d")
  case (Inl e)
  then show ?thesis using assms by (auto simp: executeCovenantWithdrawal_def)
next
  case (Inr x)
  obtain q h t0 where x: "x = (q, h, t0)" by (cases x)
  then obtain a where "getAuthorizationById i d = Some a" "pays_terms q a"
    using Inr by (auto simp: createCovenantWithdrawal_def covenant_psbt_def Let_def pays_terms_def
        payment_outputs_def split: option.splits if_splits)
  moreover have "(p, r) = (case http_res ''Broadcast failed: '' (api_post_tx env h) of
      Inl e \<Rightarrow> (if api_lost env h then Some q else None, Inl e) | Inr t \<Rightarrow> (Some q, Inr t))"
    using assms Inr x by (simp add: executeCovenantWithdrawal_def broadcastCovenantTransaction_def)
  ultimately show ?thesis by (cases "api_post_tx env h"; cases "api_lost env h") (auto simp: http_res_def)
qed

lemma payout_cases:
  assumes "payout cfg env i d = (p, r, d')"
  shows "touches i d d'" "p = None \<Longrightarrow> \<not> is_ok r"
    "p = Some q \<Longrightarrow> \<exists>a. getAuthorizationById i d = Some a \<and> pays_terms q a"
    "broadcasts_answered env \<Longrightarrow> p = Some q \<Longrightarrow> \<exists>t. r = Inr t \<and> t \<noteq> []"
proof -
  show "touches i d d'" using assms
    by (auto simp: payout_def touches.none intro: sendBitcoinWithAuthorization_touches split: if_splits prod.splits)
  note c = payout_legacy [of "wallet_env env" "clock env" i d p r d'] payout_covenant [of "cov_env env" i d p r]
  show "p = None \<Longrightarrow> \<not> is_ok r"
    using assms c by (fastforce simp: payout_def split: if_splits prod.splits)
  show "p = Some q \<Longrightarrow> \<exists>a. getAuthorizationById i d = Some a \<and> pays_terms q a"
    using assms c by (fastforce simp: payout_def split: if_splits prod.splits)
  show "broadcasts_answered env \<Longrightarrow> p = Some q \<Longrightarrow> \<exists>t. r = Inr t \<and> t \<noteq> []"
    using assms c by (fastforce simp: payout_def broadcasts_answered_def split: if_splits prod.splits)
qed

lemma processAuthorization_spec:
  assumes "processAuthorization cfg env auth d = (p, d')"
    and a: "getAuthorizationById (a_id auth) d = Some a"
  shows "touches (a_id auth) d d'" "p = None \<Longrightarrow> status_of (a_id auth) d' = Some a_pending"
    "p = Some q \<Longrightarrow> pays_terms q a \<and> verifyStarknetTransaction env (starknet_tx_hash auth)
       \<and> (status_of (a_id auth) d' = Some a_completed \<or> status_of (a_id auth) d' = Some a_pending \<and> \<not> broadcasts_answered env)"
proof -
  let ?i = "a_id auth"
  let ?up = "\<lambda>s. auth_step (Update (clock env) ?i s None None)"
  let ?d1 = "?up a_processing d"
  have t1: "touches ?i d ?d1" by (intro touches.intros)
  have s1: "status_of ?i ?d1 = Some a_processing"
    using status_step [of a_processing ?i "clock env" None None d] a by (simp add: status_of_def)
  have reset: "touches ?i d (?up a_pending x)" "status_of ?i (?up a_pending x) = Some a_pending"
    if "touches ?i ?d1 x" for x
  proof -
    have "touches ?i d x" by (rule touches_trans [OF that t1])
    then show "touches ?i d (?up a_pending x)" by (rule touches.update)
    have "map_option terms (getAuthorizationById ?i x) = map_option terms (getAuthorizationById ?i ?d1)"
      using that by (rule touches_terms)
    then have "status_of ?i x \<noteq> None" using s1 by (auto simp: status_of_def)
    then show "status_of ?i (?up a_pending x) = Some a_pending"
      using status_step [of a_pending ?i "clock env" None None x] by auto
  qed
  obtain p0 r0 d2 where pay: "payout cfg env ?i ?d1 = (p0, r0, d2)" by (metis prod_cases3)
  note pc = payout_cases [OF pay]
  have t2: "touches ?i d d2" by (rule touches_trans [OF pc(1) t1])
  have s2: "status_of ?i d2 \<noteq> None"
    using touches_terms [OF t2, of ?i] a by (auto simp: status_of_def)
  have terms1: "\<exists>b. getAuthorizationById ?i ?d1 = Some b \<and> terms b = terms a"
    using touches_terms [OF t1, of ?i] a by auto
  have pays: "p0 = Some q \<Longrightarrow> pays_terms q a"
    using pc(3) [of q] terms1 by (auto simp: pays_terms_def terms_def)
  consider (unverified) "\<not> verifyStarknetTransaction env (starknet_tx_hash auth)"
    | (err) e where "verifyStarknetTransaction env (starknet_tx_hash auth)" "r0 = Inl e"
    | (ok) tid where "verifyStarknetTransaction env (starknet_tx_hash auth)" "r0 = Inr tid"
    by (cases r0) auto
  then have "touches ?i d d' \<and> (p = None \<longrightarrow> status_of ?i d' = Some a_pending)
     \<and> (p = Some q \<longrightarrow> pays_terms q a \<and> verifyStarknetTransaction env (starknet_tx_hash auth)
       \<and> (status_of ?i d' = Some a_completed \<or> status_of ?i d' = Some a_pending \<and> \<not> broadcasts_answered env))"
  proof cases
    case unverified
    then have "p = None" "d' = ?up a_pending ?d1"
      using assms(1) by (simp_all add: processAuthorization_def Let_def del: auth_step.simps)
    then show ?thesis using reset [OF touches.none] by simp
  next
    case err
    then have "p = p0" "d' = ?up a_pending d2"
      using assms(1) pay by (simp_all add: processAuthorization_def Let_def del: auth_step.simps)
    then show ?thesis using reset [OF pc(1)] pc(4) [of q] err pays by fastforce
  next
    case ok
    show ?thesis
    proof (cases "updateStatus (clock env) ?i a_completed (Some tid) None d2")
      case (Inl e)
      then have "p = p0" "d' = ?up a_pending d2" "tid = []"
        using assms(1) pay ok
        by (simp_all add: processAuthorization_def Let_def updateStatus_def truthy_def split: if_splits del: auth_step.simps)
      then show ?thesis using reset [OF pc(1)] pc(4) [of q] ok pays by fastforce
    next
      case (Inr d3)
      then have e: "p = p0" "d' = d3"
        using assms(1) pay ok by (simp_all add: processAuthorization_def Let_def del: auth_step.simps)
      have "touches ?i d d3" using touches_completed [OF Inr t2] .
      moreover have "status_of ?i d3 = Some a_completed"
        using updateStatus_status [OF Inr] s2 by auto
      moreover have "p \<noteq> None" using pc(2) e ok by auto
      ultimately show ?thesis using e ok pays by simp
    qed
  qed
  then show "touches ?i d d'" "p = None \<Longrightarrow> status_of ?i d' = Some a_pending"
    "p = Some q \<Longrightarrow> pays_terms q a \<and> verifyStarknetTransaction env (starknet_tx_hash auth)
       \<and> (status_of ?i d' = Some a_completed \<or> status_of ?i d' = Some a_pending \<and> \<not> broadcasts_answered env)" by blast+
qed


lemma touches_status: "touches i d d' \<Longrightarrow> j \<noteq> i \<Longrightarrow> status_of j d' = status_of j d"
  by (simp add: status_of_def touches_other)

text \<open>What a list of processing steps leaves of the statuses, and whom it pays.\<close>

definition sound_log :: "db \<Rightarrow> payments \<Rightarrow> db \<Rightarrow> bool" where
  "sound_log d paid d' \<longleftrightarrow>
     distinct (map fst paid)
     \<and> (\<forall>(i, q) \<in> set paid. status_of i d = Some a_pending \<and> status_of i d' = Some a_completed
          \<and> (\<exists>a. getAuthorizationById i d = Some a \<and> pays_terms q a))
     \<and> (\<forall>i. i \<notin> fst ` set paid \<longrightarrow> status_of i d' = status_of i d)
     \<and> (\<forall>i. map_option terms (getAuthorizationById i d') = map_option terms (getAuthorizationById i d))
     \<and> (schema_ok d \<longrightarrow> schema_ok d')"

lemma pays_terms_cong: "terms a = terms b \<Longrightarrow> pays_terms q a = pays_terms q b"
  by (simp add: pays_terms_def terms_def)

lemma sound_logD:
  assumes "sound_log d paid d'"
  shows "distinct (map fst paid)"
    "(i, q) \<in> set paid \<Longrightarrow> status_of i d = Some a_pending"
    "(i, q) \<in> set paid \<Longrightarrow> status_of i d' = Some a_completed"
    "(i, q) \<in> set paid \<Longrightarrow> \<exists>a. getAuthorizationById i d = Some a \<and> pays_terms q a"
    "i \<notin> fst ` set paid \<Longrightarrow> status_of i d' = status_of i d"
    "map_option terms (getAuthorizationById i d') = map_option terms (getAuthorizationById i d)"
    "schema_ok d \<Longrightarrow> schema_ok d'"
  using assms unfolding sound_log_def by blast+

lemma sound_log_trans:
  assumes a: "sound_log d1 l1 d2" and b: "sound_log d2 l2 d3"
  shows "sound_log d1 (l1 @ l2) d3"
proof -
  have new: "i \<notin> fst ` set l1" if "(i, q) \<in> set l2" for i q
    using sound_logD(3) [OF a, of i] sound_logD(2) [OF b that] by fastforce
  have old: "i \<notin> fst ` set l2" if "(i, q) \<in> set l1" for i q
    using new that by force
  show ?thesis
    unfolding sound_log_def
  proof (intro conjI allI impI ballI)
    have "fst ` set l1 \<inter> fst ` set l2 = {}" using new by force
    then show "distinct (map fst (l1 @ l2))"
      using sound_logD(1) [OF a] sound_logD(1) [OF b] by simp
  next
    fix x
    assume "x \<in> set (l1 @ l2)"
    obtain i q where x: "x = (i, q)" by fastforce
    then have "(i, q) \<in> set l1 \<or> (i, q) \<in> set l2" using \<open>x \<in> set (l1 @ l2)\<close> by simp
    then have "status_of i d1 = Some a_pending \<and> status_of i d3 = Some a_completed
        \<and> (\<exists>r. getAuthorizationById i d1 = Some r \<and> pays_terms q r)"
    proof
      assume l: "(i, q) \<in> set l1"
      then show ?thesis using sound_logD(2-4) [OF a l] sound_logD(5) [OF b old [OF l]] by simp
    next
      assume l: "(i, q) \<in> set l2"
      obtain r where r: "getAuthorizationById i d2 = Some r" "pays_terms q r"
        using sound_logD(4) [OF b l] by blast
      then have "map_option terms (getAuthorizationById i d1) = Some (terms r)"
        using sound_logD(6) [OF a, of i] by simp
      then obtain r' where "getAuthorizationById i d1 = Some r'" "terms r' = terms r" by auto
      then show ?thesis
        using sound_logD(2,3) [OF b l] sound_logD(5) [OF a new [OF l]] r pays_terms_cong [of r' r q]
        by auto
    qed
    then show "case x of (i, q) \<Rightarrow> status_of i d1 = Some a_pending \<and> status_of i d3 = Some a_completed
        \<and> (\<exists>a. getAuthorizationById i d1 = Some a \<and> pays_terms q a)" by (simp add: x)
  next
    fix i
    assume "i \<notin> fst ` set (l1 @ l2)"
    then show "status_of i d3 = status_of i d1"
      using sound_logD(5) [OF a, of i] sound_logD(5) [OF b, of i] by (simp add: image_Un)
  next
    fix i
    show "map_option terms (getAuthorizationById i d3) = map_option terms (getAuthorizationById i d1)"
      using sound_logD(6) [OF a, of i] sound_logD(6) [OF b, of i] by simp
  next
    assume "schema_ok d1"
    then show "schema_ok d3" using sound_logD(7) [OF a] sound_logD(7) [OF b] by blast
  qed
qed

lemma sound_log_nil: "sound_log d [] d"
  by (simp add: sound_log_def)

lemma process_one_sound:
  assumes p: "processAuthorization cfg env auth d = (p, d')" and t: "broadcasts_answered env"
    and s: "status_of (a_id auth) d = Some a_pending"
  shows "sound_log d (case p of None \<Rightarrow> [] | Some q \<Rightarrow> [(a_id auth, q)]) d'"
proof -
  obtain a where a: "getAuthorizationById (a_id auth) d = Some a"
    using s by (auto simp: status_of_def)
  note sp = processAuthorization_spec [OF p a]
  show ?thesis
    using sp(2) sp(3) t touches_status [OF sp(1)] touches_terms [OF sp(1)]
      touches_schema [OF sp(1)] s a
    by (cases p) (auto simp: sound_log_def, metis+)
qed

lemma process_all_sound:
  assumes "process_all cfg envs todo d = (paid, d')" and "\<And>i. broadcasts_answered (envs i)"
    and "distinct (map a_id todo)" and "\<forall>a \<in> set todo. status_of (a_id a) d = Some a_pending"
  shows "sound_log d paid d' \<and> fst ` set paid \<subseteq> a_id ` set todo"
  using assms
proof (induction todo arbitrary: d paid d')
  case Nil
  then show ?case by (simp add: sound_log_nil)
next
  case (Cons auth todo)
  obtain p d1 where p: "processAuthorization cfg (envs (a_id auth)) auth d = (p, d1)" by fastforce
  obtain l d2 where l: "process_all cfg envs todo d1 = (l, d2)" by fastforce
  let ?h = "case p of None \<Rightarrow> [] | Some q \<Rightarrow> [(a_id auth, q)]"
  have e: "paid = ?h @ l" "d' = d2" using Cons.prems(1) p l by auto
  have h: "sound_log d ?h d1" using p Cons.prems by (intro process_one_sound) auto
  have "fst ` set ?h \<subseteq> {a_id auth}" by (cases p) auto
  have "status_of (a_id a) d1 = Some a_pending" if "a \<in> set todo" for a
  proof -
    have "a_id a \<noteq> a_id auth" using Cons.prems(3) that by (metis distinct.simps(2) image_eqI list.set_map list.simps(9))
    then have "a_id a \<notin> fst ` set ?h" using \<open>fst ` set ?h \<subseteq> {a_id auth}\<close> by blast
    then show ?thesis using sound_logD(5) [OF h] Cons.prems(4) that by simp
  qed
  then have "sound_log d1 l d2 \<and> fst ` set l \<subseteq> a_id ` set todo"
    using Cons.IH [OF l] Cons.prems by auto
  then show ?case using sound_log_trans [OF h] e \<open>fst ` set ?h \<subseteq> {a_id auth}\<close> by auto
qed

lemma pending_snapshot:
  assumes "schema_ok d"
  shows "distinct (map a_id (getPendingAuthorizations d))"
    "\<forall>a \<in> set (getPendingAuthorizations d). status_of (a_id a) d = Some a_pending"
proof -
  have u: "uniq a_id (auths d)" using assms by (simp add: schema_ok_def auths_violation_None)
  have "distinct (map a_id (filter (\<lambda>a. a_status a = a_pending) (auths d)))"
    using u by (simp add: uniq_def distinct_map_filter)
  then have "distinct (filter (\<lambda>a. a_status a = a_pending) (auths d))"
    "inj_on a_id (set (filter (\<lambda>a. a_status a = a_pending) (auths d)))"
    by (simp_all only: distinct_map)
  then show "distinct (map a_id (getPendingAuthorizations d))"
    by (simp add: getPendingAuthorizations_def distinct_map)
  show "\<forall>a \<in> set (getPendingAuthorizations d). status_of (a_id a) d = Some a_pending"
    using row_by_unique [OF u]
    by (auto simp: getPendingAuthorizations_def status_of_def getAuthorizationById_def)
qed

lemma processor_run_sound:
  assumes "processor_run cfg es d = (paid, d')" and "schema_ok d"
    and "\<forall>envs \<in> set es. \<forall>i. broadcasts_answered (envs i)"
  shows "sound_log d paid d'"
  using assms
proof (induction es arbitrary: d paid d')
  case Nil
  then show ?case by (simp add: sound_log_nil)
next
  case (Cons envs es)
  obtain l1 d1 where l1: "processAuthorizations cfg envs d = (l1, d1)" by fastforce
  obtain l2 d2 where l2: "processor_run cfg es d1 = (l2, d2)" by fastforce
  have s1: "sound_log d l1 d1"
    using process_all_sound [OF l1 [unfolded processAuthorizations_def]] pending_snapshot Cons.prems by simp
  then have "schema_ok d1" using Cons.prems(2) by (simp add: sound_log_def)
  then have "sound_log d1 l2 d2" using Cons.IH [OF l2] Cons.prems by simp
  then show ?case using sound_log_trans [OF s1] Cons.prems(1) l1 l2 by auto
qed

text \<open>
  Without any assumption on the network, payments are accounted for: \<open>u i\<close> is how often the answer to a broadcast for
  authorization \<open>i\<close> may have been lost. A payment either ends the authorization or uses up one of these.
\<close>

definition pays :: "string \<Rightarrow> payments \<Rightarrow> nat" where
  "pays i paid = length (filter (\<lambda>(j, _). j = i) paid)"

definition is_pending :: "string \<Rightarrow> db \<Rightarrow> nat" where
  "is_pending i d = (if status_of i d = Some a_pending then 1 else 0)"

definition accounts :: "(string \<Rightarrow> nat) \<Rightarrow> db \<Rightarrow> payments \<Rightarrow> db \<Rightarrow> bool" where
  "accounts u d paid d' \<longleftrightarrow>
     (\<forall>i. pays i paid + is_pending i d' \<le> is_pending i d + u i)
     \<and> (\<forall>(i, q) \<in> set paid. status_of i d = Some a_pending \<and> (\<exists>a. getAuthorizationById i d = Some a \<and> pays_terms q a))
     \<and> (\<forall>i. status_of i d \<noteq> Some a_pending \<longrightarrow> status_of i d' = status_of i d)
     \<and> (\<forall>i. map_option terms (getAuthorizationById i d') = map_option terms (getAuthorizationById i d))
     \<and> (schema_ok d \<longrightarrow> schema_ok d')"

lemma accountsD:
  assumes "accounts u d paid d'"
  shows "pays i paid + is_pending i d' \<le> is_pending i d + u i"
    "(i, q) \<in> set paid \<Longrightarrow> status_of i d = Some a_pending"
    "(i, q) \<in> set paid \<Longrightarrow> \<exists>a. getAuthorizationById i d = Some a \<and> pays_terms q a"
    "status_of i d \<noteq> Some a_pending \<Longrightarrow> status_of i d' = status_of i d"
    "map_option terms (getAuthorizationById i d') = map_option terms (getAuthorizationById i d)"
    "schema_ok d \<Longrightarrow> schema_ok d'"
  using assms unfolding accounts_def by blast+

lemma accounts_nil: "accounts u d [] d"
  by (simp add: accounts_def pays_def)

lemma accounts_trans:
  assumes a: "accounts u d1 l1 d2" and b: "accounts v d2 l2 d3" and w: "\<And>i. u i + v i \<le> w i"
  shows "accounts w d1 (l1 @ l2) d3"
  unfolding accounts_def
proof (intro conjI allI ballI impI)
  fix i
  have "pays i l1 + pays i l2 + is_pending i d3 \<le> is_pending i d1 + (u i + v i)"
    using accountsD(1) [OF a, of i] accountsD(1) [OF b, of i] by linarith
  then show "pays i (l1 @ l2) + is_pending i d3 \<le> is_pending i d1 + w i"
    using w [of i] by (simp add: pays_def)
next
  fix x
  assume x: "x \<in> set (l1 @ l2)"
  obtain i q where iq: "x = (i, q)" by fastforce
  have "status_of i d1 = Some a_pending \<and> (\<exists>a. getAuthorizationById i d1 = Some a \<and> pays_terms q a)"
  proof (cases "(i, q) \<in> set l1")
    case True
    then show ?thesis using accountsD(2,3) [OF a] by blast
  next
    case False
    then have l: "(i, q) \<in> set l2" using x iq by simp
    obtain r where r: "getAuthorizationById i d2 = Some r" "pays_terms q r" using accountsD(3) [OF b l] by blast
    then have "map_option terms (getAuthorizationById i d1) = Some (terms r)" using accountsD(5) [OF a, of i] by simp
    then obtain r' where "getAuthorizationById i d1 = Some r'" "terms r' = terms r" by auto
    then show ?thesis using accountsD(2) [OF b l] accountsD(4) [OF a, of i] r pays_terms_cong [of r' r q] by fastforce
  qed
  then show "case x of (i, q) \<Rightarrow> status_of i d1 = Some a_pending \<and> (\<exists>a. getAuthorizationById i d1 = Some a \<and> pays_terms q a)"
    by (simp add: iq)
next
  fix i
  assume "status_of i d1 \<noteq> Some a_pending"
  then show "status_of i d3 = status_of i d1" using accountsD(4) [OF a] accountsD(4) [OF b] by metis
next
  fix i
  show "map_option terms (getAuthorizationById i d3) = map_option terms (getAuthorizationById i d1)"
    using accountsD(5) [OF a, of i] accountsD(5) [OF b, of i] by simp
next
  assume "schema_ok d1"
  then show "schema_ok d3" using accountsD(6) [OF a] accountsD(6) [OF b] by blast
qed

lemma process_one_accounts:
  assumes p: "processAuthorization cfg env auth d = (p, d')" and s: "status_of (a_id auth) d = Some a_pending"
  shows "accounts (\<lambda>i. if i = a_id auth \<and> \<not> broadcasts_answered env then 1 else 0) d
     (case p of None \<Rightarrow> [] | Some q \<Rightarrow> [(a_id auth, q)]) d'"
proof -
  obtain a where a: "getAuthorizationById (a_id auth) d = Some a"
    using s by (auto simp: status_of_def)
  note sp = processAuthorization_spec [OF p a]
  have other: "status_of j d' = status_of j d" if "j \<noteq> a_id auth" for j
    using touches_status [OF sp(1) that] .
  have i: "pays j (case p of None \<Rightarrow> [] | Some q \<Rightarrow> [(a_id auth, q)]) + is_pending j d'
      \<le> is_pending j d + (if j = a_id auth \<and> \<not> broadcasts_answered env then 1 else 0)" for j
    using sp(2,3) s other [of j] by (cases p; cases "j = a_id auth") (auto simp: pays_def is_pending_def)
  have "status_of j d \<noteq> Some a_pending \<Longrightarrow> status_of j d' = status_of j d" for j
    using s other by (cases "j = a_id auth") auto
  then show ?thesis
    unfolding accounts_def
    using i sp(3) touches_terms [OF sp(1)] touches_schema [OF sp(1)] s a by (cases p) auto
qed

lemma process_all_accounts:
  assumes "process_all cfg envs todo d = (paid, d')" and "distinct (map a_id todo)"
    and "\<forall>a \<in> set todo. status_of (a_id a) d = Some a_pending"
  shows "accounts (\<lambda>i. if i \<in> a_id ` set todo \<and> \<not> broadcasts_answered (envs i) then 1 else 0) d paid d'"
  using assms
proof (induction todo arbitrary: d paid d')
  case Nil
  then show ?case by (simp add: accounts_nil)
next
  case (Cons auth todo)
  obtain p d1 where p: "processAuthorization cfg (envs (a_id auth)) auth d = (p, d1)" by fastforce
  obtain l d2 where l: "process_all cfg envs todo d1 = (l, d2)" by fastforce
  have h: "accounts (\<lambda>i. if i = a_id auth \<and> \<not> broadcasts_answered (envs (a_id auth)) then 1 else 0) d
      (case p of None \<Rightarrow> [] | Some q \<Rightarrow> [(a_id auth, q)]) d1"
    using p Cons.prems by (intro process_one_accounts) auto
  obtain a where a: "getAuthorizationById (a_id auth) d = Some a"
    using Cons.prems(3) by (auto simp: status_of_def)
  have "status_of (a_id b) d1 = Some a_pending" if "b \<in> set todo" for b
  proof -
    have "a_id b \<noteq> a_id auth" using Cons.prems(2) that by (metis distinct.simps(2) image_eqI list.set_map list.simps(9))
    then show ?thesis using touches_status [OF processAuthorization_spec(1) [OF p a]] Cons.prems(3) that by simp
  qed
  then have r: "accounts (\<lambda>i. if i \<in> a_id ` set todo \<and> \<not> broadcasts_answered (envs i) then 1 else 0) d1 l d2"
    using Cons.IH [OF l] Cons.prems(2) by simp
  have "a_id auth \<notin> a_id ` set todo" using Cons.prems(2) by simp
  then show ?case
    using accounts_trans [OF h r, of "\<lambda>i. if i \<in> a_id ` set (auth # todo) \<and> \<not> broadcasts_answered (envs i) then 1 else 0"]
      Cons.prems(1) p l by auto
qed

lemma accounts_mono: "accounts u d paid d' \<Longrightarrow> (\<And>i. u i \<le> v i) \<Longrightarrow> accounts v d paid d'"
  using accounts_trans [of u d paid d' "\<lambda>_. 0" "[]" d' v] accounts_nil by auto

lemma processor_run_accounts:
  assumes "processor_run cfg es d = (paid, d')" and "schema_ok d"
  shows "accounts (\<lambda>i. length (filter (\<lambda>envs. \<not> broadcasts_answered (envs i)) es)) d paid d'"
  using assms
proof (induction es arbitrary: d paid d')
  case Nil
  then show ?case by (simp add: accounts_nil)
next
  case (Cons envs es)
  obtain l1 d1 where l1: "processAuthorizations cfg envs d = (l1, d1)" by fastforce
  obtain l2 d2 where l2: "processor_run cfg es d1 = (l2, d2)" by fastforce
  have a1: "accounts (\<lambda>i. if \<not> broadcasts_answered (envs i) then 1 else 0) d l1 d1"
    by (rule accounts_mono [OF process_all_accounts [OF l1 [unfolded processAuthorizations_def] pending_snapshot [OF Cons.prems(2)]]]) simp
  have "schema_ok d1" using accountsD(6) [OF a1] Cons.prems(2) by blast
  from accounts_trans [OF a1 Cons.IH [OF l2 this], of "\<lambda>i. length (filter (\<lambda>envs. \<not> broadcasts_answered (envs i)) (envs # es))"]
  show ?case using Cons.prems(1) l1 l2 by auto
qed

lemma covenant_status_blind:
  assumes "map_option terms (getAuthorizationById i d') = map_option terms (getAuthorizationById i d)"
  shows "executeCovenantWithdrawal env i d' = executeCovenantWithdrawal env i d"
proof -
  have "covenant_psbt env i d' = covenant_psbt env i d"
    using assms
    by (cases "getAuthorizationById i d"; cases "getAuthorizationById i d'") (auto simp: covenant_psbt_def terms_def cong: if_cong)
  then show ?thesis by (simp add: executeCovenantWithdrawal_def createCovenantWithdrawal_def)
qed

section \<open>Properties\<close>

text \<open>
  C6. What the background processor pays, over any number of polls, in covenant or legacy mode, whatever the
  network does. Every payment gives exactly the authorized amount to the authorized address of an authorization that was
  pending. An authorization is paid at most once more than there were polls in which the answer to its broadcast was
  lost (or empty). So when all answers arrive, each authorization is paid at most once, a paid one ends completed, and every other
  one keeps its status, and so is not lost. (With a lost answer it is paid again: \<open>lost_answer_pays_again\<close>.)
\<close>

theorem processor_pays_once:
  assumes "schema_ok d" and "processor_run cfg es d = (paid, d')"
  shows "(\<forall>i. length (filter (\<lambda>(j, _). j = i) paid) \<le> 1 + length (filter (\<lambda>envs. \<not> broadcasts_answered (envs i)) es))
     \<and> (\<forall>(i, q) \<in> set paid. status_of i d = Some a_pending
          \<and> (\<exists>a. getAuthorizationById i d = Some a
                \<and> hd (p_outputs q) = \<lparr>o_address = bitcoin_address a, o_value = amount_sats a\<rparr>))
     \<and> ((\<forall>envs \<in> set es. \<forall>i. broadcasts_answered (envs i)) \<longrightarrow>
          distinct (map fst paid) \<and> (\<forall>(i, q) \<in> set paid. status_of i d' = Some a_completed)
          \<and> (\<forall>i. i \<notin> fst ` set paid \<longrightarrow> status_of i d' = status_of i d))"
proof (intro conjI)
  note acc = accountsD [OF processor_run_accounts [OF assms(2,1)]]
  show "\<forall>i. length (filter (\<lambda>(j, _). j = i) paid) \<le> 1 + length (filter (\<lambda>envs. \<not> broadcasts_answered (envs i)) es)"
  proof
    fix i
    have "is_pending i d \<le> 1" by (simp add: is_pending_def)
    then show "length (filter (\<lambda>(j, _). j = i) paid) \<le> 1 + length (filter (\<lambda>envs. \<not> broadcasts_answered (envs i)) es)"
      using acc(1) [of i] unfolding pays_def by linarith
  qed
  show "\<forall>(i, q) \<in> set paid. status_of i d = Some a_pending \<and> (\<exists>a. getAuthorizationById i d = Some a
                \<and> hd (p_outputs q) = \<lparr>o_address = bitcoin_address a, o_value = amount_sats a\<rparr>)"
    using acc(2,3) by (fastforce simp: pays_terms_def)
  show "(\<forall>envs \<in> set es. \<forall>i. broadcasts_answered (envs i)) \<longrightarrow>
          distinct (map fst paid) \<and> (\<forall>(i, q) \<in> set paid. status_of i d' = Some a_completed)
          \<and> (\<forall>i. i \<notin> fst ` set paid \<longrightarrow> status_of i d' = status_of i d)"
    using processor_run_sound [OF assms(2,1)] by (auto simp: sound_log_def)
qed

definition demo_cfg :: proc_config where
  "demo_cfg = \<lparr>pollIntervalMs = 30000, minConfirmations = 1, useCovenants = True\<rparr>"

definition demo_btc :: btc_env where
  "demo_btc = \<lparr>cfg_key = None, cfg_sender = None, cfg_vault = None, from_wif = (\<lambda>_. Inr ''k''),
     b_utxos = (\<lambda>_. HttpOk []), b_fees = NotOk ''x'', b_tx_scripts = (\<lambda>_. Inr []),
     b_build = (\<lambda>_ _. Inr ''00''), b_post = (\<lambda>_. HttpOk ''t''), b_lost = (\<lambda>_. False)\<rparr>"

definition demo_proc :: proc_env where
  "demo_proc = \<lparr>clock = 9, receipt = (\<lambda>_. Some (Inr ''SUCCEEDED'')), wallet_env = demo_btc, cov_env = demo_env\<rparr>"

lemma demo_run:
  "fst ` set (fst (processor_run demo_cfg [\<lambda>_. demo_proc, \<lambda>_. demo_proc] demo_auth_db)) = {''a''}"
  by (simp add: processAuthorizations_def getPendingAuthorizations_def demo_auth_db_def demo_db_def
      empty_db_def demo_params_def processAuthorization_def verifyStarknetTransaction_def demo_proc_def
      demo_cfg_def payout_def executeCovenantWithdrawal_def createCovenantWithdrawal_def covenant_psbt_def
      demo_env_def getAuthorizationById_def row_by_def fetchCovenantUtxos_def new_auth_def
      attach_script_def demo_coin_def selectUtxos_def desc_def FEE_PER_INPUT_def updateStatus_def
      update_auth_def update_by_def truthy_def broadcastCovenantTransaction_def Let_def)

lemma schema_demo_auth: "schema_ok demo_auth_db"
  using schema_demo
  by (simp add: schema_ok_def demo_auth_db_def demo_db_def empty_db_def demo_params_def
      auths_violation_def uniq_def tx_hash_ok_def like_prefix_def to_lower_def has_vault_def
      demo_vault_def)

theorem processor_pays_once_witness:
  "\<exists>paid d' q. processor_run demo_cfg [\<lambda>_. demo_proc, \<lambda>_. demo_proc] demo_auth_db = (paid, d')
     \<and> (''a'', q) \<in> set paid \<and> distinct (map fst paid) \<and> status_of ''a'' d' = Some a_completed"
proof -
  obtain paid d' where r: "processor_run demo_cfg [\<lambda>_. demo_proc, \<lambda>_. demo_proc] demo_auth_db = (paid, d')"
    by fastforce
  have "broadcasts_answered demo_proc"
    by (simp add: broadcasts_answered_def demo_proc_def demo_env_def demo_btc_def)
  then have t: "\<forall>envs \<in> set [\<lambda>_. demo_proc, \<lambda>_. demo_proc]. \<forall>i. broadcasts_answered (envs i)" by simp
  have "fst ` set paid = {''a''}" using demo_run by (simp only: r fst_conv)
  then have "''a'' \<in> fst ` set paid" by simp
  then obtain q where q: "(''a'', q) \<in> set paid" by (metis imageE prod.collapse)
  note once = mp [OF conjunct2 [OF conjunct2 [OF processor_pays_once [OF schema_demo_auth r]]] t]
  have "distinct (map fst paid)" by (rule conjunct1 [OF once])
  moreover have "status_of ''a'' d' = Some a_completed"
    using bspec [OF conjunct1 [OF conjunct2 [OF once]] q] by simp
  ultimately show ?thesis using r q by blast
qed

text \<open>
  C26. What one call of \<open>processAuthorization\<close> can leave of an authorization: unpaid and
  pending again, to be retried; or paid with its terms, which happens only if its burn's receipt says \<open>SUCCEEDED\<close> or did
  not arrive within 15 seconds, and then completed, or, only if the answer to the broadcast was lost, pending although it is paid.
  It never sticks in \<open>processing\<close>.
\<close>

theorem processAuthorization_outcome:
  assumes "getAuthorizationById (a_id auth) d = Some a" and "processAuthorization cfg env auth d = (p, d')"
  shows "(p = None \<and> status_of (a_id auth) d' = Some a_pending)
       \<or> (\<exists>q. p = Some q \<and> hd (p_outputs q) = \<lparr>o_address = bitcoin_address a, o_value = amount_sats a\<rparr>
          \<and> receipt env (starknet_tx_hash auth) \<in> {None, Some (Inr ''SUCCEEDED'')}
          \<and> (status_of (a_id auth) d' = Some a_completed
             \<or> status_of (a_id auth) d' = Some a_pending \<and> \<not> broadcasts_answered env))"
proof (cases p)
  case None
  then show ?thesis using processAuthorization_spec(2) [OF assms(2,1)] by simp
next
  case (Some q)
  note sp = processAuthorization_spec(3) [OF assms(2,1) Some]
  have "receipt env (starknet_tx_hash auth) \<in> {None, Some (Inr ''SUCCEEDED'')}"
    using sp by (auto simp: verifyStarknetTransaction_def split: option.splits sum.splits)
  then show ?thesis using Some sp by (simp add: pays_terms_def)
qed

theorem processAuthorization_outcome_witness:
  "\<exists>a p d'. processAuthorization demo_cfg (demo_proc\<lparr>receipt := \<lambda>_. Some (Inr ''REVERTED'')\<rparr>) a demo_auth_db = (p, d')
     \<and> p = None \<and> status_of ''a'' d' = Some a_pending"
proof -
  let ?env = "demo_proc\<lparr>receipt := \<lambda>_. Some (Inr ''REVERTED'')\<rparr>"
  let ?a = "new_auth ''a'' 5 (demo_params\<lparr>amountSats := 10000\<rparr>)"
  obtain p d' where r: "processAuthorization demo_cfg ?env ?a demo_auth_db = (p, d')" by fastforce
  have g: "getAuthorizationById (a_id ?a) demo_auth_db = Some ?a"
    by (simp add: getAuthorizationById_def row_by_def demo_auth_db_def)
  show ?thesis using processAuthorization_outcome [OF g r] r by fastforce
qed

text \<open>
  A lost answer pays twice: when the network took the transaction and its answer did not arrive, the authorization is
  pending again, the next poll finds it, and, with enough coins in the covenant, pays the same terms again.
\<close>

theorem lost_answer_pays_again:
  assumes "schema_ok d" and "getAuthorizationById (a_id a) d = Some a" and "useCovenants cfg"
    and "processAuthorization cfg env a d = (Some q, d')" and "status_of (a_id a) d' \<noteq> Some a_completed"
    and "verifyStarknetTransaction env' (starknet_tx_hash a)"
    and "executeCovenantWithdrawal (cov_env env') (a_id a) d = (Some q', Inr t)"
  shows "\<exists>b \<in> set (getPendingAuthorizations d'). a_id b = a_id a
     \<and> (\<exists>d''. processAuthorization cfg env' b d' = (Some q', d'')) \<and> hd (p_outputs q') = hd (p_outputs q)"
proof -
  note sp = processAuthorization_spec [OF assms(4,2)]
  have pend: "status_of (a_id a) d' = Some a_pending" using sp(3) assms(5) by blast
  then obtain b where b: "getAuthorizationById (a_id a) d' = Some b" "a_status b = a_pending"
    by (auto simp: status_of_def)
  have tb: "terms b = terms a" using touches_terms [OF sp(1), of "a_id a"] b(1) assms(2) by simp
  have "b \<in> set (getPendingAuthorizations d')" "a_id b = a_id a"
    using b get_id [OF b(1)] by (auto simp: getPendingAuthorizations_def getAuthorizationById_def dest: row_by_Some)
  moreover have "executeCovenantWithdrawal (cov_env env') (a_id a) (auth_step (Update (clock env') (a_id a) a_processing None None) d')
      = (Some q', Inr t)"
    using covenant_status_blind [of "a_id a" _ d] touches_terms [OF touches.update [OF sp(1)], of "a_id a"] assms(7) by metis
  then have "\<exists>d''. processAuthorization cfg env' b d' = (Some q', d'')"
    using assms(3,6) tb \<open>a_id b = a_id a\<close>
    by (simp add: processAuthorization_def Let_def payout_def terms_def split: sum.splits del: auth_step.simps)
  moreover have "pays_terms q' a" using payout_covenant [OF assms(7)] assms(2) by auto
  then have "hd (p_outputs q') = hd (p_outputs q)" using sp(3) by (simp add: pays_terms_def)
  ultimately show ?thesis by blast
qed

definition deaf_proc :: proc_env where
  "deaf_proc = demo_proc\<lparr>cov_env := demo_env\<lparr>api_post_tx := \<lambda>_. NetFail (Error ''aborted''), api_lost := \<lambda>_. True\<rparr>\<rparr>"

lemma deaf_pays:
  "fst (processAuthorization demo_cfg deaf_proc (new_auth ''a'' 5 (demo_params\<lparr>amountSats := 10000\<rparr>)) demo_auth_db) \<noteq> None"
  "status_of ''a'' (snd (processAuthorization demo_cfg deaf_proc (new_auth ''a'' 5 (demo_params\<lparr>amountSats := 10000\<rparr>)) demo_auth_db))
     \<noteq> Some a_completed"
  "\<exists>q t. executeCovenantWithdrawal (cov_env demo_proc) ''a'' demo_auth_db = (Some q, Inr t)"
  by (simp_all add: demo_auth_db_def demo_db_def
      empty_db_def demo_params_def processAuthorization_def verifyStarknetTransaction_def demo_proc_def deaf_proc_def status_of_def
      demo_cfg_def payout_def executeCovenantWithdrawal_def createCovenantWithdrawal_def covenant_psbt_def
      demo_env_def getAuthorizationById_def row_by_def fetchCovenantUtxos_def new_auth_def
      attach_script_def demo_coin_def selectUtxos_def desc_def FEE_PER_INPUT_def updateStatus_def
      update_auth_def update_by_def truthy_def broadcastCovenantTransaction_def http_res_def Let_def)

theorem lost_answer_pays_again_witness:
  "\<exists>q d' b q' d''. processAuthorization demo_cfg deaf_proc (new_auth ''a'' 5 (demo_params\<lparr>amountSats := 10000\<rparr>)) demo_auth_db = (Some q, d')
     \<and> processAuthorization demo_cfg demo_proc b d' = (Some q', d'')"
proof -
  let ?a = "new_auth ''a'' 5 (demo_params\<lparr>amountSats := 10000\<rparr>)"
  obtain q d' where p: "processAuthorization demo_cfg deaf_proc ?a demo_auth_db = (Some q, d')" "status_of ''a'' d' \<noteq> Some a_completed"
    using deaf_pays(1,2) by (cases "processAuthorization demo_cfg deaf_proc ?a demo_auth_db") auto
  obtain q' t where e: "executeCovenantWithdrawal (cov_env demo_proc) (a_id ?a) demo_auth_db = (Some q', Inr t)"
    using deaf_pays(3) by auto
  have "getAuthorizationById (a_id ?a) demo_auth_db = Some ?a" "useCovenants demo_cfg" "status_of (a_id ?a) d' \<noteq> Some a_completed"
    "verifyStarknetTransaction demo_proc (starknet_tx_hash ?a)"
    using p(2) by (simp_all add: getAuthorizationById_def row_by_def demo_auth_db_def demo_cfg_def demo_proc_def verifyStarknetTransaction_def)
  from lost_answer_pays_again [OF schema_demo_auth this(1,2) p(1) this(3,4) e] p(1) show ?thesis by blast
qed

text \<open>
  Stopping the processor and starting it again before the scheduled callback has fired leaves
  two poll chains: the callback runs its pass although the processor was stopped meanwhile, and
  reschedules itself beside the chain of the second start.
\<close>

theorem restart_doubles_polling:
  "let p0 = \<lparr>isRunning = False, timers = 0\<rparr>;
       (p1, _, d1) = start_processor cfg e1 p0 d;
       (p2, _, d2) = start_processor cfg e2 (stop_processor p1) d1;
       (p3, _, d3) = on_poll cfg e3 p2 d2
   in isRunning p3 \<and> timers p2 = 2 \<and> timers p3 = 2"
  by (simp add: start_processor_def stop_processor_def on_poll_def poll_def Let_def case_prod_beta)

end
