(* ===== verification/Validators.thy ===== *)
theory Validators
  imports JsNum
begin

text \<open>
  The request checks that the routes share: \<open>middleware/validators.ts\<close>, \<open>validateBody.ts\<close>,
  \<open>validateTxHash.ts\<close>, \<open>errorHandler.ts\<close>, \<open>notFound.ts\<close>, \<open>methodNotAllowed.ts\<close>, and the tables
  of \<open>config/apy.ts\<close>, \<open>utils/constants.ts\<close> and \<open>utils/privacyConstants.ts\<close>. A body that
  \<open>express.json\<close> has parsed is a \<open>json\<close> whose objects have distinct keys; a missing property is
  \<open>undefined\<close>, i.e. \<open>None\<close>.
\<close>

section \<open>Validators\<close>

text \<open>A number that is not \<open>Infinity\<close>: a rounded rational of this size denotes a double.\<close>

definition js_finite :: "rat \<Rightarrow> bool" where
  "js_finite x = (- (2 ^ 1024) < x \<and> x < 2 ^ 1024)"

definition isValidStarknetAddress :: "string \<Rightarrow> bool" where
  "isValidStarknetAddress address = hex_0x 63 64 address"

definition isValidBitcoinSignetAddress :: "string \<Rightarrow> bool" where
  "isValidBitcoinSignetAddress address =
     (starts_with address ''tb1'' \<and> 14 \<le> length address \<and> length address \<le> 74)"

definition isValidAmount :: "string \<Rightarrow> bool" where
  "isValidAmount amount = (case number_of_string amount of
     None \<Rightarrow> False | Some num \<Rightarrow> js_finite num \<and> 0 < num)"

definition isValidTimelock :: "int \<Rightarrow> int \<Rightarrow> bool" where
  "isValidTimelock now timelock =
     (let tenYearsFromNow = now + 10 * 365 * 24 * 60 * 60
      in timelock > now \<and> timelock < tenYearsFromNow)"

definition isValidPreimage :: "string \<Rightarrow> bool" where
  "isValidPreimage preimage = (1 \<le> length preimage \<and> length preimage \<le> 256)"

text \<open>\<open>/^[0-9]+$/\<close> or \<open>/^0x[0-9a-fA-F]+$/\<close>.\<close>

definition isValidFelt :: "string \<Rightarrow> bool" where
  "isValidFelt v = ((v \<noteq> [] \<and> list_all is_digit v)
     \<or> (starts_with v ''0x'' \<and> drop 2 v \<noteq> [] \<and> list_all is_hex (drop 2 v)))"

section \<open>Bodies\<close>

definition json_field :: "json \<Rightarrow> string \<Rightarrow> json option" where
  "json_field b k = (case b of JObj kvs \<Rightarrow> map_of kvs k | _ \<Rightarrow> None)"

text \<open>\<open>z.string().min(1)\<close>, and \<open>z.string().optional()\<close>.\<close>

definition req_str :: "json \<Rightarrow> string \<Rightarrow> string option" where
  "req_str b k = (case json_field b k of Some (JStr s) \<Rightarrow> if s = [] then None else Some s | _ \<Rightarrow> None)"

definition opt_str :: "json \<Rightarrow> string \<Rightarrow> string option option" where
  "opt_str b k = (case json_field b k of
     None \<Rightarrow> Some None | Some (JStr s) \<Rightarrow> Some (Some s) | _ \<Rightarrow> None)"

definition truthy_json :: "json option \<Rightarrow> bool" where
  "truthy_json j = (case j of
     None \<Rightarrow> False | Some JNull \<Rightarrow> False | Some (JBool b) \<Rightarrow> b | Some (JNum x) \<Rightarrow> x \<noteq> 0
   | Some (JStr s) \<Rightarrow> s \<noteq> [] | Some (JArr _) \<Rightarrow> True | Some (JObj _) \<Rightarrow> True)"

definition no_keys :: "json \<Rightarrow> bool" where
  "no_keys b = (case b of
     JObj kvs \<Rightarrow> kvs = [] | JArr xs \<Rightarrow> xs = [] | JStr s \<Rightarrow> s = [] | _ \<Rightarrow> True)"

text \<open>The check of one required field; \<open>NaN\<close> cannot occur in JSON.\<close>

definition field_error :: "json \<Rightarrow> string \<Rightarrow> string option" where
  "field_error b f = (case json_field b f of
     None \<Rightarrow> Some (''Missing required field: '' @ f)
   | Some JNull \<Rightarrow> Some (''Missing required field: '' @ f)
   | Some (JStr s) \<Rightarrow> if length (trim s) = 0 then Some (''Missing required field: '' @ f) else None
   | Some (JNum _) \<Rightarrow> None
   | Some _ \<Rightarrow> Some (''Invalid type for field: '' @ f))"

fun first_error :: "json \<Rightarrow> string list \<Rightarrow> string option" where
  "first_error b [] = None"
| "first_error b (f # fs) = (case field_error b f of Some e \<Rightarrow> Some e | None \<Rightarrow> first_error b fs)"

text \<open>\<open>Some r\<close> answers the request, \<open>None\<close> calls \<open>next()\<close>.\<close>

definition validateBody :: "string list \<Rightarrow> string \<Rightarrow> string option \<Rightarrow> json option \<Rightarrow> response option" where
  "validateBody requiredFields http_method contentType b =
     (if http_method \<in> {''POST'', ''PUT'', ''PATCH''}
         \<and> (case contentType of None \<Rightarrow> True | Some t \<Rightarrow> \<not> str_includes t ''application/json'')
        then Some (fail_with 400 ''Content-Type must be application/json'')
      else if \<not> truthy_json b then Some (fail_with 400 ''Request body is required'')
      else if no_keys (the b) then Some (fail_with 400 ''Request body cannot be empty'')
      else map_option (fail_with 400) (first_error (the b) requiredFields))"

text \<open>\<open>req.body?.txHash ?? req.params?.txHash\<close>: a \<open>null\<close> in the body falls through.\<close>

definition validateTxHash :: "json option \<Rightarrow> string option \<Rightarrow> response option" where
  "validateTxHash b param =
     (let bodyHash = (case b of None \<Rightarrow> None | Some j \<Rightarrow>
            (case json_field j ''txHash'' of Some JNull \<Rightarrow> None | x \<Rightarrow> x));
          txHash = (case bodyHash of Some j \<Rightarrow> Some j | None \<Rightarrow> map_option JStr param)
      in case txHash of
           None \<Rightarrow> None
         | Some (JStr s) \<Rightarrow> if hex_0x 63 64 s then None else
             Some (respond 400 [(''success'', JBool False),
               (''error'', JStr ''Invalid Starknet transaction hash format''),
               (''detail'', JStr ''Expected 0x followed by 63 or 64 lowercase hex characters'')])
         | Some _ \<Rightarrow>
             Some (respond 400 [(''success'', JBool False),
               (''error'', JStr ''Invalid Starknet transaction hash format''),
               (''detail'', JStr ''Expected 0x followed by 63 or 64 lowercase hex characters'')]))"

section \<open>Conversions of JSON values\<close>

text \<open>\<open>String(x)\<close>, which \<open>parseFloat\<close> and regular expressions apply to their argument.\<close>

fun comma_sep :: "string list \<Rightarrow> string" where
  "comma_sep [] = []"
| "comma_sep [s] = s"
| "comma_sep (s # ss) = s @ '','' @ comma_sep ss"

fun js_text :: "json \<Rightarrow> string" where
  "js_text JNull = ''null''"
| "js_text (JBool b) = (if b then ''true'' else ''false'')"
| "js_text (JNum x) = num_str x"
| "js_text (JStr s) = s"
| "js_text (JArr xs) = comma_sep (map (\<lambda>j. if j = JNull then [] else js_text j) xs)"
| "js_text (JObj kvs) = ''[object Object]''"

text \<open>\<open>Number(x)\<close>, and \<open>BigInt(x)\<close>, which refuses a number that is not an integer.\<close>

definition number_of_json :: "json \<Rightarrow> rat option" where
  "number_of_json j = (case j of
     JNum x \<Rightarrow> Some x | JNull \<Rightarrow> Some 0 | JBool b \<Rightarrow> Some (if b then 1 else 0)
   | _ \<Rightarrow> number_of_string (js_text j))"

definition big_of_json :: "json \<Rightarrow> int option" where
  "big_of_json j = (case j of
     JNum x \<Rightarrow> if of_int \<lfloor>x\<rfloor> = x then Some \<lfloor>x\<rfloor> else None
   | JBool b \<Rightarrow> Some (if b then 1 else 0) | JNull \<Rightarrow> None
   | _ \<Rightarrow> big_int (js_text j))"

section \<open>Errors that reach Express\<close>

record http_error =
  from_json_parser :: bool
  err_status :: nat
  err_message :: string

text \<open>\<open>err_status\<close> and \<open>err_message\<close> are 0 and empty when the property is missing.\<close>

definition errorHandler :: "http_error \<Rightarrow> response" where
  "errorHandler err =
     (if from_json_parser err then
        respond 400 [(''success'', JBool False), (''error'', JStr ''Invalid JSON body''), (''code'', JInt 400)]
      else
        let status = (if err_status err = 0 then 500 else err_status err);
            msg = (if err_message err = [] then ''Internal server error'' else err_message err)
        in respond status [(''success'', JBool False),
             (''error'', JStr (if status = 500 then ''Internal server error'' else msg)),
             (''code'', JInt (int status))])"

definition notFound :: "string \<Rightarrow> string \<Rightarrow> response" where
  "notFound http_method originalUrl = fail_with 404 (''Route not found: '' @ http_method @ '' '' @ originalUrl)"

definition methodNotAllowed :: response where
  "methodNotAllowed = fail_with 405 ''Method not allowed''"

section \<open>Tables\<close>

definition VALID_LOCK_DURATIONS :: "int list" where
  "VALID_LOCK_DURATIONS = [30, 90, 365]"

definition APY_RATES :: "int \<Rightarrow> rat option" where
  "APY_RATES = [30 \<mapsto> fl (6 / 100), 90 \<mapsto> fl (12 / 100), 365 \<mapsto> fl (18 / 100)]"

definition isValidLockDuration :: "int \<Rightarrow> bool" where
  "isValidLockDuration days = List.member VALID_LOCK_DURATIONS days"

definition getApy :: "int \<Rightarrow> rat option" where
  "getApy lockDurationDays = APY_RATES lockDurationDays"

definition VALID_LOCK_PERIODS :: "int list" where
  "VALID_LOCK_PERIODS = [30, 60, 90, 180, 365]"

definition CONST_APY_RATES :: "int \<Rightarrow> rat option" where
  "CONST_APY_RATES = [30 \<mapsto> fl (6 / 100), 60 \<mapsto> fl (9 / 100), 90 \<mapsto> fl (12 / 100),
     180 \<mapsto> fl (15 / 100), 365 \<mapsto> fl (18 / 100)]"

definition ALLOWED_DENOMINATIONS_BTC :: "rat list" where
  "ALLOWED_DENOMINATIONS_BTC = map fl [1 / 10000, 1 / 1000, 1 / 100, 1 / 10]"

definition ALLOWED_DENOMINATIONS_SATS :: "int list" where
  "ALLOWED_DENOMINATIONS_SATS = map (\<lambda>btc. math_round (mul btc (10 ^ 8))) ALLOWED_DENOMINATIONS_BTC"

definition isAllowedDenomination :: "rat \<Rightarrow> bool" where
  "isAllowedDenomination btcAmount =
     list_ex (\<lambda>d. \<bar>fl (d - btcAmount)\<bar> < fl (1 / 10 ^ 12)) ALLOWED_DENOMINATIONS_BTC"

definition MIN_ANONYMITY_SET :: "string option \<Rightarrow> int option" where
  "MIN_ANONYMITY_SET env = parseInt (case env of None \<Rightarrow> ''1'' | Some s \<Rightarrow> s)"

section \<open>Lemmas\<close>

lemma first_error_None: "first_error b fs = None \<longleftrightarrow> (\<forall>f \<in> set fs. field_error b f = None)"
  by (induction fs) (auto split: option.splits)

lemma denominations_sats: "ALLOWED_DENOMINATIONS_SATS = [10000, 100000, 1000000, 10000000]"
  by code_simp

lemma field_error_None:
  "field_error b f = None \<longleftrightarrow>
     (\<exists>s. json_field b f = Some (JStr s) \<and> trim s \<noteq> []) \<or> (\<exists>x. json_field b f = Some (JNum x))"
  by (auto simp: field_error_def split: option.splits json.splits)

section \<open>Properties\<close>

text \<open>
  \<open>validateBody\<close> lets a request with a body through exactly when the content type is JSON
  (for the methods that carry a body), the body is a non-empty object, and every required field is
  a number or a string that is not blank; every other answer is a 400.
\<close>

theorem validateBody_next_iff:
  assumes "f \<in> set requiredFields"
  shows "(validateBody requiredFields m ct (Some b) = None \<longleftrightarrow>
            (m \<in> {''POST'', ''PUT'', ''PATCH''} \<longrightarrow> (\<exists>t. ct = Some t \<and> str_includes t ''application/json''))
            \<and> (\<exists>kvs. b = JObj kvs)
            \<and> (\<forall>g \<in> set requiredFields.
                 (\<exists>s. json_field b g = Some (JStr s) \<and> trim s \<noteq> []) \<or> (\<exists>x. json_field b g = Some (JNum x))))
       \<and> (\<forall>r. validateBody requiredFields m ct (Some b) = Some r \<longrightarrow> code r = 400)"
proof -
  have obj: "\<exists>kvs. b = JObj kvs \<and> kvs \<noteq> []" if "field_error b f = None"
    using that by (cases b) (auto simp: field_error_None json_field_def)
  have "validateBody requiredFields m ct (Some b) = None \<longleftrightarrow>
      \<not> (m \<in> {''POST'', ''PUT'', ''PATCH''} \<and> (case ct of None \<Rightarrow> True | Some t \<Rightarrow> \<not> str_includes t ''application/json''))
      \<and> truthy_json (Some b) \<and> \<not> no_keys b \<and> (\<forall>g \<in> set requiredFields. field_error b g = None)"
    by (auto simp: validateBody_def first_error_None simp del: not_None_eq)
  also have "\<dots> \<longleftrightarrow> \<not> (m \<in> {''POST'', ''PUT'', ''PATCH''} \<and> (case ct of None \<Rightarrow> True | Some t \<Rightarrow> \<not> str_includes t ''application/json''))
      \<and> (\<exists>kvs. b = JObj kvs) \<and> (\<forall>g \<in> set requiredFields. field_error b g = None)"
    using obj assms by (auto simp: truthy_json_def no_keys_def)
  finally have "validateBody requiredFields m ct (Some b) = None \<longleftrightarrow>
            (m \<in> {''POST'', ''PUT'', ''PATCH''} \<longrightarrow> (\<exists>t. ct = Some t \<and> str_includes t ''application/json''))
            \<and> (\<exists>kvs. b = JObj kvs)
            \<and> (\<forall>g \<in> set requiredFields.
                 (\<exists>s. json_field b g = Some (JStr s) \<and> trim s \<noteq> []) \<or> (\<exists>x. json_field b g = Some (JNum x)))"
    unfolding field_error_None by (cases ct) auto
  moreover have "code r = 400" if "validateBody requiredFields m ct (Some b) = Some r" for r
    using that by (auto simp: validateBody_def split: if_splits)
  ultimately show ?thesis by blast
qed

theorem validateBody_next_iff_witness:
  "validateBody [''htlcId''] ''POST'' (Some ''application/json'') (Some (JObj [(''htlcId'', JStr ''x'')])) = None"
proof -
  have "trim ''x'' \<noteq> []" by (simp add: trim_def is_space_def char_code_def)
  then show ?thesis
    using validateBody_next_iff [of "''htlcId''" "[''htlcId'']" "''POST''" "Some ''application/json''"
        "JObj [(''htlcId'', JStr ''x'')]"]
    by (simp add: json_field_def starts_with_def)
qed

end
