(* ===== verification/Htlc.thy ===== *)
theory Htlc
  imports LockManager Db Crypto Validators
begin

text \<open>
  Hash time lock contracts: \<open>services/HTLCService.ts\<close> over the table \<open>htlcs\<close>, and
  \<open>routes/htlc.ts\<close>. The Poseidon hash is a field of \<open>crypto_lib\<close>; the random preimage bytes, the
  fresh id and the clock (in seconds) are arguments. The bodies passed to \<open>withLock\<close> do not await
  anything, so each call is one step; the state is the pair of the lock manager and the table.
\<close>

section \<open>The table\<close>

datatype htlc_status = h_pending | h_claimed | h_refunded

text \<open>A contract moves from pending to one of two final states: an order with a least element.\<close>

instantiation htlc_status :: order
begin

definition less_eq_htlc_status :: "htlc_status \<Rightarrow> htlc_status \<Rightarrow> bool" where
  "less_eq_htlc_status a b \<longleftrightarrow> a = h_pending \<or> a = b"

definition less_htlc_status :: "htlc_status \<Rightarrow> htlc_status \<Rightarrow> bool" where
  "less_htlc_status a b \<longleftrightarrow> a = h_pending \<and> b \<noteq> h_pending"

instance
  by standard (auto simp: less_eq_htlc_status_def less_htlc_status_def)

end

fun htlc_status_str :: "htlc_status \<Rightarrow> string" where
  "htlc_status_str h_pending = ''pending''"
| "htlc_status_str h_claimed = ''claimed''"
| "htlc_status_str h_refunded = ''refunded''"

record htlc =
  h_id :: string
  h_sender :: string
  h_receiver :: string
  h_amount :: string
  hashlock :: string
  timelock :: int
  h_status :: htlc_status
  h_created_at :: int

type_synonym htlcs = "htlc list"

definition insert_htlc :: "htlc \<Rightarrow> htlcs \<Rightarrow> htlcs res" where
  "insert_htlc h t = (if uniq h_id (t @ [h]) then Inr (t @ [h]) else Inl (unique_error ''htlcs.id''))"

interpretation htlc_by_id: keyed_table h_id "\<lambda>t. t" insert_htlc
  by unfold_locales (auto simp: insert_htlc_def split: if_splits)

definition set_status :: "htlc_status \<Rightarrow> string \<Rightarrow> htlcs \<Rightarrow> htlcs" where
  "set_status s i t = update_by (\<lambda>h. h_id h = i) (\<lambda>h. h\<lparr>h_status := s\<rparr>) t"

section \<open>The service\<close>

record create_result =
  htlcId :: string
  preimage :: string
  cr_hashlock :: string

definition create :: "crypto_lib \<Rightarrow> buffer \<Rightarrow> string \<Rightarrow> int \<Rightarrow> string \<Rightarrow> string \<Rightarrow> string \<Rightarrow> int \<Rightarrow> htlcs
    \<Rightarrow> create_result res \<times> htlcs" where
  "create cl bytes31 uuid now sender receiver amount tlock t =
     (let pre = ''0x'' @ hex_encode bytes31 in
      case poseidon cl pre ''0'' of
        Inl e \<Rightarrow> (Inl e, t)
      | Inr hl \<Rightarrow>
          (case insert_htlc \<lparr>h_id = uuid, h_sender = sender, h_receiver = receiver, h_amount = amount,
                   hashlock = hl, timelock = tlock, h_status = h_pending, h_created_at = now\<rparr> t of
             Inl e \<Rightarrow> (Inl e, t)
           | Inr t' \<Rightarrow> (Inr \<lparr>htlcId = uuid, preimage = pre, cr_hashlock = hl\<rparr>, t')))"

text \<open>The bodies of \<open>claim\<close> and \<open>refund\<close> inside the lock.\<close>

definition claim_body :: "crypto_lib \<Rightarrow> string \<Rightarrow> string \<Rightarrow> htlcs \<Rightarrow> unit res \<times> htlcs" where
  "claim_body cl i pre t = (case row_by h_id i t of
     None \<Rightarrow> (Inl (Error ''HTLC not found''), t)
   | Some h \<Rightarrow>
       if h_status h = h_claimed then (Inl (Error ''Already claimed''), t)
       else if h_status h = h_refunded then (Inl (Error ''Already refunded''), t)
       else if \<not> isValidFelt pre then
         (Inl (Error (''Invalid preimage '' @ emdash @ '' format mismatch'')), t)
       else (case poseidon cl pre ''0'' of
         Inl e \<Rightarrow> (Inl e, t)
       | Inr computed \<Rightarrow>
           if to_lower computed \<noteq> to_lower (hashlock h) then
             (Inl (Error (''Invalid preimage '' @ emdash @ '' hashlock mismatch'')), t)
           else (Inr (), set_status h_claimed i t)))"

definition refund_body :: "int \<Rightarrow> string \<Rightarrow> string \<Rightarrow> htlcs \<Rightarrow> unit res \<times> htlcs" where
  "refund_body now i senderAddress t = (case row_by h_id i t of
     None \<Rightarrow> (Inl (Error ''HTLC not found''), t)
   | Some h \<Rightarrow>
       if to_lower (h_sender h) \<noteq> to_lower senderAddress then (Inl (Error ''Not sender''), t)
       else if h_status h = h_claimed then (Inl (Error ''Already claimed''), t)
       else if h_status h = h_refunded then (Inl (Error ''Already refunded''), t)
       else if now < timelock h then
         (Inl (Error (''Timelock not expired '' @ emdash @ '' '' @ str_of_int (timelock h - now) @ ''s remaining'')), t)
       else (Inr (), set_status h_refunded i t))"

definition claim :: "call \<Rightarrow> crypto_lib \<Rightarrow> string \<Rightarrow> string \<Rightarrow> lock_state \<Rightarrow> htlcs \<Rightarrow> unit res \<times> lock_state \<times> htlcs" where
  "claim c cl i pre l t = withLock c (''htlc:claim:'' @ i) (claim_body cl i pre) l t"

definition refund :: "call \<Rightarrow> int \<Rightarrow> string \<Rightarrow> string \<Rightarrow> lock_state \<Rightarrow> htlcs \<Rightarrow> unit res \<times> lock_state \<times> htlcs" where
  "refund c now i senderAddress l t = withLock c (''htlc:refund:'' @ i) (refund_body now i senderAddress) l t"

definition getById :: "string \<Rightarrow> htlcs \<Rightarrow> htlc option" where
  "getById i t = row_by h_id i t"

definition listByAddress :: "string \<Rightarrow> htlcs \<Rightarrow> htlc list" where
  "listByAddress a t = sort_key (\<lambda>h. - h_created_at h) (filter (\<lambda>h. h_sender h = a \<or> h_receiver h = a) t)"

section \<open>The routes\<close>

text \<open>
  \<open>zmsg\<close> is the text of the \<open>ZodError\<close>. The body of \<open>create\<close> has passed \<open>validateBody\<close>, so that
  \<open>timelockSeconds\<close> is present and its default never applies.
\<close>

definition post_create :: "crypto_lib \<Rightarrow> buffer \<Rightarrow> string \<Rightarrow> int \<Rightarrow> string \<Rightarrow> json \<Rightarrow> htlcs \<Rightarrow> response \<times> htlcs" where
  "post_create cl bytes31 uuid now zmsg b t =
     (case (req_str b ''sender'', req_str b ''receiver'', req_str b ''amount'', json_field b ''timelockSeconds'') of
        (Some sender, Some receiver, Some amount, Some (JNum x)) \<Rightarrow>
          if x \<le> 0 \<or> of_int \<lfloor>x\<rfloor> \<noteq> x then (fail_with 400 zmsg, t)
          else if \<not> isValidStarknetAddress receiver then (fail_with 400 ''Invalid receiver address'', t)
          else if \<not> isValidAmount amount then (fail_with 400 ''Amount must be a positive number'', t)
          else if \<not> isValidTimelock now \<lfloor>x\<rfloor> then (fail_with 400 ''Timelock must be a future Unix timestamp'', t)
          else (case create cl bytes31 uuid now sender receiver amount \<lfloor>x\<rfloor> t of
            (Inl e, t') \<Rightarrow> (fail_with 400 (message e), t')
          | (Inr r, t') \<Rightarrow> (respond 201 [(''success'', JBool True), (''data'', JObj [
                (''htlcId'', JStr (htlcId r)), (''hashlock'', JStr (cr_hashlock r)),
                (''preimage'', JStr (preimage r)),
                (''warning'', JStr (''Save the preimage '' @ emdash @ '' it will NOT be returned again.''))])], t'))
      | _ \<Rightarrow> (fail_with 400 zmsg, t))"

definition claim_code :: "string \<Rightarrow> nat" where
  "claim_code msg =
     (if str_includes msg ''Resource is locked'' then 409
      else if str_includes msg ''Already'' then 409
      else if str_includes msg ''Invalid preimage'' then 401
      else if str_includes msg ''not found'' then 404 else 400)"

definition post_claim :: "call \<Rightarrow> crypto_lib \<Rightarrow> string \<Rightarrow> json \<Rightarrow> lock_state \<Rightarrow> htlcs \<Rightarrow> response \<times> lock_state \<times> htlcs" where
  "post_claim c cl zmsg b l t =
     (case (req_str b ''htlcId'', req_str b ''preimage'') of
        (Some i, Some pre) \<Rightarrow>
          (case claim c cl i pre l t of
             (Inl e, l', t') \<Rightarrow> (fail_with (claim_code (message e)) (message e), l', t')
           | (Inr _, l', t') \<Rightarrow>
               (respond 200 [(''success'', JBool True), (''data'', JObj [(''status'', JStr ''claimed'')])], l', t'))
      | _ \<Rightarrow> (fail_with (claim_code zmsg) zmsg, l, t))"

definition refund_code :: "string \<Rightarrow> nat" where
  "refund_code msg =
     (if str_includes msg ''Resource is locked'' then 409
      else if str_includes msg ''Timelock not expired'' then 403
      else if str_includes msg ''Already'' then 409
      else if str_includes msg ''not found'' then 404 else 400)"

definition post_refund :: "call \<Rightarrow> int \<Rightarrow> string \<Rightarrow> json \<Rightarrow> lock_state \<Rightarrow> htlcs \<Rightarrow> response \<times> lock_state \<times> htlcs" where
  "post_refund c now zmsg b l t =
     (case (req_str b ''htlcId'', req_str b ''senderAddress'') of
        (Some i, Some a) \<Rightarrow>
          (case refund c now i a l t of
             (Inl e, l', t') \<Rightarrow> (fail_with (refund_code (message e)) (message e), l', t')
           | (Inr _, l', t') \<Rightarrow>
               (respond 200 [(''success'', JBool True), (''data'', JObj [(''status'', JStr ''refunded'')])], l', t'))
      | _ \<Rightarrow> (fail_with (refund_code zmsg) zmsg, l, t))"

definition get_status :: "int \<Rightarrow> string \<Rightarrow> htlcs \<Rightarrow> response" where
  "get_status now i t = (case getById i t of
     None \<Rightarrow> fail_with 404 ''HTLC not found''
   | Some h \<Rightarrow> respond 200 [(''success'', JBool True), (''data'', JObj [
       (''id'', JStr (h_id h)), (''sender'', JStr (h_sender h)), (''receiver'', JStr (h_receiver h)),
       (''amount'', JStr (h_amount h)), (''timelock'', JInt (timelock h)),
       (''status'', JStr (htlc_status_str (h_status h))), (''created_at'', JInt (h_created_at h)),
       (''timelockExpired'', JBool (now \<ge> timelock h)),
       (''secondsUntilExpiry'', JInt (max 0 (timelock h - now)))])])"

definition htlc_json :: "htlc \<Rightarrow> json" where
  "htlc_json h = JObj [(''id'', JStr (h_id h)), (''sender'', JStr (h_sender h)),
     (''receiver'', JStr (h_receiver h)), (''amount'', JStr (h_amount h)), (''hashlock'', JStr (hashlock h)),
     (''timelock'', JInt (timelock h)), (''status'', JStr (htlc_status_str (h_status h))),
     (''created_at'', JInt (h_created_at h))]"

definition get_list :: "string \<Rightarrow> htlcs \<Rightarrow> response" where
  "get_list a t = respond 200 [(''success'', JBool True), (''data'', JArr (map htlc_json (listByAddress a t)))]"

section \<open>The contract as a state machine\<close>

text \<open>One call of the service, with the time at which it runs.\<close>

inductive htlc_step :: "crypto_lib \<Rightarrow> int \<Rightarrow> htlcs \<Rightarrow> htlcs \<Rightarrow> bool" for cl now t where
  created: "create cl bs uuid now s r a tlock t = (x, t') \<Longrightarrow> htlc_step cl now t t'"
| claimed: "claim c cl i pre l t = (x, l', t') \<Longrightarrow> htlc_step cl now t t'"
| refunded: "refund c now i a l t = (x, l', t') \<Longrightarrow> htlc_step cl now t t'"

inductive htlc_run :: "crypto_lib \<Rightarrow> htlcs \<Rightarrow> htlcs \<Rightarrow> bool" for cl t where
  stop: "htlc_run cl t t"
| step: "htlc_run cl t t1 \<Longrightarrow> htlc_step cl now t1 t2 \<Longrightarrow> htlc_run cl t t2"

section \<open>Lemmas\<close>

lemma withLock_cases:
  assumes "withLock c k fn l s = (r, l', s')"
  shows "(\<not> is_ok r \<and> l' = l \<and> s' = s) \<or> fn s = (r, s')"
  using assms by (auto simp: withLock_def split: sum.splits prod.splits)

lemma row_set_status:
  "row_by h_id j (set_status s i t) = map_option (\<lambda>h. if h_id h = i then h\<lparr>h_status := s\<rparr> else h) (row_by h_id j t)"
  by (simp add: set_status_def row_by_update)

lemma htlc_id: "row_by h_id i t = Some h \<Longrightarrow> h_id h = i"
  by (auto dest: row_by_Some)

lemma h_pending_iff: "s = h_pending \<longleftrightarrow> s \<noteq> h_claimed \<and> s \<noteq> h_refunded"
  by (cases s) simp_all

lemma claim_body_ok:
  "claim_body cl i pre t = (Inr u, t') \<longleftrightarrow>
     t' = set_status h_claimed i t \<and> isValidFelt pre \<and>
     (\<exists>h computed. row_by h_id i t = Some h \<and> h_status h = h_pending \<and>
        poseidon cl pre ''0'' = Inr computed \<and> to_lower computed = to_lower (hashlock h))"
  by (auto simp: claim_body_def split: option.splits if_splits sum.splits intro: htlc_status.exhaust)

lemma claim_body_err: "claim_body cl i pre t = (Inl e, t') \<Longrightarrow> t' = t"
  by (auto simp: claim_body_def split: option.splits if_splits sum.splits)

lemma refund_body_ok:
  "refund_body now i a t = (Inr u, t') \<longleftrightarrow>
     t' = set_status h_refunded i t \<and>
     (\<exists>h. row_by h_id i t = Some h \<and> h_status h = h_pending \<and> to_lower (h_sender h) = to_lower a
        \<and> timelock h \<le> now)"
  by (cases "row_by h_id i t") (auto simp: refund_body_def h_pending_iff)

lemma refund_body_err: "refund_body now i a t = (Inl e, t') \<Longrightarrow> t' = t"
  by (auto simp: refund_body_def split: option.splits if_splits)

text \<open>The terms of a contract: everything but its status.\<close>

definition htlc_terms :: "htlc \<Rightarrow> htlc" where
  "htlc_terms h = h\<lparr>h_status := h_pending\<rparr>"

definition advances :: "crypto_lib \<Rightarrow> int \<Rightarrow> htlc \<Rightarrow> htlc \<Rightarrow> bool" where
  "advances cl now h h' \<longleftrightarrow> htlc_terms h' = htlc_terms h \<and>
     (h' = h
      \<or> (h_status h = h_pending \<and> h_status h' = h_claimed
         \<and> (\<exists>pre computed. poseidon cl pre ''0'' = Inr computed \<and> to_lower computed = to_lower (hashlock h)))
      \<or> (h_status h = h_pending \<and> h_status h' = h_refunded \<and> timelock h \<le> now))"

lemma htlc_step_advances:
  assumes "htlc_step cl now t t'" and h: "row_by h_id i t = Some h"
  shows "\<exists>h'. row_by h_id i t' = Some h' \<and> advances cl now h h'"
  using assms(1)
proof (cases rule: htlc_step.cases)
  case (created bs uuid s r a tlock x)
  show ?thesis
  proof (cases "t' = t")
    case False
    then obtain q where "insert_htlc q t = Inr t'"
      using created by (auto simp: create_def Let_def split: sum.splits)
    then show ?thesis using htlc_by_id.lookup_kept h by (auto simp: advances_def)
  qed (use h in \<open>simp add: advances_def\<close>)
next
  case (claimed c j pre l x l')
  consider "t' = t" | "claim_body cl j pre t = (Inr (), t')"
    using withLock_cases [OF claimed [unfolded claim_def]] claim_body_err by (cases x) auto
  then show ?thesis
  proof cases
    case 2
    then obtain g computed where g: "t' = set_status h_claimed j t" "row_by h_id j t = Some g"
      "h_status g = h_pending" "poseidon cl pre ''0'' = Inr computed" "to_lower computed = to_lower (hashlock g)"
      by (auto simp: claim_body_ok)
    then show ?thesis using h htlc_id [OF h]
      by (auto simp: row_set_status advances_def htlc_terms_def) blast
  qed (use h in \<open>simp add: advances_def\<close>)
next
  case (refunded c j a l x l')
  consider "t' = t" | "refund_body now j a t = (Inr (), t')"
    using withLock_cases [OF refunded [unfolded refund_def]] refund_body_err by (cases x) auto
  then show ?thesis
  proof cases
    case 2
    then obtain g where g: "t' = set_status h_refunded j t" "row_by h_id j t = Some g"
      "h_status g = h_pending" "timelock g \<le> now"
      by (auto simp: refund_body_ok)
    then show ?thesis using h htlc_id [OF h] by (auto simp: row_set_status advances_def htlc_terms_def)
  qed (use h in \<open>simp add: advances_def\<close>)
qed

lemma advances_grows: "advances cl now h h' \<Longrightarrow> h_status h \<le> h_status h'"
  by (auto simp: advances_def less_eq_htlc_status_def)

section \<open>Properties\<close>

text \<open>
  C22. A contract settles at most once: along any sequence of service calls a contract is never
  lost, its parties, amount, hash lock and time lock never change, and once it is claimed or
  refunded it stays exactly as it is, so that it is never both; its status only grows.
\<close>

theorem htlc_settles_once:
  assumes "htlc_run cl t t'" and "row_by h_id i t = Some h"
  shows "\<exists>h'. row_by h_id i t' = Some h' \<and> htlc_terms h' = htlc_terms h \<and> h_status h \<le> h_status h'
              \<and> (h_status h \<noteq> h_pending \<longrightarrow> h' = h)"
  using assms
proof (induction rule: htlc_run.induct)
  case (step t1 now t2)
  then obtain h1 where h1: "row_by h_id i t1 = Some h1" "htlc_terms h1 = htlc_terms h"
    "h_status h \<le> h_status h1" "h_status h \<noteq> h_pending \<longrightarrow> h1 = h" by blast
  obtain h2 where "row_by h_id i t2 = Some h2" "advances cl now h1 h2"
    using htlc_step_advances [OF step.hyps(2) h1(1)] by blast
  then show ?case using h1 advances_grows [of cl now h1 h2] by (auto simp: advances_def)
qed simp

definition demo_htlc :: htlc where
  "demo_htlc = \<lparr>h_id = ''h'', h_sender = ''0xA'', h_receiver = ''0xb'', h_amount = ''5'',
     hashlock = ''0x3132'', timelock = 100, h_status = h_pending, h_created_at = 1\<rparr>"

theorem htlc_settles_once_witness:
  "\<exists>h'. row_by h_id ''h'' (set_status h_refunded ''h'' [demo_htlc]) = Some h' \<and> htlc_terms h' = htlc_terms demo_htlc"
proof -
  have "to_lower ''0xA'' = to_lower ''0xa''" by code_simp
  then have "refund 1 100 ''h'' ''0xa'' init_locks [demo_htlc]
      = (Inr (), withLock_exit 1 ''htlc:refund:h'' (case withLock_enter 1 ''htlc:refund:h'' init_locks of Inr l \<Rightarrow> l),
         set_status h_refunded ''h'' [demo_htlc])"
    by (simp add: refund_def withLock_def withLock_enter_def isLocked_def init_locks_def refund_body_def
        row_by_def demo_htlc_def)
  then have "htlc_step demo_lib 100 [demo_htlc] (set_status h_refunded ''h'' [demo_htlc])"
    by (rule htlc_step.refunded)
  then have "htlc_run demo_lib [demo_htlc] (set_status h_refunded ''h'' [demo_htlc])"
    by (rule htlc_run.step [OF htlc_run.stop])
  from htlc_settles_once [OF this, of "''h''" demo_htlc] show ?thesis
    by (auto simp: row_by_def demo_htlc_def)
qed

text \<open>
  What a claim takes: it succeeds exactly for an existing, pending contract and a well-formed
  preimage whose Poseidon hash is the hash lock up to letter case, when nobody else is inside the
  same lock; then that contract, and no other, becomes claimed. There is no test of the time
  lock: a claim after expiry succeeds as well.
\<close>

theorem claim_iff:
  "fst (claim c cl i pre l t) = Inr () \<longleftrightarrow>
     \<not> isLocked l (''htlc:claim:'' @ i) \<and> isValidFelt pre \<and>
     (\<exists>h computed. row_by h_id i t = Some h \<and> h_status h = h_pending \<and>
        poseidon cl pre ''0'' = Inr computed \<and> to_lower computed = to_lower (hashlock h) \<and>
        snd (snd (claim c cl i pre l t)) = set_status h_claimed i t)"
proof (cases "isLocked l (''htlc:claim:'' @ i)")
  case True
  then show ?thesis by (simp add: claim_def withLock_def withLock_enter_def)
next
  case False
  obtain r t' where b: "claim_body cl i pre t = (r, t')" by fastforce
  then have "\<exists>l'. claim c cl i pre l t = (r, l', t')"
    using False by (simp add: claim_def withLock_def withLock_enter_def)
  then show ?thesis using False b claim_body_ok [of cl i pre t "()" t'] by (cases r) auto
qed

text \<open>
  What a refund takes: an existing, pending contract, its sender (up to letter case), and a
  time lock that has expired.
\<close>

theorem refund_iff:
  "fst (refund c now i a l t) = Inr () \<longleftrightarrow>
     \<not> isLocked l (''htlc:refund:'' @ i) \<and>
     (\<exists>h. row_by h_id i t = Some h \<and> h_status h = h_pending \<and> to_lower (h_sender h) = to_lower a \<and>
        timelock h \<le> now \<and> snd (snd (refund c now i a l t)) = set_status h_refunded i t)"
proof (cases "isLocked l (''htlc:refund:'' @ i)")
  case True
  then show ?thesis by (simp add: refund_def withLock_def withLock_enter_def)
next
  case False
  obtain r t' where b: "refund_body now i a t = (r, t')" by fastforce
  then have "\<exists>l'. refund c now i a l t = (r, l', t')"
    using False by (simp add: refund_def withLock_def withLock_enter_def)
  then show ?thesis using False b refund_body_ok [of now i a t "()" t'] by (cases r) auto
qed

lemma isValidFelt_hex: "bs \<noteq> [] \<Longrightarrow> isValidFelt (''0x'' @ hex_encode bs)"
  using is_hex_hex_encode [of bs]
  by (cases bs) (auto simp: isValidFelt_def starts_with_def hex_byte_def)

text \<open>
  The preimage that \<open>create\<close> hands out opens its contract: a claim with it right after a
  successful creation succeeds (when the lock is free), and the contract is then claimed.
\<close>

theorem create_then_claim:
  assumes "create cl bytes uuid now s r a tlock t = (Inr res, t')" and "bytes \<noteq> []"
    and "\<not> isLocked l (''htlc:claim:'' @ uuid)"
  shows "\<exists>l' t''. claim c cl (htlcId res) (preimage res) l t' = (Inr (), l', t'')
          \<and> map_option h_status (getById uuid t'') = Some h_claimed"
proof -
  obtain hl q where p: "poseidon cl (''0x'' @ hex_encode bytes) ''0'' = Inr hl"
    and res: "res = \<lparr>htlcId = uuid, preimage = ''0x'' @ hex_encode bytes, cr_hashlock = hl\<rparr>"
    and q: "insert_htlc q t = Inr t'" "h_id q = uuid" "hashlock q = hl" "h_status q = h_pending"
    using assms(1) by (auto simp: create_def Let_def split: sum.splits)
  have row: "row_by h_id uuid t' = Some q"
    using htlc_by_id.lookup_inserted [OF q(1)] q(2) by simp
  have "fst (claim c cl uuid (''0x'' @ hex_encode bytes) l t') = Inr ()
      \<and> snd (snd (claim c cl uuid (''0x'' @ hex_encode bytes) l t')) = set_status h_claimed uuid t'"
  proof -
    have "claim_body cl uuid (''0x'' @ hex_encode bytes) t' = (Inr (), set_status h_claimed uuid t')"
      using row q p isValidFelt_hex [OF assms(2)] by (simp add: claim_body_ok del: append.simps)
    then show ?thesis using assms(3) by (simp add: claim_def withLock_def withLock_enter_def del: append.simps)
  qed
  moreover have "map_option h_status (getById uuid (set_status h_claimed uuid t')) = Some h_claimed"
    using row q(2) by (simp add: getById_def row_set_status)
  ultimately show ?thesis
    by (metis res create_result.select_convs(1,2) prod.collapse)
qed

theorem create_then_claim_witness:
  "\<exists>res t' l' t''. create demo_lib [1, 2] ''h'' 5 ''0xa'' ''0xb'' ''7'' 100 [] = (Inr res, t')
     \<and> claim 1 demo_lib (htlcId res) (preimage res) init_locks t' = (Inr (), l', t'')
     \<and> map_option h_status (getById ''h'' t'') = Some h_claimed"
proof -
  obtain res t' where c: "create demo_lib [1, 2] ''h'' 5 ''0xa'' ''0xb'' ''7'' 100 [] = (Inr res, t')"
    by (simp add: create_def demo_lib_def insert_htlc_def uniq_def Let_def)
  have "\<not> isLocked init_locks (''htlc:claim:'' @ ''h'')" by (simp add: isLocked_def init_locks_def)
  from create_then_claim [OF c _ this, of 1] show ?thesis using c by blast
qed

end
