(* ===== verification/Starknet.thy ===== *)
theory Starknet
  imports Prelude
begin

text \<open>
  \<open>backend/src/services/StarknetService.ts\<close>: the calls to the Starknet RPC node behind a circuit
  breaker. What the node and the relayer account answer is an argument: \<open>Some\<close> of a result that
  may be an exception, or \<open>None\<close> when the call has not settled within the 8 seconds of
  \<open>RPC_TIMEOUT_MS\<close>. Times are in milliseconds. The encoding of a number as two \<open>u128\<close> halves is
  starknet.js's \<open>bnToUint256\<close>, a parameter.
\<close>

section \<open>The circuit breaker\<close>

datatype circuit_status = CLOSED | OPEN | HALF_OPEN

record circuit =
  circuitStatus :: circuit_status
  consecutiveFailures :: nat
  nextAttemptAt :: int

definition init_circuit :: circuit where
  "init_circuit = \<lparr>circuitStatus = CLOSED, consecutiveFailures = 0, nextAttemptAt = 0\<rparr>"

definition THRESHOLD :: nat where "THRESHOLD = 5"
definition RESET_TIMEOUT_MS :: int where "RESET_TIMEOUT_MS = 60000"

definition isTripped :: "circuit \<Rightarrow> bool" where
  "isTripped cb = (circuitStatus cb = OPEN)"

text \<open>The test at the start of \<open>withResilience\<close>: refused, or let through.\<close>

definition circuit_enter :: "int \<Rightarrow> circuit \<Rightarrow> circuit res" where
  "circuit_enter now cb =
     (if circuitStatus cb = OPEN then
        (if now \<ge> nextAttemptAt cb then Inr (cb\<lparr>circuitStatus := HALF_OPEN\<rparr>)
         else Inl (Error (''RPC circuit is OPEN. Next retry in ''
                @ str_of_int (\<lceil>(of_int (nextAttemptAt cb - now) / 1000 :: rat)\<rceil>) @ ''s'')))
      else Inr cb)"

definition isNetworkError :: "string \<Rightarrow> bool" where
  "isNetworkError m = list_ex (str_includes m)
     [''fetch failed'', ''timed out'', ''ECONNREFUSED'', ''ENOTFOUND'', ''EAI_AGAIN'', ''network'',
      ''502'', ''503'', ''504'']"

definition isApplicationError :: "string \<Rightarrow> bool" where
  "isApplicationError m = list_ex (str_includes m)
     [''insufficient'', ''Invalid transaction'', ''Validation failed'', ''Block header not relayed yet'']"

definition count_failure :: "int \<Rightarrow> circuit \<Rightarrow> circuit" where
  "count_failure later cb = (let n = Suc (consecutiveFailures cb); cb1 = cb\<lparr>consecutiveFailures := n\<rparr>
     in if n \<ge> THRESHOLD
        then cb1\<lparr>circuitStatus := OPEN, nextAttemptAt := later + RESET_TIMEOUT_MS\<rparr> else cb1)"

text \<open>What happens to the breaker when the raced promise settles.\<close>

definition circuit_settle :: "int \<Rightarrow> 'a res \<Rightarrow> circuit \<Rightarrow> circuit" where
  "circuit_settle later r cb = (case r of
     Inr _ \<Rightarrow> cb\<lparr>consecutiveFailures := 0, circuitStatus := CLOSED\<rparr>
   | Inl e \<Rightarrow>
       if isNetworkError (message e) \<and> \<not> isApplicationError (message e) then count_failure later cb
       else if isApplicationError (message e) then cb
       else count_failure later cb)"

definition raced :: "'a res option \<Rightarrow> 'a res" where
  "raced out = (case out of None \<Rightarrow> Inl (Error ''RPC request timed out'') | Some r \<Rightarrow> r)"

text \<open>One call from start to end, when no other call settles in between.\<close>

definition withResilience :: "int \<Rightarrow> int \<Rightarrow> 'a res option \<Rightarrow> circuit \<Rightarrow> 'a res \<times> circuit" where
  "withResilience now later out cb = (case circuit_enter now cb of
     Inl e \<Rightarrow> (Inl e, cb)
   | Inr cb1 \<Rightarrow> (raced out, circuit_settle later (raced out) cb1))"

text \<open>Calls overlap: entering and settling are separate events of the event loop.\<close>

inductive circuit_step :: "circuit \<Rightarrow> circuit \<Rightarrow> bool" where
  enter: "circuit_enter now cb = Inr cb' \<Longrightarrow> circuit_step cb cb'"
| settle: "circuit_step cb (circuit_settle later (r :: unit res) cb)"

inductive_cases circuit_stepE: "circuit_step cb cb'"

inductive circuit_reachable :: "circuit \<Rightarrow> bool" where
  init: "circuit_reachable init_circuit"
| step: "circuit_reachable cb \<Longrightarrow> circuit_step cb cb' \<Longrightarrow> circuit_reachable cb'"

section \<open>Transactions of the relayer\<close>

record sn_config =
  vault_address :: string
  mockbtc_address :: string
  header_store :: "string option"
  u256 :: "int \<Rightarrow> string \<times> string"

record sn_call =
  contractAddress :: string
  entrypoint :: string
  calldata :: "string list"

text \<open>
  What sending a list of calls gives: no relayer account, or the outcome of \<open>getNonce\<close> and
  \<open>execute\<close>, a transaction hash.
\<close>

datatype relayer = NoAccount | Account "sn_call list \<Rightarrow> string res"

definition no_account :: exn where
  "no_account = Error ''INSUFFICIENT SEPOLIA ETH: No relayer account configured''"

definition insufficient_eth :: exn where
  "insufficient_eth = Error ''INSUFFICIENT SEPOLIA ETH''"

definition send_calls :: "string list \<Rightarrow> string \<Rightarrow> relayer \<Rightarrow> sn_call list \<Rightarrow> string res" where
  "send_calls poor prefix acc calls = (case acc of
     NoAccount \<Rightarrow> Inl no_account
   | Account execute \<Rightarrow> (case execute calls of
       Inr h \<Rightarrow> Inr h
     | Inl err \<Rightarrow> if list_ex (str_includes (to_lower (message err))) poor then Inl insufficient_eth
                 else Inl (Error (prefix @ message err))))"

definition deposit_calls :: "sn_config \<Rightarrow> string \<Rightarrow> int \<Rightarrow> sn_call list" where
  "deposit_calls cfg commitment amount =
     [\<lparr>contractAddress = mockbtc_address cfg, entrypoint = ''mint'',
       calldata = [vault_address cfg, fst (u256 cfg amount), snd (u256 cfg amount)]\<rparr>,
      \<lparr>contractAddress = vault_address cfg, entrypoint = ''deposit'', calldata = [commitment]\<rparr>]"

definition executeDeposit :: "sn_config \<Rightarrow> int \<Rightarrow> int \<Rightarrow> bool \<Rightarrow> relayer \<Rightarrow> string \<Rightarrow> int \<Rightarrow> circuit
    \<Rightarrow> string res \<times> circuit" where
  "executeDeposit cfg now later in_time acc commitment amount cb =
     withResilience now later
       (if in_time then Some (send_calls [''balance is smaller'', ''insufficient''] ''Deposit execution failed: '' acc
          (deposit_calls cfg commitment amount)) else None) cb"

record spv_params =
  sp_commitment :: string
  sp_blockHeight :: int
  sp_txPos :: int
  sp_rawTxBytes :: "int list"
  sp_voutIndex :: int
  sp_merkleProofWords :: "int list list"

definition spv_calldata :: "spv_params \<Rightarrow> string list" where
  "spv_calldata p =
     [sp_commitment p, str_of_int (sp_blockHeight p), str_of_int (sp_txPos p)]
     @ (str_of_nat (length (sp_rawTxBytes p)) # map str_of_int (sp_rawTxBytes p))
     @ [str_of_int (sp_voutIndex p)]
     @ (str_of_nat (length (sp_merkleProofWords p)) # map str_of_int (concat (sp_merkleProofWords p)))"

definition executeSpvDeposit :: "sn_config \<Rightarrow> int \<Rightarrow> int \<Rightarrow> bool \<Rightarrow> relayer \<Rightarrow> spv_params \<Rightarrow> circuit
    \<Rightarrow> string res \<times> circuit" where
  "executeSpvDeposit cfg now later in_time acc p cb =
     withResilience now later
       (if in_time then Some (send_calls [''insufficient''] ''SPV deposit failed: '' acc
          [\<lparr>contractAddress = vault_address cfg, entrypoint = ''deposit'', calldata = spv_calldata p\<rparr>]) else None) cb"

definition withdraw_call :: "sn_config \<Rightarrow> string \<Rightarrow> string list \<Rightarrow> string \<Rightarrow> int \<Rightarrow> sn_call" where
  "withdraw_call cfg nullifierHash proof recipient amount =
     \<lparr>contractAddress = vault_address cfg, entrypoint = ''withdraw'',
      calldata = [nullifierHash, str_of_nat (length proof)] @ proof
        @ [recipient, fst (u256 cfg amount), snd (u256 cfg amount)]\<rparr>"

definition sn_withdraw :: "sn_config \<Rightarrow> int \<Rightarrow> int \<Rightarrow> bool \<Rightarrow> relayer \<Rightarrow> string \<Rightarrow> string list \<Rightarrow> string \<Rightarrow> int
    \<Rightarrow> circuit \<Rightarrow> string res \<times> circuit" where
  "sn_withdraw cfg now later in_time acc nullifierHash proof recipient amount cb =
     withResilience now later
       (if in_time then Some (send_calls [''balance is smaller'', ''insufficient''] ''Withdraw execution failed: '' acc
          [withdraw_call cfg nullifierHash proof recipient amount]) else None) cb"

section \<open>Receipts\<close>

record event =
  from_address :: string
  keys :: "string list"
  data :: "string list"

text \<open>A receipt of the node, with its optional fields, and the shape the service returns.\<close>

record raw_receipt =
  rr_hash :: "string option"
  rr_block :: "int option"
  rr_status :: "string option"
  rr_events :: "event list option"

record tx_receipt =
  rc_transaction_hash :: string
  rc_block_number :: int
  rc_succeeded :: bool
  rc_events :: "event list"

definition validateTxHashFormat :: "string \<Rightarrow> bool" where
  "validateTxHashFormat txHash = hex_0x 60 64 txHash"

definition pad_hash :: "string \<Rightarrow> string" where
  "pad_hash txHashRaw = ''0x'' @ pad_start 64 (CHR ''0'')
     (if starts_with txHashRaw ''0x'' then drop 2 txHashRaw else txHashRaw)"

definition read_receipt :: "string \<Rightarrow> raw_receipt \<Rightarrow> tx_receipt" where
  "read_receipt txHash r = \<lparr>
     rc_transaction_hash = (case rr_hash r of None \<Rightarrow> txHash | Some h \<Rightarrow> if h = [] then txHash else h),
     rc_block_number = (case rr_block r of None \<Rightarrow> 0 | Some n \<Rightarrow> n),
     rc_succeeded = (rr_status r = Some ''SUCCEEDED''),
     rc_events = (case rr_events r of None \<Rightarrow> [] | Some es \<Rightarrow> es)\<rparr>"

definition getTransactionReceipt
    :: "int \<Rightarrow> int \<Rightarrow> raw_receipt option res option \<Rightarrow> string \<Rightarrow> circuit \<Rightarrow> tx_receipt res \<times> circuit" where
  "getTransactionReceipt now later out txHashRaw cb =
     (let txHash = pad_hash txHashRaw in
      if \<not> validateTxHashFormat txHash then (Inl (Error (''Invalid tx hash format: '' @ txHashRaw)), cb)
      else (case withResilience now later
          (map_option (\<lambda>r. bind_res r (\<lambda>receipt. case receipt of
             None \<Rightarrow> Inl (TransactionNotFoundError txHash)
           | Some r \<Rightarrow> Inr (read_receipt txHash r))) out) cb of
        (Inr r, cb') \<Rightarrow> (Inr r, cb')
      | (Inl (TransactionNotFoundError h), cb') \<Rightarrow> (Inl (TransactionNotFoundError h), cb')
      | (Inl err, cb') \<Rightarrow>
          (if str_includes (message err) ''not found'' \<or> str_includes (message err) ''404''
           then (Inl (TransactionNotFoundError txHash), cb') else (Inl err, cb'))))"

text \<open>
  \<open>waitForTransaction\<close>: one element of the list per attempt, with the clock before and after and
  what the node answers; the loop ends early on success, on a revert, and on an error whose text
  contains \<open>timeout\<close>. A list that ends before \<open>maxAttempts\<close> stands for a node that never
  answers.
\<close>

definition is_reverted :: "exn \<Rightarrow> bool" where
  "is_reverted e = (case e of TransactionRevertedError _ \<Rightarrow> True | _ \<Rightarrow> False)"

type_synonym attempt = "int \<times> int \<times> raw_receipt option res option"

fun wait_loop :: "string \<Rightarrow> nat \<Rightarrow> nat \<Rightarrow> attempt list \<Rightarrow> circuit \<Rightarrow> tx_receipt res \<times> circuit" where
  "wait_loop txHash maxAttempts 0 outs cb =
     (Inl (Error (''Transaction '' @ txHash @ '' not confirmed after '' @ str_of_nat maxAttempts
        @ '' attempts ('' @ str_of_nat (maxAttempts * 5) @ ''s)'')), cb)"
| "wait_loop txHash maxAttempts (Suc n) outs cb =
     (case outs of
        [] \<Rightarrow> wait_loop txHash maxAttempts n [] (snd (getTransactionReceipt 0 0 None txHash cb))
      | (now, later, out) # rest \<Rightarrow>
          (case getTransactionReceipt now later out txHash cb of
             (Inr r, cb') \<Rightarrow> if rc_succeeded r then (Inr r, cb')
                            else (Inl (TransactionRevertedError txHash), cb')
           | (Inl e, cb') \<Rightarrow> if is_reverted e \<or> str_includes (message e) ''timeout'' then (Inl e, cb')
                            else wait_loop txHash maxAttempts n rest cb'))"

definition waitForTransaction :: "string \<Rightarrow> nat \<Rightarrow> attempt list \<Rightarrow> circuit \<Rightarrow> tx_receipt res \<times> circuit" where
  "waitForTransaction txHash maxAttempts outs cb = wait_loop txHash maxAttempts maxAttempts outs cb"

section \<open>Events\<close>

record deposit_check =
  verified :: bool
  dc_blockNumber :: int
  dc_blockTimestamp :: int
  dc_actual :: "string option"

definition norm_hex :: "string \<Rightarrow> string" where
  "norm_hex s = replace_first (to_lower s) ''0x'' []"

definition is_deposit_event :: "sn_config \<Rightarrow> event \<Rightarrow> bool" where
  "is_deposit_event cfg ev = (to_lower (from_address ev) = to_lower (vault_address cfg)
     \<and> keys ev \<noteq> [] \<and> data ev \<noteq> [])"

text \<open>\<open>block_ts\<close> is the timestamp of the block, \<open>None\<close> when it cannot be had.\<close>

definition check_deposit :: "sn_config \<Rightarrow> string \<Rightarrow> int option \<Rightarrow> tx_receipt \<Rightarrow> deposit_check res" where
  "check_deposit cfg expectedCommitment block_ts r =
     (case List.find (is_deposit_event cfg) (rc_events r) of
        None \<Rightarrow> Inr \<lparr>verified = False, dc_blockNumber = rc_block_number r, dc_blockTimestamp = 0, dc_actual = None\<rparr>
      | Some ev \<Rightarrow>
          let actualCommitment = (case data ev of [] \<Rightarrow> [] | d # _ \<Rightarrow> d) in
          if norm_hex expectedCommitment \<noteq> norm_hex actualCommitment
          then Inl (CommitmentMismatchError expectedCommitment actualCommitment)
          else Inr \<lparr>verified = True, dc_blockNumber = rc_block_number r,
                    dc_blockTimestamp = (case block_ts of None \<Rightarrow> 0 | Some t \<Rightarrow> t),
                    dc_actual = Some actualCommitment\<rparr>)"

definition verifyDepositEvent :: "sn_config \<Rightarrow> tx_receipt res \<Rightarrow> string \<Rightarrow> int option \<Rightarrow> deposit_check res" where
  "verifyDepositEvent cfg receipt expectedCommitment block_ts =
     bind_res receipt (check_deposit cfg expectedCommitment block_ts)"

definition verifyWithdrawalEvent :: "sn_config \<Rightarrow> tx_receipt res \<Rightarrow> string \<Rightarrow> bool res" where
  "verifyWithdrawalEvent cfg receipt expectedNullifier =
     bind_res receipt (\<lambda>r. Inr (list_ex (\<lambda>ev. to_lower (from_address ev) = to_lower (vault_address cfg)
        \<and> list_ex (\<lambda>d. norm_hex d = norm_hex expectedNullifier) (data ev)) (rc_events r)))"

section \<open>Views\<close>

definition getLiveBlockNumber :: "int \<Rightarrow> int \<Rightarrow> int res option \<Rightarrow> circuit \<Rightarrow> int res \<times> circuit" where
  "getLiveBlockNumber now later out cb = (case withResilience now later out cb of
     (Inr n, cb') \<Rightarrow> (Inr n, cb')
   | (Inl e, cb') \<Rightarrow> (Inl (StarknetConnectionError (''Failed to get block number: '' @ message e)), cb'))"

text \<open>\<open>result[0]\<close> of the view call, \<open>undefined\<close> when the result is empty.\<close>

definition isHeaderStored :: "sn_config \<Rightarrow> int \<Rightarrow> int \<Rightarrow> string list res option \<Rightarrow> circuit \<Rightarrow> bool \<times> circuit" where
  "isHeaderStored cfg now later out cb =
     (case header_store cfg of
        None \<Rightarrow> (False, cb)
      | Some addr \<Rightarrow> if addr = [] then (False, cb) else
          (case withResilience now later out cb of
             (Inl _, cb') \<Rightarrow> (False, cb')
           | (Inr res, cb') \<Rightarrow> (case res of [] \<Rightarrow> True | f # _ \<Rightarrow> f \<noteq> ''0x0'' \<and> f \<noteq> ''0'', cb')))"

definition isCommitmentOnChain :: "int \<Rightarrow> int \<Rightarrow> string res option \<Rightarrow> circuit \<Rightarrow> bool \<times> circuit" where
  "isCommitmentOnChain now later out cb =
     (case withResilience now later (map_option (\<lambda>r. bind_res r (\<lambda>s. bind_res (big_int_res s) (\<lambda>z. Inr (z \<noteq> 0)))) out) cb of
        (Inr b, cb') \<Rightarrow> (b, cb')
      | (Inl _, cb') \<Rightarrow> (False, cb'))"

definition getMockBTCBalance :: "int \<Rightarrow> int \<Rightarrow> (int \<times> int) res option \<Rightarrow> string \<Rightarrow> circuit \<Rightarrow> int res \<times> circuit" where
  "getMockBTCBalance now later out walletAddress cb =
     (case withResilience now later (map_option (\<lambda>r. bind_res r (\<lambda>(lo, hi). Inr (lo + hi * 2 ^ 128))) out) cb of
        (Inr n, cb') \<Rightarrow> (Inr n, cb')
      | (Inl e, cb') \<Rightarrow> (Inl (StarknetConnectionError (''Failed to fetch MockBTC balance for '' @ walletAddress
            @ '': '' @ message e)), cb'))"

definition isContractReachable :: "int \<Rightarrow> int \<Rightarrow> string res option \<Rightarrow> circuit \<Rightarrow> bool \<times> circuit" where
  "isContractReachable now later out cb = (case withResilience now later out cb of
     (Inr classHash, cb') \<Rightarrow> (length classHash > 2, cb')
   | (Inl _, cb') \<Rightarrow> (False, cb'))"

section \<open>Lemmas\<close>

text \<open>The breaker is closed exactly while fewer than five failures have been counted.\<close>

definition circuit_inv :: "circuit \<Rightarrow> bool" where
  "circuit_inv cb \<longleftrightarrow> (circuitStatus cb = CLOSED \<longleftrightarrow> consecutiveFailures cb < THRESHOLD)"

lemma circuit_inv_count: "circuit_inv cb \<Longrightarrow> circuit_inv (count_failure later cb)"
  by (auto simp: circuit_inv_def count_failure_def Let_def THRESHOLD_def)

lemma circuit_inv_settle: "circuit_inv cb \<Longrightarrow> circuit_inv (circuit_settle later r cb)"
  using circuit_inv_count [of cb later]
  by (cases r) (auto simp: circuit_settle_def, auto simp: circuit_inv_def THRESHOLD_def)

lemma circuit_inv_enter: "circuit_inv cb \<Longrightarrow> circuit_enter now cb = Inr cb' \<Longrightarrow> circuit_inv cb'"
  by (auto simp: circuit_enter_def circuit_inv_def split: if_splits)

text \<open>
  What happens to the breaker while no call succeeds: calls enter, or try to, and calls that are in flight fail.
\<close>

datatype circuit_event = Entered int | Failed int exn

fun circuit_after :: "circuit_event \<Rightarrow> circuit \<Rightarrow> circuit" where
  "circuit_after (Entered now) cb = (case circuit_enter now cb of Inl _ \<Rightarrow> cb | Inr cb' \<Rightarrow> cb')"
| "circuit_after (Failed later e) cb = circuit_settle later (Inl e :: unit res) cb"

fun within_minute :: "int \<Rightarrow> circuit_event \<Rightarrow> bool" where
  "within_minute t0 (Entered now) \<longleftrightarrow> now < t0 + RESET_TIMEOUT_MS"
| "within_minute t0 (Failed later e) \<longleftrightarrow> t0 \<le> later"

definition open_until :: "int \<Rightarrow> circuit \<Rightarrow> bool" where
  "open_until t cb \<longleftrightarrow> circuitStatus cb = OPEN \<and> THRESHOLD \<le> consecutiveFailures cb \<and> t \<le> nextAttemptAt cb"

lemma open_until_event:
  "open_until (t0 + RESET_TIMEOUT_MS) cb \<Longrightarrow> within_minute t0 ev \<Longrightarrow> open_until (t0 + RESET_TIMEOUT_MS) (circuit_after ev cb)"
  by (cases ev) (auto simp: open_until_def circuit_enter_def circuit_settle_def count_failure_def Let_def)

lemma open_until_events:
  "open_until (t0 + RESET_TIMEOUT_MS) cb \<Longrightarrow> list_all (within_minute t0) evs
     \<Longrightarrow> open_until (t0 + RESET_TIMEOUT_MS) (fold circuit_after evs cb)"
  by (induction evs arbitrary: cb) (simp_all add: open_until_event)

lemma open_until_count:
  "THRESHOLD \<le> Suc (consecutiveFailures cb) \<Longrightarrow> open_until (later + RESET_TIMEOUT_MS) (count_failure later cb)"
  by (simp add: open_until_def count_failure_def Let_def)

definition refusal :: "int \<Rightarrow> circuit \<Rightarrow> exn" where
  "refusal now cb = Error (''RPC circuit is OPEN. Next retry in ''
     @ str_of_int (\<lceil>(of_int (nextAttemptAt cb - now) / 1000 :: rat)\<rceil>) @ ''s'')"

lemma open_refuses: "open_until t cb \<Longrightarrow> now < t \<Longrightarrow> withResilience now later out cb = (Inl (refusal now cb), cb)"
  by (simp add: open_until_def withResilience_def circuit_enter_def refusal_def)

lemma refused_within_minute:
  "open_until (t0 + RESET_TIMEOUT_MS) cb \<Longrightarrow> list_all (within_minute t0) evs \<Longrightarrow> now < t0 + 60000
     \<Longrightarrow> withResilience now later out (fold circuit_after evs cb)
       = (Inl (refusal now (fold circuit_after evs cb)), fold circuit_after evs cb)"
  using open_refuses [OF open_until_events] by (simp add: RESET_TIMEOUT_MS_def)

subsection \<open>The calldata of a deposit\<close>

text \<open>
  How the contract reads its arguments (\<open>contracts/src/vault.cairo\<close>, \<open>deposit\<close>): a span is its
  length and its elements, a \<open>[u32; 8]\<close> its eight words.
\<close>

fun read_felts :: "string list \<Rightarrow> int list option" where
  "read_felts [] = Some []"
| "read_felts (s # ss) = (case (big_int s, read_felts ss) of (Some z, Some zs) \<Rightarrow> Some (z # zs) | _ \<Rightarrow> None)"

fun chunks8 :: "nat \<Rightarrow> 'a list \<Rightarrow> 'a list list" where
  "chunks8 0 xs = []"
| "chunks8 (Suc n) xs = take 8 xs # chunks8 n (drop 8 xs)"

definition read_spv :: "string list \<Rightarrow> spv_params option" where
  "read_spv cd = (case cd of
     c # rest \<Rightarrow> (case read_felts rest of
       Some (h # pos # n # zs) \<Rightarrow>
         (case drop (nat n) zs of
            v # m # ws \<Rightarrow> if nat n \<le> length zs \<and> length ws = 8 * nat m
              then Some \<lparr>sp_commitment = c, sp_blockHeight = h, sp_txPos = pos,
                sp_rawTxBytes = take (nat n) zs, sp_voutIndex = v, sp_merkleProofWords = chunks8 (nat m) ws\<rparr>
              else None
          | _ \<Rightarrow> None)
     | _ \<Rightarrow> None)
   | _ \<Rightarrow> None)"

lemma read_felts_str: "read_felts (map str_of_int zs) = Some zs"
  by (induction zs) (auto simp: big_int_str_of_int)

lemma chunks8_concat: "\<forall>w \<in> set ws. length w = 8 \<Longrightarrow> chunks8 (length ws) (concat ws) = ws"
  by (induction ws) auto

lemma length_concat8: "\<forall>w \<in> set ws. length w = 8 \<Longrightarrow> length (concat ws) = 8 * length ws"
  by (induction ws) auto

subsection \<open>Waiting\<close>

lemma receipt_origin:
  assumes "getTransactionReceipt now later out txHash cb = (Inr r, cb')"
  shows "\<exists>raw. out = Some (Inr (Some raw)) \<and> (rc_succeeded r \<longleftrightarrow> rr_status raw = Some ''SUCCEEDED'')"
proof -
  obtain q where q: "withResilience now later
      (map_option (\<lambda>r. bind_res r (\<lambda>receipt. case receipt of
             None \<Rightarrow> Inl (TransactionNotFoundError (pad_hash txHash))
           | Some r \<Rightarrow> Inr (read_receipt (pad_hash txHash) r))) out) cb = (Inr r, q)"
    using assms by (auto simp: getTransactionReceipt_def Let_def split: if_splits sum.splits prod.splits exn.splits)
  then have "raced (map_option (\<lambda>r. bind_res r (\<lambda>receipt. case receipt of
             None \<Rightarrow> Inl (TransactionNotFoundError (pad_hash txHash))
           | Some r \<Rightarrow> Inr (read_receipt (pad_hash txHash) r))) out) = Inr r"
    by (auto simp: withResilience_def split: sum.splits)
  then obtain raw where "out = Some (Inr (Some raw))" "r = read_receipt (pad_hash txHash) raw"
    by (cases out) (auto simp: raced_def split: option.splits)
  then show ?thesis by (simp add: read_receipt_def)
qed

section \<open>Properties\<close>

text \<open>
  C24. The breaker does what it is for, however calls overlap. It is closed exactly while fewer
  than five failures in a row have been counted. A failure that counts and is at least the fifth, at time \<open>t0\<close>, opens it for the
  reset time: until \<open>t0 + 60000\<close> milliseconds, whatever calls try to enter and whatever calls in flight fail meanwhile, every
  call is refused without asking the node and changes nothing. It ends early in one way: a call in flight that succeeds
  closes the breaker at once.
\<close>

theorem circuit_breaker_safe:
  assumes "circuit_reachable cb"
  shows "(circuitStatus cb = CLOSED \<longleftrightarrow> consecutiveFailures cb < 5)
       \<and> (\<forall>e t0 evs now. 4 \<le> consecutiveFailures cb \<and> \<not> isApplicationError (message e)
            \<and> list_all (within_minute t0) evs \<and> now < t0 + 60000 \<longrightarrow>
            (let cb' = fold circuit_after evs (circuit_settle t0 (Inl e :: 'a res) cb)
             in circuitStatus cb' = OPEN
                \<and> (\<forall>later out. withResilience now later (out :: 'b res option) cb' = (Inl (refusal now cb'), cb'))))
       \<and> (\<forall>t (x :: 'a). circuitStatus (circuit_settle t (Inr x) cb) = CLOSED)"
proof (intro conjI allI impI)
  have "circuit_inv cb"
    using assms
  proof induction
    case init
    then show ?case by (simp add: circuit_inv_def init_circuit_def THRESHOLD_def)
  next
    case (step cb cb')
    then show ?case by (auto elim!: circuit_stepE intro: circuit_inv_enter circuit_inv_settle)
  qed
  then show "circuitStatus cb = CLOSED \<longleftrightarrow> consecutiveFailures cb < 5" by (simp add: circuit_inv_def THRESHOLD_def)
next
  fix e t0 evs now
  assume a: "4 \<le> consecutiveFailures cb \<and> \<not> isApplicationError (message e)
      \<and> list_all (within_minute t0) evs \<and> now < t0 + 60000"
  have "circuit_settle t0 (Inl e :: 'a res) cb = count_failure t0 cb" using a by (simp add: circuit_settle_def)
  then have o: "open_until (t0 + RESET_TIMEOUT_MS) (circuit_settle t0 (Inl e :: 'a res) cb)"
    using a open_until_count [of cb t0] by (simp add: THRESHOLD_def)
  show "let cb' = fold circuit_after evs (circuit_settle t0 (Inl e :: 'a res) cb) in circuitStatus cb' = OPEN
      \<and> (\<forall>later out. withResilience now later (out :: 'b res option) cb' = (Inl (refusal now cb'), cb'))"
    using open_until_events [OF o] a by (simp add: refused_within_minute [OF o] open_until_def Let_def)
qed (simp add: circuit_settle_def)

definition net_down :: exn where "net_down = Error ''fetch failed''"

theorem circuit_breaker_safe_witness:
  "\<exists>cb. consecutiveFailures cb = 4 \<and> circuitStatus cb = CLOSED
     \<and> (let cb' = fold circuit_after [Entered 7, Failed 8 net_down] (circuit_settle 5 (Inl net_down :: int res) cb)
        in circuitStatus cb' = OPEN \<and> (\<forall>later out. withResilience 60004 later (out :: int res option) cb' = (Inl (refusal 60004 cb'), cb')))"
proof -
  define f where "f = (\<lambda>later. circuit_settle later (Inl net_down :: unit res))"
  let ?cb = "f 4 (f 3 (f 2 (f 1 init_circuit)))"
  have st: "circuit_reachable cb \<Longrightarrow> circuit_reachable (f later cb)" for cb later
    unfolding f_def by (rule circuit_reachable.step [OF _ circuit_step.settle])
  have r: "circuit_reachable ?cb"
    by (intro st circuit_reachable.init)
  have n: "isNetworkError (message net_down) \<and> \<not> isApplicationError (message net_down)" by code_simp
  have c: "consecutiveFailures ?cb = 4"
    using n by (simp add: f_def circuit_settle_def count_failure_def init_circuit_def THRESHOLD_def Let_def)
  note s = circuit_breaker_safe [OF r, where 'a = int and 'b = int]
  have "circuitStatus ?cb = CLOSED" using conjunct1 [OF s] c by simp
  moreover have "4 \<le> consecutiveFailures ?cb \<and> \<not> isApplicationError (message net_down)
      \<and> list_all (within_minute 5) [Entered 7, Failed 8 net_down] \<and> (60004 :: int) < 5 + 60000"
    using c n by (simp add: RESET_TIMEOUT_MS_def)
  ultimately show ?thesis using conjunct1 [OF conjunct2 [OF s]] c by blast
qed

text \<open>
  A relayer without funds trips the breaker: the texts that the service itself throws for this
  application error are in capitals, which \<open>isApplicationError\<close> does not recognise, so each such
  deposit counts as a failure and after five of them every RPC call of the backend is refused.
\<close>

theorem insufficient_funds_trips_circuit:
  "circuitStatus (((\<lambda>cb. snd (executeDeposit cfg now later True NoAccount commitment amount cb)) ^^ 5) init_circuit) = OPEN
   \<and> (\<forall>err. str_includes (to_lower (message err)) ''insufficient'' \<longrightarrow>
        circuitStatus (((\<lambda>cb. snd (executeDeposit cfg now later True (Account (\<lambda>_. Inl err)) commitment amount cb)) ^^ 5)
          init_circuit) = OPEN)"
proof -
  have app: "\<not> isApplicationError (message no_account)" "\<not> isApplicationError (message insufficient_eth)"
    by (code_simp, code_simp)
  have settle: "circuit_settle later (Inl e :: string res) cb = count_failure later cb"
    if "\<not> isApplicationError (message e)" for e cb
    using that by (simp add: circuit_settle_def)
  have five: "circuitStatus ((g ^^ 5) init_circuit) = OPEN"
    if g: "\<And>cb. circuitStatus cb = CLOSED \<Longrightarrow> g cb = count_failure later cb" for g :: "circuit \<Rightarrow> circuit"
    by (simp add: g numeral_eq_Suc init_circuit_def count_failure_def THRESHOLD_def Let_def)
  have "snd (executeDeposit cfg now later True acc commitment amount cb) = count_failure later cb"
    if "circuitStatus cb = CLOSED" and e: "send_calls [''balance is smaller'', ''insufficient'']
        ''Deposit execution failed: '' acc (deposit_calls cfg commitment amount) = Inl e"
      "\<not> isApplicationError (message e)" for cb acc e
    using that settle [OF e(2), of cb]
    by (simp add: executeDeposit_def withResilience_def circuit_enter_def raced_def)
  then show ?thesis using app
    by (intro conjI allI impI five) (simp_all add: send_calls_def)
qed

theorem insufficient_funds_trips_circuit_witness:
  "circuitStatus (((\<lambda>cb. snd (executeDeposit \<lparr>vault_address = ''0x1'', mockbtc_address = ''0x2'', header_store = None,
       u256 = (\<lambda>n. (str_of_int n, ''0''))\<rparr> 3 4 True (Account (\<lambda>_. Inl (Error ''Insufficient fee'')))
       ''0xc'' 7 cb)) ^^ 5) init_circuit) = OPEN"
proof -
  have "str_includes (to_lower (message (Error ''Insufficient fee''))) ''insufficient''" by code_simp
  then show ?thesis using insufficient_funds_trips_circuit by blast
qed

text \<open>
  The calldata of an SPV deposit says what it should: reading it by the contract's signature
  gives back the commitment, the height, the position, every transaction byte, the output index
  and every Merkle sibling.
\<close>

theorem spv_calldata_roundtrip:
  assumes "\<forall>w \<in> set (sp_merkleProofWords p). length w = 8"
  shows "read_spv (spv_calldata p) = Some p"
proof -
  let ?zs = "sp_rawTxBytes p @ sp_voutIndex p # int (length (sp_merkleProofWords p)) # concat (sp_merkleProofWords p)"
  let ?all = "sp_blockHeight p # sp_txPos p # int (length (sp_rawTxBytes p)) # ?zs"
  have "spv_calldata p = sp_commitment p # map str_of_int ?all"
    by (simp add: spv_calldata_def str_of_nat_def)
  then have "read_spv (spv_calldata p) = (case Some ?all of
       Some (h # pos # n # zs) \<Rightarrow>
         (case drop (nat n) zs of
            v # m # ws \<Rightarrow> if nat n \<le> length zs \<and> length ws = 8 * nat m
              then Some \<lparr>sp_commitment = sp_commitment p, sp_blockHeight = h, sp_txPos = pos,
                sp_rawTxBytes = take (nat n) zs, sp_voutIndex = v, sp_merkleProofWords = chunks8 (nat m) ws\<rparr>
              else None
          | _ \<Rightarrow> None)
     | _ \<Rightarrow> None)"
    by (simp only: read_spv_def list.case read_felts_str)
  also have "\<dots> = Some p"
    by (simp add: chunks8_concat [OF assms] length_concat8 [OF assms])
  finally show ?thesis .
qed

theorem spv_calldata_roundtrip_witness:
  "read_spv (spv_calldata \<lparr>sp_commitment = ''0xc'', sp_blockHeight = 290000, sp_txPos = 3, sp_rawTxBytes = [1, 0, 255],
      sp_voutIndex = 1, sp_merkleProofWords = [[1, 2, 3, 4, 5, 6, 7, 8]]\<rparr>)
   = Some \<lparr>sp_commitment = ''0xc'', sp_blockHeight = 290000, sp_txPos = 3, sp_rawTxBytes = [1, 0, 255],
      sp_voutIndex = 1, sp_merkleProofWords = [[1, 2, 3, 4, 5, 6, 7, 8]]\<rparr>"
  by (rule spv_calldata_roundtrip) simp

text \<open>
  \<open>waitForTransaction\<close> never confirms a transaction that the node did not report as
  \<open>SUCCEEDED\<close> in one of its attempts, and it always ends: within \<open>maxAttempts\<close> attempts it gives
  such a receipt, or an error.
\<close>

theorem waitForTransaction_sound:
  "case fst (waitForTransaction txHash maxAttempts outs cb) of
     Inr r \<Rightarrow> rc_succeeded r \<and> (\<exists>(now, later, out) \<in> set (take maxAttempts outs).
                \<exists>raw. out = Some (Inr (Some raw)) \<and> rr_status raw = Some ''SUCCEEDED'')
   | Inl e \<Rightarrow> True"
proof -
  have "fst (wait_loop txHash m n outs cb) = Inr r \<Longrightarrow> rc_succeeded r \<and> (\<exists>(now, later, out) \<in> set (take n outs).
                \<exists>raw. out = Some (Inr (Some raw)) \<and> rr_status raw = Some ''SUCCEEDED'')" for m n r
  proof (induction n arbitrary: outs cb)
    case 0
    then show ?case by simp
  next
    case (Suc n)
    show ?case
    proof (cases outs)
      case Nil
      then have "fst (wait_loop txHash m n [] (snd (getTransactionReceipt 0 0 None txHash cb))) = Inr r"
        using Suc.prems by simp
      then show ?thesis using Suc.IH by fastforce
    next
      case (Cons a rest)
      obtain now later out where a: "a = (now, later, out)" by (cases a)
      obtain x cb' where x: "getTransactionReceipt now later out txHash cb = (x, cb')" by fastforce
      show ?thesis
      proof (cases x)
        case (Inr q)
        then have q: "q = r" "rc_succeeded q"
          using Suc.prems Cons a x by (auto split: if_splits)
        then show ?thesis using receipt_origin [of now later out txHash cb q cb'] Inr x Cons a by auto
      next
        case (Inl e)
        then have "fst (wait_loop txHash m n rest cb') = Inr r"
          using Suc.prems Cons a x by (simp split: if_splits)
        then show ?thesis using Suc.IH [of rest cb'] Cons by auto
      qed
    qed
  qed
  then show ?thesis by (auto simp: waitForTransaction_def split: sum.splits)
qed

text \<open>
  Deposit verification cannot succeed on what the vault emits: \<open>vault.cairo\<close> emits a
  \<open>Deposit\<close> with the commitment as its key and the amount in satoshis as its first datum, and
  the service compares the commitment with the first datum. A genuine deposit event is
  therefore answered with a \<open>CommitmentMismatchError\<close>, unless the amount happens to be written
  like the commitment.
\<close>

theorem verifyDepositEvent_rejects_vault_events:
  assumes "List.find (is_deposit_event cfg) (rc_events r) =
      Some \<lparr>from_address = vault_address cfg, keys = [selector, commitment], data = [amount, height]\<rparr>"
    and "norm_hex amount \<noteq> norm_hex commitment"
  shows "verifyDepositEvent cfg (Inr r) commitment ts = Inl (CommitmentMismatchError commitment amount)"
  using assms by (auto simp: verifyDepositEvent_def check_deposit_def Let_def)

definition demo_cfg_sn :: sn_config where
  "demo_cfg_sn = \<lparr>vault_address = ''0x1'', mockbtc_address = ''0x2'', header_store = None,
     u256 = (\<lambda>n. (str_of_int n, ''0''))\<rparr>"

theorem verifyDepositEvent_rejects_vault_events_witness:
  "verifyDepositEvent demo_cfg_sn (Inr \<lparr>rc_transaction_hash = ''0x9'', rc_block_number = 7, rc_succeeded = True,
      rc_events = [\<lparr>from_address = ''0x1'', keys = [''0xd'', ''0xabc''], data = [''0x2710'', ''0x7'']\<rparr>]\<rparr>) ''0xabc'' None
    = Inl (CommitmentMismatchError ''0xabc'' ''0x2710'')"
proof -
  have "norm_hex ''0x2710'' \<noteq> norm_hex ''0xabc''" by code_simp
  then show ?thesis
    by (intro verifyDepositEvent_rejects_vault_events [where selector = "''0xd''" and height = "''0x7''"])
       (simp_all add: demo_cfg_sn_def is_deposit_event_def)
qed

end
