(* ===== verification/Commitments.thy ===== *)
theory Commitments
  imports LockManager Authorization Crypto Validators Starknet
begin

text \<open>
  \<open>services/CommitmentService.ts\<close> over the table \<open>sc_commitments\<close>, and \<open>routes/commitment.ts\<close>
  with the direct deposit. Random bytes, fresh ids, the clock (in milliseconds, as \<open>Date.now()\<close>
  gives it), and what Starknet answers are arguments. The STARK proof that the deposit starts in the
  background is in no way awaited by it and is not part of the handler's model.
\<close>

section \<open>The service\<close>

record sc_row =
  sc_id :: string
  sc_commitment :: string
  sc_nullifier_hash :: string
  sc_used :: int
  sc_created_at :: int

type_synonym scs = "sc_row list"

definition insert_sc :: "sc_row \<Rightarrow> scs \<Rightarrow> scs res" where
  "insert_sc r t =
     (if \<not> uniq sc_id (t @ [r]) then Inl (unique_error ''sc_commitments.id'')
      else if \<not> uniq sc_commitment (t @ [r]) then Inl (unique_error ''sc_commitments.commitment'')
      else if \<not> uniq sc_nullifier_hash (t @ [r]) then Inl (unique_error ''sc_commitments.nullifier_hash'')
      else Inr (t @ [r]))"

interpretation sc_by_commitment: keyed_table sc_commitment "\<lambda>t. t" insert_sc
  by unfold_locales (auto simp: insert_sc_def split: if_splits)

interpretation sc_by_nullifier: keyed_table sc_nullifier_hash "\<lambda>t. t" insert_sc
  by unfold_locales (auto simp: insert_sc_def split: if_splits)

record commit_result =
  cm_commitment :: string
  cm_nullifier_hash :: string
  cm_id :: string

definition commit :: "crypto_lib \<Rightarrow> string \<Rightarrow> int \<Rightarrow> string \<Rightarrow> string \<Rightarrow> scs \<Rightarrow> commit_result res \<times> scs" where
  "commit cl uuid now secret salt_v t =
     (case bind_res (generateCommitment cl secret salt_v) (\<lambda>c.
           bind_res (generateNullifier cl c secret) (\<lambda>n. Inr (c, n))) of
        Inl e \<Rightarrow> (Inl e, t)
      | Inr (c, n) \<Rightarrow>
          (case row_by sc_commitment c t of
             Some existing \<Rightarrow> (Inr \<lparr>cm_commitment = c, cm_nullifier_hash = n, cm_id = sc_id existing\<rparr>, t)
           | None \<Rightarrow>
               (case insert_sc \<lparr>sc_id = uuid, sc_commitment = c, sc_nullifier_hash = n, sc_used = 0,
                      sc_created_at = now\<rparr> t of
                  Inl e \<Rightarrow> (Inl e, t)
                | Inr t' \<Rightarrow> (Inr \<lparr>cm_commitment = c, cm_nullifier_hash = n, cm_id = uuid\<rparr>, t'))))"

definition norm :: "string \<Rightarrow> string" where
  "norm s = pad_start 64 (CHR ''0'') (replace_first (to_lower s) ''0x'' [])"

definition verify :: "crypto_lib \<Rightarrow> string \<Rightarrow> string \<Rightarrow> string \<Rightarrow> bool res" where
  "verify cl secret salt_v expectedCommitment =
     bind_res (generateCommitment cl salt_v secret) (\<lambda>computed. Inr (norm computed = norm expectedCommitment))"

definition mark_body :: "string \<Rightarrow> scs \<Rightarrow> unit res \<times> scs" where
  "mark_body n t = (case row_by sc_nullifier_hash n t of
     None \<Rightarrow> (Inl (Error (''Nullifier not found: '' @ n)), t)
   | Some r \<Rightarrow> if sc_used r = 1 then (Inl (Error (''Nullifier already used: '' @ n)), t)
     else (Inr (), update_by (\<lambda>r. sc_nullifier_hash r = n) (\<lambda>r. r\<lparr>sc_used := 1\<rparr>) t))"

definition markNullifierUsed :: "call \<Rightarrow> string \<Rightarrow> lock_state \<Rightarrow> scs \<Rightarrow> unit res \<times> lock_state \<times> scs" where
  "markNullifierUsed c n l t = withLock c (''nullifier:'' @ n) (mark_body n) l t"

definition isNullifierUsed :: "string \<Rightarrow> scs \<Rightarrow> bool" where
  "isNullifierUsed n t = (case row_by sc_nullifier_hash n t of None \<Rightarrow> False | Some r \<Rightarrow> sc_used r = 1)"

definition listAll :: "scs \<Rightarrow> sc_row list" where
  "listAll t = sort_key (\<lambda>r. - sc_created_at r) t"

definition getByNullifier :: "string \<Rightarrow> scs \<Rightarrow> sc_row option" where
  "getByNullifier n t = row_by sc_nullifier_hash n t"

inductive sc_step :: "crypto_lib \<Rightarrow> scs \<Rightarrow> scs \<Rightarrow> bool" for cl t where
  commits: "commit cl uuid now secret s t = (x, t') \<Longrightarrow> sc_step cl t t'"
| marks: "markNullifierUsed c n l t = (x, l', t') \<Longrightarrow> sc_step cl t t'"

inductive sc_run :: "crypto_lib \<Rightarrow> scs \<Rightarrow> scs \<Rightarrow> bool" for cl t where
  stop: "sc_run cl t t"
| step: "sc_run cl t t1 \<Longrightarrow> sc_step cl t1 t2 \<Longrightarrow> sc_run cl t t2"

section \<open>POST /api/commitment/deposit\<close>

text \<open>
  \<open>z.string().uuid()\<close> of zod 4: a UUID of the versions 1 to 8 with the RFC's variant, or the nil or
  the maximal one.
\<close>

definition uuid_shape :: "string \<Rightarrow> bool" where
  "uuid_shape s = (length s = 36 \<and> list_all (\<lambda>(i, c). if List.member [8, 13, 18, 23 :: nat] i then c = CHR ''-'' else is_hex c)
     (zip [0..<36] s))"

definition is_uuid :: "string \<Rightarrow> bool" where
  "is_uuid s = ((uuid_shape s \<and> List.member ''12345678'' (s ! 14) \<and> List.member ''89abAB'' (s ! 19))
     \<or> s = ''00000000-0000-0000-0000-000000000000'' \<or> s = ''ffffffff-ffff-ffff-ffff-ffffffffffff'')"

record deposit_body =
  b_vault_id :: string
  b_commitment :: string
  b_amount :: rat
  b_owner :: "string option"
  b_bitcoin_txid :: "string option"
  b_secret :: "string option"
  b_salt :: "string option"
  b_hint :: "string option"

definition deposit_schema :: "json \<Rightarrow> deposit_body option" where
  "deposit_schema b =
     (case (json_field b ''vault_id'', json_field b ''commitment'', json_field b ''amount'') of
        (Some (JStr v), Some (JStr c), Some (JNum x)) \<Rightarrow>
          (case (opt_str b ''owner_address'', opt_str b ''bitcoin_txid'', opt_str b ''secret'',
                 opt_str b ''salt'', opt_str b ''randomness_hint'') of
             (Some ow, Some bt, Some se, Some sa, Some rh) \<Rightarrow>
               if is_uuid v \<and> starts_with c ''0x'' \<and> 0 < x \<and> pred_option (\<lambda>a. starts_with a ''0x'') ow
               then Some \<lparr>b_vault_id = v, b_commitment = c, b_amount = x, b_owner = ow, b_bitcoin_txid = bt,
                          b_secret = se, b_salt = sa, b_hint = rh\<rparr>
               else None
           | _ \<Rightarrow> None)
      | _ \<Rightarrow> None)"

record deposit_env =
  de_cl :: crypto_lib
  de_salt :: buffer
  de_rand :: buffer
  de_iv :: buffer
  de_now_ms :: int
  de_account :: string
  de_execute :: "string \<Rightarrow> int \<Rightarrow> string res"
  de_wait :: "string \<Rightarrow> unit res"

definition str_truthy :: "string option \<Rightarrow> bool" where
  "str_truthy s = (case s of None \<Rightarrow> False | Some t \<Rightarrow> t \<noteq> [])"

definition denominations_text :: string where
  "denominations_text = ''0.0001, 0.001, 0.01, 0.1''"

definition bad_denomination :: "rat \<Rightarrow> response" where
  "bad_denomination x = respond 400 [
     (''error'', JStr (''Amount '' @ num_str x @ '' BTC is not a valid denomination. Allowed: '' @ denominations_text @ '' BTC'')),
     (''code'', JStr ''INVALID_DENOMINATION''),
     (''allowedDenominations'', JArr (map JNum ALLOWED_DENOMINATIONS_BTC))]"

definition deposit_vault :: "deposit_env \<Rightarrow> deposit_body \<Rightarrow> string \<Rightarrow> string \<Rightarrow> string \<Rightarrow> string option \<Rightarrow> string \<Rightarrow> vault_row" where
  "deposit_vault env b encryptedAmount actualSalt hint nul txHash = \<lparr>
     v_id = b_vault_id b,
     owner_address = (if str_truthy (b_owner b) then the (b_owner b) else de_account env),
     v_commitment = b_commitment b, encrypted_amount = encryptedAmount, salt = actualSalt,
     randomness_hint = hint, lock_duration_days = 30, v_created_at = de_now_ms env,
     unlock_at = de_now_ms env + 86400, v_status = active, deposit_tx_hash = Some txHash,
     withdraw_tx_hash = None, v_bitcoin_txid = b_bitcoin_txid b, v_nullifier_hash = nul,
     bitcoin_withdrawal_address = None, deposit_sender_address = None\<rparr>"

definition deposit_tx :: "string \<Rightarrow> string \<Rightarrow> string \<Rightarrow> int \<Rightarrow> tx_row" where
  "deposit_tx vid txHash encryptedAmount now = \<lparr>t_id = vid, t_vault_id = Some vid, t_tx_hash = txHash,
     t_type = Deposit, amount_encrypted = encryptedAmount, t_block_number = None, t_block_timestamp = None,
     t_execution_status = None, t_timestamp = now\<rparr>"

text \<open>
  Step 4: the transaction that inserts both rows, and, when a \<open>UNIQUE\<close> constraint refuses it, the
  one that updates the vault with this id and tries the second insert.
\<close>

definition store_deposit :: "vault_row \<Rightarrow> tx_row \<Rightarrow> db \<Rightarrow> db res" where
  "store_deposit v t d =
     (case bind_res (insert_vault v d) (insert_transaction t) of
        Inr d' \<Rightarrow> Inr d'
      | Inl e \<Rightarrow>
          if str_includes (message e) ''UNIQUE constraint'' then
            bind_res (update_vaults (\<lambda>r. v_id r = v_id v) (\<lambda>r. r\<lparr>deposit_tx_hash := deposit_tx_hash v,
                v_bitcoin_txid := v_bitcoin_txid v,
                v_nullifier_hash := (case v_nullifier_hash r of None \<Rightarrow> v_nullifier_hash v | Some n \<Rightarrow> Some n),
                v_status := active\<rparr>) d)
              (\<lambda>d1. case insert_transaction t d1 of Inl _ \<Rightarrow> Inr d1 | Inr d2 \<Rightarrow> Inr d2)
          else Inl e)"

definition deposit_failed :: "deposit_env \<Rightarrow> exn \<Rightarrow> response" where
  "deposit_failed env e =
     (let m = message e; isFundingError = str_includes m ''INSUFFICIENT SEPOLIA ETH''
      in respond (if isFundingError then 402 else 500)
           ([(''error'', JStr m), (''code'', JStr (if isFundingError then ''INSUFFICIENT_GAS'' else ''DEPOSIT_FAILED''))]
            @ (if isFundingError then [(''faucets'', JArr [JStr ''https://starknet-faucet.vercel.app'',
                 JStr ''https://blastapi.io/faucets/starknet-testnet-eth'']), (''account'', JStr (de_account env))] else [])))"

text \<open>The deposit of a parsed body: \<open>Inl\<close> is what the \<open>catch\<close> block receives.\<close>

definition run_deposit :: "deposit_env \<Rightarrow> deposit_body \<Rightarrow> db \<Rightarrow> (exn + response) \<times> db" where
  "run_deposit env b d =
     (let actualSalt = (if str_truthy (b_salt b) then the (b_salt b) else generateSalt (de_salt env)) in
      case (if str_truthy (b_hint b) then Inr (the (b_hint b)) else generateRandomness (de_rand env)) of
        Inl e \<Rightarrow> (Inl e, d)
      | Inr hint \<Rightarrow>
      case (if str_truthy (b_secret b)
            then bind_res (generateNullifier (de_cl env) (b_commitment b) (the (b_secret b))) (\<lambda>n. Inr (Some n))
            else Inr None) of
        Inl e \<Rightarrow> (Inl e, d)
      | Inr nul \<Rightarrow>
        let amountInWei = \<lfloor>mul (b_amount b) (10 ^ 18)\<rfloor>;
            encryptedAmount = encryptAmount (de_cl env) (de_iv env) amountInWei actualSalt
        in case de_execute env (b_commitment b) amountInWei of
             Inl e \<Rightarrow> (Inl e, d)
           | Inr txHash \<Rightarrow>
               if txHash = [] \<or> starts_with txHash ''SIMULATED'' then
                 (Inr (respond 502 [(''error'', JStr ''Starknet returned no valid transaction hash''),
                    (''code'', JStr ''TX_HASH_MISSING''),
                    (''action'', JStr ''Check SEPOLIA_PRIVATE_KEY and account ETH balance''),
                    (''faucet'', JStr ''https://starknet-faucet.vercel.app'')]), d)
               else case de_wait env txHash of
                 Inl e \<Rightarrow> (Inl e, d)
               | Inr _ \<Rightarrow>
                 (case store_deposit (deposit_vault env b encryptedAmount actualSalt hint nul txHash)
                         (deposit_tx (b_vault_id b) txHash encryptedAmount (de_now_ms env)) d of
                    Inl e \<Rightarrow> (Inl e, d)
                  | Inr d' \<Rightarrow> (Inr (respond 200 [(''transaction_hash'', JStr txHash), (''status'', JStr ''submitted''),
                      (''vault_id'', JStr (b_vault_id b)), (''bitcoin_txid'', JOpt (b_bitcoin_txid b)),
                      (''voyager_url'', JStr (''https://sepolia.voyager.online/tx/'' @ txHash)),
                      (''zk_proof_status'', JStr ''generating'')]), d')))"

definition post_deposit :: "deposit_env \<Rightarrow> json \<Rightarrow> db \<Rightarrow> response \<times> db" where
  "post_deposit env b d = (case deposit_schema b of
     None \<Rightarrow> (respond 400 [(''error'', JStr ''Validation failed'')], d)
   | Some p \<Rightarrow>
       if \<not> isAllowedDenomination (b_amount p) then (bad_denomination (b_amount p), d)
       else if starts_with (b_commitment p) ''SIMULATED'' then
         (respond 400 [(''error'', JStr ''Simulated commitments are not accepted. Use a real commitment.''),
            (''code'', JStr ''SIMULATED_REJECTED'')], d)
       else (case run_deposit env p d of
          (Inl e, d') \<Rightarrow> (deposit_failed env e, d')
        | (Inr r, d') \<Rightarrow> (r, d')))"

section \<open>The other routes\<close>

definition post_create_commitment :: "crypto_lib \<Rightarrow> json \<Rightarrow> response" where
  "post_create_commitment cl b =
     (if \<not> truthy_json (json_field b ''amount'') \<or> \<not> truthy_json (json_field b ''secret'') then
        respond 400 [(''error'', JStr ''Missing required fields: amount and secret'')]
      else case parseFloat (js_text (the (json_field b ''amount''))) of
        None \<Rightarrow> respond 400 [(''error'', JStr ''Invalid amount: must be a positive number'')]
      | Some amountFloat \<Rightarrow>
        if amountFloat \<le> 0 then respond 400 [(''error'', JStr ''Invalid amount: must be a positive number'')]
        else if \<not> isAllowedDenomination amountFloat then bad_denomination amountFloat
        else case json_field b ''secret'' of
          Some (JStr secret) \<Rightarrow>
            if length secret < 10 then respond 400 [(''error'', JStr ''Invalid secret: must be a hex string'')]
            else (case bind_res (generateCommitment cl (num_str amountFloat) secret) (\<lambda>c.
                       bind_res (generateNullifier cl c secret) (\<lambda>n. Inr (c, n))) of
                    Inl e \<Rightarrow> respond 500 [(''error'', JStr (message e))]
                  | Inr (c, n) \<Rightarrow> respond 200 [(''success'', JBool True),
                      (''data'', JObj [(''commitment'', JStr c), (''nullifier_hash'', JStr n)]),
                      (''commitment'', JStr c), (''nullifier_hash'', JStr n)])
        | _ \<Rightarrow> respond 400 [(''error'', JStr ''Invalid secret: must be a hex string'')])"

definition post_verify :: "crypto_lib \<Rightarrow> string \<Rightarrow> json \<Rightarrow> response" where
  "post_verify cl zmsg b =
     (case (req_str b ''secret'', req_str b ''salt'', req_str b ''commitment'') of
        (Some se, Some sa, Some c) \<Rightarrow> (case verify cl se sa c of
            Inl e \<Rightarrow> fail_with 400 (message e)
          | Inr v \<Rightarrow> respond 200 [(''success'', JBool True), (''data'', JObj [(''verified'', JBool v)])])
      | _ \<Rightarrow> fail_with 400 zmsg)"

definition get_nullifiers :: "scs \<Rightarrow> response" where
  "get_nullifiers t = respond 200 [(''success'', JBool True), (''data'', JArr (map (\<lambda>r. JObj [
     (''id'', JStr (sc_id r)), (''commitment'', JStr (sc_commitment r)),
     (''nullifier_hash'', JStr (sc_nullifier_hash r)), (''used'', JBool (sc_used r = 1)),
     (''created_at'', JInt (sc_created_at r))]) (listAll t)))]"

definition get_nullifier :: "string \<Rightarrow> scs \<Rightarrow> response" where
  "get_nullifier n t = (case getByNullifier n t of
     None \<Rightarrow> respond 200 [(''success'', JBool True), (''data'', JObj [(''found'', JBool False), (''used'', JBool False)])]
   | Some r \<Rightarrow> respond 200 [(''success'', JBool True), (''data'', JObj [(''found'', JBool True),
       (''commitment'', JStr (sc_commitment r)), (''nullifier_hash'', JStr (sc_nullifier_hash r)),
       (''used'', JBool (sc_used r = 1)), (''created_at'', JInt (sc_created_at r))])])"

section \<open>Lemmas\<close>

lemma used_kept:
  assumes "sc_step cl t t'" and u: "isNullifierUsed n t"
  shows "isNullifierUsed n t'"
  using assms(1)
proof (cases rule: sc_step.cases)
  case (commits uuid now secret s x)
  show ?thesis
  proof (cases "t' = t")
    case False
    then obtain r where "insert_sc r t = Inr t'"
      using commits by (auto simp: commit_def split: sum.splits option.splits prod.splits)
    then show ?thesis using u sc_by_nullifier.lookup_kept [of r t t' n]
      by (auto simp: isNullifierUsed_def split: option.splits)
  qed (use u in simp)
next
  case (marks c m l x l')
  then consider "t' = t" | "mark_body m t = (x, t')"
    by (auto simp: markNullifierUsed_def withLock_def split: sum.splits prod.splits)
  then show ?thesis
  proof cases
    case 2
    then have "t' = t \<or> t' = update_by (\<lambda>r. sc_nullifier_hash r = m) (\<lambda>r. r\<lparr>sc_used := 1\<rparr>) t"
      by (auto simp: mark_body_def split: option.splits if_splits)
    then show ?thesis using u
      by (auto simp: isNullifierUsed_def row_by_update split: option.splits)
  qed (use u in simp)
qed

lemma insert_transaction_fk: "t_vault_id t = Some i \<Longrightarrow> \<not> has_vault d i \<Longrightarrow> \<not> is_ok (insert_transaction t d)"
  by (auto simp: insert_transaction_def)

lemma is_unique_error: "str_includes (message (unique_error c)) ''UNIQUE constraint''"
proof -
  have "message (unique_error c) = [] @ ''UNIQUE constraint'' @ ('' failed: '' @ c)"
    by (simp add: unique_error_def sql_error_def)
  then show ?thesis unfolding str_includes_iff by blast
qed

lemma set_vaults_id: "schema_ok d \<Longrightarrow> set_vaults (vaults d) d = Inr d"
  by (simp add: set_vaults_def schema_ok_def)

text \<open>A vault as the deposit writes it.\<close>

definition deposit_shaped :: "vault_row \<Rightarrow> bool" where
  "deposit_shaped v \<longleftrightarrow> lock_duration_days v = 30 \<and> pred_option tx_hash_ok (deposit_tx_hash v)
     \<and> withdraw_tx_hash v = None \<and> v_status v = active"

lemma insert_vault_taken:
  assumes "schema_ok d" and "deposit_shaped v" and "q \<in> set (vaults d)"
    and "v_id q = v_id v \<or> v_commitment q = v_commitment v"
  shows "\<exists>c. insert_vault v d = Inl (unique_error c)"
proof -
  have "list_all (\<lambda>v. lock_duration_days v \<in> {30, 90, 365} \<and> pred_option tx_hash_ok (deposit_tx_hash v)
           \<and> pred_option tx_hash_ok (withdraw_tx_hash v)) (vaults d)"
    using assms(1) by (simp add: schema_ok_def vaults_violation_None)
  then have l: "list_all (\<lambda>v. lock_duration_days v \<in> {30, 90, 365}) (vaults d @ [v])"
    "list_all (\<lambda>v. pred_option tx_hash_ok (deposit_tx_hash v)) (vaults d @ [v])"
    "list_all (\<lambda>v. pred_option tx_hash_ok (withdraw_tx_hash v)) (vaults d @ [v])"
    using assms(2) by (auto simp: list_all_iff deposit_shaped_def)
  have "v_id v \<in> v_id ` set (vaults d) \<or> v_commitment v \<in> v_commitment ` set (vaults d)"
    using assms(3,4) by (metis image_eqI)
  then have "\<not> (uniq v_id (vaults d @ [v]) \<and> uniq v_commitment (vaults d @ [v]))"
    by (auto simp: uniq_def)
  then show ?thesis using l by (auto simp: insert_vault_def set_vaults_def vaults_violation_def)
qed

section \<open>Properties\<close>

text \<open>
  Double-spend protection of the standalone commitments: once a nullifier is marked as used it
  stays used through every sequence of service calls, and every later attempt to mark it fails and
  changes nothing.
\<close>

theorem nullifier_marked_once:
  assumes "isNullifierUsed n t" and "sc_run cl t t'"
  shows "isNullifierUsed n t' \<and> \<not> is_ok (fst (markNullifierUsed c n l t'))
         \<and> snd (snd (markNullifierUsed c n l t')) = t'"
proof -
  have u: "isNullifierUsed n t'"
    using assms(2,1) by (induction rule: sc_run.induct) (auto intro: used_kept)
  then have "\<exists>e. mark_body n t' = (Inl e, t')"
    by (auto simp: isNullifierUsed_def mark_body_def split: option.splits)
  then show ?thesis using u
    by (auto simp: markNullifierUsed_def withLock_def split: sum.splits)
qed

definition demo_sc :: sc_row where
  "demo_sc = \<lparr>sc_id = ''i'', sc_commitment = ''0xc'', sc_nullifier_hash = ''0xn'', sc_used = 0, sc_created_at = 0\<rparr>"

theorem nullifier_marked_once_witness:
  "\<not> is_ok (fst (markNullifierUsed 2 ''0xn'' init_locks (snd (mark_body ''0xn'' [demo_sc]))))"
proof -
  have "isNullifierUsed ''0xn'' (snd (mark_body ''0xn'' [demo_sc]))"
    by (simp add: isNullifierUsed_def mark_body_def row_by_def demo_sc_def update_by_def)
  from nullifier_marked_once [OF this sc_run.stop] show ?thesis by blast
qed

text \<open>
  \<open>commit\<close> and \<open>verify\<close> disagree on the order of their arguments: \<open>commit\<close> hashes
  \<open>(secret, salt)\<close>, \<open>verify\<close> recomputes \<open>(salt, secret)\<close>, so a pair that was just committed
  can fail its own verification.
\<close>

theorem commit_verify_mismatch:
  "\<exists>cl r t. pedersen_law cl \<and> commit cl ''id'' 0 ''1'' ''2'' [] = (Inr r, t)
     \<and> verify cl ''1'' ''2'' (cm_commitment r) = Inr False
     \<and> verify cl ''2'' ''1'' (cm_commitment r) = Inr True"
proof -
  let ?r = "fst (commit demo_lib ''id'' 0 ''1'' ''2'' [])"
  have c: "case ?r of Inr r \<Rightarrow> cm_commitment r = ''0x313030303030303030320'' | Inl _ \<Rightarrow> False"
    by code_simp
  then obtain r where r: "?r = Inr r" "cm_commitment r = ''0x313030303030303030320''"
    by (auto split: sum.splits)
  have "verify demo_lib ''1'' ''2'' ''0x313030303030303030320'' = Inr False"
    "verify demo_lib ''2'' ''1'' ''0x313030303030303030320'' = Inr True"
    by (code_simp, code_simp)
  then show ?thesis using r pedersen_law_demo by (metis prod.collapse)
qed

text \<open>
  A deposit that is recorded: when neither the id, nor the commitment, nor the nullifier, nor
  the transaction is in the database yet, storing it succeeds and leaves exactly the new active
  vault and its transaction.
\<close>

theorem store_deposit_fresh:
  assumes "schema_ok d" and "deposit_shaped v" and "t_vault_id t = Some (v_id v)" and "tx_hash_ok (t_tx_hash t)"
    and "v_id v \<notin> v_id ` set (vaults d)" and "v_commitment v \<notin> v_commitment ` set (vaults d)"
    and "\<forall>n. v_nullifier_hash v = Some n \<longrightarrow> Some n \<notin> v_nullifier_hash ` set (vaults d)"
    and "t_id t \<notin> t_id ` set (transactions d)" and "t_tx_hash t \<notin> t_tx_hash ` set (transactions d)"
  shows "store_deposit v t d = Inr (d\<lparr>vaults := vaults d @ [v], transactions := transactions d @ [t]\<rparr>)"
proof -
  have "v_nullifier_hash r \<noteq> Some n" if "v_nullifier_hash v = Some n" "r \<in> set (vaults d)" for r n
    using assms(7) that by (metis image_eqI)
  then have "uniq_opt v_nullifier_hash (vaults d @ [v])"
    using assms(1) by (cases "v_nullifier_hash v")
      (auto simp: schema_ok_def vaults_violation_None uniq_opt_def List.map_filter_def)
  then have "insert_vault v d = Inr (d\<lparr>vaults := vaults d @ [v]\<rparr>)"
    using assms(1,2,5,6)
    by (auto simp: insert_vault_def set_vaults_def schema_ok_def vaults_violation_None uniq_def
        deposit_shaped_def split: option.splits)
  moreover have "insert_transaction t (d\<lparr>vaults := vaults d @ [v]\<rparr>) =
      Inr (d\<lparr>vaults := vaults d @ [v], transactions := transactions d @ [t]\<rparr>)"
    using assms by (auto simp: insert_transaction_def tx_hash_ok_def uniq_def schema_ok_def has_vault_def)
  ultimately show ?thesis by (simp add: store_deposit_def)
qed

theorem store_deposit_fresh_witness:
  "let v = demo_vault\<lparr>v_status := active\<rparr>; t = deposit_tx ''v'' ''0x00112233445566778899aabbccddeeff'' [] 0
   in store_deposit v t empty_db = Inr (empty_db\<lparr>vaults := [v], transactions := [t]\<rparr>)"
proof -
  have s: "deposit_shaped (demo_vault\<lparr>v_status := active\<rparr>)"
    by (simp add: deposit_shaped_def demo_vault_def)
  have "tx_hash_ok ''0x00112233445566778899aabbccddeeff''"
    by (simp add: tx_hash_ok_def like_prefix_def to_lower_def)
  then show ?thesis
    using store_deposit_fresh [OF schema_empty s, of "deposit_tx ''v'' ''0x00112233445566778899aabbccddeeff'' [] 0"]
    by (simp add: deposit_tx_def demo_vault_def empty_db_def Let_def)
qed

text \<open>
  A deposit that is not recorded and still reported as submitted: when the commitment already
  belongs to a vault with another id, the insert fails, the recovery branch updates no row, and its
  own failure is swallowed: the request ends in a 200 with the database unchanged, after the
  tokens have been minted.
\<close>

theorem deposit_reported_but_lost:
  assumes "schema_ok d" and "deposit_shaped v" and "q \<in> set (vaults d)" and "v_commitment q = v_commitment v"
    and "\<not> has_vault d (v_id v)" and "t_vault_id t = Some (v_id v)"
  shows "store_deposit v t d = Inr d"
proof -
  obtain c where i: "insert_vault v d = Inl (unique_error c)"
    using insert_vault_taken [OF assms(1-3)] assms(4) by blast
  have "update_by (\<lambda>r. v_id r = v_id v) f (vaults d) = vaults d" for f
    using assms(5) by (intro update_by_id) (auto simp: has_vault_def list_ex_iff)
  then have "update_vaults (\<lambda>r. v_id r = v_id v) f d = Inr d" for f
    using set_vaults_id [OF assms(1)] by (simp add: update_vaults_def)
  moreover have "\<exists>e. insert_transaction t d = Inl e"
    using insert_transaction_fk [OF assms(6,5)] by (cases "insert_transaction t d") auto
  ultimately show ?thesis using i is_unique_error by (auto simp: store_deposit_def)
qed

theorem deposit_reported_but_lost_witness:
  "store_deposit (demo_vault\<lparr>v_id := ''w''\<rparr>) (deposit_tx ''w'' ''0x00112233445566778899aabbccddeeff'' [] 0) demo_db
     = Inr demo_db"
  by (rule deposit_reported_but_lost [OF schema_demo, of _ demo_vault])
     (simp_all add: deposit_shaped_def demo_vault_def demo_db_def has_vault_def deposit_tx_def empty_db_def)

text \<open>
  A deposit for an id that exists revives its vault: whatever the stored vault's status, the
  recovery branch sets it to \<open>active\<close> with the new deposit hash, also for a vault that has
  already been withdrawn, whose withdrawal hash stays.
\<close>

theorem deposit_revives_vault:
  assumes "schema_ok d" and "deposit_shaped v" and "q \<in> set (vaults d)" and "v_id q = v_id v"
    and "v_nullifier_hash q \<noteq> None"
  shows "\<exists>d' r. store_deposit v t d = Inr d' \<and> r \<in> set (vaults d') \<and> v_id r = v_id v \<and> v_status r = active
           \<and> withdraw_tx_hash r = withdraw_tx_hash q \<and> v_nullifier_hash r = v_nullifier_hash q"
proof -
  define f :: "vault_row \<Rightarrow> vault_row" where "f = (\<lambda>r. r\<lparr>deposit_tx_hash := deposit_tx_hash v, v_bitcoin_txid := v_bitcoin_txid v,
       v_nullifier_hash := (case v_nullifier_hash r of None \<Rightarrow> v_nullifier_hash v | Some n \<Rightarrow> Some n),
       v_status := active\<rparr>)"
  let ?vs = "update_by (\<lambda>r. v_id r = v_id v) f (vaults d)"
  obtain c where i: "insert_vault v d = Inl (unique_error c)"
    using insert_vault_taken [OF assms(1-3)] assms(4) by blast
  have u: "uniq v_id (vaults d)" using assms(1) by (simp add: schema_ok_def vaults_violation_None)
  then have only: "r = q" if "r \<in> set (vaults d)" "v_id r = v_id v" for r
    using that assms(3,4) by (auto simp: uniq_def distinct_map inj_on_def)
  have nul: "map v_nullifier_hash ?vs = map v_nullifier_hash (vaults d)"
    using only assms(5) by (auto simp: update_by_def f_def split: option.splits)
  have "vaults_violation ?vs = None"
    using assms(1,2) map_filter_cong_list [OF nul]
    by (auto simp: schema_ok_def vaults_violation_None list_all_iff set_update_by f_def deposit_shaped_def uniq_opt_def)
  then have up: "update_vaults (\<lambda>r. v_id r = v_id v) f d = Inr (d\<lparr>vaults := ?vs\<rparr>)"
    by (simp add: update_vaults_def set_vaults_def)
  have in_vs: "f q \<in> set ?vs" using assms(3,4) by (auto simp: set_update_by)
  obtain d' where d': "store_deposit v t d = Inr d'" "vaults d' = ?vs"
  proof (cases "insert_transaction t (d\<lparr>vaults := ?vs\<rparr>)")
    case (Inl e)
    then show ?thesis using that i up is_unique_error by (simp add: store_deposit_def f_def)
  next
    case (Inr d2)
    then show ?thesis using that i up is_unique_error insert_transactionD [OF Inr]
      by (auto simp: store_deposit_def f_def)
  qed
  have "v_id (f q) = v_id v \<and> v_status (f q) = active \<and> withdraw_tx_hash (f q) = withdraw_tx_hash q
      \<and> v_nullifier_hash (f q) = v_nullifier_hash q"
    using assms(4,5) by (auto simp: f_def)
  then show ?thesis using d' in_vs by metis
qed

theorem deposit_revives_vault_witness:
  "\<exists>d' r. store_deposit demo_vault (deposit_tx ''v'' ''0x00112233445566778899aabbccddeeff'' [] 0)
       (demo_db\<lparr>vaults := [demo_vault\<lparr>v_status := withdrawn\<rparr>]\<rparr>) = Inr d'
     \<and> r \<in> set (vaults d') \<and> v_id r = ''v'' \<and> v_status r = active"
proof -
  let ?d = "demo_db\<lparr>vaults := [demo_vault\<lparr>v_status := withdrawn\<rparr>]\<rparr>"
  have s: "schema_ok ?d" using schema_demo
    by (simp add: demo_db_def demo_vault_def table_eval)
  have "deposit_shaped demo_vault" by (simp add: deposit_shaped_def demo_vault_def)
  from deposit_revives_vault [OF s this, of "demo_vault\<lparr>v_status := withdrawn\<rparr>"
      "deposit_tx ''v'' ''0x00112233445566778899aabbccddeeff'' [] 0"]
  show ?thesis by (force simp: demo_vault_def)
qed

end
