(* ===== verification/Spv.thy ===== *)
theory Spv
  imports Covenant JsNum
begin

text \<open>
  \<open>backend/src/services/BitcoinProofService.ts\<close>: from a raw Bitcoin transaction to the arguments of
  the vault's SPV deposit. The explorer's answers are arguments. Positions and counts are \<open>nat\<close>; a
  compact size of nine bytes is read as a double, as \<open>Number\<close> of a \<open>bigint\<close> does. Reading
  beyond the buffer throws, slicing beyond it gives what there is.
\<close>

section \<open>Parsing\<close>

text \<open>
  Beyond the buffer \<open>buf[offset]\<close> is \<open>undefined\<close>, all comparisons with it are false, and the read of
  eight bytes throws.
\<close>

definition number_nat :: "int \<Rightarrow> nat" where
  "number_nat z = nat \<lfloor>number_of_big z\<rfloor>"

definition readVarInt :: "buffer \<Rightarrow> nat \<Rightarrow> (nat \<times> nat) res" where
  "readVarInt buf offset = (case elem_at buf offset of
     None \<Rightarrow> Inl out_of_range
   | Some b \<Rightarrow> let first = uint b in
       if first < 0xfd then Inr (nat first, 1)
       else if first = 0xfd then bind_res (read_le 2 buf (offset + 1)) (\<lambda>v. Inr (nat v, 3))
       else if first = 0xfe then bind_res (read_le 4 buf (offset + 1)) (\<lambda>v. Inr (nat v, 5))
       else bind_res (read_le 8 buf (offset + 1)) (\<lambda>v. Inr (number_nat v, 9)))"

fun skip_inputs :: "buffer \<Rightarrow> nat \<Rightarrow> nat \<Rightarrow> nat res" where
  "skip_inputs buf 0 cursor = Inr cursor"
| "skip_inputs buf (Suc n) cursor =
     bind_res (readVarInt buf (cursor + 36)) (\<lambda>(scriptLen, sl). skip_inputs buf n (cursor + 36 + sl + scriptLen + 4))"

fun skip_outputs :: "buffer \<Rightarrow> nat \<Rightarrow> nat \<Rightarrow> nat res" where
  "skip_outputs buf 0 cursor = Inr cursor"
| "skip_outputs buf (Suc n) cursor =
     bind_res (readVarInt buf (cursor + 8)) (\<lambda>(scriptLen, sl). skip_outputs buf n (cursor + 8 + sl + scriptLen))"

fun skip_items :: "buffer \<Rightarrow> nat \<Rightarrow> nat \<Rightarrow> nat res" where
  "skip_items buf 0 cursor = Inr cursor"
| "skip_items buf (Suc n) cursor =
     bind_res (readVarInt buf cursor) (\<lambda>(itemLen, il). skip_items buf n (cursor + il + itemLen))"

fun skip_witness :: "buffer \<Rightarrow> nat \<Rightarrow> nat \<Rightarrow> nat res" where
  "skip_witness buf 0 cursor = Inr cursor"
| "skip_witness buf (Suc n) cursor =
     bind_res (readVarInt buf cursor) (\<lambda>(witnessItemCount, wic).
     bind_res (skip_items buf witnessItemCount (cursor + wic)) (\<lambda>cursor'. skip_witness buf n cursor'))"

definition is_segwit :: "buffer \<Rightarrow> bool" where
  "is_segwit buf = (elem_at buf 4 = Some 0 \<and> elem_at buf 5 = Some 1)"

definition stripWitnessData :: "string \<Rightarrow> string res" where
  "stripWitnessData rawTxHex =
     (let buf = hex_decode rawTxHex; version = slice 0 4 buf in
      if \<not> is_segwit buf then Inr rawTxHex
      else bind_res (readVarInt buf 6) (\<lambda>(inputCount, inCountSize).
           let inputsStart = 6 + inCountSize; inputCountBytes = slice 6 inputsStart buf in
           bind_res (skip_inputs buf inputCount inputsStart) (\<lambda>outputsStart.
           let inputs = slice inputsStart outputsStart buf in
           bind_res (readVarInt buf outputsStart) (\<lambda>(outputCount, outCountSize).
           bind_res (skip_outputs buf outputCount (outputsStart + outCountSize)) (\<lambda>outputsEnd.
           let outputs = slice outputsStart outputsEnd buf in
           bind_res (skip_witness buf inputCount outputsEnd) (\<lambda>cursor.
           let locktime = slice cursor (cursor + 4) buf in
           Inr (hex_encode (version @ inputCountBytes @ inputs @ outputs @ locktime))))))))"

fun find_output :: "buffer \<Rightarrow> string \<Rightarrow> nat \<Rightarrow> nat \<Rightarrow> nat \<Rightarrow> (nat \<times> int) res" where
  "find_output buf script vout_i 0 cursor =
     Inl (Error ''No output in tx pays the vault address. Did the user send to the right address?'')"
| "find_output buf script vout_i (Suc n) cursor =
     bind_res (read_le 8 buf cursor) (\<lambda>v.
     bind_res (readVarInt buf (cursor + 8)) (\<lambda>(scriptLen, sl).
       let start = cursor + 8 + sl; scriptHex = hex_encode (slice start (start + scriptLen) buf)
       in if scriptHex = script then Inr (vout_i, \<lfloor>number_of_big v\<rfloor>)
          else find_output buf script (Suc vout_i) n (start + scriptLen)))"

definition findVaultOutput :: "string \<Rightarrow> string \<Rightarrow> (nat \<times> int) res" where
  "findVaultOutput rawTxHex vaultScriptPubKeyHex =
     (let buf = hex_decode rawTxHex; cursor = (if is_segwit buf then 6 else 4) in
      bind_res (readVarInt buf cursor) (\<lambda>(inputCount, inSz).
      bind_res (skip_inputs buf inputCount (cursor + inSz)) (\<lambda>c1.
      bind_res (readVarInt buf c1) (\<lambda>(outputCount, outSz).
        find_output buf vaultScriptPubKeyHex 0 outputCount (c1 + outSz)))))"

definition hexHashToWords :: "string \<Rightarrow> int list res" where
  "hexHashToWords hex = (let buf = hex_decode hex in
     if length buf \<noteq> 32 then Inl (Error (''Expected 32-byte hash, got '' @ str_of_nat (length buf)))
     else Inr (be_words (rev buf)))"

section \<open>The proof\<close>

record spv_proof =
  blockHeight :: int
  txPos :: int
  rawTxHex :: string
  merkleProof :: "int list list"
  voutIndex :: nat
  pr_amountSats :: int

text \<open>The explorer: \<open>fetchJson\<close> of the Merkle proof and \<open>fetchText\<close> of the transaction.\<close>

record merkle_data =
  block_height :: int
  pos :: int
  merkle :: "string list"

record explorer =
  ex_merkle :: "string \<Rightarrow> merkle_data res"
  ex_hex :: "string \<Rightarrow> string res"

fun words_all :: "string list \<Rightarrow> int list list res" where
  "words_all [] = Inr []"
| "words_all (h # hs) = bind_res (hexHashToWords h) (\<lambda>w. bind_res (words_all hs) (\<lambda>ws. Inr (w # ws)))"

definition buildSpvProof :: "explorer \<Rightarrow> string \<Rightarrow> string \<Rightarrow> spv_proof res" where
  "buildSpvProof ex tid vaultScriptPubKey =
     bind_res (ex_merkle ex tid) (\<lambda>merkleData.
     bind_res (ex_hex ex tid) (\<lambda>text.
     let raw = trim text in
     bind_res (stripWitnessData raw) (\<lambda>stripped.
     bind_res (findVaultOutput raw vaultScriptPubKey) (\<lambda>(vo, sats).
     bind_res (words_all (merkle merkleData)) (\<lambda>ws.
       Inr \<lparr>blockHeight = block_height merkleData, txPos = pos merkleData, rawTxHex = stripped,
            merkleProof = ws, voutIndex = vo, pr_amountSats = sats\<rparr>)))))"

definition encodeSpvProofAsCalldata :: "spv_proof \<Rightarrow> int list \<times> int list list" where
  "encodeSpvProofAsCalldata proof = (map uint (hex_decode (rawTxHex proof)), merkleProof proof)"

section \<open>The transaction format\<close>

text \<open>
  A Bitcoin transaction (BIP 144), as specification: \<open>vi\<close> is the compact-size encoder and
  \<open>encodeWitnessStack\<close> the witness encoder of the covenant service.
\<close>

record bin =
  outpoint :: buffer
  script_sig :: buffer
  seq_no :: buffer

record bout =
  sats :: int
  script_pub :: buffer

record btx =
  bx_version :: buffer
  bx_ins :: "bin list"
  bx_outs :: "bout list"
  bx_witness :: "buffer list list"
  bx_locktime :: buffer

definition ser_in :: "bin \<Rightarrow> buffer" where
  "ser_in i = outpoint i @ vi (int (length (script_sig i))) @ script_sig i @ seq_no i"

definition ser_out :: "bout \<Rightarrow> buffer" where
  "ser_out o' = le_bytes 8 (sats o') @ vi (int (length (script_pub o'))) @ script_pub o'"

definition ser_body :: "btx \<Rightarrow> buffer" where
  "ser_body t = vi (int (length (bx_ins t))) @ concat (map ser_in (bx_ins t))
     @ vi (int (length (bx_outs t))) @ concat (map ser_out (bx_outs t))"

definition ser_legacy :: "btx \<Rightarrow> buffer" where
  "ser_legacy t = bx_version t @ ser_body t @ bx_locktime t"

definition ser_segwit :: "btx \<Rightarrow> buffer" where
  "ser_segwit t = bx_version t @ [0, 1] @ ser_body t @ concat (map encodeWitnessStack (bx_witness t)) @ bx_locktime t"

definition small :: "nat \<Rightarrow> bool" where
  "small n \<longleftrightarrow> n < 2 ^ 53"

definition wf_in :: "bin \<Rightarrow> bool" where
  "wf_in i \<longleftrightarrow> length (outpoint i) = 36 \<and> length (seq_no i) = 4 \<and> small (length (script_sig i))"

definition wf_out :: "bout \<Rightarrow> bool" where
  "wf_out o' \<longleftrightarrow> 0 \<le> sats o' \<and> sats o' < 2 ^ 53 \<and> small (length (script_pub o'))"

definition wf_stack :: "buffer list \<Rightarrow> bool" where
  "wf_stack w \<longleftrightarrow> small (length w) \<and> list_all (\<lambda>x. small (length x)) w"

text \<open>At least one input (\<open>0\<close> inputs would read as the SegWit marker).\<close>

definition wf_tx :: "btx \<Rightarrow> bool" where
  "wf_tx t \<longleftrightarrow> length (bx_version t) = 4 \<and> length (bx_locktime t) = 4 \<and> bx_ins t \<noteq> []
     \<and> small (length (bx_ins t)) \<and> small (length (bx_outs t))
     \<and> list_all wf_in (bx_ins t) \<and> list_all wf_out (bx_outs t)
     \<and> length (bx_witness t) = length (bx_ins t) \<and> list_all wf_stack (bx_witness t)"

section \<open>Lemmas\<close>

lemma elem_at_append [simp]: "length pre = k \<Longrightarrow> elem_at (pre @ b # post) k = Some b"
  by (auto simp: elem_at_def)

lemma number_nat_small: "0 \<le> z \<Longrightarrow> z < 2 ^ 53 \<Longrightarrow> number_nat z = nat z"
  by (simp add: number_nat_def number_of_big_def fl_int)

lemma readVarInt_vi:
  assumes "small n" and "length pre = k"
  shows "readVarInt (pre @ vi (int n) @ post) k = Inr (n, length (vi (int n)))"
proof -
  have n: "int n < 2 ^ 53" using assms(1) by (simp add: small_def)
  have le: "read_le j (pre @ (b # le_bytes j (int n)) @ post) (Suc k) = Inr (int n)"
    if "int n < 256 ^ j" for j b
    using read_le_append [of "pre @ [b]" "Suc k" "le_bytes j (int n)" j post] that assms(2)
    by (simp add: le_uint_le_bytes)
  consider "int n < 0xfd" | "0xfd \<le> int n" "int n < 0x10000" | "0x10000 \<le> int n" "int n < 0x100000000"
    | "0x100000000 \<le> int n" by linarith
  then show ?thesis
  proof cases
    case 1
    then have "uint (byte_of (int n)) = int n" by (intro uint_byte_of) auto
    then show ?thesis using 1 assms(2) by (simp add: vi_def readVarInt_def)
  next
    case 2
    then show ?thesis using le [of 2 "0xfd"] assms(2) by (simp add: vi_def readVarInt_def)
  next
    case 3
    then show ?thesis using le [of 4 "0xfe"] assms(2) by (simp add: vi_def readVarInt_def)
  next
    case 4
    have "number_nat (int n) = n" using number_nat_small [of "int n"] n by simp
    then show ?thesis using le [of 8 "0xff"] 4 n assms(2) by (simp add: vi_def readVarInt_def)
  qed
qed

text \<open>Skipping one thing after another: the buffer is what was read, the thing, and the rest.\<close>

lemma skip_inputs_ser:
  assumes "list_all wf_in ins" and "length pre = k"
  shows "skip_inputs (pre @ concat (map ser_in ins) @ post) (length ins) k
       = Inr (k + length (concat (map ser_in ins)))"
  using assms
proof (induction ins arbitrary: pre k)
  case (Cons i ins)
  have i: "length (outpoint i) = 36" "length (seq_no i) = 4" "small (length (script_sig i))"
    using Cons.prems by (auto simp: wf_in_def)
  have "readVarInt ((pre @ outpoint i) @ vi (int (length (script_sig i))) @ (script_sig i @ seq_no i
      @ concat (map ser_in ins) @ post)) (k + 36) = Inr (length (script_sig i), length (vi (int (length (script_sig i)))))"
    using i Cons.prems(2) by (intro readVarInt_vi) auto
  moreover have "skip_inputs ((pre @ ser_in i) @ concat (map ser_in ins) @ post) (length ins) (k + length (ser_in i))
       = Inr (k + length (ser_in i) + length (concat (map ser_in ins)))"
    using Cons by (intro Cons.IH) auto
  ultimately show ?case using i by (simp add: ser_in_def [of i] algebra_simps)
qed simp

lemma skip_outputs_ser:
  assumes "list_all wf_out outs" and "length pre = k"
  shows "skip_outputs (pre @ concat (map ser_out outs) @ post) (length outs) k
       = Inr (k + length (concat (map ser_out outs)))"
  using assms
proof (induction outs arbitrary: pre k)
  case (Cons w outs)
  have w: "small (length (script_pub w))" using Cons.prems by (auto simp: wf_out_def)
  have "readVarInt ((pre @ le_bytes 8 (sats w)) @ vi (int (length (script_pub w))) @ (script_pub w
      @ concat (map ser_out outs) @ post)) (k + 8) = Inr (length (script_pub w), length (vi (int (length (script_pub w)))))"
    using w Cons.prems(2) by (intro readVarInt_vi) auto
  moreover have "skip_outputs ((pre @ ser_out w) @ concat (map ser_out outs) @ post) (length outs) (k + length (ser_out w))
       = Inr (k + length (ser_out w) + length (concat (map ser_out outs)))"
    using Cons by (intro Cons.IH) auto
  ultimately show ?case by (simp add: ser_out_def [of w] algebra_simps)
qed simp

definition ser_item :: "buffer \<Rightarrow> buffer" where
  "ser_item w = vi (int (length w)) @ w"

lemma fold_items: "fold (\<lambda>w buf. buf @ vi (int (length w)) @ w) ws acc = acc @ concat (map ser_item ws)"
  by (induction ws arbitrary: acc) (auto simp: ser_item_def)

lemma encodeWitnessStack_eq: "encodeWitnessStack ws = vi (int (length ws)) @ concat (map ser_item ws)"
  by (simp add: encodeWitnessStack_def fold_items)

lemma skip_items_ser:
  assumes "list_all (\<lambda>x. small (length x)) ws" and "length pre = k"
  shows "skip_items (pre @ concat (map ser_item ws) @ post) (length ws) k = Inr (k + length (concat (map ser_item ws)))"
  using assms
proof (induction ws arbitrary: pre k)
  case (Cons w ws)
  have "readVarInt (pre @ vi (int (length w)) @ (w @ concat (map ser_item ws) @ post)) k
      = Inr (length w, length (vi (int (length w))))"
    using Cons.prems by (intro readVarInt_vi) auto
  moreover have "skip_items ((pre @ ser_item w) @ concat (map ser_item ws) @ post) (length ws) (k + length (ser_item w))
       = Inr (k + length (ser_item w) + length (concat (map ser_item ws)))"
    using Cons by (intro Cons.IH) auto
  ultimately show ?case by (simp add: ser_item_def [of w] algebra_simps)
qed simp

lemma skip_witness_ser:
  assumes "list_all wf_stack ss" and "length pre = k"
  shows "skip_witness (pre @ concat (map encodeWitnessStack ss) @ post) (length ss) k
       = Inr (k + length (concat (map encodeWitnessStack ss)))"
  using assms
proof (induction ss arbitrary: pre k)
  case (Cons s ss)
  have s: "small (length s)" "list_all (\<lambda>x. small (length x)) s" using Cons.prems by (auto simp: wf_stack_def)
  let ?rest = "concat (map encodeWitnessStack ss) @ post"
  have "readVarInt (pre @ vi (int (length s)) @ (concat (map ser_item s) @ ?rest)) k
      = Inr (length s, length (vi (int (length s))))"
    using s Cons.prems(2) by (intro readVarInt_vi) auto
  moreover have "skip_items ((pre @ vi (int (length s))) @ concat (map ser_item s) @ ?rest) (length s)
       (k + length (vi (int (length s)))) = Inr (k + length (vi (int (length s))) + length (concat (map ser_item s)))"
    using s Cons.prems(2) by (intro skip_items_ser) auto
  moreover have "skip_witness ((pre @ encodeWitnessStack s) @ concat (map encodeWitnessStack ss) @ post) (length ss)
       (k + length (encodeWitnessStack s))
     = Inr (k + length (encodeWitnessStack s) + length (concat (map encodeWitnessStack ss)))"
    using Cons by (intro Cons.IH) auto
  ultimately show ?case by (simp add: encodeWitnessStack_eq [of s] algebra_simps)
qed simp

text \<open>The first output with a given script, and its index.\<close>

fun first_paying :: "buffer \<Rightarrow> nat \<Rightarrow> bout list \<Rightarrow> (nat \<times> int) option" where
  "first_paying script k [] = None"
| "first_paying script k (w # outs) =
     (if script_pub w = script then Some (k, sats w) else first_paying script (Suc k) outs)"

definition paying_result :: "(nat \<times> int) option \<Rightarrow> (nat \<times> int) res" where
  "paying_result x = (case x of Some y \<Rightarrow> Inr y
     | None \<Rightarrow> Inl (Error ''No output in tx pays the vault address. Did the user send to the right address?''))"

lemma find_output_ser:
  assumes "list_all wf_out outs" and "length pre = k"
  shows "find_output (pre @ concat (map ser_out outs) @ post) (hex_encode script) j (length outs) k
       = paying_result (first_paying script j outs)"
  using assms
proof (induction outs arbitrary: pre k j)
  case Nil
  then show ?case by (simp add: paying_result_def)
next
  case (Cons w outs)
  let ?rest = "concat (map ser_out outs) @ post" and ?v = "vi (int (length (script_pub w)))"
  have w: "0 \<le> sats w" "sats w < 2 ^ 53" "small (length (script_pub w))"
    using Cons.prems by (auto simp: wf_out_def)
  have r: "read_le 8 (pre @ le_bytes 8 (sats w) @ (?v @ script_pub w @ ?rest)) k = Inr (sats w)"
    using read_le_append [OF Cons.prems(2), of "le_bytes 8 (sats w)" 8 "?v @ script_pub w @ ?rest"] w
    by (simp add: le_uint_le_bytes)
  have v: "readVarInt ((pre @ le_bytes 8 (sats w)) @ ?v @ (script_pub w @ ?rest)) (k + 8)
      = Inr (length (script_pub w), length ?v)"
    using w Cons.prems(2) by (intro readVarInt_vi) auto
  have sl: "slice (k + 8 + length ?v) (k + 8 + length ?v + length (script_pub w))
      (pre @ le_bytes 8 (sats w) @ ?v @ script_pub w @ ?rest) = script_pub w"
    using slice_append2 [of "pre @ le_bytes 8 (sats w) @ ?v" "k + 8 + length ?v" "script_pub w" ?rest]
      Cons.prems(2) by (simp add: add.assoc)
  have am: "\<lfloor>number_of_big (sats w)\<rfloor> = sats w" using w by (simp add: number_of_big_def fl_int)
  have IH: "find_output ((pre @ ser_out w) @ concat (map ser_out outs) @ post) (hex_encode script) (Suc j) (length outs)
      (k + length (ser_out w)) = paying_result (first_paying script (Suc j) outs)"
    using Cons by (intro Cons.IH) auto
  show ?case using r v sl am IH
    by (simp add: ser_out_def [of w] paying_result_def hex_encode_inject algebra_simps)
qed

lemma vi_pos: "0 < length (vi n)" by (simp add: vi_def)

lemma vi_first:
  assumes "0 < n" shows "\<exists>b bs. vi (int n) = b # bs \<and> b \<noteq> 0"
proof -
  have "byte_of (int n) \<noteq> 0" if "int n < 0xfd"
  proof
    assume "byte_of (int n) = 0"
    then have "uint (byte_of (int n)) = 0" by simp
    then show False using uint_byte_of [of "int n"] that assms by simp
  qed
  then show ?thesis by (auto simp: vi_def)
qed

lemma is_segwit_segwit: "wf_tx t \<Longrightarrow> is_segwit (ser_segwit t)"
  by (simp add: is_segwit_def ser_segwit_def wf_tx_def elem_at_def nth_append)

lemma is_segwit_legacy:
  assumes "wf_tx t" shows "\<not> is_segwit (ser_legacy t)"
proof -
  have "0 < length (bx_ins t)" using assms by (simp add: wf_tx_def)
  then obtain b bs where "vi (int (length (bx_ins t))) = b # bs" "b \<noteq> 0" using vi_first by blast
  then have "elem_at (ser_legacy t) 4 = Some b"
    using assms by (simp add: ser_legacy_def ser_body_def wf_tx_def)
  then show ?thesis using \<open>b \<noteq> 0\<close> by (simp add: is_segwit_def)
qed

text \<open>Reading the body after a prefix.\<close>

lemma read_body:
  assumes "wf_tx t" and k: "length pre = k" and "buf = pre @ ser_body t @ post"
  defines "a \<equiv> length (vi (int (length (bx_ins t))))" and "b \<equiv> length (concat (map ser_in (bx_ins t)))"
    and "c \<equiv> length (vi (int (length (bx_outs t))))" and "e \<equiv> length (concat (map ser_out (bx_outs t)))"
  shows "readVarInt buf k = Inr (length (bx_ins t), a)"
    "skip_inputs buf (length (bx_ins t)) (k + a) = Inr (k + a + b)"
    "readVarInt buf (k + a + b) = Inr (length (bx_outs t), c)"
    "skip_outputs buf (length (bx_outs t)) (k + a + b + c) = Inr (k + a + b + c + e)"
    "find_output buf (hex_encode script) j (length (bx_outs t)) (k + a + b + c)
       = paying_result (first_paying script j (bx_outs t))"
proof -
  let ?i = "concat (map ser_in (bx_ins t))" and ?o = "concat (map ser_out (bx_outs t))"
  let ?vi = "vi (int (length (bx_ins t)))" and ?vo = "vi (int (length (bx_outs t)))"
  have w: "small (length (bx_ins t))" "small (length (bx_outs t))" "list_all wf_in (bx_ins t)"
    "list_all wf_out (bx_outs t)"
    using assms(1) by (simp_all add: wf_tx_def)
  have buf: "buf = pre @ ?vi @ (?i @ ?vo @ ?o @ post)" "buf = (pre @ ?vi) @ ?i @ (?vo @ ?o @ post)"
    "buf = (pre @ ?vi @ ?i) @ ?vo @ (?o @ post)" "buf = (pre @ ?vi @ ?i @ ?vo) @ ?o @ post"
    using assms(3) by (simp_all add: ser_body_def)
  show "readVarInt buf k = Inr (length (bx_ins t), a)"
    unfolding a_def by (subst buf(1), rule readVarInt_vi [OF w(1) k])
  show "skip_inputs buf (length (bx_ins t)) (k + a) = Inr (k + a + b)"
    unfolding a_def b_def by (subst buf(2), rule skip_inputs_ser [OF w(3)]) (simp add: k)
  show "readVarInt buf (k + a + b) = Inr (length (bx_outs t), c)"
    unfolding a_def b_def c_def by (subst buf(3), rule readVarInt_vi [OF w(2)]) (simp add: k)
  show "skip_outputs buf (length (bx_outs t)) (k + a + b + c) = Inr (k + a + b + c + e)"
    unfolding a_def b_def c_def e_def by (subst buf(4), rule skip_outputs_ser [OF w(4)]) (simp add: k)
  show "find_output buf (hex_encode script) j (length (bx_outs t)) (k + a + b + c)
       = paying_result (first_paying script j (bx_outs t))"
    unfolding a_def b_def c_def by (subst buf(4), rule find_output_ser [OF w(4)]) (simp add: k)
qed

lemma strip_segwit_ser:
  assumes wf: "wf_tx t"
  shows "stripWitnessData (hex_encode (ser_segwit t)) = Inr (hex_encode (ser_legacy t))"
proof -
  let ?pre = "bx_version t @ [0, 1]" and ?wit = "concat (map encodeWitnessStack (bx_witness t))"
  let ?i = "concat (map ser_in (bx_ins t))" and ?o = "concat (map ser_out (bx_outs t))"
  let ?vi = "vi (int (length (bx_ins t)))" and ?vo = "vi (int (length (bx_outs t)))"
  let ?buf = "ser_segwit t" and ?ls = "6 + length ?vi + length ?i"
  let ?le = "?ls + length ?vo + length ?o"
  have l: "length (bx_version t) = 4" "length (bx_locktime t) = 4" "length ?pre = 6"
    and ws: "list_all wf_stack (bx_witness t)" "length (bx_witness t) = length (bx_ins t)"
    using wf by (auto simp: wf_tx_def)
  have b: "?buf = ?pre @ ser_body t @ (?wit @ bx_locktime t)" by (simp add: ser_segwit_def)
  note rb = read_body [OF wf l(3) b]
  have "skip_witness ((?pre @ ser_body t) @ ?wit @ bx_locktime t) (length (bx_witness t)) ?le
      = Inr (?le + length ?wit)"
    by (rule skip_witness_ser [OF ws(1)]) (use l in \<open>simp add: ser_body_def\<close>)
  then have sw: "skip_witness ?buf (length (bx_ins t)) ?le = Inr (?le + length ?wit)"
    using ws(2) by (simp add: ser_segwit_def)
  have bytes: "?buf = ?pre @ ?vi @ ?i @ (?vo @ ?o) @ ?wit @ bx_locktime t"
    by (simp add: ser_segwit_def ser_body_def)
  have s0: "slice 0 4 ?buf = bx_version t" using l by (simp add: slice_def ser_segwit_def)
  have s1: "slice 6 (6 + length ?vi) ?buf = ?vi"
    using slice_append2 [OF l(3), of ?vi "?i @ (?vo @ ?o) @ ?wit @ bx_locktime t"] bytes by simp
  have s2: "slice (6 + length ?vi) ?ls ?buf = ?i"
    using slice_append2 [of "?pre @ ?vi" "6 + length ?vi" ?i "(?vo @ ?o) @ ?wit @ bx_locktime t"] l bytes by simp
  have s3: "slice ?ls ?le ?buf = ?vo @ ?o"
    using slice_append2 [of "?pre @ ?vi @ ?i" ?ls "?vo @ ?o" "?wit @ bx_locktime t"] l bytes
    by (simp add: add.assoc)
  have s4: "slice (?le + length ?wit) (?le + length ?wit + 4) ?buf = bx_locktime t"
    using slice_append2 [of "?pre @ ?vi @ ?i @ (?vo @ ?o) @ ?wit" "?le + length ?wit" "bx_locktime t" "[]"] l bytes
    by (simp add: add.assoc)
  show ?thesis
    using is_segwit_segwit [OF wf] rb(1-4) sw s0 s1 s2 s3 s4
    by (simp add: stripWitnessData_def Let_def ser_legacy_def ser_body_def)
qed

lemma strip_legacy_ser: "wf_tx t \<Longrightarrow> stripWitnessData (hex_encode (ser_legacy t)) = Inr (hex_encode (ser_legacy t))"
  using is_segwit_legacy by (simp add: stripWitnessData_def Let_def)

text \<open>A serialization of the transaction, with its witness or without.\<close>

definition serialization :: "btx \<Rightarrow> buffer \<Rightarrow> bool" where
  "serialization t raw \<longleftrightarrow> raw = ser_segwit t \<or> raw = ser_legacy t"

lemma findVaultOutput_ser:
  assumes wf: "wf_tx t" and "serialization t raw"
  shows "findVaultOutput (hex_encode raw) (hex_encode script) = paying_result (first_paying script 0 (bx_outs t))"
proof -
  have "\<exists>pre post. length pre = (if is_segwit raw then 6 else 4) \<and> raw = pre @ ser_body t @ post"
  proof (cases "raw = ser_segwit t")
    case True
    then show ?thesis using is_segwit_segwit [OF wf] wf
      by (intro exI [of _ "bx_version t @ [0, 1]"] exI) (auto simp: ser_segwit_def wf_tx_def)
  next
    case False
    then have "raw = ser_legacy t" using assms(2) by (simp add: serialization_def)
    then show ?thesis using is_segwit_legacy [OF wf] wf
      by (intro exI [of _ "bx_version t"] exI) (auto simp: ser_legacy_def wf_tx_def)
  qed
  then obtain pre post where k: "length pre = (if is_segwit raw then 6 else 4)" "raw = pre @ ser_body t @ post"
    by blast
  show ?thesis using read_body [OF wf k] by (simp add: findVaultOutput_def Let_def)
qed

lemma find_in_set: "x \<in> set_option (List.find P xs) \<Longrightarrow> x \<in> set xs \<and> P x"
  by (auto simp: find_Some_iff)

lemma first_paying_find:
  "first_paying script k outs = map_option (\<lambda>i. (i, sats (outs ! (i - k))))
      (List.find (\<lambda>i. script_pub (outs ! (i - k)) = script) [k..<k + length outs])"
proof (induction outs arbitrary: k)
  case (Cons w outs)
  have f: "List.find (\<lambda>i. script_pub ((w # outs) ! (i - k)) = script) [Suc k..<Suc k + length outs]
      = List.find (\<lambda>i. script_pub (outs ! (i - Suc k)) = script) [Suc k..<Suc k + length outs]"
    by (intro find_cong refl) (auto simp: nth_Cons' Suc_diff_Suc)
  have m: "map_option (\<lambda>i. (i, sats ((w # outs) ! (i - k))))
       (List.find (\<lambda>i. script_pub (outs ! (i - Suc k)) = script) [Suc k..<Suc k + length outs])
     = map_option (\<lambda>i. (i, sats (outs ! (i - Suc k))))
       (List.find (\<lambda>i. script_pub (outs ! (i - Suc k)) = script) [Suc k..<Suc k + length outs])"
  proof (rule option.map_cong [OF refl])
    fix z
    assume "z \<in> set_option (List.find (\<lambda>i. script_pub (outs ! (i - Suc k)) = script) [Suc k..<Suc k + length outs])"
    then have "z \<in> set [Suc k..<Suc k + length outs]" by (rule conjunct1 [OF find_in_set])
    then show "(z, sats ((w # outs) ! (z - k))) = (z, sats (outs ! (z - Suc k)))"
      by (auto simp: nth_Cons' Suc_diff_Suc)
  qed
  have up: "[k..<k + length (w # outs)] = k # [Suc k..<Suc k + length outs]"
    by (simp add: upt_conv_Cons del: upt_Suc)
  show ?case unfolding up using f m Cons.IH [of "Suc k"] by (simp del: upt_Suc)
qed simp

section \<open>The loops are bounded by the buffer\<close>

text \<open>
  A loop over a cursor in a buffer of \<open>size\<close> bytes: a step that succeeds began inside of the buffer and moved
  the cursor on. However large the count that the data announces, such a loop makes at most one step
  more than there are bytes.
\<close>

fun iterate :: "(nat \<Rightarrow> nat res) \<Rightarrow> nat \<Rightarrow> nat \<Rightarrow> nat res" where
  "iterate advance 0 cursor = Inr cursor"
| "iterate advance (Suc n) cursor = bind_res (advance cursor) (iterate advance n)"

locale cursor_loop =
  fixes advance :: "nat \<Rightarrow> nat res" and size :: nat
  assumes progress: "advance c = Inr c' \<Longrightarrow> c < size \<and> c < c'"
begin

lemma iterate_bounded: "size \<le> c + k \<Longrightarrow> Suc k \<le> n \<Longrightarrow> iterate advance n c = iterate advance (Suc k) c"
proof (induction k arbitrary: n c)
  case 0
  then obtain e where "advance c = Inl e" using progress [of c] by (cases "advance c") auto
  then show ?case using 0 by (cases n) auto
next
  case (Suc k)
  obtain m where n: "n = Suc m" using Suc.prems(2) by (cases n) auto
  show ?case
  proof (cases "advance c")
    case (Inr c')
    have "iterate advance m c' = iterate advance (Suc k) c'"
      using progress [OF Inr] Suc.prems n by (intro Suc.IH) auto
    then show ?thesis using n Inr by simp
  qed (simp add: n)
qed

lemma iterate_min: "iterate advance n c = iterate advance (min n (Suc size)) c"
  using iterate_bounded [of c size n] by (cases "n \<le> Suc size") (simp_all add: min_def)

lemma iterate_mono: "iterate advance n c = Inr c' \<Longrightarrow> c \<le> c'"
proof (induction n arbitrary: c)
  case (Suc n)
  then obtain d where "advance c = Inr d" "iterate advance n d = Inr c'" by auto
  then show ?case using Suc.IH [of d] progress [of c d] by simp
qed simp

end

definition input_step :: "buffer \<Rightarrow> nat \<Rightarrow> nat res" where
  "input_step buf c = bind_res (readVarInt buf (c + 36)) (\<lambda>(scriptLen, sl). Inr (c + 36 + sl + scriptLen + 4))"

definition output_step :: "buffer \<Rightarrow> nat \<Rightarrow> nat res" where
  "output_step buf c = bind_res (readVarInt buf (c + 8)) (\<lambda>(scriptLen, sl). Inr (c + 8 + sl + scriptLen))"

definition item_step :: "buffer \<Rightarrow> nat \<Rightarrow> nat res" where
  "item_step buf c = bind_res (readVarInt buf c) (\<lambda>(itemLen, il). Inr (c + il + itemLen))"

definition witness_step :: "buffer \<Rightarrow> nat \<Rightarrow> nat res" where
  "witness_step buf c = bind_res (readVarInt buf c) (\<lambda>(k, wic). iterate (item_step buf) k (c + wic))"

lemma readVarInt_progress: "readVarInt buf c = Inr (v, s) \<Longrightarrow> c < length buf \<and> 0 < s"
  by (auto simp: readVarInt_def elem_at_def Let_def split: option.splits if_splits)

interpretation input_loop: cursor_loop "input_step buf" "length buf" for buf
  by unfold_locales (auto simp: input_step_def dest!: readVarInt_progress)

interpretation output_loop: cursor_loop "output_step buf" "length buf" for buf
  by unfold_locales (auto simp: output_step_def dest!: readVarInt_progress)

interpretation item_loop: cursor_loop "item_step buf" "length buf" for buf
  by unfold_locales (auto simp: item_step_def dest!: readVarInt_progress)

interpretation witness_loop: cursor_loop "witness_step buf" "length buf" for buf
  by unfold_locales (auto simp: witness_step_def dest!: readVarInt_progress item_loop.iterate_mono)

lemma bind_assoc: "bind_res (bind_res r f) g = bind_res r (\<lambda>x. bind_res (f x) g)"
  by (cases r) auto

lemma skip_iterate:
  "skip_inputs buf n c = iterate (input_step buf) n c" "skip_outputs buf n c = iterate (output_step buf) n c"
  "skip_items buf n c = iterate (item_step buf) n c"
  by (induction n arbitrary: c; simp add: input_step_def output_step_def item_step_def bind_assoc split_def)+

lemma skip_witness_iterate: "skip_witness buf n = iterate (witness_step buf) n"
proof (induction n)
  case (Suc n)
  show ?case by (rule ext) (simp add: Suc witness_step_def [of buf c for c] bind_assoc split_def skip_iterate)
qed (simp add: fun_eq_iff)

lemma buildSpvProof_ser:
  assumes "wf_tx t" and "serialization t raw" and "ex_hex ex tid = Inr (hex_encode raw)"
    and "ex_merkle ex tid = Inr m" and "merkle m = map (\<lambda>h. hex_encode (rev h)) hs"
    and "list_all (\<lambda>h. length h = 32) hs"
    and "i < length (bx_outs t)" and "script_pub (bx_outs t ! i) = script"
    and "\<forall>j < i. script_pub (bx_outs t ! j) \<noteq> script"
  shows "buildSpvProof ex tid (hex_encode script) = Inr \<lparr>blockHeight = block_height m, txPos = pos m,
     rawTxHex = hex_encode (ser_legacy t), merkleProof = map be_words hs, voutIndex = i, pr_amountSats = sats (bx_outs t ! i)\<rparr>"
proof -
  have tr: "trim (hex_encode raw) = hex_encode raw"
  proof -
    have "is_hex c \<longrightarrow> \<not> is_space c" for c
      by (auto simp: is_hex_def hex_val_def is_space_def Let_def split: if_splits)
    then show ?thesis using is_hex_hex_encode [of raw] by (intro trim_id) (auto simp: list_all_iff)
  qed
  have "List.find (\<lambda>i. script_pub (bx_outs t ! i) = script) [0..<length (bx_outs t)] = Some i"
    using assms(7-9) by (auto simp: find_Some_iff)
  then have f: "findVaultOutput (hex_encode raw) (hex_encode script) = Inr (i, sats (bx_outs t ! i))"
    using findVaultOutput_ser [OF assms(1,2), of script] first_paying_find [of script 0 "bx_outs t"]
    by (simp add: paying_result_def)
  have "words_all (map (\<lambda>h. hex_encode (rev h)) hs) = Inr (map be_words hs)"
    using assms(6) by (induction hs) (auto simp: hexHashToWords_def)
  then show ?thesis
    using assms(3-5) tr f strip_segwit_ser [OF assms(1)] strip_legacy_ser [OF assms(1)] assms(2)
    by (auto simp: buildSpvProof_def Let_def serialization_def)
qed

section \<open>Properties\<close>

text \<open>
  C20. Stripping the witness is correct: for every well-formed transaction, \<open>stripWitnessData\<close> maps
  its BIP 144 serialization with witnesses to its serialization without, over which the
  transaction id is computed, and leaves the latter alone.
\<close>

theorem stripWitnessData_correct:
  assumes "wf_tx t" and "serialization t raw"
  shows "stripWitnessData (hex_encode raw) = Inr (hex_encode (ser_legacy t))"
  using assms strip_segwit_ser strip_legacy_ser by (auto simp: serialization_def)

definition demo_tx :: btx where
  "demo_tx = \<lparr>bx_version = [2, 0, 0, 0],
     bx_ins = [\<lparr>outpoint = replicate 36 7, script_sig = [], seq_no = [255, 255, 255, 255]\<rparr>],
     bx_outs = [\<lparr>sats = 10000, script_pub = [0, 20, 1]\<rparr>, \<lparr>sats = 700, script_pub = [0, 20, 2]\<rparr>],
     bx_witness = [[[48, 1], [3]]], bx_locktime = [0, 0, 0, 0]\<rparr>"

lemma wf_demo_tx: "wf_tx demo_tx"
  by (simp add: wf_tx_def demo_tx_def wf_in_def wf_out_def wf_stack_def small_def)

theorem stripWitnessData_correct_witness:
  "stripWitnessData (hex_encode (ser_segwit demo_tx)) = Inr (hex_encode (ser_legacy demo_tx))
   \<and> length (ser_segwit demo_tx) = length (ser_legacy demo_tx) + 8"
proof -
  have "serialization demo_tx (ser_segwit demo_tx)" by (simp add: serialization_def)
  from stripWitnessData_correct [OF wf_demo_tx this] show ?thesis
    by (simp add: ser_segwit_def ser_legacy_def demo_tx_def encodeWitnessStack_def vi_def)
qed

text \<open>
  The vault output is found: on either serialization of a well-formed transaction,
  \<open>findVaultOutput\<close> returns the index and the exact amount of the first output with the vault's
  script, and the error when there is none.
\<close>

theorem findVaultOutput_correct:
  assumes "wf_tx t" and "serialization t raw"
  shows "findVaultOutput (hex_encode raw) (hex_encode script) =
     (case List.find (\<lambda>i. script_pub (bx_outs t ! i) = script) [0..<length (bx_outs t)] of
        Some i \<Rightarrow> Inr (i, sats (bx_outs t ! i))
      | None \<Rightarrow> Inl (Error ''No output in tx pays the vault address. Did the user send to the right address?''))"
proof -
  show ?thesis using first_paying_find [of script 0 "bx_outs t"] findVaultOutput_ser [OF assms] by (auto simp: paying_result_def split: option.splits)
qed

theorem findVaultOutput_correct_witness:
  "findVaultOutput (hex_encode (ser_segwit demo_tx)) (hex_encode [0, 20, 2]) = Inr (1, 700)"
proof -
  have "serialization demo_tx (ser_segwit demo_tx)" by (simp add: serialization_def)
  from findVaultOutput_correct [OF wf_demo_tx this, of "[0, 20, 2]"] show ?thesis
    by (simp add: demo_tx_def)
qed

text \<open>
  Merkle siblings are converted without loss: a hash that a block explorer shows (32 bytes,
  reversed) becomes eight words whose big-endian bytes are the hash in internal order.
\<close>

theorem hexHashToWords_internal:
  assumes "length h = 32"
  shows "\<exists>ws. hexHashToWords (hex_encode (rev h)) = Inr ws \<and> length ws = 8 \<and> concat (map (be_bytes 4) ws) = h"
  using assms list32 [OF assms] be_words_bytes [of h 8] by (simp add: hexHashToWords_def)

theorem hexHashToWords_internal_witness:
  "\<exists>ws. hexHashToWords (hex_encode (rev (replicate 31 0 @ [9]))) = Inr ws \<and> length ws = 8
     \<and> concat (map (be_bytes 4) ws) = replicate 31 0 @ [9]"
  by (rule hexHashToWords_internal) simp

text \<open>
  C21. The whole proof: when the explorer returns a serialization of a well-formed transaction that
  pays the vault, with Merkle siblings of 32 bytes, \<open>buildSpvProof\<close> succeeds, and the calldata
  carries the serialization without witnesses, and the index and amount of the paying output.
\<close>

theorem buildSpvProof_correct:
  assumes "wf_tx t" and "serialization t raw" and "ex_hex ex tid = Inr (hex_encode raw)"
    and "ex_merkle ex tid = Inr m" and "merkle m = map (\<lambda>h. hex_encode (rev h)) hs"
    and "list_all (\<lambda>h. length h = 32) hs"
    and "i < length (bx_outs t)" and "script_pub (bx_outs t ! i) = script"
    and "\<forall>j < i. script_pub (bx_outs t ! j) \<noteq> script"
  shows "\<exists>p. buildSpvProof ex tid (hex_encode script) = Inr p \<and> voutIndex p = i \<and> pr_amountSats p = sats (bx_outs t ! i)
     \<and> fst (encodeSpvProofAsCalldata p) = map uint (ser_legacy t)
     \<and> map (\<lambda>ws. concat (map (be_bytes 4) ws)) (snd (encodeSpvProofAsCalldata p)) = hs"
proof -
  have "map (\<lambda>ws. concat (map (be_bytes 4) ws)) (map be_words hs) = hs"
    using assms(6) be_words_bytes [of _ 8] by (simp add: map_idI list_all_iff comp_def)
  then show ?thesis using buildSpvProof_ser [OF assms] by (simp add: encodeSpvProofAsCalldata_def)
qed


definition demo_explorer :: explorer where
  "demo_explorer = \<lparr>ex_merkle = (\<lambda>_. Inr \<lparr>block_height = 9, pos = 1, merkle = [hex_encode (rev (0x2a # replicate 31 9))]\<rparr>),
     ex_hex = (\<lambda>_. Inr (hex_encode (ser_segwit demo_tx)))\<rparr>"

theorem buildSpvProof_correct_witness:
  "\<exists>p. buildSpvProof demo_explorer ''ab'' (hex_encode [0, 20, 2]) = Inr p \<and> voutIndex p = 1 \<and> pr_amountSats p = 700
     \<and> fst (encodeSpvProofAsCalldata p) = map uint (ser_legacy demo_tx)
     \<and> map (\<lambda>ws. concat (map (be_bytes 4) ws)) (snd (encodeSpvProofAsCalldata p)) = [0x2a # replicate 31 9]"
proof -
  let ?m = "\<lparr>block_height = 9, pos = 1, merkle = [hex_encode (rev (0x2a # replicate 31 9))]\<rparr>"
  have o: "bx_outs demo_tx = [\<lparr>sats = 10000, script_pub = [0, 20, 1]\<rparr>, \<lparr>sats = 700, script_pub = [0, 20, 2]\<rparr>]"
    by (simp add: demo_tx_def)
  have "\<exists>p. buildSpvProof demo_explorer ''ab'' (hex_encode [0, 20, 2]) = Inr p \<and> voutIndex p = 1
     \<and> pr_amountSats p = sats (bx_outs demo_tx ! 1)
     \<and> fst (encodeSpvProofAsCalldata p) = map uint (ser_legacy demo_tx)
     \<and> map (\<lambda>ws. concat (map (be_bytes 4) ws)) (snd (encodeSpvProofAsCalldata p)) = [0x2a # replicate 31 9]"
    by (rule buildSpvProof_correct [of demo_tx "ser_segwit demo_tx" demo_explorer "''ab''" ?m])
      (simp_all add: wf_demo_tx serialization_def demo_explorer_def o)
  then show ?thesis by (simp add: o)
qed

text \<open>
  C38. The parsers of untrusted transactions always end soon: whatever counts a transaction announces, up
  to \<open>2 ^ 64\<close>, the loops over inputs, outputs, witness items and witnesses behave as with a count of at
  most one more than the transaction has bytes.
\<close>

theorem parsing_bounded:
  "skip_inputs buf n c = skip_inputs buf (min n (Suc (length buf))) c
   \<and> skip_outputs buf n c = skip_outputs buf (min n (Suc (length buf))) c
   \<and> skip_items buf n c = skip_items buf (min n (Suc (length buf))) c
   \<and> skip_witness buf n c = skip_witness buf (min n (Suc (length buf))) c"
  unfolding skip_iterate skip_witness_iterate
  using input_loop.iterate_min output_loop.iterate_min item_loop.iterate_min witness_loop.iterate_min by blast

end
