(* ===== verification/Relay.thy ===== *)
theory Relay
  imports Starknet Bytes JsNum
begin

text \<open>
  \<open>backend/src/services/BitcoinHeaderRelayService.ts\<close>: copies the Merkle roots of new Bitcoin blocks
  to the \<open>HeaderStore\<close> contract. The answers of the explorer and of the relayer account are
  functions of the attempt; the key-value table holds at most the one row that the service writes.
  Waiting (the back-off and the 5 seconds between headers) takes time only.
\<close>

section \<open>Fetching with retries\<close>

text \<open>\<open>Math.min(base * 2 ** attempt, cap)\<close> milliseconds before the next attempt.\<close>

definition backoffMs :: "int \<Rightarrow> int \<Rightarrow> nat \<Rightarrow> int" where
  "backoffMs base cap attempt = min (base * 2 ^ attempt) cap"

text \<open>\<open>n\<close> attempts from number \<open>k\<close> on; \<open>gave_up\<close> when there was none.\<close>

fun retry :: "exn \<Rightarrow> (nat \<Rightarrow> 'a res) \<Rightarrow> nat \<Rightarrow> nat \<Rightarrow> 'a res" where
  "retry gave_up f k 0 = Inl gave_up"
| "retry gave_up f k (Suc n) = (case f k of Inr x \<Rightarrow> Inr x | Inl e \<Rightarrow> retry e f (Suc k) n)"

text \<open>
  The explorer: the response to each request, and what reading its text gives. The first two
  functions return \<open>res.text()\<close> without awaiting it, so a failure to read is not retried; the third
  awaits it inside the \<open>try\<close>.
\<close>

record signet_api =
  api_block_hash :: "int \<Rightarrow> nat \<Rightarrow> string res http"
  api_block_header :: "string \<Rightarrow> nat \<Rightarrow> string res http"
  api_tip :: "nat \<Rightarrow> string res http"

definition fetchBlockHashAtHeight :: "signet_api \<Rightarrow> nat \<Rightarrow> int \<Rightarrow> string res" where
  "fetchBlockHashAtHeight api retries height =
     bind_res (retry (Error ''Failed to fetch block hash'')
       (\<lambda>k. http_res ''block-height fetch failed: '' (api_block_hash api height k)) 0 retries) (\<lambda>text. text)"

definition fetchBlockHeader :: "signet_api \<Rightarrow> nat \<Rightarrow> string \<Rightarrow> string res" where
  "fetchBlockHeader api retries blockHash =
     bind_res (retry (Error ''Failed to fetch block header'')
       (\<lambda>k. http_res ''block header fetch failed: '' (api_block_header api blockHash k)) 0 retries) (\<lambda>text. text)"

text \<open>\<open>None\<close> is \<open>NaN\<close>.\<close>

definition fetchTipHeight :: "signet_api \<Rightarrow> nat \<Rightarrow> int option res" where
  "fetchTipHeight api retries =
     retry (Error ''Failed to fetch tip height'')
       (\<lambda>k. bind_res (http_res ''tip height fetch failed: '' (api_tip api k)) (\<lambda>body.
            bind_res body (\<lambda>text. Inr (parseInt (trim text))))) 0 retries"

section \<open>Headers\<close>

definition parseMerkleRootFromHeader :: "string \<Rightarrow> string res" where
  "parseMerkleRootFromHeader headerHex =
     (if length headerHex \<noteq> 160 then Inl (Error (''Bad header hex length: '' @ str_of_nat (length headerHex)))
      else Inr (slice 72 136 headerHex))"

definition merkleRootToU32Array :: "string \<Rightarrow> int list res" where
  "merkleRootToU32Array merkleRootHex = (let bytes = hex_decode merkleRootHex in
     if length bytes \<noteq> 32 then Inl (Error (''Bad merkle root length: '' @ str_of_nat (length bytes)))
     else Inr (be_words bytes))"

definition store_header_call :: "string \<Rightarrow> int \<Rightarrow> int list \<Rightarrow> sn_call" where
  "store_header_call addr height words =
     \<lparr>contractAddress = addr, entrypoint = ''store_header'',
      calldata = str_of_int height # map str_of_int words\<rparr>"

text \<open>The loop around \<open>execute\<close>: a lack of funds is not retried.\<close>

fun relay_retry :: "exn \<Rightarrow> (nat \<Rightarrow> string res) \<Rightarrow> nat \<Rightarrow> nat \<Rightarrow> string res" where
  "relay_retry gave_up f k 0 = Inl gave_up"
| "relay_retry gave_up f k (Suc n) = (case f k of
     Inr h \<Rightarrow> Inr h
   | Inl e \<Rightarrow> if str_includes (message e) ''insufficient'' \<or> str_includes (message e) ''balance is smaller''
             then Inl e else relay_retry e f (Suc k) n)"

text \<open>What the relayer account answers to a call, per attempt; \<open>None\<close> without an account.\<close>

record relay_env =
  signet :: signet_api
  relayer_account :: "(sn_call \<Rightarrow> nat \<Rightarrow> string res) option"
  header_store_address :: "string option"

definition relayHeader :: "relay_env \<Rightarrow> nat \<Rightarrow> int \<Rightarrow> string \<Rightarrow> string res" where
  "relayHeader env retries height merkleRootHex =
     (case relayer_account env of
        None \<Rightarrow> Inl (Error ''No relayer account configured'')
      | Some execute \<Rightarrow>
          (case header_store_address env of
             None \<Rightarrow> Inl (Error ''HEADER_STORE_CONTRACT_ADDRESS not set in .env'')
           | Some addr \<Rightarrow>
               if addr = [] then Inl (Error ''HEADER_STORE_CONTRACT_ADDRESS not set in .env'')
               else bind_res (merkleRootToU32Array merkleRootHex) (\<lambda>words.
                 relay_retry (Error ''Failed to relay header after retries'')
                   (execute (store_header_call addr height words)) 0 retries)))"

section \<open>The cycle\<close>

text \<open>The value of the row \<open>header_relay_last_height\<close>; \<open>-1\<close> without a row.\<close>

type_synonym kv = "string option"

definition getLastRelayedHeight :: "kv \<Rightarrow> int option" where
  "getLastRelayedHeight s = (case s of None \<Rightarrow> Some (- 1) | Some v \<Rightarrow> parseInt v)"

definition setLastRelayedHeight :: "int \<Rightarrow> kv \<Rightarrow> kv" where
  "setLastRelayedHeight height s = Some (str_of_int height)"

text \<open>One iteration: fetch, parse, store.\<close>

definition relay_block :: "relay_env \<Rightarrow> int \<Rightarrow> string res" where
  "relay_block env h =
     bind_res (fetchBlockHashAtHeight (signet env) 3 h) (\<lambda>blockHash.
     bind_res (fetchBlockHeader (signet env) 3 (trim blockHash)) (\<lambda>headerHex.
     bind_res (parseMerkleRootFromHeader (trim headerHex)) (\<lambda>merkleRoot.
       relayHeader env 3 h merkleRoot)))"

text \<open>
  The loop over \<open>n\<close> heights from \<open>h\<close>; it returns the heights stored. The environment may differ
  from one height to the next, which the dependence of its fields on the height covers.
\<close>

fun relay_loop :: "relay_env \<Rightarrow> int \<Rightarrow> nat \<Rightarrow> kv \<Rightarrow> int list \<times> kv" where
  "relay_loop env h 0 s = ([], s)"
| "relay_loop env h (Suc n) s = (case relay_block env h of
     Inl e \<Rightarrow> ([], s)
   | Inr txHash \<Rightarrow> (case relay_loop env (h + 1) n (setLastRelayedHeight h s) of (hs, s') \<Rightarrow> (h # hs, s')))"

definition relayCycle :: "relay_env \<Rightarrow> kv \<Rightarrow> int list \<times> kv" where
  "relayCycle env s = (case fetchTipHeight (signet env) 3 of
     Inl e \<Rightarrow> ([], s)
   | Inr None \<Rightarrow> ([], s)
   | Inr (Some tipHeight) \<Rightarrow> (case getLastRelayedHeight s of
       None \<Rightarrow> ([], s)
     | Some lastRelayed \<Rightarrow>
         let startHeight = (if lastRelayed = - 1 then tipHeight else lastRelayed + 1) in
         if startHeight > tipHeight then ([], s)
         else let endHeight = min (startHeight + 9) tipHeight
              in relay_loop env startHeight (nat (endHeight - startHeight + 1)) s))"

section \<open>The service\<close>

record relay_service =
  relay_running :: bool
  rl_kv :: kv

record relay_status =
  rs_running :: bool
  rs_lastRelayedHeight :: "int option"
  rs_pollIntervalMs :: int

definition POLL_INTERVAL_MS :: int where "POLL_INTERVAL_MS = 30000"

definition getHeaderRelayStatus :: "relay_service \<Rightarrow> relay_status" where
  "getHeaderRelayStatus s = \<lparr>rs_running = relay_running s, rs_lastRelayedHeight = getLastRelayedHeight (rl_kv s),
     rs_pollIntervalMs = POLL_INTERVAL_MS\<rparr>"

definition startHeaderRelay :: "relay_service \<Rightarrow> relay_service" where
  "startHeaderRelay s = s\<lparr>relay_running := True\<rparr>"

definition stopHeaderRelay :: "relay_service \<Rightarrow> relay_service" where
  "stopHeaderRelay s = s\<lparr>relay_running := False\<rparr>"

section \<open>Overlapping cycles\<close>

text \<open>
  \<open>setInterval\<close> starts a cycle every 30 seconds whether or not the previous one is done, and ten
  headers take at least 50 seconds. The state is the last relayed height and, for every cycle in
  flight, its next and its last height.
\<close>

record overlap =
  last_height :: int
  flights :: "(int \<times> int) list"

inductive overlap_step :: "overlap \<Rightarrow> overlap \<Rightarrow> bool" where
  cycle_starts: "start = (if last_height s = - 1 then tip else last_height s + 1) \<Longrightarrow> start \<le> tip \<Longrightarrow>
     overlap_step s (s\<lparr>flights := flights s @ [(start, min (start + 9) tip)]\<rparr>)"
| header_stored: "i < length (flights s) \<Longrightarrow> flights s ! i = (h, e) \<Longrightarrow> h \<le> e \<Longrightarrow>
     overlap_step s (s\<lparr>last_height := h, flights := (flights s)[i := (h + 1, e)]\<rparr>)"
| cycle_ends: "i < length (flights s) \<Longrightarrow>
     overlap_step s (s\<lparr>flights := take i (flights s) @ drop (Suc i) (flights s)\<rparr>)"

inductive overlap_reachable :: "overlap \<Rightarrow> bool" where
  init: "overlap_reachable \<lparr>last_height = - 1, flights = []\<rparr>"
| step: "overlap_reachable s \<Longrightarrow> overlap_step s s' \<Longrightarrow> overlap_reachable s'"

section \<open>Lemmas\<close>

lemma retry_sound: "retry g f k n = Inr x \<Longrightarrow> \<exists>j. k \<le> j \<and> j < k + n \<and> f j = Inr x"
proof (induction n arbitrary: g k)
  case (Suc n)
  show ?case
  proof (cases "f k")
    case (Inl e)
    then have "retry e f (Suc k) n = Inr x" using Suc.prems by simp
    from Suc.IH [OF this] show ?thesis by (metis Suc_leD add_Suc add_Suc_right)
  next
    case (Inr y)
    then show ?thesis using Suc.prems by (intro exI [of _ k]) simp
  qed
qed simp

lemma relay_loop_spec:
  assumes "relay_loop env h n s = (hs, s')"
  shows "hs = map (\<lambda>i. h + int i) [0..<length hs] \<and> length hs \<le> n
     \<and> s' = (if hs = [] then s else Some (str_of_int (h + int (length hs) - 1)))
     \<and> (\<forall>x \<in> set hs. is_ok (relay_block env x))
     \<and> (length hs < n \<longrightarrow> \<not> is_ok (relay_block env (h + int (length hs))))"
  using assms
proof (induction n arbitrary: h s hs)
  case (Suc n)
  show ?case
  proof (cases "relay_block env h")
    case (Inl e)
    then show ?thesis using Suc.prems by auto
  next
    case (Inr t)
    obtain hs1 where r: "relay_loop env (h + 1) n (setLastRelayedHeight h s) = (hs1, s')" "hs = h # hs1"
      using Suc.prems Inr by (auto split: prod.splits)
    note IH = Suc.IH [OF r(1)]
    have "map (\<lambda>i. h + int i) [0..<Suc (length hs1)] = h # map (\<lambda>i. h + 1 + int i) [0..<length hs1]"
      by (simp add: map_upt_Suc algebra_simps del: upt_Suc)
    moreover have "s' = Some (str_of_int (h + int (length hs1)))"
      using IH by (auto simp: setLastRelayedHeight_def)
    ultimately show ?thesis using IH r(2) Inr by (simp add: add.assoc)
  qed
qed simp

section \<open>Properties\<close>

text \<open>
  C35. A cycle skips nothing and repeats nothing: after a last relayed height \<open>m\<close>, the heights a
  cycle stores are \<open>m + 1, m + 2, ...\<close> without a gap, at most ten of them and none above the tip;
  the persisted height becomes the last of them, so that the next cycle continues there; and it
  stops early only at a block whose relay failed.
\<close>

theorem relayCycle_contiguous:
  assumes "0 \<le> m" and "relayCycle env (Some (str_of_int m)) = (hs, s')" and "fetchTipHeight (signet env) 3 = Inr (Some tip)"
  shows "hs = map (\<lambda>i. m + 1 + int i) [0..<length hs] \<and> length hs \<le> 10 \<and> (\<forall>h \<in> set hs. h \<le> tip)
     \<and> getLastRelayedHeight s' = Some (m + int (length hs))
     \<and> (int (length hs) < min 10 (tip - m) \<longrightarrow> \<not> is_ok (relay_block env (m + 1 + int (length hs))))"
proof (cases "m + 1 > tip")
  case True
  then have "hs = []" "s' = Some (str_of_int m)"
    using assms parseInt_str_of_int
    by (simp_all add: relayCycle_def getLastRelayedHeight_def)
  then show ?thesis using True assms(1) parseInt_str_of_int
    by (simp add: getLastRelayedHeight_def)
next
  case False
  let ?n = "nat (min (m + 1 + 9) tip - (m + 1) + 1)"
  have "relay_loop env (m + 1) ?n (Some (str_of_int m)) = (hs, s')"
    using assms False parseInt_str_of_int
    by (simp add: relayCycle_def getLastRelayedHeight_def Let_def)
  note sp = relay_loop_spec [OF this]
  have n: "int ?n = min 10 (tip - m)" using False by simp
  have h: "hs = map (\<lambda>i. m + 1 + int i) [0..<length hs]" using sp by blast
  have le: "int (length hs) \<le> min 10 (tip - m)" using sp n by linarith
  have "x \<le> tip" if "x \<in> set hs" for x
  proof -
    have "x \<in> set (map (\<lambda>i. m + 1 + int i) [0..<length hs])" using that h by simp
    then show ?thesis using le by auto
  qed
  moreover have "getLastRelayedHeight s' = Some (m + int (length hs))"
    using sp parseInt_str_of_int assms(1)
    by (auto simp: getLastRelayedHeight_def)
  moreover have "\<not> is_ok (relay_block env (m + 1 + int (length hs)))" if "int (length hs) < min 10 (tip - m)"
  proof -
    have "length hs < ?n" using that n by linarith
    then show ?thesis using sp by blast
  qed
  moreover have "length hs \<le> 10" using le by linarith
  ultimately show ?thesis using h by blast
qed

definition demo_api :: signet_api where
  "demo_api = \<lparr>api_block_hash = (\<lambda>h k. if k = 0 then NotOk ''503'' else HttpOk (Inr ''bb'')),
     api_block_header = (\<lambda>b k. HttpOk (Inr (replicate 160 (CHR ''a'')))),
     api_tip = (\<lambda>k. HttpOk (Inr ''12''))\<rparr>"

definition demo_relay :: relay_env where
  "demo_relay = \<lparr>signet = demo_api, relayer_account = Some (\<lambda>c k. Inr ''0x1''), header_store_address = Some ''0x5''\<rparr>"

theorem relayCycle_contiguous_witness:
  "\<exists>hs s'. relayCycle demo_relay (Some (str_of_int 7)) = (hs, s')
     \<and> hs = map (\<lambda>i. 7 + 1 + int i) [0..<length hs] \<and> getLastRelayedHeight s' = Some (7 + int (length hs))"
proof -
  have t: "fetchTipHeight (signet demo_relay) 3 = Inr (Some 12)"
  proof -
    have "parseInt (trim ''12'') = Some 12" by code_simp
    then show ?thesis by (simp add: fetchTipHeight_def demo_relay_def demo_api_def numeral_eq_Suc)
  qed
  obtain hs s' where r: "relayCycle demo_relay (Some (str_of_int 7)) = (hs, s')" by fastforce
  show ?thesis using relayCycle_contiguous [OF _ r t] r by simp
qed

text \<open>
  The Merkle root that is stored is the one in the header: for an 80-byte header, the eight
  words sent to the contract are the bytes 36 to 67 of the header, in their order.
\<close>

theorem merkle_root_of_header:
  assumes "length header = 80"
  shows "\<exists>root ws. parseMerkleRootFromHeader (hex_encode header) = Inr root
     \<and> merkleRootToU32Array root = Inr ws \<and> length ws = 8
     \<and> concat (map (be_bytes 4) ws) = slice 36 68 header"
proof -
  let ?r = "slice 36 68 header"
  have l: "length ?r = 32" using assms by (simp add: slice_def)
  have "take 36 header @ take 32 (drop 36 header) @ drop 32 (drop 36 header) = header"
    by (simp only: append_take_drop_id)
  then have "header = take 36 header @ ?r @ drop 68 header" by (simp add: slice_def)
  then have "hex_encode header = hex_encode (take 36 header) @ hex_encode ?r @ hex_encode (drop 68 header)"
    by (simp only: flip: hex_encode_append)
  moreover have "slice 72 (72 + length (hex_encode ?r)) (hex_encode (take 36 header) @ hex_encode ?r @ hex_encode (drop 68 header))
      = hex_encode ?r"
    using assms by (intro slice_append2) simp
  ultimately have "slice 72 136 (hex_encode header) = hex_encode ?r" using l by simp
  then have "parseMerkleRootFromHeader (hex_encode header) = Inr (hex_encode ?r)"
    using assms by (simp add: parseMerkleRootFromHeader_def)
  moreover have "merkleRootToU32Array (hex_encode ?r) = Inr (be_words ?r)"
    using l by (simp add: merkleRootToU32Array_def)
  ultimately show ?thesis using list32 [OF l] be_words_bytes [of ?r 8] l by simp
qed

theorem merkle_root_of_header_witness:
  "\<exists>root ws. parseMerkleRootFromHeader (hex_encode (replicate 80 3)) = Inr root
     \<and> merkleRootToU32Array root = Inr ws \<and> length ws = 8
     \<and> concat (map (be_bytes 4) ws) = slice 36 68 (replicate 80 3)"
  by (rule merkle_root_of_header) simp

text \<open>
  Overlapping cycles move the persisted height backwards: a cycle that the timer starts while
  another is still storing headers begins at a height the first one is about to pass, and its
  own store then overwrites the progress, so that blocks are relayed again.
\<close>

theorem overlapping_cycles_regress:
  "\<exists>s s'. overlap_reachable s \<and> overlap_step s s' \<and> last_height s' < last_height s"
proof -
  let ?s0 = "\<lparr>last_height = - 1, flights = []\<rparr>"
  let ?s1 = "\<lparr>last_height = - 1, flights = [(5, 5)]\<rparr>"
  let ?s2 = "\<lparr>last_height = 5, flights = [(6, 5)]\<rparr>"
  let ?s3 = "\<lparr>last_height = 5, flights = [(6, 5), (6, 8)]\<rparr>"
  let ?s4 = "\<lparr>last_height = 5, flights = [(6, 5), (6, 8), (6, 8)]\<rparr>"
  let ?s5 = "\<lparr>last_height = 6, flights = [(6, 5), (7, 8), (6, 8)]\<rparr>"
  let ?s6 = "\<lparr>last_height = 7, flights = [(6, 5), (8, 8), (6, 8)]\<rparr>"
  let ?s7 = "\<lparr>last_height = 6, flights = [(6, 5), (8, 8), (7, 8)]\<rparr>"
  have "overlap_step ?s0 ?s1" using overlap_step.cycle_starts [of 5 ?s0 5] by simp
  then have 1: "overlap_reachable ?s1" by (rule overlap_reachable.step [OF overlap_reachable.init])
  have "overlap_step ?s1 ?s2" using overlap_step.header_stored [of 0 ?s1 5 5] by simp
  then have 2: "overlap_reachable ?s2" by (rule overlap_reachable.step [OF 1])
  have "overlap_step ?s2 ?s3" using overlap_step.cycle_starts [of 6 ?s2 8] by simp
  then have 3: "overlap_reachable ?s3" by (rule overlap_reachable.step [OF 2])
  have "overlap_step ?s3 ?s4" using overlap_step.cycle_starts [of 6 ?s3 8] by simp
  then have 4: "overlap_reachable ?s4" by (rule overlap_reachable.step [OF 3])
  have "overlap_step ?s4 ?s5" using overlap_step.header_stored [of 1 ?s4 6 8] by simp
  then have 5: "overlap_reachable ?s5" by (rule overlap_reachable.step [OF 4])
  have "overlap_step ?s5 ?s6" using overlap_step.header_stored [of 1 ?s5 7 8] by simp
  then have 6: "overlap_reachable ?s6" by (rule overlap_reachable.step [OF 5])
  have "overlap_step ?s6 ?s7" using overlap_step.header_stored [of 2 ?s6 6 8] by simp
  then show ?thesis using 6 by (intro exI [of _ ?s6] exI [of _ ?s7]) simp
qed

end
