(* ===== verification/BurnProof.thy ===== *)
theory BurnProof
  imports Authorization Starknet Crypto
begin

text \<open>
  \<open>backend/src/services/StarknetProofService.ts\<close>: the 112-byte proof of a burn that a covenant
  script could check. Hashing and secp256k1 are parameters (\<open>sign\<close> and \<open>check_sig\<close>); a cached proof
  is kept as the record that its JSON text stands for.
\<close>

record burn_proof =
  bp_txHash :: string
  bp_amount :: int
  bp_nullifier :: string
  bp_recipientBtc :: string
  bp_blockNumber :: int
  bp_signature :: string
  bp_timestamp :: int

section \<open>Serialization\<close>

definition zeros :: "nat \<Rightarrow> buffer" where
  "zeros n = replicate n 0"

text \<open>\<open>src.copy(buffer, offset)\<close> copies what fits.\<close>

definition copy_into :: "buffer \<Rightarrow> nat \<Rightarrow> buffer \<Rightarrow> buffer" where
  "copy_into src off buf = take off buf @ take (length buf - off) src @ drop (off + length src) buf"

definition writeBigUInt64LE :: "int \<Rightarrow> nat \<Rightarrow> buffer \<Rightarrow> buffer res" where
  "writeBigUInt64LE v off buf =
     (if v < 0 \<or> v \<ge> 2 ^ 64 then Inl (RangeError ''The value of \"value\" is out of range.'')
      else Inr (copy_into (le_bytes 8 v) off buf))"

definition felt_bytes :: "string \<Rightarrow> buffer" where
  "felt_bytes s = hex_decode (pad_start 64 (CHR ''0'') (replace_first s ''0x'' []))"

definition decodeBech32 :: "string \<Rightarrow> buffer" where
  "decodeBech32 address = take 20 (hex_decode (drop 4 address))"

text \<open>\<open>decodeBech32\<close> never throws, so the \<open>catch\<close> with the hash of the address is never taken.\<close>

definition addressToScriptHash :: "string \<Rightarrow> buffer" where
  "addressToScriptHash address = take 20 (decodeBech32 address)"

function splitIntoChunks :: "buffer \<Rightarrow> nat \<Rightarrow> buffer list" where
  "splitIntoChunks buf chunkSize =
     (if buf = [] \<or> chunkSize = 0 then [] else take chunkSize buf # splitIntoChunks (drop chunkSize buf) chunkSize)"
  by pat_completeness auto
termination by (relation "measure (\<lambda>(buf, _). length buf)") auto

declare splitIntoChunks.simps [simp del]

definition serializeProofData :: "burn_proof \<Rightarrow> (buffer \<times> buffer list) res" where
  "serializeProofData p =
     (let b0 = zeros 112; b1 = copy_into (felt_bytes (bp_txHash p)) 0 b0 in
      bind_res (writeBigUInt64LE (bp_amount p) 32 b1) (\<lambda>b2.
      let b3 = copy_into (felt_bytes (bp_nullifier p)) 40 b2;
          b4 = copy_into (addressToScriptHash (bp_recipientBtc p)) 72 b3
      in bind_res (writeBigUInt64LE (bp_blockNumber p) 92 b4) (\<lambda>b5.
           Inr (b5, splitIntoChunks b5 420))))"

section \<open>Signatures\<close>

record sequencer =
  signing_key :: string
  public_key :: "string option"
  sha :: "buffer \<Rightarrow> buffer"
  sign :: "string \<Rightarrow> buffer \<Rightarrow> string"
  check_sig :: "string \<Rightarrow> buffer \<Rightarrow> buffer \<Rightarrow> buffer \<Rightarrow> bool res"

definition signProof :: "sequencer \<Rightarrow> buffer \<Rightarrow> string res" where
  "signProof sq proofData =
     (if signing_key sq = [] then Inl (Error ''SEQUENCER_SIGNING_KEY not configured'')
      else Inr (sign sq (signing_key sq) (sha sq proofData)))"

definition verifyProof :: "sequencer \<Rightarrow> burn_proof \<Rightarrow> bool" where
  "verifyProof sq p =
     (case bind_res (serializeProofData p) (\<lambda>(buf, _).
        if \<not> truthy (public_key sq) then Inr True
        else check_sig sq (the (public_key sq)) (sha sq buf)
               (hex_decode (slice 0 64 (bp_signature p))) (hex_decode (slice 64 128 (bp_signature p)))) of
        Inr b \<Rightarrow> b | Inl _ \<Rightarrow> False)"

section \<open>From the receipt\<close>

record burn_event =
  be_amount :: string
  be_nullifier :: string
  be_recipient :: string

definition or_else :: "string option \<Rightarrow> string \<Rightarrow> string" where
  "or_else x y = (if truthy x then the x else y)"

definition extractBurnEvent :: "string option \<Rightarrow> tx_receipt \<Rightarrow> burn_event option" where
  "extractBurnEvent vault r =
     (case List.find (\<lambda>ev. (case keys ev of k # _ \<Rightarrow> str_includes k ''Burn'' | [] \<Rightarrow> False)
                          \<or> Some (from_address ev) = vault) (rc_events r) of
        None \<Rightarrow> None
      | Some ev \<Rightarrow> Some \<lparr>be_amount = or_else (elem_at (data ev) 1) ''0'',
          be_nullifier = or_else (elem_at (keys ev) 1) (or_else (elem_at (data ev) 2) ''0x0''),
          be_recipient = or_else (elem_at (data ev) 0) ''0x0''\<rparr>)"

definition generateBurnProof
    :: "sequencer \<Rightarrow> string option \<Rightarrow> int \<Rightarrow> tx_receipt res \<Rightarrow> string \<Rightarrow> string \<Rightarrow> db \<Rightarrow> burn_proof res" where
  "generateBurnProof sq vault now receipt withdrawalTxHash btcAddress d =
     bind_res receipt (\<lambda>r.
       if \<not> rc_succeeded r then Inl (Error ''Transaction not finalized: REVERTED'')
       else case extractBurnEvent vault r of
         None \<Rightarrow> Inl (Error ''No burn event found in transaction'')
       | Some ev \<Rightarrow> bind_res (big_int_res (be_amount ev)) (\<lambda>amount.
           if list_ex (\<lambda>a. a_nullifier_hash a = be_nullifier ev \<and> a_status a = a_completed) (auths d) then
             Inl (Error ''Nullifier already used - cannot generate proof for spent withdrawal'')
           else
             let p = \<lparr>bp_txHash = withdrawalTxHash, bp_amount = amount, bp_nullifier = be_nullifier ev,
                      bp_recipientBtc = btcAddress, bp_blockNumber = rc_block_number r,
                      bp_signature = [], bp_timestamp = now\<rparr>
             in bind_res (serializeProofData p) (\<lambda>(buf, _).
                bind_res (signProof sq buf) (\<lambda>s. Inr (p\<lparr>bp_signature := s\<rparr>)))))"

text \<open>The table \<open>starknet_proofs\<close>, as a map from authorization ids.\<close>

type_synonym proof_cache = "string \<Rightarrow> burn_proof option"

definition getProofForAuthorization
    :: "sequencer \<Rightarrow> string option \<Rightarrow> int \<Rightarrow> (string \<Rightarrow> tx_receipt res) \<Rightarrow> string \<Rightarrow> db \<Rightarrow> proof_cache
        \<Rightarrow> burn_proof res \<times> proof_cache" where
  "getProofForAuthorization sq vault now receipts authorizationId d cache =
     (case getAuthorizationById authorizationId d of
        None \<Rightarrow> (Inl (Error ''Authorization not found''), cache)
      | Some a \<Rightarrow> (case cache authorizationId of
          Some p \<Rightarrow> (Inr p, cache)
        | None \<Rightarrow>
            (case generateBurnProof sq vault now (receipts (starknet_tx_hash a)) (starknet_tx_hash a) (bitcoin_address a) d of
               Inl e \<Rightarrow> (Inl e, cache)
             | Inr p \<Rightarrow> (Inr p, cache(authorizationId \<mapsto> p)))))"

section \<open>Lemmas\<close>

lemma length_copy_into: "off + length src \<le> length buf \<Longrightarrow> length (copy_into src off buf) = length buf"
  by (simp add: copy_into_def)

lemma felt_bytes_hex:
  assumes "list_all is_hex s" and "s \<noteq> []" and "length s \<le> 64"
  shows "length (felt_bytes (''0x'' @ s)) = 32" "Some (be_uint (felt_bytes (''0x'' @ s))) = of_base 16 s"
proof -
  let ?p = "pad_start 64 (CHR ''0'') s"
  have f: "felt_bytes (''0x'' @ s) = hex_decode ?p" by (simp add: felt_bytes_def starts_with_def)
  have h: "list_all is_hex ?p" using assms(1) by (rule list_all_is_hex_pad)
  have l: "length ?p = 64" using assms(3) by (simp add: length_pad_start)
  show "length (felt_bytes (''0x'' @ s)) = 32" unfolding f using length_hex_decode [OF h] l by simp
  have "of_base_acc 16 0 ?p = Some (be_uint (hex_decode ?p))"
    using of_base_acc_hex_decode [OF h, of 0] l by simp
  then show "Some (be_uint (felt_bytes (''0x'' @ s))) = of_base 16 s"
    using assms(2) unfolding f by (simp add: of_base_def pad_start_def of_base_acc_zeros)
qed

lemma copy_parts:
  assumes "length a = off" and "length b = length src"
  shows "copy_into src off (a @ b @ c) = a @ src @ c"
  using assms by (simp add: copy_into_def)

text \<open>The layout: six fields side by side.\<close>

lemma serialize_layout:
  assumes "length (felt_bytes (bp_txHash p)) = 32" and "length (felt_bytes (bp_nullifier p)) = 32"
    and "0 \<le> bp_amount p" "bp_amount p < 2 ^ 64" and "0 \<le> bp_blockNumber p" "bp_blockNumber p < 2 ^ 64"
  shows "\<exists>buf chunks. serializeProofData p = Inr (buf, chunks) \<and> chunks = [buf] \<and>
    buf = felt_bytes (bp_txHash p) @ le_bytes 8 (bp_amount p) @ felt_bytes (bp_nullifier p)
      @ (addressToScriptHash (bp_recipientBtc p) @ zeros (20 - length (addressToScriptHash (bp_recipientBtc p))))
      @ le_bytes 8 (bp_blockNumber p) @ zeros 12"
proof -
  let ?t = "felt_bytes (bp_txHash p)" and ?n = "felt_bytes (bp_nullifier p)"
  let ?r = "addressToScriptHash (bp_recipientBtc p)" and ?a = "le_bytes 8 (bp_amount p)"
  let ?b = "le_bytes 8 (bp_blockNumber p)" and ?k = "20 - length (addressToScriptHash (bp_recipientBtc p))"
  have rl: "length ?r \<le> 20" by (simp add: addressToScriptHash_def)
  have z: "zeros (i + j) = zeros i @ zeros j" for i j by (simp add: zeros_def replicate_add)
  have lz: "length (zeros i) = i" for i by (simp add: zeros_def)
  have 0: "zeros 112 = [] @ zeros 32 @ zeros 80" using z [of 32 80] by simp
  have 1: "copy_into ?t 0 (zeros 112) = ?t @ zeros 8 @ zeros 72"
    unfolding 0 using assms(1) z [of 8 72] by (subst copy_parts) (auto simp: lz)
  have 2: "copy_into ?a 32 (?t @ zeros 8 @ zeros 72) = (?t @ ?a) @ zeros 32 @ zeros 40"
    using assms(1) z [of 32 40] by (subst copy_parts) (auto simp: lz)
  have 3: "copy_into ?n 40 ((?t @ ?a) @ zeros 32 @ zeros 40) = (?t @ ?a @ ?n) @ zeros (length ?r) @ zeros (?k + 20)"
    using assms(1,2) z [of "length ?r" "?k + 20"] rl by (subst copy_parts) (auto simp: lz)
  have 4: "copy_into ?r 72 ((?t @ ?a @ ?n) @ zeros (length ?r) @ zeros (?k + 20))
      = (?t @ ?a @ ?n @ ?r @ zeros ?k) @ zeros 8 @ zeros 12"
    using assms(1,2) z [of ?k 20] z [of 8 12] by (subst copy_parts) (auto simp: lz)
  have 5: "copy_into ?b 92 ((?t @ ?a @ ?n @ ?r @ zeros ?k) @ zeros 8 @ zeros 12)
      = ?t @ ?a @ ?n @ (?r @ zeros ?k) @ ?b @ zeros 12"
    using assms(1,2) rl by (subst copy_parts) (auto simp: lz)
  let ?buf = "?t @ ?a @ ?n @ (?r @ zeros ?k) @ ?b @ zeros 12"
  have len: "length ?buf = 112" using assms(1,2) rl by (simp add: lz)
  then have ch: "splitIntoChunks ?buf 420 = [?buf]"
    by (subst splitIntoChunks.simps) (auto simp: splitIntoChunks.simps [of "[]"])
  show ?thesis
    unfolding serializeProofData_def Let_def writeBigUInt64LE_def 1
    using assms(3-6) by (simp add: 2 3 4 5 ch del: append_assoc)
qed

section \<open>Properties\<close>

text \<open>
  The proof format is faithful to its numbers: for hashes of at most 64 digits and 64-bit
  amounts and heights, the serialization succeeds, is one chunk of exactly 112 bytes, and the
  transaction hash, the amount, the nullifier and the block number are read back from their slots.
\<close>

theorem serializeProofData_roundtrip:
  assumes "bp_txHash p = ''0x'' @ h" and "list_all is_hex h" and "h \<noteq> []" and "length h \<le> 64"
    and "bp_nullifier p = ''0x'' @ n" and "list_all is_hex n" and "n \<noteq> []" and "length n \<le> 64"
    and "0 \<le> bp_amount p" "bp_amount p < 2 ^ 64" and "0 \<le> bp_blockNumber p" "bp_blockNumber p < 2 ^ 64"
  shows "\<exists>buf. serializeProofData p = Inr (buf, [buf]) \<and> length buf = 112
     \<and> Some (be_uint (slice 0 32 buf)) = of_base 16 h \<and> le_uint (slice 32 40 buf) = bp_amount p
     \<and> Some (be_uint (slice 40 72 buf)) = of_base 16 n \<and> le_uint (slice 92 100 buf) = bp_blockNumber p"
proof -
  let ?t = "felt_bytes (bp_txHash p)" and ?n = "felt_bytes (bp_nullifier p)"
  let ?r = "addressToScriptHash (bp_recipientBtc p) @ zeros (20 - length (addressToScriptHash (bp_recipientBtc p)))"
  let ?a = "le_bytes 8 (bp_amount p)" and ?b = "le_bytes 8 (bp_blockNumber p)"
  have l: "length ?t = 32" "length ?n = 32"
    using felt_bytes_hex(1) [OF assms(2-4)] felt_bytes_hex(1) [OF assms(6-8)] assms(1,5) by simp_all
  have lr: "length ?r = 20" by (simp add: addressToScriptHash_def zeros_def)
  obtain buf where b: "serializeProofData p = Inr (buf, [buf])" "buf = ?t @ ?a @ ?n @ ?r @ ?b @ zeros 12"
    using serialize_layout [OF l assms(9-12)] by blast
  have "slice 0 32 buf = ?t" "slice 32 40 buf = ?a" "slice 40 72 buf = ?n" "slice 92 100 buf = ?b"
    using l lr unfolding b(2) slice_def by simp_all
  moreover have "length buf = 112" using l lr unfolding b(2) by (simp add: zeros_def)
  ultimately show ?thesis
    using b(1) felt_bytes_hex(2) [OF assms(2-4)] felt_bytes_hex(2) [OF assms(6-8)] assms(1,5,9-12)
    by (simp add: le_uint_le_bytes)
qed

definition demo_proof :: burn_proof where
  "demo_proof = \<lparr>bp_txHash = ''0x1f'', bp_amount = 10000, bp_nullifier = ''0xab'',
     bp_recipientBtc = ''tb1qw508d6'', bp_blockNumber = 77, bp_signature = [], bp_timestamp = 1\<rparr>"

theorem serializeProofData_roundtrip_witness:
  "\<exists>buf. serializeProofData demo_proof = Inr (buf, [buf]) \<and> length buf = 112
     \<and> Some (be_uint (slice 0 32 buf)) = of_base 16 ''1f'' \<and> le_uint (slice 32 40 buf) = 10000"
proof -
  have h: "list_all is_hex ''1f''" "list_all is_hex ''ab''" by (code_simp, code_simp)
  have "\<exists>buf. serializeProofData demo_proof = Inr (buf, [buf]) \<and> length buf = 112
     \<and> Some (be_uint (slice 0 32 buf)) = of_base 16 ''1f'' \<and> le_uint (slice 32 40 buf) = bp_amount demo_proof
     \<and> Some (be_uint (slice 40 72 buf)) = of_base 16 ''ab'' \<and> le_uint (slice 92 100 buf) = bp_blockNumber demo_proof"
    using h by (intro serializeProofData_roundtrip) (simp_all add: demo_proof_def)
  then show ?thesis unfolding demo_proof_def by auto
qed

text \<open>
  The proof does not bind the recipient: the bech32 decoder is a placeholder that reads
  hexadecimal digits, so for every address whose fifth and sixth characters are not both
  hexadecimal digits the recipient's slot is all zeros, and proofs that differ only in such
  recipients serialize, and are signed, alike.
\<close>

theorem recipient_not_bound:
  assumes "\<not> (is_hex a \<and> is_hex b)" and "\<not> (is_hex c \<and> is_hex d)"
  shows "serializeProofData (p\<lparr>bp_recipientBtc := ''tb1q'' @ a # b # x\<rparr>)
       = serializeProofData (p\<lparr>bp_recipientBtc := ''tb1q'' @ c # d # y\<rparr>)"
proof -
  have "addressToScriptHash (''tb1q'' @ a # b # x) = []" "addressToScriptHash (''tb1q'' @ c # d # y) = []"
    using assms by (auto simp: addressToScriptHash_def decodeBech32_def is_hex_def split: option.splits)
  then show ?thesis by (simp add: serializeProofData_def)
qed

theorem recipient_not_bound_witness:
  "serializeProofData (demo_proof\<lparr>bp_recipientBtc := ''tb1q'' @ CHR ''w'' # CHR ''5'' # ''08d6''\<rparr>)
   = serializeProofData (demo_proof\<lparr>bp_recipientBtc := ''tb1q'' @ CHR ''r'' # CHR ''p'' # ''33g0''\<rparr>)"
proof -
  have h: "\<not> is_hex (CHR ''w'')" "\<not> is_hex (CHR ''r'')" by (code_simp, code_simp)
  show ?thesis by (rule recipient_not_bound) (simp_all add: h)
qed

end
