(* ===== verification/Vault.thy ===== *)
theory Vault
  imports Processor Commitments Starknet
begin

text \<open>
  \<open>backend/src/routes/vault.ts\<close>: the life of a vault. A handler is a function of what the outside
  world answers while it runs, the request and the database. Handlers await, so that other
  requests and the background processor run between their parts; the handler of a withdrawal is
  therefore given as one function per part, each of the database it finds, and composed at the
  end. Random bytes, uuids and the clock are arguments.
\<close>

section \<open>POST /api/vault/prepare-deposit\<close>

record prepare_env =
  pe_cl :: crypto_lib
  pe_uuid :: string
  pe_salt :: buffer
  pe_rand :: buffer
  pe_iv_amount :: buffer
  pe_iv_rand :: buffer
  pe_now :: int
  pe_balance :: "string \<Rightarrow> int res"

definition lock_days :: "json \<Rightarrow> int option" where
  "lock_days j = (case number_of_json j of
     None \<Rightarrow> None
   | Some x \<Rightarrow> if of_int \<lfloor>x\<rfloor> = x \<and> isValidLockDuration \<lfloor>x\<rfloor> then Some \<lfloor>x\<rfloor> else None)"

definition prepared_vault :: "prepare_env \<Rightarrow> string \<Rightarrow> int \<Rightarrow> int \<Rightarrow> string \<Rightarrow> string \<Rightarrow> string \<Rightarrow> vault_row" where
  "prepared_vault env owner amount days randomness commitment nullifier =
     (let s = generateSalt (pe_salt env) in \<lparr>
        v_id = pe_uuid env, owner_address = owner, v_commitment = commitment,
        encrypted_amount = encryptAmount (pe_cl env) (pe_iv_amount env) amount s, salt = s,
        randomness_hint = encryptRandomness (pe_cl env) (pe_iv_rand env) randomness s,
        lock_duration_days = days, v_created_at = pe_now env, unlock_at = pe_now env + days * 86400,
        v_status = pending, deposit_tx_hash = None, withdraw_tx_hash = None, v_bitcoin_txid = None,
        v_nullifier_hash = Some nullifier, bitcoin_withdrawal_address = None, deposit_sender_address = None\<rparr>)"

text \<open>The row that the request leads to, and the transaction that stores it.\<close>

definition prepare_row :: "prepare_env \<Rightarrow> string \<Rightarrow> int \<Rightarrow> int \<Rightarrow> vault_row res" where
  "prepare_row env owner amount days =
     bind_res (generateRandomness (pe_rand env)) (\<lambda>randomness.
     bind_res (generateCommitment (pe_cl env) (str_of_int amount) randomness) (\<lambda>commitment.
     bind_res (generateNullifier (pe_cl env) commitment randomness) (\<lambda>nullifier.
       Inr (prepared_vault env owner amount days randomness commitment nullifier))))"

definition store_prepared :: "vault_row \<Rightarrow> db \<Rightarrow> db res" where
  "store_prepared v d = bind_res (insert_vault v d) (insert_commitment
     \<lparr>c_commitment = v_commitment v, c_vault_id = v_id v, c_block_number = None, c_revealed = 0\<rparr>)"

definition prepare_response :: "vault_row \<Rightarrow> int \<Rightarrow> response" where
  "prepare_response v days = respond 201 [(''success'', JBool True), (''vaultId'', JStr (v_id v)),
     (''commitment'', JStr (v_commitment v)), (''nullifierHash'', JOpt (v_nullifier_hash v)),
     (''encryptedRandomness'', JStr (randomness_hint v)), (''unlockAt'', JInt (unlock_at v)),
     (''apy'', (case getApy days of None \<Rightarrow> JNull | Some a \<Rightarrow> JNum a)),
     (''instructions'', JStr ''Call vault contract deposit(commitment, nullifierHash) on Starknet Sepolia, then POST /api/vault/confirm-deposit with the real txHash.'')]"

definition prepareDeposit :: "prepare_env \<Rightarrow> json \<Rightarrow> db \<Rightarrow> response \<times> db" where
  "prepareDeposit env b d =
     (let ownerAddress = js_text (the (json_field b ''ownerAddress'')) in
      if \<not> isValidAddress ownerAddress then
        (fail_with 400 (''Invalid ownerAddress '' @ emdash @ '' must match 0x + 63-66 hex chars''), d)
      else case lock_days (the (json_field b ''lockDurationDays'')) of
        None \<Rightarrow> (fail_with 400 ''lockDurationDays must be 30, 90, or 365'', d)
      | Some days \<Rightarrow>
      case big_of_json (the (json_field b ''amountSats'')) of
        None \<Rightarrow> (fail_with 400 ''amountSats must be a valid integer (satoshis)'', d)
      | Some amount \<Rightarrow>
        if amount \<le> 0 then (fail_with 400 ''amountSats must be > 0'', d)
        else (case pe_balance env ownerAddress of
            Inl e \<Rightarrow> (fail_with 500 (message e), d)
          | Inr liveBalance \<Rightarrow>
              if liveBalance < amount then
                (respond 400 [(''success'', JBool False), (''error'', JStr ''Insufficient MockBTC balance on-chain''),
                   (''detail'', JObj [(''required'', JStr (str_of_int amount)), (''available'', JStr (str_of_int liveBalance))])], d)
              else (case bind_res (prepare_row env ownerAddress amount days)
                        (\<lambda>v. bind_res (store_prepared v d) (\<lambda>d'. Inr (v, d'))) of
                  Inl e \<Rightarrow> (fail_with 500 (message e), d)
                | Inr (v, d') \<Rightarrow> (prepare_response v days, d'))))"

section \<open>POST /api/vault/confirm-deposit\<close>

text \<open>
  The part before the first \<open>await\<close>, and the part after the receipt and the check of its event. The
  vault id is a string, as the route declares it.
\<close>

definition confirm_start :: "string \<Rightarrow> db \<Rightarrow> response + vault_row" where
  "confirm_start vid d = (case row_by v_id vid (vaults d) of
     None \<Rightarrow> Inl (fail_with 404 ''Vault not found'')
   | Some v \<Rightarrow>
       if v_status v \<noteq> pending
       then Inl (fail_with 400 (''Vault is already '' @ vault_status_str (v_status v) @ '' '' @ emdash @ '' cannot confirm again''))
       else Inr v)"

definition confirm_failed :: "string \<Rightarrow> exn \<Rightarrow> response" where
  "confirm_failed txHash e = (case e of
     TransactionNotFoundError _ \<Rightarrow> respond 404 [(''success'', JBool False), (''error'', JStr (message e)), (''txHash'', JStr txHash)]
   | TransactionRevertedError _ \<Rightarrow> respond 400 [(''success'', JBool False), (''error'', JStr (message e)), (''txHash'', JStr txHash)]
   | CommitmentMismatchError _ _ \<Rightarrow> fail_with 400 (message e)
   | _ \<Rightarrow> fail_with 500 (message e))"

definition update_commitment_block :: "string \<Rightarrow> int \<Rightarrow> db \<Rightarrow> db" where
  "update_commitment_block vid n d =
     d\<lparr>commitments := update_by (\<lambda>c. c_vault_id c = vid) (\<lambda>c. c\<lparr>c_block_number := Some n\<rparr>) (commitments d)\<rparr>"

definition confirm_store :: "string \<Rightarrow> int \<Rightarrow> vault_row \<Rightarrow> string \<Rightarrow> deposit_check \<Rightarrow> db \<Rightarrow> db res" where
  "confirm_store uuid now v txHash dc d =
     bind_res (update_vaults (\<lambda>r. v_id r = v_id v) (\<lambda>r. r\<lparr>v_status := active, deposit_tx_hash := Some txHash\<rparr>) d)
       (\<lambda>d1. insert_transaction \<lparr>t_id = uuid, t_vault_id = Some (v_id v), t_tx_hash = txHash, t_type = Deposit,
          amount_encrypted = encrypted_amount v, t_block_number = Some (dc_blockNumber dc),
          t_block_timestamp = Some (dc_blockTimestamp dc), t_execution_status = Some SUCCEEDED, t_timestamp = now\<rparr>
        (update_commitment_block (v_id v) (dc_blockNumber dc) d1))"

definition confirm_finish :: "string \<Rightarrow> int \<Rightarrow> vault_row \<Rightarrow> string \<Rightarrow> deposit_check res \<Rightarrow> db \<Rightarrow> response \<times> db" where
  "confirm_finish uuid now v txHash check d = (case check of
     Inl e \<Rightarrow> (confirm_failed txHash e, d)
   | Inr dc \<Rightarrow>
       if \<not> verified dc then
         (respond 400 [(''success'', JBool False), (''error'', JStr ''Deposit event not found on-chain for this commitment''),
            (''txHash'', JStr txHash)], d)
       else (case confirm_store uuid now v txHash dc d of
           Inl e \<Rightarrow> (confirm_failed txHash e, d)
         | Inr d' \<Rightarrow> (respond 200 [(''success'', JBool True), (''vaultId'', JStr (v_id v)), (''txHash'', JStr txHash),
             (''blockNumber'', JInt (dc_blockNumber dc)), (''blockTimestamp'', JInt (dc_blockTimestamp dc)),
             (''onChainVerified'', JBool True)], d')))"

text \<open>
  \<open>waited\<close> is what waiting for the transaction gives, \<open>again\<close> the receipt that the event check
  fetches once more.
\<close>

definition confirmDeposit :: "sn_config \<Rightarrow> string \<Rightarrow> int \<Rightarrow> tx_receipt res \<Rightarrow> tx_receipt res \<Rightarrow> int option
    \<Rightarrow> string \<Rightarrow> string \<Rightarrow> db \<Rightarrow> response \<times> db" where
  "confirmDeposit cfg uuid now waited again block_ts vid txHash d = (case confirm_start vid d of
     Inl r \<Rightarrow> (r, d)
   | Inr v \<Rightarrow> confirm_finish uuid now v txHash
       (bind_res waited (\<lambda>_. verifyDepositEvent cfg again (v_commitment v) block_ts)) d)"

section \<open>POST /api/vault/withdraw\<close>

text \<open>Steps 1 and 2: the address and the vault of the nullifier.\<close>

definition withdraw_check :: "string option \<Rightarrow> string \<Rightarrow> string \<Rightarrow> db \<Rightarrow> response + vault_row" where
  "withdraw_check sender nullifier_hash btc_address d =
     (if btc_address = [] \<or> \<not> starts_with btc_address ''tb1'' then
        Inl (fail_with 400 ''Invalid Bitcoin address. Must be a Signet testnet address (starts with tb1)'')
      else if Some btc_address = sender then
        Inl (fail_with 400 (''Cannot withdraw to the vault's own address ('' @ btc_address
          @ ''). Please enter a different Bitcoin address where you want to receive your funds.''))
      else (case List.find (\<lambda>v. v_nullifier_hash v = Some nullifier_hash) (vaults d) of
          None \<Rightarrow> Inl (fail_with 404 ''Vault not found for this nullifier'')
        | Some v \<Rightarrow>
            if v_status v = withdrawn then
              Inl (fail_with 400 ''Vault is already fully withdrawn. Both Starknet and Bitcoin payouts completed.'')
            else if v_status v \<noteq> active \<and> withdraw_tx_hash v = None then
              Inl (fail_with 400 (''Vault is '' @ vault_status_str (v_status v) @ '' '' @ emdash @ '' cannot withdraw''))
            else Inr v))"

definition is_retry :: "vault_row \<Rightarrow> bool" where
  "is_retry v = (withdraw_tx_hash v \<noteq> None)"

text \<open>\<open>SELECT encrypted_amount, salt FROM vaults WHERE id = ?\<close>, decrypted.\<close>

definition vault_amount :: "crypto_lib \<Rightarrow> string \<Rightarrow> db \<Rightarrow> int res" where
  "vault_amount cl vid d = (case row_by v_id vid (vaults d) of
     None \<Rightarrow> Inl (Error ''Cannot read properties of undefined (reading 'encrypted_amount')'')
   | Some v \<Rightarrow> decryptAmount cl (encrypted_amount v) (salt v))"

text \<open>
  Steps 3 and 4, up to the call of the vault contract; the local proof of step 3 is only logged.
  \<open>burn recipient amount\<close> is what \<open>StarknetService.withdraw\<close> answers.
\<close>

definition withdraw_burn :: "crypto_lib \<Rightarrow> (string \<Rightarrow> int \<Rightarrow> string res) \<Rightarrow> vault_row \<Rightarrow> db \<Rightarrow> (exn + response) + string" where
  "withdraw_burn cl burn v d = (case withdraw_tx_hash v of
     Some h \<Rightarrow> Inr h
   | None \<Rightarrow> (case vault_amount cl (v_id v) d of
       Inl e \<Rightarrow> Inl (Inl e)
     | Inr amount \<Rightarrow>
         let owner = owner_address (the (row_by v_id (v_id v) (vaults d))) in
         if owner = [] \<or> owner = ''0x0'' \<or> \<not> isValidAddress owner
         then Inl (Inr (fail_with 400 ''Invalid owner address in vault record''))
         else (case burn owner amount of Inl e \<Rightarrow> Inl (Inl e) | Inr h \<Rightarrow> Inr h)))"

text \<open>\<open>Math.floor(Number(amountSats) / 1e10)\<close>.\<close>

definition actualSats :: "int \<Rightarrow> int" where
  "actualSats amount = \<lfloor>dvd_js (number_of_big amount) (10 ^ 10)\<rfloor>"

text \<open>Step 5 up to the payout: the authorization, created or found, whose failure is only recorded.\<close>

definition withdraw_authorize :: "string \<Rightarrow> int \<Rightarrow> string \<Rightarrow> string \<Rightarrow> string \<Rightarrow> string \<Rightarrow> int \<Rightarrow> db \<Rightarrow> auth_row res \<times> db" where
  "withdraw_authorize uuid now vid nullifier_hash txHash btc_address amount d =
     (case getAuthorizationByNullifier nullifier_hash d of
        None \<Rightarrow> createAuthorization uuid now \<lparr>vaultId = vid, nullifierHash = nullifier_hash,
                  starknetTxHash = txHash, bitcoinAddress = btc_address, amountSats = actualSats amount\<rparr> d
      | Some auth \<Rightarrow>
          (Inr auth, if a_status auth = a_failed then auth_step (Update now (a_id auth) a_pending None None) d else d))"

text \<open>
  The immediate payout, which runs on when the timer of 20 seconds has won the race; then its
  result is not looked at.
\<close>

definition withdraw_payout :: "proc_config \<Rightarrow> proc_env \<Rightarrow> bool \<Rightarrow> string \<Rightarrow> db \<Rightarrow> psbt option \<times> string option \<times> db" where
  "withdraw_payout cfg env in_time i d = (case payout cfg env i d of
     (p, r, d1) \<Rightarrow> (case r of
        Inl _ \<Rightarrow> (p, None, d1)
      | Inr tid \<Rightarrow> if in_time \<and> tid \<noteq> []
          then (p, Some tid, auth_step (Update (clock env) i a_completed (Some tid) None) d1)
          else (p, None, d1)))"

text \<open>Steps 6 and 7: two statements, not one transaction.\<close>

definition withdraw_record :: "string \<Rightarrow> int \<Rightarrow> vault_row \<Rightarrow> string \<Rightarrow> string \<Rightarrow> db \<Rightarrow> exn option \<times> db" where
  "withdraw_record uuid now v txHash btc_address d =
     (if is_retry v then (None, d)
      else (case update_vaults (\<lambda>r. v_id r = v_id v)
                  (\<lambda>r. r\<lparr>v_status := withdrawn, withdraw_tx_hash := Some txHash, bitcoin_withdrawal_address := Some btc_address\<rparr>) d of
          Inl e \<Rightarrow> (Some e, d)
        | Inr d1 \<Rightarrow> (case insert_transaction \<lparr>t_id = uuid, t_vault_id = Some (v_id v), t_tx_hash = txHash, t_type = Withdraw,
                 amount_encrypted = (case row_by v_id (v_id v) (vaults d1) of None \<Rightarrow> [] | Some r \<Rightarrow> encrypted_amount r),
                 t_block_number = None, t_block_timestamp = None, t_execution_status = None, t_timestamp = now\<rparr> d1 of
              Inl e \<Rightarrow> (Some e, d1)
            | Inr d2 \<Rightarrow> (None, d2))))"

definition withdraw_response :: "bool \<Rightarrow> vault_row \<Rightarrow> string \<Rightarrow> string option \<Rightarrow> string option \<Rightarrow> response" where
  "withdraw_response proved v txHash bitcoinTxid bitcoinSendError = respond 200 [(''success'', JBool True),
     (''txHash'', JStr txHash), (''localProofGenerated'', JBool (\<not> is_retry v \<and> proved)),
     (''bitcoinTxid'', JOpt bitcoinTxid), (''bitcoinSendError'', if bitcoinTxid = None then JOpt bitcoinSendError else JNull),
     (''isRetry'', JBool (is_retry v)),
     (''message'', JStr (case bitcoinTxid of Some t \<Rightarrow> [CHR 0xE2, CHR 0x9C, CHR 0x85] @ '' Withdrawal complete. Bitcoin sent: '' @ t
        | None \<Rightarrow> ''Starknet burn confirmed. Bitcoin payout queued '' @ emdash @ '' will arrive within ~30 seconds.'')),
     (''canRetry'', JBool False)]"

record withdraw_env =
  we_cl :: crypto_lib
  we_sender :: "string option"
  we_burn :: "string \<Rightarrow> int \<Rightarrow> string res"
  we_proof_ok :: bool
  we_uuid_auth :: string
  we_uuid_tx :: string
  we_now :: int
  we_cfg :: proc_config
  we_proc :: proc_env
  we_in_time :: bool

text \<open>Steps 5 to 7 for a vault that passed the checks and whose burn is known.\<close>

definition withdraw_pay :: "withdraw_env \<Rightarrow> string \<Rightarrow> string \<Rightarrow> vault_row \<Rightarrow> string \<Rightarrow> int \<Rightarrow> db
    \<Rightarrow> psbt option \<times> response \<times> db" where
  "withdraw_pay env nullifier_hash btc_address v txHash amount d =
     (case (case withdraw_authorize (we_uuid_auth env) (we_now env) (v_id v) nullifier_hash txHash btc_address amount d of
              (Inl e, d1) \<Rightarrow> (None, None, Some (message e), d1)
            | (Inr auth, d1) \<Rightarrow> (case withdraw_payout (we_cfg env) (we_proc env) (we_in_time env) (a_id auth) d1 of
                (p, tid, d2) \<Rightarrow> (p, tid, None, d2))) of
        (p, bitcoinTxid, bitcoinSendError, d2) \<Rightarrow>
          (case withdraw_record (we_uuid_tx env) (we_now env) v txHash btc_address d2 of
             (Some e, d3) \<Rightarrow> (p, fail_with 500 (message e), d3)
           | (None, d3) \<Rightarrow> (p, withdraw_response (we_proof_ok env) v txHash bitcoinTxid bitcoinSendError, d3)))"

definition withdraw :: "withdraw_env \<Rightarrow> string \<Rightarrow> string \<Rightarrow> db \<Rightarrow> psbt option \<times> response \<times> db" where
  "withdraw env nullifier_hash btc_address d = (case withdraw_check (we_sender env) nullifier_hash btc_address d of
     Inl r \<Rightarrow> (None, r, d)
   | Inr v \<Rightarrow> (case withdraw_burn (we_cl env) (we_burn env) v d of
       Inl (Inl e) \<Rightarrow> (None, fail_with 500 (message e), d)
     | Inl (Inr r) \<Rightarrow> (None, r, d)
     | Inr txHash \<Rightarrow> (case vault_amount (we_cl env) (v_id v) d of
         Inl e \<Rightarrow> (None, fail_with 500 (message e), d)
       | Inr amount \<Rightarrow> withdraw_pay env nullifier_hash btc_address v txHash amount d)))"

text \<open>
  The request with its secret, which only goes into the local proof; whether that proof succeeds is
  \<open>prove\<close>, of the secret, the vault's commitment and the nullifier.
\<close>

definition withdraw_request :: "(string \<Rightarrow> string \<Rightarrow> string \<Rightarrow> bool) \<Rightarrow> withdraw_env \<Rightarrow> string \<Rightarrow> string \<Rightarrow> string \<Rightarrow> db
    \<Rightarrow> psbt option \<times> response \<times> db" where
  "withdraw_request prove env secret nullifier_hash btc_address d =
     withdraw (env\<lparr>we_proof_ok := (case List.find (\<lambda>v. v_nullifier_hash v = Some nullifier_hash) (vaults d) of
         None \<Rightarrow> False | Some v \<Rightarrow> prove secret (v_commitment v) nullifier_hash)\<rparr>) nullifier_hash btc_address d"

section \<open>The other routes\<close>

definition getBalance :: "(string \<Rightarrow> int res) \<Rightarrow> string \<Rightarrow> response" where
  "getBalance balance address =
     (if \<not> isValidStarknetAddress address then fail_with 400 ''Invalid Starknet address format''
      else (case balance address of
          Inl e \<Rightarrow> fail_with 500 (message e)
        | Inr n \<Rightarrow> respond 200 [(''success'', JBool True), (''address'', JStr address), (''balanceSats'', JStr (str_of_int n))]))"

text \<open>\<open>isCommitmentOnChain\<close> never throws: \<open>on_chain\<close> is its answer.\<close>

definition vault_summary :: "int \<Rightarrow> (string \<Rightarrow> bool) \<Rightarrow> vault_row \<Rightarrow> json" where
  "vault_summary now on_chain v = JObj [(''vaultId'', JStr (v_id v)), (''ownerAddress'', JStr (owner_address v)),
     (''commitment'', JStr (v_commitment v)), (''lockDurationDays'', JInt (lock_duration_days v)),
     (''createdAt'', JInt (v_created_at v)), (''unlockAt'', JInt (unlock_at v)),
     (''status'', JStr (vault_status_str (v_status v))), (''isUnlocked'', JBool (now \<ge> unlock_at v)),
     (''depositTxHash'', JOpt (deposit_tx_hash v)), (''nullifierHash'', JOpt (v_nullifier_hash v)),
     (''onChainStatus'', JStr (if v_status v = active \<or> v_status v = withdrawn
        then (if on_chain (v_commitment v) then ''confirmed'' else ''not_registered'') else ''unknown''))]"

definition listVaults :: "int \<Rightarrow> (string \<Rightarrow> bool) \<Rightarrow> string \<Rightarrow> db \<Rightarrow> response" where
  "listVaults now on_chain address d =
     (if \<not> isValidAddress address then fail_with 400 ''Invalid Starknet address''
      else let vs = sort_key (\<lambda>v. - v_created_at v) (filter (\<lambda>v. owner_address v = address) (vaults d))
        in respond 200 [(''success'', JBool True), (''address'', JStr address),
             (''vaults'', JArr (map (vault_summary now on_chain) vs)), (''count'', JInt (int (length vs)))])"

definition vaultDetails :: "int \<Rightarrow> int res \<Rightarrow> (string \<Rightarrow> bool) \<Rightarrow> string \<Rightarrow> db \<Rightarrow> response" where
  "vaultDetails now liveBlock on_chain vid d = (case row_by v_id vid (vaults d) of
     None \<Rightarrow> fail_with 404 ''Vault not found''
   | Some v \<Rightarrow> (case liveBlock of
       Inl e \<Rightarrow> fail_with 500 (message e)
     | Inr n \<Rightarrow> respond 200 [(''success'', JBool True), (''vault'', JObj [
         (''id'', JStr (v_id v)), (''owner_address'', JStr (owner_address v)), (''commitment'', JStr (v_commitment v)),
         (''lock_duration_days'', JInt (lock_duration_days v)), (''created_at'', JInt (v_created_at v)),
         (''unlock_at'', JInt (unlock_at v)), (''status'', JStr (vault_status_str (v_status v))),
         (''deposit_tx_hash'', JOpt (deposit_tx_hash v)), (''withdraw_tx_hash'', JOpt (withdraw_tx_hash v)),
         (''nullifier_hash'', JOpt (v_nullifier_hash v)), (''isUnlocked'', JBool (now \<ge> unlock_at v)),
         (''onChainConfirmed'', JBool (v_status v \<noteq> pending \<and> on_chain (v_commitment v))),
         (''liveBlockNumber'', JInt n)])]))"

section \<open>Lemmas\<close>

lemma payout_pays:
  assumes "payout cfg env i d = (Some q, r, d')"
  shows "\<exists>a. getAuthorizationById i d = Some a \<and> pays_terms q a"
  using assms payout_legacy [of "wallet_env env" "clock env" i d "Some q" r d'] payout_covenant [of "cov_env env" i d "Some q" r]
  by (fastforce simp: payout_def split: if_splits prod.splits)

lemma auth_step_vaults [simp]: "vaults (auth_step (Update now i s t e) d) = vaults d"
  by (auto simp: updateStatus_def update_auth_def)

lemma withdraw_check_ok:
  assumes "withdraw_check sender n addr d = Inr v"
  shows "starts_with addr ''tb1''" "v \<in> set (vaults d)" "v_nullifier_hash v = Some n" "v_status v \<noteq> withdrawn"
    "v_status v = active \<or> is_retry v"
  using assms by (auto simp: withdraw_check_def is_retry_def find_Some_iff split: if_splits option.splits)

lemma authorize_new:
  assumes n: "getAuthorizationByNullifier n d = None"
    and w: "withdraw_authorize u now vid n h addr amt d = (Inr auth, d1)"
  shows "auth = new_auth u now \<lparr>vaultId = vid, nullifierHash = n, starknetTxHash = h, bitcoinAddress = addr, amountSats = actualSats amt\<rparr>"
    "insert_auth auth d = Inr d1" "getAuthorizationById u d1 = Some auth"
proof -
  let ?p = "\<lparr>vaultId = vid, nullifierHash = n, starknetTxHash = h, bitcoinAddress = addr, amountSats = actualSats amt\<rparr>"
  have c: "createAuthorization u now ?p d = (Inr auth, d1)"
    using w n by (simp add: withdraw_authorize_def)
  then have "auth = new_auth u now ?p \<and> insert_auth auth d = Inr d1"
    by (cases rule: createAuthorization_cases [of u now ?p d]) auto
  then show a: "auth = new_auth u now ?p" and i: "insert_auth auth d = Inr d1" by blast+
  show "getAuthorizationById u d1 = Some auth"
    using auth_by_id.lookup_inserted [OF i] a by (simp add: getAuthorizationById_def)
qed

lemma authorize_old:
  assumes "schema_ok d" and o: "getAuthorizationByNullifier n d = Some b"
    and w: "withdraw_authorize u now vid n h addr amt d = (Inr auth, d1)"
  shows "auth = b" "touches (a_id b) d d1" "getAuthorizationById (a_id b) d = Some b" "a_nullifier_hash b = n"
proof -
  show "auth = b" "touches (a_id b) d d1"
    using w o by (auto simp: withdraw_authorize_def simp del: auth_step.simps intro: touches.intros split: if_splits)
  have "b \<in> set (auths d)" "a_nullifier_hash b = n"
    using o by (auto simp: getAuthorizationByNullifier_def dest: row_by_Some)
  then show "getAuthorizationById (a_id b) d = Some b" "a_nullifier_hash b = n"
    using assms(1) row_by_unique [of a_id "auths d" b]
    by (auto simp: schema_ok_def auths_violation_None getAuthorizationById_def)
qed

lemma touches_row:
  assumes "touches i d d'" and "getAuthorizationById i d = Some a"
  shows "\<exists>b. b \<in> set (auths d') \<and> getAuthorizationById i d' = Some b \<and> terms b = terms a"
  using touches_terms [OF assms(1), of i] assms(2)
  by (auto simp: getAuthorizationById_def dest: row_by_Some)

lemma withdraw_payout_touches:
  "withdraw_payout cfg env in_time i d = (p, t, d') \<Longrightarrow> touches i d d'"
  using payout_cases(1) [of cfg env i d]
  by (auto simp: withdraw_payout_def simp del: auth_step.simps intro: touches.intros
      split: prod.splits sum.splits if_splits)

lemma withdraw_payout_pays:
  "withdraw_payout cfg env in_time i d = (Some q, t, d') \<Longrightarrow> \<exists>a. getAuthorizationById i d = Some a \<and> pays_terms q a"
  using payout_pays [of cfg env i d q]
  by (auto simp: withdraw_payout_def split: prod.splits sum.splits if_splits)

lemma withdraw_record_auths:
  "withdraw_record u now v h addr d = (x, d') \<Longrightarrow> auths d' = auths d"
  by (auto simp: withdraw_record_def Let_def split: if_splits sum.splits option.splits
      dest!: update_vaultsD insert_transactionD)

lemma withdraw_burn_ok:
  assumes "withdraw_burn cl burn v d = Inr h"
  shows "withdraw_tx_hash v = Some h \<or> (\<exists>amt owner. vault_amount cl (v_id v) d = Inr amt \<and> burn owner amt = Inr h)"
  using assms by (auto simp: withdraw_burn_def Let_def split: option.splits sum.splits if_splits)

lemma confirm_store_spec:
  assumes ok: "schema_ok d" and v: "row_by v_id vid (vaults d) = Some v"
    and s: "confirm_store uuid now v txHash dc d = Inr d'"
  shows "schema_ok d'" "row_by v_id vid (vaults d') = Some (v\<lparr>v_status := active, deposit_tx_hash := Some txHash\<rparr>)"
    "\<exists>t. row_by t_tx_hash txHash (transactions d') = Some t \<and> t_vault_id t = Some vid
       \<and> t_type t = Deposit \<and> t_execution_status t = Some SUCCEEDED"
proof -
  let ?f = "\<lambda>r. r\<lparr>v_status := active, deposit_tx_hash := Some txHash\<rparr>"
  let ?t = "\<lparr>t_id = uuid, t_vault_id = Some (v_id v), t_tx_hash = txHash, t_type = Deposit,
          amount_encrypted = encrypted_amount v, t_block_number = Some (dc_blockNumber dc),
          t_block_timestamp = Some (dc_blockTimestamp dc), t_execution_status = Some SUCCEEDED, t_timestamp = now\<rparr>"
  have vid: "v_id v = vid" using v by (auto dest: row_by_Some)
  obtain d1 where u: "update_vaults (\<lambda>r. v_id r = v_id v) ?f d = Inr d1"
    and i: "insert_transaction ?t (update_commitment_block (v_id v) (dc_blockNumber dc) d1) = Inr d'"
    using s by (auto simp: confirm_store_def)
  have "schema_ok d1" using schema_update_vaults [OF ok u] by simp
  then have "schema_ok (update_commitment_block (v_id v) (dc_blockNumber dc) d1)"
    by (auto simp: schema_ok_def update_commitment_block_def list_all_iff set_update_by)
  then show "schema_ok d'" using i by (rule schema_insert_transaction)
  have "vaults d' = update_by (\<lambda>r. v_id r = v_id v) ?f (vaults d)"
    using insert_transactionD [OF i] update_vaultsD [OF u] by (simp add: update_commitment_block_def)
  then show "row_by v_id vid (vaults d') = Some (?f v)"
    using row_by_update [of v_id ?f vid "\<lambda>r. v_id r = v_id v" "vaults d"] v vid by simp
  show "\<exists>t. row_by t_tx_hash txHash (transactions d') = Some t \<and> t_vault_id t = Some vid
       \<and> t_type t = Deposit \<and> t_execution_status t = Some SUCCEEDED"
    using tx_by_hash.lookup_inserted [OF i] vid by (intro exI [of _ ?t]) simp
qed

lemma withdraw_proof_flag:
  assumes "withdraw (env\<lparr>we_proof_ok := b\<rparr>) n addr d = (p, r, d')"
  shows "\<exists>r'. withdraw (env\<lparr>we_proof_ok := b'\<rparr>) n addr d = (p, r', d') \<and> code r' = code r"
  using assms by (auto simp: withdraw_def withdraw_pay_def withdraw_response_def split: sum.splits prod.splits option.splits)

section \<open>Properties\<close>

text \<open>
  C11. A request to withdraw pays only what was burned for: whenever it puts a Bitcoin transaction on
  the network, in either mode, the nullifier belongs to a vault that was not withdrawn, the
  transaction pays the terms of an authorization for that nullifier, and if there was none before,
  those terms are the requested address and the vault's decrypted amount in satoshis, for a burn
  that the vault contract accepted for that amount (now or in an earlier request).
\<close>

theorem withdraw_pays_only_burned:
  assumes "schema_ok d" and "withdraw env n addr d = (Some q, r, d')"
  shows "\<exists>v a. v \<in> set (vaults d) \<and> v_nullifier_hash v = Some n \<and> v_status v \<noteq> withdrawn \<and> starts_with addr ''tb1''
     \<and> a \<in> set (auths d') \<and> a_nullifier_hash a = n
     \<and> hd (p_outputs q) = \<lparr>o_address = bitcoin_address a, o_value = amount_sats a\<rparr>
     \<and> (getAuthorizationByNullifier n d = None \<longrightarrow> bitcoin_address a = addr
          \<and> (\<exists>amt. vault_amount (we_cl env) (v_id v) d = Inr amt \<and> amount_sats a = actualSats amt
               \<and> (withdraw_tx_hash v = Some (starknet_tx_hash a)
                   \<or> (\<exists>owner. we_burn env owner amt = Inr (starknet_tx_hash a)))))"
proof -
  obtain v h amt where v: "withdraw_check (we_sender env) n addr d = Inr v"
    and h: "withdraw_burn (we_cl env) (we_burn env) v d = Inr h"
    and amt: "vault_amount (we_cl env) (v_id v) d = Inr amt"
    and pay: "withdraw_pay env n addr v h amt d = (Some q, r, d')"
    using assms(2) by (auto simp: withdraw_def split: sum.splits)
  obtain auth d1 where au: "withdraw_authorize (we_uuid_auth env) (we_now env) (v_id v) n h addr amt d = (Inr auth, d1)"
    using pay by (auto simp: withdraw_pay_def split: prod.splits sum.splits option.splits)
  obtain p tid d2 where po: "withdraw_payout (we_cfg env) (we_proc env) (we_in_time env) (a_id auth) d1 = (p, tid, d2)"
    by (metis prod_cases3)
  obtain x d3 where re: "withdraw_record (we_uuid_tx env) (we_now env) v h addr d2 = (x, d3)" by fastforce
  have e: "p = Some q" "d' = d3"
    using pay au po re by (auto simp: withdraw_pay_def split: option.splits)
  obtain b where b: "getAuthorizationById (a_id auth) d1 = Some b" "pays_terms q b"
    using withdraw_payout_pays po e(1) by blast
  obtain c where c: "c \<in> set (auths d2)" "terms c = terms b"
    using touches_row [OF withdraw_payout_touches [OF po] b(1)] by blast
  have c': "c \<in> set (auths d')" using c(1) withdraw_record_auths [OF re] e(2) by simp
  have nul: "a_nullifier_hash b = n \<and> (getAuthorizationByNullifier n d = None \<longrightarrow>
      bitcoin_address b = addr \<and> amount_sats b = actualSats amt \<and> starknet_tx_hash b = h)"
  proof (cases "getAuthorizationByNullifier n d")
    case None
    note new = authorize_new [OF None au]
    then have "b = auth" using b(1) by simp
    then show ?thesis using new(1) by simp
  next
    case (Some a)
    note old = authorize_old [OF assms(1) Some au]
    then obtain b' where "getAuthorizationById (a_id a) d1 = Some b'" "terms b' = terms a"
      using touches_row by blast
    then show ?thesis using old b(1) Some by (simp add: terms_def)
  qed
  have "terms c = terms b" by (rule c(2))
  then have "a_nullifier_hash c = n" "pays_terms q c"
    "getAuthorizationByNullifier n d = None \<longrightarrow> bitcoin_address c = addr \<and> amount_sats c = actualSats amt \<and> starknet_tx_hash c = h"
    using nul b(2) pays_terms_cong [OF c(2), of q] by (simp_all add: terms_def)
  then show ?thesis
    using withdraw_check_ok [OF v] withdraw_burn_ok [OF h] amt c'
    by (intro exI [of _ v] exI [of _ c]) (auto simp: pays_terms_def)
qed

text \<open>Whole satoshis survive the division of a wei amount, up to some nine bitcoins.\<close>

lemma actualSats_whole: "0 \<le> s \<Longrightarrow> s * 5 ^ 10 < 2 ^ 53 \<Longrightarrow> actualSats (s * 10 ^ 10) = s"
proof -
  assume s: "0 \<le> s" "s * 5 ^ 10 < 2 ^ 53"
  have e: "s * 10 ^ 10 = s * 5 ^ 10 * 2 ^ 10" by simp
  have "fl (of_int (s * 5 ^ 10 * 2 ^ 10)) = of_int (s * 5 ^ 10 * 2 ^ 10)"
    using s by (intro fl_exact) auto
  then have "number_of_big (s * 10 ^ 10) = of_int (s * 10 ^ 10)"
    unfolding number_of_big_def e .
  moreover have "of_int (s * 10 ^ 10) / (10 ^ 10) = (of_int s :: rat)" by simp
  moreover have "fl (of_int s) = of_int s" using s by (intro fl_int) auto
  ultimately show ?thesis by (simp add: actualSats_def dvd_js_def)
qed

definition demo_wei_vault :: vault_row where
  "demo_wei_vault = demo_vault\<lparr>owner_address := ''0x'' @ replicate 63 (CHR ''1''), salt := ''ab'',
     encrypted_amount := encryptAmount demo_lib (replicate 12 7) (10000 * 10 ^ 10) ''ab''\<rparr>"

definition demo_withdraw_db :: db where
  "demo_withdraw_db = empty_db\<lparr>vaults := [demo_wei_vault]\<rparr>"

definition demo_withdraw_env :: withdraw_env where
  "demo_withdraw_env = \<lparr>we_cl = demo_lib, we_sender = None,
     we_burn = (\<lambda>_ _. Inr ''0x00112233445566778899aabbccddeeff''), we_proof_ok = True, we_uuid_auth = ''a'',
     we_uuid_tx = ''t'', we_now = 5, we_cfg = demo_cfg, we_proc = demo_proc, we_in_time = True\<rparr>"

lemma demo_check: "withdraw_check None ''n'' ''tb1q'' demo_withdraw_db = Inr demo_wei_vault"
  by (simp add: withdraw_check_def demo_withdraw_db_def demo_wei_vault_def demo_vault_def starts_with_def empty_db_def)

lemma demo_amount: "vault_amount demo_lib ''v'' demo_withdraw_db = Inr (10000 * 10 ^ 10)"
  using decrypt_encrypt [OF aead_law_demo, of "replicate 12 7" "10000 * 10 ^ 10" "''ab''"]
  by (simp add: vault_amount_def demo_withdraw_db_def row_by_def demo_wei_vault_def demo_vault_def)

lemma demo_burn:
  "withdraw_burn demo_lib (we_burn demo_withdraw_env) demo_wei_vault demo_withdraw_db = Inr ''0x00112233445566778899aabbccddeeff''"
proof -
  have "isValidAddress (''0x'' @ replicate 63 (CHR ''1''))" by code_simp
  moreover have "replicate 63 (CHR ''1'') \<noteq> ''0''" by code_simp
  ultimately show ?thesis
    using demo_amount
    by (simp add: withdraw_burn_def demo_wei_vault_def demo_vault_def demo_withdraw_env_def
        demo_withdraw_db_def row_by_def Let_def)
qed

lemma schema_demo_withdraw: "schema_ok demo_withdraw_db"
  by (simp add: demo_withdraw_db_def demo_wei_vault_def demo_vault_def table_eval)

lemma demo_withdraw: "\<exists>q r d'. withdraw demo_withdraw_env ''n'' ''tb1q'' demo_withdraw_db = (Some q, r, d')"
proof -
  let ?auth = "new_auth ''a'' 5 \<lparr>vaultId = ''v'', nullifierHash = ''n'',
     starknetTxHash = ''0x00112233445566778899aabbccddeeff'', bitcoinAddress = ''tb1q'', amountSats = 10000\<rparr>"
  have au: "withdraw_authorize ''a'' 5 ''v'' ''n'' ''0x00112233445566778899aabbccddeeff'' ''tb1q'' (10000 * 10 ^ 10) demo_withdraw_db
      = (Inr ?auth, demo_withdraw_db\<lparr>auths := [?auth]\<rparr>)"
    using actualSats_whole [of 10000]
    by (simp add: withdraw_authorize_def createAuthorization_def getAuthorizationByNullifier_def getAuthorizationById_def
        row_by_def starts_with_def insert_auth_def auths_violation_def tx_hash_ok_def like_prefix_def to_lower_def
        uniq_def has_vault_def demo_withdraw_db_def demo_wei_vault_def demo_vault_def empty_db_def)
  have "\<exists>q t d2. withdraw_payout demo_cfg demo_proc True ''a'' (demo_withdraw_db\<lparr>auths := [?auth]\<rparr>) = (Some q, t, d2)"
    by (simp add: withdraw_payout_def payout_def demo_proc_def demo_cfg_def executeCovenantWithdrawal_def
        createCovenantWithdrawal_def covenant_psbt_def demo_env_def getAuthorizationById_def row_by_def
        fetchCovenantUtxos_def attach_script_def demo_coin_def selectUtxos_def desc_def FEE_PER_INPUT_def
        broadcastCovenantTransaction_def Let_def del: auth_step.simps)
  then obtain q t d2 where po: "withdraw_payout demo_cfg demo_proc True ''a'' (demo_withdraw_db\<lparr>auths := [?auth]\<rparr>) = (Some q, t, d2)"
    by blast
  have v: "v_id demo_wei_vault = ''v''" by (simp add: demo_wei_vault_def demo_vault_def)
  have e: "we_cl demo_withdraw_env = demo_lib" "we_sender demo_withdraw_env = None" "we_uuid_auth demo_withdraw_env = ''a''"
    "we_now demo_withdraw_env = 5" "we_cfg demo_withdraw_env = demo_cfg" "we_proc demo_withdraw_env = demo_proc"
    "we_in_time demo_withdraw_env = True"
    by (simp_all add: demo_withdraw_env_def)
  have "fst (withdraw_pay demo_withdraw_env ''n'' ''tb1q'' demo_wei_vault ''0x00112233445566778899aabbccddeeff''
      (10000 * 10 ^ 10) demo_withdraw_db) = Some q"
    unfolding withdraw_pay_def e v au using po by (simp split: prod.splits option.splits)
  then have "fst (withdraw demo_withdraw_env ''n'' ''tb1q'' demo_withdraw_db) = Some q"
    unfolding withdraw_def e demo_check sum.case demo_burn v demo_amount .
  then show ?thesis by (metis prod.collapse)
qed

theorem withdraw_pays_only_burned_witness:
  "\<exists>q r d' a. withdraw demo_withdraw_env ''n'' ''tb1q'' demo_withdraw_db = (Some q, r, d')
     \<and> a \<in> set (auths d') \<and> hd (p_outputs q) = \<lparr>o_address = bitcoin_address a, o_value = amount_sats a\<rparr>"
proof -
  obtain q r d' where w: "withdraw demo_withdraw_env ''n'' ''tb1q'' demo_withdraw_db = (Some q, r, d')"
    using demo_withdraw by blast
  show ?thesis using withdraw_pays_only_burned [OF schema_demo_withdraw w] w by blast
qed

text \<open>
  C12. The secret of a withdrawal is not checked. Whatever the request names as its secret, and whether
  or not the local proof of it succeeds, the same payout is made, the database becomes the same
  and the answer has the same status: the public nullifier hash alone withdraws a vault, to any
  address the request gives.
\<close>

theorem withdraw_ignores_secret:
  assumes "withdraw_request prove env s n addr d = (p, r, d')"
  shows "\<exists>r'. withdraw_request prove env s' n addr d = (p, r', d') \<and> code r' = code r"
  using assms unfolding withdraw_request_def by (rule withdraw_proof_flag)

theorem withdraw_ignores_secret_witness:
  "\<exists>q r d'. withdraw_request (\<lambda>s c n. s = ''right'') demo_withdraw_env ''wrong'' ''n'' ''tb1q'' demo_withdraw_db = (Some q, r, d')"
proof -
  obtain q r d' where w: "withdraw demo_withdraw_env ''n'' ''tb1q'' demo_withdraw_db = (Some q, r, d')"
    using demo_withdraw by blast
  have "demo_withdraw_env = demo_withdraw_env\<lparr>we_proof_ok := we_proof_ok demo_withdraw_env\<rparr>" by simp
  then obtain r1 where "withdraw_request (\<lambda>s c n. s = ''right'') demo_withdraw_env ''right'' ''n'' ''tb1q'' demo_withdraw_db
      = (Some q, r1, d')"
    using w withdraw_proof_flag unfolding withdraw_request_def by metis
  then show ?thesis using withdraw_ignores_secret [where s' = "''wrong''"] by blast
qed

text \<open>
  C16. In covenant mode nothing but the status column says that an authorization was paid, and the
  covenant payout does not read it: after the background processor has paid and completed an
  authorization, the immediate payout of the request that created it, or of a retry, sends the
  amount a second time; the hot-wallet payout refuses.
\<close>

theorem covenant_pays_completed_again:
  assumes "schema_ok d" and "\<forall>envs \<in> set es. \<forall>i. broadcasts_answered (envs i)"
    and "processor_run cfg es d = (paid, d')" and "(i, q) \<in> set paid"
    and "executeCovenantWithdrawal env i d = (Some q2, r)"
  shows "status_of i d' = Some a_completed \<and> executeCovenantWithdrawal env i d' = (Some q2, r)
     \<and> hd (p_outputs q2) = hd (p_outputs q)
     \<and> fst (sendBitcoinWithAuthorization wenv now i d') = None"
proof -
  note log = sound_logD [OF processor_run_sound [OF assms(3,1,2)]]
  have c: "status_of i d' = Some a_completed" by (rule log(3) [OF assms(4)])
  obtain a where a: "getAuthorizationById i d = Some a" "pays_terms q a" using log(4) [OF assms(4)] by blast
  obtain b where "getAuthorizationById i d = Some b" "pays_terms q2 b"
    using payout_covenant [OF assms(5)] by blast
  then have o: "hd (p_outputs q2) = hd (p_outputs q)" using a by (simp add: pays_terms_def)
  obtain x where x: "getAuthorizationById i d' = Some x" "a_status x = a_completed"
    using c by (auto simp: status_of_def)
  then have "x \<in> set (auths d')" by (auto simp: getAuthorizationById_def dest: row_by_Some)
  moreover have "uniq a_nullifier_hash (auths d')" using log(7) [OF assms(1)] by (simp add: schema_ok_def auths_violation_None)
  ultimately have "getAuthorizationByNullifier (a_nullifier_hash x) d' = Some x"
    using row_by_unique by (fastforce simp: getAuthorizationByNullifier_def)
  then have "fst (sendBitcoinWithAuthorization wenv now i d') = None"
    using x by (simp add: sendBitcoinWithAuthorization_def verifyAuthorization_def invalid_def)
  then show ?thesis using c o covenant_status_blind [OF log(6), of env i] assms(5) by simp
qed

theorem covenant_pays_completed_again_witness:
  "\<exists>d' q2 r. status_of ''a'' d' = Some a_completed \<and> executeCovenantWithdrawal demo_env ''a'' d' = (Some q2, r)"
proof -
  obtain paid d' where r: "processor_run demo_cfg [\<lambda>_. demo_proc, \<lambda>_. demo_proc] demo_auth_db = (paid, d')"
    by fastforce
  have t: "\<forall>envs \<in> set [\<lambda>_. demo_proc, \<lambda>_. demo_proc]. \<forall>i. broadcasts_answered (envs i)"
    by (simp add: broadcasts_answered_def demo_proc_def demo_env_def demo_btc_def)
  have "''a'' \<in> fst ` set paid" using demo_run by (simp only: r fst_conv) blast
  then obtain q where q: "(''a'', q) \<in> set paid" by (metis imageE prod.collapse)
  have "\<exists>q2 x. executeCovenantWithdrawal demo_env ''a'' demo_auth_db = (Some q2, x)"
    by (simp add: executeCovenantWithdrawal_def createCovenantWithdrawal_def covenant_psbt_def demo_env_def
        getAuthorizationById_def row_by_def fetchCovenantUtxos_def new_auth_def demo_auth_db_def demo_params_def
        attach_script_def demo_coin_def selectUtxos_def desc_def FEE_PER_INPUT_def broadcastCovenantTransaction_def Let_def)
  then obtain q2 x where e: "executeCovenantWithdrawal demo_env ''a'' demo_auth_db = (Some q2, x)" by blast
  show ?thesis using covenant_pays_completed_again [OF schema_demo_auth t r q e] by blast
qed

lemma actualSats_small:
  assumes "0 < n" and "n < 10 ^ 10"
  shows "actualSats n = 0"
proof -
  have "number_of_big n = of_int n" using assms fl_int [of n] by (simp add: number_of_big_def)
  moreover have "(0::rat) \<le> of_int n / 10 ^ 10" "of_int n / 10 ^ 10 \<le> (1 - 1 / 10 ^ 10 :: rat)"
  proof -
    have "(of_int n :: rat) \<le> of_int (10 ^ 10 - 1)" using assms(2) by (simp only: of_int_le_iff)
    then show "of_int n / 10 ^ 10 \<le> (1 - 1 / 10 ^ 10 :: rat)" by simp
  qed (use assms in simp)
  ultimately have "0 \<le> fl (of_int n / 10 ^ 10) \<and> fl (of_int n / 10 ^ 10) < 1"
    using fl_fraction [of "of_int n / 10 ^ 10"] by auto
  then show ?thesis using \<open>number_of_big n = of_int n\<close>
    by (simp add: actualSats_def dvd_js_def floor_eq_iff)
qed

text \<open>
  The two deposit routes disagree on the unit of the encrypted amount: \<open>prepare-deposit\<close> stores
  satoshis, but the withdrawal divides by \<open>10 ^ 10\<close> as if it were wei, so that a vault prepared for
  less than a hundred bitcoins is authorized for a payout of zero satoshis.
\<close>

theorem prepared_vault_pays_nothing:
  assumes "aead_law (pe_cl env)" and "length (pe_iv_amount env) = 12"
    and "prepare_row env owner amount days = Inr v" and "0 < amount" and "amount < 10 ^ 10"
    and "row_by v_id (v_id v) (vaults d) = Some v"
  shows "vault_amount (pe_cl env) (v_id v) d = Inr amount
     \<and> (getAuthorizationByNullifier n d = None \<longrightarrow>
          (case withdraw_authorize u now (v_id v) n h addr amount d of (Inr a, d1) \<Rightarrow> amount_sats a = 0 | (Inl _, d1) \<Rightarrow> d1 = d))"
proof -
  have "encrypted_amount v = encryptAmount (pe_cl env) (pe_iv_amount env) amount (salt v)"
    using assms(3) by (auto simp: prepare_row_def prepared_vault_def Let_def)
  then have "vault_amount (pe_cl env) (v_id v) d = Inr amount"
    using assms(6) decrypt_encrypt [OF assms(1,2)] by (simp add: vault_amount_def)
  moreover have "case withdraw_authorize u now (v_id v) n h addr amount d of (Inr a, d1) \<Rightarrow> amount_sats a = 0 | (Inl _, d1) \<Rightarrow> d1 = d"
    if "getAuthorizationByNullifier n d = None"
  proof (cases "withdraw_authorize u now (v_id v) n h addr amount d")
    case (Pair x d1)
    show ?thesis
    proof (cases x)
      case (Inl e)
      then show ?thesis using Pair that
        by (cases rule: createAuthorization_cases [of u now "\<lparr>vaultId = v_id v, nullifierHash = n, starknetTxHash = h,
              bitcoinAddress = addr, amountSats = actualSats amount\<rparr>" d])
          (simp_all add: withdraw_authorize_def)
    next
      case (Inr a)
      then show ?thesis using authorize_new(1) [OF that, of u now "v_id v" h addr amount a d1] Pair
          actualSats_small [OF assms(4,5)] by simp
    qed
  qed
  ultimately show ?thesis by simp
qed

definition demo_prepare :: prepare_env where
  "demo_prepare = \<lparr>pe_cl = demo_lib, pe_uuid = ''u'', pe_salt = replicate 32 3, pe_rand = replicate 31 1,
     pe_iv_amount = replicate 12 2, pe_iv_rand = replicate 12 4, pe_now = 100, pe_balance = (\<lambda>_. Inr (10 ^ 8))\<rparr>"

lemma demo_prepared: "\<exists>v. prepare_row demo_prepare o' 50000 30 = Inr v"
proof -
  have "is_ok (prepare_row demo_prepare [] 50000 30)" by code_simp
  then show ?thesis by (auto simp: is_ok_iff prepare_row_def)
qed

theorem prepared_vault_pays_nothing_witness:
  "\<exists>v d. prepare_row demo_prepare ''0x1'' 50000 30 = Inr v \<and> vault_amount demo_lib (v_id v) d = Inr 50000
     \<and> (case withdraw_authorize ''a'' 5 (v_id v) ''n'' ''0x5'' ''tb1q'' 50000 d of (Inr a, d1) \<Rightarrow> amount_sats a = 0 | (Inl _, d1) \<Rightarrow> d1 = d)"
proof -
  obtain v where v: "prepare_row demo_prepare ''0x1'' 50000 30 = Inr v" using demo_prepared by blast
  let ?d = "empty_db\<lparr>vaults := [v]\<rparr>"
  have r: "row_by v_id (v_id v) (vaults ?d) = Some v" by (simp add: row_by_def)
  have l: "aead_law (pe_cl demo_prepare)" "length (pe_iv_amount demo_prepare) = 12" "pe_cl demo_prepare = demo_lib"
    using aead_law_demo by (simp_all add: demo_prepare_def)
  have n: "getAuthorizationByNullifier ''n'' ?d = None"
    by (simp add: getAuthorizationByNullifier_def empty_db_def row_by_def)
  have "(0::int) < 50000" "(50000::int) < 10 ^ 10" by simp_all
  from prepared_vault_pays_nothing [OF l(1,2) v this r, of "''n''" "''a''" 5 "''0x5''" "''tb1q''"] n v l(3)
  show ?thesis by auto
qed

text \<open>
  Confirming a deposit is all or nothing, and happens once: the answer is 200 exactly for a vault
  that was pending, which then is active with the deposit's hash and has one confirmed transaction
  row; on every other answer the database is unchanged.
\<close>

theorem confirmDeposit_outcome:
  assumes "schema_ok d" and "confirmDeposit cfg uuid now waited again block_ts vid txHash d = (r, d')"
  shows "(code r = 200 \<and> schema_ok d' \<and> is_ok waited
        \<and> (\<exists>v. row_by v_id vid (vaults d) = Some v \<and> v_status v = pending
             \<and> row_by v_id vid (vaults d') = Some (v\<lparr>v_status := active, deposit_tx_hash := Some txHash\<rparr>))
        \<and> (\<exists>t. row_by t_tx_hash txHash (transactions d') = Some t \<and> t_vault_id t = Some vid
             \<and> t_type t = Deposit \<and> t_execution_status t = Some SUCCEEDED))
     \<or> (code r \<noteq> 200 \<and> d' = d)"
proof -
  have fail: "code (confirm_failed txHash e) \<noteq> 200" for e by (cases e) (simp_all add: confirm_failed_def)
  show ?thesis
  proof (cases "confirm_start vid d")
    case (Inl x)
    then show ?thesis using assms(2) by (auto simp: confirmDeposit_def confirm_start_def split: option.splits if_splits)
  next
    case (Inr v)
    then have v: "row_by v_id vid (vaults d) = Some v" "v_status v = pending"
      by (auto simp: confirm_start_def split: option.splits if_splits)
    then have vid: "v_id v = vid" by (auto dest: row_by_Some)
    let ?c = "bind_res waited (\<lambda>_. verifyDepositEvent cfg again (v_commitment v) block_ts)"
    have f: "confirm_finish uuid now v txHash ?c d = (r, d')" using assms(2) Inr by (simp add: confirmDeposit_def)
    show ?thesis
    proof (cases "?c")
      case (Inl e)
      then show ?thesis using f fail by (auto simp: confirm_finish_def)
    next
      case (Inr dc)
      show ?thesis
      proof (cases "verified dc")
        case False
        then show ?thesis using f Inr by (auto simp: confirm_finish_def)
      next
        case True
        show ?thesis
        proof (cases "confirm_store uuid now v txHash dc d")
          case (Inl e)
          then show ?thesis using f True \<open>?c = Inr dc\<close> fail by (auto simp: confirm_finish_def)
        next
          case (Inr d2)
          note store = confirm_store_spec [OF assms(1) v(1) Inr]
          have "code r = 200" "d' = d2" using f True \<open>?c = Inr dc\<close> Inr by (auto simp: confirm_finish_def)
          moreover have "is_ok waited" using \<open>?c = Inr dc\<close> by (cases waited) auto
          ultimately show ?thesis using store v vid by auto
        qed
      qed
    qed
  qed
qed

definition demo_pending_db :: db where
  "demo_pending_db = empty_db\<lparr>vaults := [demo_vault\<lparr>v_status := pending\<rparr>]\<rparr>"

definition demo_deposit_receipt :: tx_receipt where
  "demo_deposit_receipt = \<lparr>rc_transaction_hash = ''0x00112233445566778899aabbccddeeff'', rc_block_number = 7,
     rc_succeeded = True, rc_events = [\<lparr>from_address = vault_address demo_cfg_sn, keys = [''0x1''], data = [''0xc'']\<rparr>]\<rparr>"

lemma demo_confirm:
  "code (fst (confirmDeposit demo_cfg_sn ''t'' 5 (Inr demo_deposit_receipt) (Inr demo_deposit_receipt) (Some 3)
     ''v'' ''0x00112233445566778899aabbccddeeff'' demo_pending_db)) = 200"
  by (simp add: confirmDeposit_def confirm_start_def confirm_finish_def demo_pending_db_def demo_vault_def row_by_def
        verifyDepositEvent_def check_deposit_def demo_deposit_receipt_def is_deposit_event_def confirm_store_def
        update_commitment_block_def insert_transaction_def table_eval)

theorem confirmDeposit_outcome_witness:
  "\<exists>d'. snd (confirmDeposit demo_cfg_sn ''t'' 5 (Inr demo_deposit_receipt) (Inr demo_deposit_receipt) (Some 3)
       ''v'' ''0x00112233445566778899aabbccddeeff'' demo_pending_db) = d'
     \<and> schema_ok d' \<and> (\<exists>t. row_by t_tx_hash ''0x00112233445566778899aabbccddeeff'' (transactions d') = Some t)"
proof -
  obtain r d' where c: "confirmDeposit demo_cfg_sn ''t'' 5 (Inr demo_deposit_receipt) (Inr demo_deposit_receipt) (Some 3)
     ''v'' ''0x00112233445566778899aabbccddeeff'' demo_pending_db = (r, d')" by fastforce
  have "schema_ok demo_pending_db"
    by (simp add: demo_pending_db_def demo_vault_def table_eval)
  from confirmDeposit_outcome [OF this c] have "schema_ok d'"
    "\<exists>t. row_by t_tx_hash ''0x00112233445566778899aabbccddeeff'' (transactions d') = Some t"
    using demo_confirm unfolding c fst_conv by blast+
  then show ?thesis unfolding c snd_conv by blast
qed

end
