(* ===== verification/AuditTrail.thy ===== *)
theory AuditTrail
  imports Vault
begin

text \<open>
  \<open>backend/src/routes/audit.ts\<close>, \<open>routes/transactions.ts\<close> and \<open>routes/privacy.ts\<close>: what the
  backend reports, and the audit that rewrites the status of vaults. The node's answers are
  arguments. Rows that tie in an \<open>ORDER BY\<close> stay in insertion order; SQLite does not promise it.
\<close>

section \<open>GET /api/audit\<close>

definition voyager :: "string \<Rightarrow> string" where
  "voyager txHash = ''https://sepolia.voyager.online/tx/'' @ txHash"

text \<open>
  \<open>amount\<close> is \<open>Number\<close> of the ciphertext, \<open>NaN\<close> and hence \<open>null\<close> unless it happens to be a numeral;
  the ISO time stamp of the creation time is left out.
\<close>

definition audit_event :: "vault_row \<Rightarrow> json" where
  "audit_event v = (let txHash = the (deposit_tx_hash v) in JObj [(''id'', JStr (v_id v)), (''type'', JStr ''DEPOSIT''),
     (''tx_hash'', JStr txHash), (''status'', JStr (if v_status v = pending then ''PENDING'' else ''SUCCEEDED'')),
     (''amount'', (case number_of_string (encrypted_amount v) of None \<Rightarrow> JNull | Some x \<Rightarrow> JNum x)),
     (''voyager_url'', if starts_with txHash ''SIMULATED'' then JNull else JStr (voyager txHash))])"

definition getAudit :: "db \<Rightarrow> response" where
  "getAudit d = respond 200 [(''events'', JArr (map audit_event (take 50
     (sort_key (\<lambda>v. - v_created_at v) (filter (\<lambda>v. deposit_tx_hash v \<noteq> None) (vaults d))))))]"

section \<open>POST /api/audit/verify\<close>

record audit_count =
  n_verified :: nat
  n_waiting :: nat
  n_bad :: nat
  n_simulated :: nat

text \<open>
  A receipt of the provider: \<open>execution_status\<close> and \<open>finality_status\<close>. The query of claim hashes
  of \<open>htlcs\<close> fails, since the table has no such column, and is ignored.
\<close>

record live_receipt =
  execution_status :: "string option"
  finality_status :: "string option"

definition live_status :: "live_receipt \<Rightarrow> string" where
  "live_status r = (if truthy (execution_status r) then the (execution_status r)
     else if truthy (finality_status r) then the (finality_status r) else ''PENDING'')"

definition audited_status :: "string \<Rightarrow> vault_status" where
  "audited_status s = (if s = ''ACCEPTED_ON_L2'' \<or> s = ''SUCCEEDED'' then active else pending)"

definition count_one :: "string \<Rightarrow> audit_count \<Rightarrow> audit_count" where
  "count_one s n = (if s = ''ACCEPTED_ON_L2'' \<or> s = ''SUCCEEDED'' then n\<lparr>n_verified := Suc (n_verified n)\<rparr>
     else if s = ''REJECTED'' \<or> s = ''REVERTED'' then n\<lparr>n_bad := Suc (n_bad n)\<rparr>
     else n\<lparr>n_waiting := Suc (n_waiting n)\<rparr>)"

definition audit_one :: "(string \<Rightarrow> live_receipt res) \<Rightarrow> string \<Rightarrow> audit_count \<Rightarrow> db \<Rightarrow> audit_count \<times> (string \<times> string) \<times> db" where
  "audit_one rpc txHash n d =
     (if starts_with txHash ''SIMULATED'' then (n\<lparr>n_simulated := Suc (n_simulated n)\<rparr>, (txHash, ''SIMULATED''), d)
      else (case rpc txHash of
          Inl _ \<Rightarrow> (n\<lparr>n_waiting := Suc (n_waiting n)\<rparr>, (txHash, ''PENDING''), d)
        | Inr r \<Rightarrow> let s = live_status r; n1 = count_one s n in
            (case update_vaults (\<lambda>v. deposit_tx_hash v = Some txHash) (\<lambda>v. v\<lparr>v_status := audited_status s\<rparr>) d of
               Inl _ \<Rightarrow> (n1\<lparr>n_waiting := Suc (n_waiting n1)\<rparr>, (txHash, ''PENDING''), d)
             | Inr d' \<Rightarrow> (n1, (txHash, s), d'))))"

fun audit_loop :: "(string \<Rightarrow> live_receipt res) \<Rightarrow> string list \<Rightarrow> audit_count \<Rightarrow> (string \<times> string) list \<Rightarrow> db
    \<Rightarrow> audit_count \<times> (string \<times> string) list \<times> db" where
  "audit_loop rpc [] n results d = (n, results, d)"
| "audit_loop rpc (h # hs) n results d =
     (case audit_one rpc h n d of (n', r, d') \<Rightarrow> audit_loop rpc hs n' (results @ [r]) d')"

definition deposit_hashes :: "db \<Rightarrow> string list" where
  "deposit_hashes d = List.map_filter deposit_tx_hash (vaults d)"

definition auditVerify :: "(string \<Rightarrow> live_receipt res) \<Rightarrow> db \<Rightarrow> response \<times> db" where
  "auditVerify rpc d = (case audit_loop rpc (deposit_hashes d) \<lparr>n_verified = 0, n_waiting = 0, n_bad = 0, n_simulated = 0\<rparr> [] d of
     (n, results, d') \<Rightarrow> (respond 200 [(''verified'', JInt (int (n_verified n))), (''pending'', JInt (int (n_waiting n))),
        (''failed'', JInt (int (n_bad n))), (''simulated'', JInt (int (n_simulated n))),
        (''results'', JArr (map (\<lambda>(h, s). JObj [(''tx_hash'', JStr h), (''status'', JStr s),
            (''voyager_url'', if s = ''SIMULATED'' then JNull else JStr (voyager h))]) results))], d'))"

section \<open>GET /api/audit/verify-all-transactions, /contract-status\<close>

fun tx_type_str :: "tx_type \<Rightarrow> string" where
  "tx_type_str Deposit = ''deposit''"
| "tx_type_str Withdraw = ''withdraw''"

definition TX_HASH_REGEX :: "string \<Rightarrow> bool" where
  "TX_HASH_REGEX s = hex_0x 63 64 s"

datatype tx_verdict = Fake | Confirmed int | NotFound | Failed

definition verdict :: "(string \<Rightarrow> tx_receipt res) \<Rightarrow> tx_row \<Rightarrow> tx_verdict" where
  "verdict receipts row =
     (if \<not> TX_HASH_REGEX (t_tx_hash row) then Fake
      else (case receipts (t_tx_hash row) of
          Inr r \<Rightarrow> Confirmed (rc_block_number r)
        | Inl (TransactionNotFoundError _) \<Rightarrow> NotFound
        | Inl _ \<Rightarrow> Failed))"

definition verdict_json :: "tx_row \<Rightarrow> tx_verdict \<Rightarrow> json" where
  "verdict_json row w = JObj ([(''txHash'', JStr (t_tx_hash row)), (''type'', JStr (tx_type_str (t_type row))),
     (''format'', JStr (if w = Fake then ''fake'' else ''valid'')),
     (''status'', JStr (case w of Fake \<Rightarrow> ''error'' | Confirmed _ \<Rightarrow> ''confirmed'' | NotFound \<Rightarrow> ''not_found'' | Failed \<Rightarrow> ''error''))]
     @ (case w of Confirmed n \<Rightarrow> [(''blockNumber'', JInt n)] | _ \<Rightarrow> []))"

definition count_verdicts :: "(tx_verdict \<Rightarrow> bool) \<Rightarrow> tx_verdict list \<Rightarrow> int" where
  "count_verdicts p ws = int (length (filter p ws))"

definition verifyAllTransactions :: "int \<Rightarrow> (string \<Rightarrow> tx_receipt res) \<Rightarrow> db \<Rightarrow> response" where
  "verifyAllTransactions now_ms receipts d =
     (let rows = sort_key (\<lambda>t. - t_timestamp t) (transactions d); ws = map (verdict receipts) rows
      in respond 200 [(''success'', JBool True), (''auditedAt'', JInt now_ms), (''total'', JInt (int (length rows))),
           (''realOnChain'', JInt (count_verdicts (\<lambda>w. case w of Confirmed _ \<Rightarrow> True | _ \<Rightarrow> False) ws)),
           (''notFoundOnChain'', JInt (count_verdicts (\<lambda>w. w = NotFound) ws)),
           (''fakeFormatDetected'', JInt (count_verdicts (\<lambda>w. w = Fake) ws)),
           (''results'', JArr (map2 verdict_json rows ws))])"

definition contractStatus :: "sn_config \<Rightarrow> int \<Rightarrow> (string \<Rightarrow> bool) \<Rightarrow> int res \<Rightarrow> response" where
  "contractStatus cfg now_ms reach liveBlock = (case liveBlock of
     Inl e \<Rightarrow> fail_with 500 (message e)
   | Inr n \<Rightarrow> respond 200 [(''success'', JBool True),
       (''vault'', JObj [(''address'', JStr (vault_address cfg)), (''reachable'', JBool (reach (vault_address cfg))), (''lastBlock'', JInt n)]),
       (''mockBtc'', JObj [(''address'', JStr (mockbtc_address cfg)), (''reachable'', JBool (reach (mockbtc_address cfg)))]),
       (''network'', JStr ''sepolia''), (''checkedAt'', JInt now_ms)])"

section \<open>GET /api/transactions/:address\<close>

text \<open>
  \<open>LIMIT\<close>: a negative number means no limit, \<open>NaN\<close> is bound as \<open>NULL\<close>, which SQLite refuses here;
  compared with \<open>NULL\<close> no time stamp is smaller.
\<close>

definition page_limit :: "string option \<Rightarrow> int option" where
  "page_limit q = map_option (\<lambda>n. min n 100) (parseInt (case q of None \<Rightarrow> ''20'' | Some s \<Rightarrow> s))"

definition wanted_type :: "string option \<Rightarrow> tx_type option" where
  "wanted_type ty = (if ty = Some ''deposit'' then Some Deposit else if ty = Some ''withdraw'' then Some Withdraw else None)"

definition before_cursor :: "string option \<Rightarrow> tx_row \<Rightarrow> bool" where
  "before_cursor cursor t = (if truthy cursor
     then (case parseInt (the cursor) of None \<Rightarrow> False | Some c \<Rightarrow> t_timestamp t < c) else True)"

definition select_page :: "string list \<Rightarrow> string option \<Rightarrow> string option \<Rightarrow> int \<Rightarrow> tx_row list \<Rightarrow> tx_row list" where
  "select_page ids ty cursor limit t =
     (let rows = sort_key (\<lambda>r. - t_timestamp r) (filter (\<lambda>r. (\<exists>i \<in> set ids. t_vault_id r = Some i)
          \<and> (case wanted_type ty of None \<Rightarrow> True | Some y \<Rightarrow> t_type r = y) \<and> before_cursor cursor r) t)
      in if limit < 0 then rows else take (nat limit) rows)"

definition next_cursor :: "int \<Rightarrow> tx_row list \<Rightarrow> string option" where
  "next_cursor limit rows = (if int (length rows) = limit then Some (str_of_int (t_timestamp (last rows))) else None)"

definition enrich :: "(string \<Rightarrow> tx_receipt res) \<Rightarrow> tx_row \<Rightarrow> json" where
  "enrich receipts row =
     (let (status, blk, exec) = (case receipts (t_tx_hash row) of
          Inr r \<Rightarrow> (''confirmed'', Some (rc_block_number r), Some (if rc_succeeded r then ''SUCCEEDED'' else ''REVERTED''))
        | Inl e \<Rightarrow> ((case e of TransactionNotFoundError _ \<Rightarrow> ''not_found'' | _ \<Rightarrow> ''pending''), t_block_number row,
            (case t_execution_status row of None \<Rightarrow> None | Some SUCCEEDED \<Rightarrow> Some ''SUCCEEDED'' | Some REVERTED \<Rightarrow> Some ''REVERTED'')))
      in JObj [(''id'', JStr (t_id row)), (''vaultId'', JOpt (t_vault_id row)), (''txHash'', JStr (t_tx_hash row)),
           (''type'', JStr (tx_type_str (t_type row))), (''blockNumber'', (case blk of None \<Rightarrow> JNull | Some n \<Rightarrow> JInt n)),
           (''blockTimestamp'', (case t_block_timestamp row of None \<Rightarrow> JNull | Some n \<Rightarrow> JInt n)),
           (''executionStatus'', JOpt exec), (''onChainStatus'', JStr status), (''timestamp'', JInt (t_timestamp row))])"

definition listTransactions :: "(string \<Rightarrow> tx_receipt res) \<Rightarrow> string \<Rightarrow> string option \<Rightarrow> string option \<Rightarrow> string option
    \<Rightarrow> db \<Rightarrow> response" where
  "listTransactions receipts address q_limit cursor ty d =
     (let ids = map v_id (filter (\<lambda>v. owner_address v = address) (vaults d)) in
      if ids = [] then respond 200 [(''success'', JBool True), (''transactions'', JArr []), (''nextCursor'', JNull)]
      else (case page_limit q_limit of
          None \<Rightarrow> fail_with 500 ''datatype mismatch''
        | Some limit \<Rightarrow>
            let rows = select_page ids ty cursor limit (transactions d) in
            if rows = [] \<and> limit = 0 then fail_with 500 ''Cannot read properties of undefined (reading 'timestamp')''
            else respond 200 [(''success'', JBool True), (''transactions'', JArr (map (enrich receipts) rows)),
                   (''nextCursor'', JOpt (next_cursor limit rows))]))"

definition local_tx :: "tx_row \<Rightarrow> json" where
  "local_tx t = JObj [(''id'', JStr (t_id t)), (''vault_id'', JOpt (t_vault_id t)), (''tx_hash'', JStr (t_tx_hash t)),
     (''type'', JStr (tx_type_str (t_type t))), (''amount_encrypted'', JStr (amount_encrypted t)),
     (''timestamp'', JInt (t_timestamp t))]"

definition getTransaction :: "tx_receipt res \<Rightarrow> string \<Rightarrow> db \<Rightarrow> response" where
  "getTransaction rcpt txHash d = respond 200 [(''success'', JBool True),
     (''local'', (case row_by t_tx_hash txHash (transactions d) of None \<Rightarrow> JNull | Some t \<Rightarrow> local_tx t)),
     (''onChain'', (case rcpt of
        Inr r \<Rightarrow> JObj [(''blockNumber'', JInt (rc_block_number r)),
                 (''executionStatus'', JStr (if rc_succeeded r then ''SUCCEEDED'' else ''REVERTED''))]
      | Inl (TransactionNotFoundError _) \<Rightarrow> JObj [(''status'', JStr ''not_found_on_chain'')]
      | Inl e \<Rightarrow> JObj [(''error'', JStr (message e))]))]"

definition verifyTransaction :: "sn_config \<Rightarrow> tx_receipt res \<Rightarrow> string \<Rightarrow> db \<Rightarrow> response" where
  "verifyTransaction cfg rcpt txHash d = (case rcpt of
     Inr r \<Rightarrow>
       let isVaultEvent = list_ex (\<lambda>ev. to_lower (from_address ev) = to_lower (vault_address cfg)) (rc_events r);
           ty = (if isVaultEvent then (case row_by t_tx_hash txHash (transactions d) of
                   None \<Rightarrow> ''unknown'' | Some t \<Rightarrow> tx_type_str (t_type t)) else ''unknown'')
       in respond 200 [(''success'', JBool True), (''txHash'', JStr txHash), (''isRealVaultTx'', JBool isVaultEvent),
            (''type'', JStr ty), (''details'', JObj [(''blockNumber'', JInt (rc_block_number r)),
               (''executionStatus'', JStr (if rc_succeeded r then ''SUCCEEDED'' else ''REVERTED'')),
               (''eventCount'', JInt (int (length (rc_events r))))])]
   | Inl (TransactionNotFoundError _) \<Rightarrow> respond 200 [(''success'', JBool True), (''txHash'', JStr txHash),
       (''isRealVaultTx'', JBool False), (''type'', JStr ''unknown''),
       (''details'', JObj [(''status'', JStr ''not_found_on_chain'')])]
   | Inl e \<Rightarrow> fail_with 500 (message e))"

section \<open>GET /api/privacy/pool-stats\<close>

record pool_stats =
  total_active :: nat
  spent_count :: nat
  unspent_count :: nat

definition pool_stats_of :: "db \<Rightarrow> pool_stats" where
  "pool_stats_of d = (let act = filter (\<lambda>v. v_status v = active) (vaults d) in
     \<lparr>total_active = length act, spent_count = length (filter (\<lambda>v. \<not> unspent d v) act),
      unspent_count = length (filter (unspent d) act)\<rparr>)"

text \<open>\<open>n >= NaN\<close> is false.\<close>

definition poolStats :: "string option \<Rightarrow> db \<Rightarrow> response" where
  "poolStats min_env d =
     (let s = pool_stats_of d; m = MIN_ANONYMITY_SET min_env; n = int (unspent_count s);
          ready = (case m of None \<Rightarrow> False | Some k \<Rightarrow> n \<ge> k)
      in respond 200 [(''success'', JBool True), (''anonymitySetSize'', JInt n), (''totalActive'', JInt (int (total_active s))),
           (''spentCommitments'', JInt (int (spent_count s))), (''minRequired'', (case m of None \<Rightarrow> JNull | Some k \<Rightarrow> JInt k)),
           (''withdrawalReady'', JBool ready), (''allowedDenominations'', JArr (map JNum ALLOWED_DENOMINATIONS_BTC)),
           (''message'', JStr (if ready then ''Pool has '' @ str_of_int n @ '' unspent commitments '' @ emdash @ '' safe to withdraw''
              else ''Pool only has '' @ str_of_int n @ ''/'' @ (case m of None \<Rightarrow> ''NaN'' | Some k \<Rightarrow> str_of_int k)
                @ '' required unspent commitments. Withdrawing now would compromise privacy.''))])"

section \<open>Lemmas\<close>

text \<open>A change of status alone never breaks a constraint.\<close>

lemma update_status_ok:
  assumes "schema_ok d"
  shows "update_vaults p (\<lambda>v. v\<lparr>v_status := s\<rparr>) d = Inr (d\<lparr>vaults := update_by p (\<lambda>v. v\<lparr>v_status := s\<rparr>) (vaults d)\<rparr>)"
proof -
  have "vaults_violation (update_by p (\<lambda>v. v\<lparr>v_status := s\<rparr>) (vaults d)) = None"
    using assms by (auto simp: schema_ok_def vaults_violation_None list_all_iff set_update_by)
  then show ?thesis by (simp add: update_vaults_def set_vaults_def)
qed

definition audited :: "(string \<Rightarrow> live_receipt res) \<Rightarrow> string list \<Rightarrow> vault_row \<Rightarrow> vault_row" where
  "audited rpc hs v = (case deposit_tx_hash v of None \<Rightarrow> v
     | Some h \<Rightarrow> if h \<notin> set hs \<or> starts_with h ''SIMULATED'' then v
         else (case rpc h of Inl _ \<Rightarrow> v | Inr r \<Rightarrow> v\<lparr>v_status := audited_status (live_status r)\<rparr>))"

lemma audited_Nil [simp]: "audited rpc [] = id"
  by (auto simp: audited_def fun_eq_iff split: option.splits)

lemma audited_Cons: "audited rpc hs (audited rpc [h] v) = audited rpc (h # hs) v"
  by (auto simp: audited_def split: option.splits sum.splits)

definition counted :: "audit_count \<Rightarrow> nat" where
  "counted n = n_verified n + n_waiting n + n_bad n + n_simulated n"

lemma counted_count_one [simp]: "counted (count_one s n) = Suc (counted n)"
  by (simp add: counted_def count_one_def)

lemma audit_one_spec:
  assumes "schema_ok d"
  shows "\<exists>n' r. audit_one rpc h n d = (n', r, d\<lparr>vaults := map (audited rpc [h]) (vaults d)\<rparr>) \<and> counted n' = Suc (counted n)"
proof -
  have same: "d\<lparr>vaults := map (audited rpc [h]) (vaults d)\<rparr> = d" if "\<And>v. audited rpc [h] v = v"
    using that by (simp add: map_idI)
  show ?thesis
  proof (cases "starts_with h ''SIMULATED''")
    case True
    then have "audited rpc [h] v = v" for v by (auto simp: audited_def split: option.splits)
    then show ?thesis using True same by (simp add: audit_one_def counted_def)
  next
    case False
    show ?thesis
    proof (cases "rpc h")
      case (Inl e)
      then have "audited rpc [h] v = v" for v by (auto simp: audited_def split: option.splits)
      then show ?thesis using False Inl same by (simp add: audit_one_def counted_def)
    next
      case (Inr r)
      let ?s = "audited_status (live_status r)"
      have "update_by (\<lambda>v. deposit_tx_hash v = Some h) (\<lambda>v. v\<lparr>v_status := ?s\<rparr>) (vaults d) = map (audited rpc [h]) (vaults d)"
        using False Inr by (auto simp: update_by_def audited_def split: option.splits)
      then show ?thesis using False Inr update_status_ok [OF assms] by (simp add: audit_one_def Let_def)
    qed
  qed
qed

lemma schema_audited: "schema_ok d \<Longrightarrow> schema_ok (d\<lparr>vaults := map (audited rpc hs) (vaults d)\<rparr>)"
proof -
  assume ok: "schema_ok d"
  have k: "v_id (audited rpc hs v) = v_id v" "v_commitment (audited rpc hs v) = v_commitment v"
    "v_nullifier_hash (audited rpc hs v) = v_nullifier_hash v" "lock_duration_days (audited rpc hs v) = lock_duration_days v"
    "deposit_tx_hash (audited rpc hs v) = deposit_tx_hash v" "withdraw_tx_hash (audited rpc hs v) = withdraw_tx_hash v" for v
    by (auto simp: audited_def split: option.splits sum.splits)
  have u: "map (audited rpc hs) (vaults d) = update_by (\<lambda>_. True) (audited rpc hs) (vaults d)" by (simp add: update_by_def)
  have "has_vault (d\<lparr>vaults := map (audited rpc hs) (vaults d)\<rparr>) = has_vault d"
    unfolding u by (rule has_vault_update) (simp add: k)
  then show ?thesis using ok unfolding u
    by (auto simp: schema_ok_def vaults_violation_None list_all_iff set_update_by k)
qed

lemma audit_loop_spec:
  "schema_ok d \<Longrightarrow> \<exists>n' res'. audit_loop rpc hs n res d = (n', res', d\<lparr>vaults := map (audited rpc hs) (vaults d)\<rparr>)
     \<and> counted n' = counted n + length hs"
proof (induction hs arbitrary: n res d)
  case Nil
  then show ?case by simp
next
  case (Cons h hs)
  obtain n1 r where o: "audit_one rpc h n d = (n1, r, d\<lparr>vaults := map (audited rpc [h]) (vaults d)\<rparr>)" "counted n1 = Suc (counted n)"
    using audit_one_spec [OF Cons.prems] by blast
  have "schema_ok (d\<lparr>vaults := map (audited rpc [h]) (vaults d)\<rparr>)" by (rule schema_audited [OF Cons.prems])
  from Cons.IH [OF this, of n1 "res @ [r]"] show ?case using o by (auto simp: comp_def audited_Cons)
qed

text \<open>One retry, in covenant mode, of a vault that is active although its withdrawal is recorded.\<close>

definition covenant_pays :: "withdraw_env \<Rightarrow> string \<Rightarrow> db \<Rightarrow> psbt \<Rightarrow> bool" where
  "covenant_pays env i d q \<longleftrightarrow> useCovenants (we_cfg env)
     \<and> (\<exists>r. executeCovenantWithdrawal (cov_env (we_proc env)) i d = (Some q, r))"

definition reopened :: "string \<Rightarrow> vault_row \<Rightarrow> auth_row \<Rightarrow> db \<Rightarrow> bool" where
  "reopened n v a d \<longleftrightarrow> schema_ok d \<and> List.find (\<lambda>v. v_nullifier_hash v = Some n) (vaults d) = Some v
     \<and> v_status v = active \<and> is_retry v
     \<and> (\<exists>b. getAuthorizationByNullifier n d = Some b \<and> terms b = terms a)"

lemma by_nullifier_touched:
  assumes "schema_ok d" "touches (a_id b) d d'" "getAuthorizationByNullifier n d = Some b"
  shows "\<exists>c. getAuthorizationByNullifier n d' = Some c \<and> terms c = terms b"
proof -
  have b: "b \<in> set (auths d)" "a_nullifier_hash b = n"
    using assms(3) by (auto simp: getAuthorizationByNullifier_def dest: row_by_Some)
  then have "getAuthorizationById (a_id b) d = Some b"
    using assms(1) row_by_unique [of a_id "auths d" b] by (simp add: schema_ok_def auths_violation_None getAuthorizationById_def)
  then obtain c where c: "c \<in> set (auths d')" "terms c = terms b" using touches_row [OF assms(2)] by blast
  have "uniq a_nullifier_hash (auths d')" using touches_schema [OF assms(2,1)] by (simp add: schema_ok_def auths_violation_None)
  then have "row_by a_nullifier_hash (a_nullifier_hash c) (auths d') = Some c" using c(1) by (rule row_by_unique)
  then show ?thesis using c(2) b(2) by (auto simp: getAuthorizationByNullifier_def terms_def)
qed

lemma touches_vaults: "touches i d d' \<Longrightarrow> vaults d' = vaults d"
  by (induction rule: touches.induct) (auto simp del: auth_step.simps)

lemma retry_pays:
  assumes r: "reopened n v a d" and amt: "vault_amount (we_cl env) (v_id v) d = Inr amt"
    and addr: "starts_with addr ''tb1''" "we_sender env \<noteq> Some addr" and pays: "covenant_pays env (a_id a) d q"
  shows "\<exists>x d'. withdraw env n addr d = (Some q, x, d') \<and> code x = 200 \<and> vaults d' = vaults d \<and> touches (a_id a) d d'
     \<and> reopened n v a d'"
proof -
  obtain b where b: "getAuthorizationByNullifier n d = Some b" "terms b = terms a" using r by (auto simp: reopened_def)
  have i: "a_id b = a_id a" using b(2) by (simp add: terms_def)
  obtain h where h: "withdraw_tx_hash v = Some h" using r by (auto simp: reopened_def is_retry_def)
  have ok: "schema_ok d" using r by (simp add: reopened_def)
  have "addr \<noteq> []" using addr(1) by (auto simp: starts_with_def)
  then have ch: "withdraw_check (we_sender env) n addr d = Inr v"
    using r addr h by (auto simp: withdraw_check_def reopened_def)
  have bu: "withdraw_burn (we_cl env) (we_burn env) v d = Inr h" using h by (simp add: withdraw_burn_def)
  obtain d1 where au: "withdraw_authorize (we_uuid_auth env) (we_now env) (v_id v) n h addr amt d = (Inr b, d1)" "touches (a_id a) d d1"
    using authorize_old(2) [OF ok b(1)] b(1) i
    by (cases "withdraw_authorize (we_uuid_auth env) (we_now env) (v_id v) n h addr amt d")
       (auto simp: withdraw_authorize_def)
  obtain y where y: "executeCovenantWithdrawal (cov_env (we_proc env)) (a_id a) d = (Some q, y)" "useCovenants (we_cfg env)"
    using pays by (auto simp: covenant_pays_def)
  have e: "executeCovenantWithdrawal (cov_env (we_proc env)) (a_id a) d1 = (Some q, y)"
    using covenant_status_blind [OF touches_terms [OF au(2)]] y(1) by simp
  have "fst (withdraw_payout (we_cfg env) (we_proc env) (we_in_time env) (a_id b) d1) = Some q"
    using e y(2) i by (simp add: withdraw_payout_def payout_def split: sum.split)
  then obtain t d2 where po: "withdraw_payout (we_cfg env) (we_proc env) (we_in_time env) (a_id b) d1 = (Some q, t, d2)"
    by (metis prod_cases3 fst_conv)
  have re: "withdraw_record (we_uuid_tx env) (we_now env) v h addr d2 = (None, d2)"
    using r by (simp add: withdraw_record_def reopened_def)
  have t2: "touches (a_id a) d d2"
    using withdraw_payout_touches [OF po] au(2) touches_trans by (simp add: i)
  have "withdraw env n addr d = (Some q, withdraw_response (we_proof_ok env) v h t None, d2)"
    by (simp add: withdraw_def ch bu amt withdraw_pay_def au(1) po re)
  moreover have "reopened n v a d2"
    using r by_nullifier_touched [OF ok _ b(1), of d2] t2 i b(2) touches_vaults [OF t2] touches_schema [OF t2 ok]
    by (auto simp: reopened_def)
  ultimately show ?thesis using t2 touches_vaults [OF t2] by (auto simp: withdraw_response_def)
qed

text \<open>Requests one after the other, and what each of them paid.\<close>

fun withdraw_all :: "withdraw_env list \<Rightarrow> string \<Rightarrow> string \<Rightarrow> db \<Rightarrow> psbt option list \<times> db" where
  "withdraw_all [] n addr d = ([], d)"
| "withdraw_all (env # es) n addr d = (case withdraw env n addr d of (p, _, d1) \<Rightarrow>
     case withdraw_all es n addr d1 of (ps, d2) \<Rightarrow> (p # ps, d2))"

lemma retries_pay:
  assumes "reopened n v a d" and "starts_with addr ''tb1''"
    and "\<forall>(env, q) \<in> set eqs. we_sender env \<noteq> Some addr \<and> is_ok (vault_amount (we_cl env) (v_id v) d)
         \<and> covenant_pays env (a_id a) d q"
  shows "fst (withdraw_all (map fst eqs) n addr d) = map (Some \<circ> snd) eqs"
  using assms
proof (induction eqs arbitrary: d)
  case (Cons eq eqs)
  obtain env q where eq: "eq = (env, q)" by fastforce
  obtain amt where amt: "vault_amount (we_cl env) (v_id v) d = Inr amt" using Cons.prems(3) eq by (auto simp: is_ok_iff)
  obtain x d1 where w: "withdraw env n addr d = (Some q, x, d1)" "vaults d1 = vaults d" "touches (a_id a) d d1" "reopened n v a d1"
    using retry_pays [OF Cons.prems(1) amt Cons.prems(2)] Cons.prems(3) eq by fastforce
  have "vault_amount cl (v_id v) d1 = vault_amount cl (v_id v) d" for cl using w(2) by (simp add: vault_amount_def)
  moreover have "covenant_pays env (a_id a) d1 q = covenant_pays env (a_id a) d q" for env q
    using covenant_status_blind [OF touches_terms [OF w(3)]] by (simp add: covenant_pays_def)
  ultimately have "fst (withdraw_all (map fst eqs) n addr d1) = map (Some \<circ> snd) eqs"
    using Cons.IH [OF w(4) Cons.prems(2)] Cons.prems(3) by auto
  then show ?case using w(1) eq by (cases "withdraw_all (map fst eqs) n addr d1") (simp add: comp_def)
qed simp

subsection \<open>Pages\<close>

definition visible :: "string list \<Rightarrow> string option \<Rightarrow> tx_row \<Rightarrow> bool" where
  "visible ids ty r = ((\<exists>i \<in> set ids. t_vault_id r = Some i)
     \<and> (case wanted_type ty of None \<Rightarrow> True | Some y \<Rightarrow> t_type r = y))"

text \<open>The history a client wants, newest first, and what it gets by following the cursors.\<close>

definition history :: "string list \<Rightarrow> string option \<Rightarrow> tx_row list \<Rightarrow> tx_row list" where
  "history ids ty t = sort_key (\<lambda>r. - t_timestamp r) (filter (visible ids ty) t)"

fun all_pages :: "nat \<Rightarrow> string list \<Rightarrow> string option \<Rightarrow> int \<Rightarrow> tx_row list \<Rightarrow> string option \<Rightarrow> tx_row list" where
  "all_pages 0 ids ty limit t cursor = []"
| "all_pages (Suc n) ids ty limit t cursor =
     (let rows = select_page ids ty cursor limit t in
      rows @ (case next_cursor limit rows of None \<Rightarrow> [] | Some c \<Rightarrow> all_pages n ids ty limit t (Some c)))"

lemma select_page_eq:
  assumes "0 \<le> limit"
  shows "select_page ids ty cursor limit t = take (nat limit) (filter (before_cursor cursor) (history ids ty t))"
proof -
  have "filter (\<lambda>r. (\<exists>i \<in> set ids. t_vault_id r = Some i) \<and> (case wanted_type ty of None \<Rightarrow> True | Some y \<Rightarrow> t_type r = y)
      \<and> before_cursor cursor r) t = filter (before_cursor cursor) (filter (visible ids ty) t)"
    by (simp add: visible_def conj_ac)
  then show ?thesis using assms
    by (simp add: select_page_def history_def Let_def filter_sort)
qed

lemma history_sorted:
  assumes "distinct (map t_timestamp (filter (visible ids ty) t))"
  shows "sorted_wrt (\<lambda>a b. t_timestamp b < t_timestamp a) (history ids ty t)"
proof -
  let ?h = "history ids ty t"
  have s: "sorted (map (\<lambda>r. - t_timestamp r) ?h)" by (simp add: history_def)
  have "mset (map t_timestamp ?h) = mset (map t_timestamp (filter (visible ids ty) t))" by (simp add: history_def)
  then have d: "distinct (map t_timestamp ?h)" using assms mset_eq_imp_distinct_iff by blast
  show ?thesis
    unfolding sorted_wrt_iff_nth_less
  proof (intro allI impI)
    fix i j assume ij: "i < j" "j < length ?h"
    then have "- t_timestamp (?h ! i) \<le> - t_timestamp (?h ! j)" using s sorted_nth_mono [of _ i j] by fastforce
    moreover have "t_timestamp (?h ! i) \<noteq> t_timestamp (?h ! j)"
      using d ij by (simp add: distinct_conv_nth)
    ultimately show "t_timestamp (?h ! j) < t_timestamp (?h ! i)" by simp
  qed
qed

lemma filter_before:
  assumes "sorted_wrt (\<lambda>a b. t_timestamp b < t_timestamp a) (xs @ x # ys)"
  shows "filter (before_cursor (Some (str_of_int (t_timestamp x)))) (xs @ x # ys) = ys"
proof -
  have b: "before_cursor (Some (str_of_int (t_timestamp x))) r \<longleftrightarrow> t_timestamp r < t_timestamp x" for r
    by (simp add: before_cursor_def truthy_def parseInt_str_of_int)
  have "filter (\<lambda>r. t_timestamp r < t_timestamp x) xs = []" "filter (\<lambda>r. t_timestamp r < t_timestamp x) ys = ys"
    using assms by (auto simp: filter_empty_conv filter_id_conv sorted_wrt_append)
  then show ?thesis by (simp add: b [abs_def])
qed

lemma all_pages_from:
  assumes s: "sorted_wrt (\<lambda>a b. t_timestamp b < t_timestamp a) (history ids ty t)" and l: "0 < limit"
    and f: "filter (before_cursor cursor) (history ids ty t) = ys" and h: "history ids ty t = xs @ ys" and n: "length ys < n"
  shows "all_pages n ids ty limit t cursor = ys"
  using f h n
proof (induction n arbitrary: cursor xs ys)
  case (Suc n)
  let ?k = "nat limit" and ?rows = "take (nat limit) ys"
  have p: "select_page ids ty cursor limit t = ?rows" using select_page_eq Suc.prems(1) l by simp
  show ?case
  proof (cases "int (length ?rows) = limit")
    case False
    then have "?rows = ys" using l by (simp add: min_def split: if_splits)
    then show ?thesis using False p by (simp add: next_cursor_def Let_def)
  next
    case True
    then have k: "?k \<le> length ys" "0 < ?k" using l by (auto simp: min_def split: if_splits)
    obtain us x where u: "?rows = us @ [x]" using k by (metis length_take min.absorb2 list.size(3) not_less_zero rev_exhaust)
    have e: "history ids ty t = (xs @ us) @ x # drop ?k ys"
      using Suc.prems(2) u by (metis append_take_drop_id append.assoc append_Cons append_Nil)
    have f: "filter (before_cursor (Some (str_of_int (t_timestamp x)))) (history ids ty t) = drop ?k ys"
      using filter_before s unfolding e by blast
    have "all_pages n ids ty limit t (Some (str_of_int (t_timestamp x))) = drop ?k ys"
      using e k Suc.prems(3) by (intro Suc.IH [OF f, of "(xs @ us) @ [x]"]) auto
    moreover have "next_cursor limit ?rows = Some (str_of_int (t_timestamp x))"
      using True u by (simp add: next_cursor_def)
    ultimately show ?thesis using p by (simp add: Let_def)
  qed
qed simp

definition demo_done_db :: db where
  "demo_done_db = empty_db\<lparr>vaults := [demo_wei_vault\<lparr>v_status := withdrawn,
       deposit_tx_hash := Some ''0x55112233445566778899aabbccddeeff'',
       withdraw_tx_hash := Some ''0x00112233445566778899aabbccddeeff''\<rparr>],
     auths := [new_auth ''a'' 5 (demo_params\<lparr>amountSats := 10000\<rparr>)]\<rparr>"

lemma schema_demo_done: "schema_ok demo_done_db"
  by (simp add: demo_done_db_def demo_wei_vault_def demo_vault_def demo_params_def table_eval)

section \<open>Properties\<close>

text \<open>
  What an audit writes: every vault whose deposit hash the node knows gets the status that its
  deposit's receipt suggests, active or pending, whatever its status was, so that a withdrawn
  vault becomes active again; all other vaults and all other tables stay as they are, and the four
  counters add up to the number of audited hashes.
\<close>

theorem auditVerify_effect:
  assumes "schema_ok d"
  shows "snd (auditVerify rpc d) = d\<lparr>vaults := map (\<lambda>v. case deposit_tx_hash v of None \<Rightarrow> v
       | Some h \<Rightarrow> if starts_with h ''SIMULATED'' then v
           else (case rpc h of Inl _ \<Rightarrow> v | Inr r \<Rightarrow> v\<lparr>v_status := audited_status (live_status r)\<rparr>)) (vaults d)\<rparr>
     \<and> (\<exists>n results. audit_loop rpc (deposit_hashes d) \<lparr>n_verified = 0, n_waiting = 0, n_bad = 0, n_simulated = 0\<rparr> [] d
            = (n, results, snd (auditVerify rpc d))
          \<and> n_verified n + n_waiting n + n_bad n + n_simulated n = length (deposit_hashes d))"
proof -
  let ?z = "\<lparr>n_verified = 0, n_waiting = 0, n_bad = 0, n_simulated = 0\<rparr>"
  obtain n results where a: "audit_loop rpc (deposit_hashes d) ?z [] d
      = (n, results, d\<lparr>vaults := map (audited rpc (deposit_hashes d)) (vaults d)\<rparr>)" "counted n = length (deposit_hashes d)"
    using audit_loop_spec [OF assms, of rpc "deposit_hashes d" ?z "[]"] by (auto simp: counted_def)
  have m: "h \<in> set (deposit_hashes d)" if "v \<in> set (vaults d)" "deposit_tx_hash v = Some h" for v h
    using that by (force simp: deposit_hashes_def List.map_filter_def)
  have "map (audited rpc (deposit_hashes d)) (vaults d) = map (\<lambda>v. case deposit_tx_hash v of None \<Rightarrow> v
       | Some h \<Rightarrow> if starts_with h ''SIMULATED'' then v
           else (case rpc h of Inl _ \<Rightarrow> v | Inr r \<Rightarrow> v\<lparr>v_status := audited_status (live_status r)\<rparr>)) (vaults d)"
    using m by (intro map_cong refl) (auto simp: audited_def split: option.splits)
  then show ?thesis using a by (auto simp: auditVerify_def counted_def)
qed

theorem auditVerify_effect_witness:
  "map v_status (vaults demo_done_db) = [withdrawn]
   \<and> map v_status (vaults (snd (auditVerify (\<lambda>_. Inr \<lparr>execution_status = Some ''SUCCEEDED'', finality_status = None\<rparr>)
       demo_done_db))) = [active]"
  using auditVerify_effect [OF schema_demo_done, of "\<lambda>_. Inr \<lparr>execution_status = Some ''SUCCEEDED'', finality_status = None\<rparr>"]
  by (simp add: demo_done_db_def demo_wei_vault_def demo_vault_def empty_db_def live_status_def audited_status_def
      truthy_def starts_with_def)

text \<open>
  C14. An audit reopens a finished withdrawal: before it, a second request for a withdrawn vault is
  refused with 400 and pays nothing; after it, in covenant mode, every request for the same
  nullifier counts as a retry and pays the authorized amount once more, any number of times.
\<close>

theorem audit_reopens_payouts:
  assumes "schema_ok d" and "List.find (\<lambda>v. v_nullifier_hash v = Some n) (vaults d) = Some v"
    and "v_status v = withdrawn" and "withdraw_tx_hash v = Some h"
    and "deposit_tx_hash v = Some g" and "\<not> starts_with g ''SIMULATED''" and "rpc g = Inr r" and "live_status r = ''SUCCEEDED''"
    and "getAuthorizationByNullifier n d = Some a" and "starts_with addr ''tb1''"
    and "\<forall>(env, q) \<in> set eqs. we_sender env \<noteq> Some addr \<and> is_ok (vault_amount (we_cl env) (v_id v) d)
         \<and> covenant_pays env (a_id a) d q"
  shows "fst (withdraw_all (map fst eqs) n addr d) = map (\<lambda>_. None) eqs
     \<and> fst (withdraw_all (map fst eqs) n addr (snd (auditVerify rpc d))) = map (Some \<circ> snd) eqs"
proof
  have "withdraw env n addr d = (None, fail_with 400 ''Vault is already fully withdrawn. Both Starknet and Bitcoin payouts completed.'', d)"
    if "we_sender env \<noteq> Some addr" for env
    using that assms(2,3,10) by (auto simp: withdraw_def withdraw_check_def starts_with_def)
  then show "fst (withdraw_all (map fst eqs) n addr d) = map (\<lambda>_. None) eqs"
    using assms(11) by (induction eqs) (auto split: prod.splits)
next
  let ?d' = "snd (auditVerify rpc d)" and ?v = "v\<lparr>v_status := active\<rparr>"
  obtain n' res where al: "audit_loop rpc (deposit_hashes d) \<lparr>n_verified = 0, n_waiting = 0, n_bad = 0, n_simulated = 0\<rparr> [] d
      = (n', res, d\<lparr>vaults := map (audited rpc (deposit_hashes d)) (vaults d)\<rparr>)"
    using audit_loop_spec [OF assms(1)] by blast
  then have d': "?d' = d\<lparr>vaults := map (audited rpc (deposit_hashes d)) (vaults d)\<rparr>" by (simp add: auditVerify_def)
  have k: "v_nullifier_hash (audited rpc hs x) = v_nullifier_hash x" "v_id (audited rpc hs x) = v_id x"
     "encrypted_amount (audited rpc hs x) = encrypted_amount x" "salt (audited rpc hs x) = salt x" for hs x
    by (auto simp: audited_def split: option.splits sum.splits)
  have find_map: "List.find P (map f xs) = map_option f (List.find (P \<circ> f) xs)" for P :: "vault_row \<Rightarrow> bool" and f xs
    by (induction xs) auto
  have "v \<in> set (vaults d)" using assms(2) by (auto simp: find_Some_iff)
  then have "g \<in> set (deposit_hashes d)" using assms(5) by (force simp: deposit_hashes_def List.map_filter_def)
  then have av: "audited rpc (deposit_hashes d) v = ?v"
    using assms(5-8) by (simp add: audited_def audited_status_def)
  have amt: "vault_amount cl i ?d' = vault_amount cl i d" for cl i
    unfolding d' vault_amount_def row_by_def
    by (auto simp: find_map comp_def k split: option.splits)
  have au: "auths ?d' = auths d" by (simp add: d')
  have "reopened n ?v a ?d'"
    using schema_audited [OF assms(1)] assms(2,4,9) av d'
    by (auto simp: reopened_def find_map comp_def k is_retry_def getAuthorizationByNullifier_def)
  moreover have "getAuthorizationById i ?d' = getAuthorizationById i d" for i by (simp add: getAuthorizationById_def au)
  then have "covenant_pays env i ?d' q = covenant_pays env i d q" for env i q
    using covenant_status_blind [of i ?d' d] by (simp add: covenant_pays_def)
  ultimately show "fst (withdraw_all (map fst eqs) n addr ?d') = map (Some \<circ> snd) eqs"
    using assms(10,11) amt by (intro retries_pay [where v = ?v and a = a]) auto
qed

lemma demo_done_pays: "\<exists>q. covenant_pays demo_withdraw_env ''a'' demo_done_db q"
  by (simp add: covenant_pays_def demo_withdraw_env_def demo_cfg_def demo_proc_def executeCovenantWithdrawal_def
      createCovenantWithdrawal_def covenant_psbt_def demo_env_def getAuthorizationById_def row_by_def demo_done_db_def
      fetchCovenantUtxos_def attach_script_def demo_coin_def selectUtxos_def desc_def FEE_PER_INPUT_def demo_params_def
      broadcastCovenantTransaction_def Let_def)

theorem audit_reopens_payouts_witness:
  "\<exists>q rpc. fst (withdraw_all [demo_withdraw_env, demo_withdraw_env] ''n'' ''tb1q'' demo_done_db) = [None, None]
     \<and> fst (withdraw_all [demo_withdraw_env, demo_withdraw_env] ''n'' ''tb1q'' (snd (auditVerify rpc demo_done_db))) = [Some q, Some q]"
proof -
  let ?v = "demo_wei_vault\<lparr>v_status := withdrawn, deposit_tx_hash := Some ''0x55112233445566778899aabbccddeeff'',
       withdraw_tx_hash := Some ''0x00112233445566778899aabbccddeeff''\<rparr>"
  let ?r = "\<lparr>execution_status = Some ''SUCCEEDED'', finality_status = None\<rparr>"
  let ?a = "new_auth ''a'' 5 (demo_params\<lparr>amountSats := 10000\<rparr>)"
  obtain q where q: "covenant_pays demo_withdraw_env ''a'' demo_done_db q" using demo_done_pays by blast
  have f: "List.find (\<lambda>v. v_nullifier_hash v = Some ''n'') (vaults demo_done_db) = Some ?v"
    by (simp add: demo_done_db_def demo_wei_vault_def demo_vault_def)
  have g: "getAuthorizationByNullifier ''n'' demo_done_db = Some ?a"
    by (simp add: getAuthorizationByNullifier_def row_by_def demo_done_db_def demo_params_def)
  have "vault_amount demo_lib ''v'' demo_done_db = Inr (10000 * 10 ^ 10)"
    using decrypt_encrypt [OF aead_law_demo, of "replicate 12 7" "10000 * 10 ^ 10" "''ab''"]
    by (simp add: vault_amount_def demo_done_db_def row_by_def demo_wei_vault_def demo_vault_def)
  then have amt: "is_ok (vault_amount (we_cl demo_withdraw_env) (v_id ?v) demo_done_db)"
    by (simp add: demo_withdraw_env_def demo_wei_vault_def demo_vault_def)
  have s: "we_sender demo_withdraw_env \<noteq> Some ''tb1q''" by (simp add: demo_withdraw_env_def)
  have "covenant_pays demo_withdraw_env (a_id ?a) demo_done_db q" using q by simp
  then have all: "\<forall>(env, q) \<in> set [(demo_withdraw_env, q), (demo_withdraw_env, q)]. we_sender env \<noteq> Some ''tb1q''
      \<and> is_ok (vault_amount (we_cl env) (v_id ?v) demo_done_db) \<and> covenant_pays env (a_id ?a) demo_done_db q"
    using amt s by simp
  have "live_status ?r = ''SUCCEEDED''" by (simp add: live_status_def truthy_def)
  then have "fst (withdraw_all (map fst [(demo_withdraw_env, q), (demo_withdraw_env, q)]) ''n'' ''tb1q'' demo_done_db)
      = map (\<lambda>_. None) [(demo_withdraw_env, q), (demo_withdraw_env, q)]
    \<and> fst (withdraw_all (map fst [(demo_withdraw_env, q), (demo_withdraw_env, q)]) ''n'' ''tb1q'' (snd (auditVerify (\<lambda>_. Inr ?r) demo_done_db)))
      = map (Some \<circ> snd) [(demo_withdraw_env, q), (demo_withdraw_env, q)]"
    by (intro audit_reopens_payouts [OF schema_demo_done f _ _ _ _ _ _ g _ all, of "''0x00112233445566778899aabbccddeeff''"
        "''0x55112233445566778899aabbccddeeff''" "\<lambda>_. Inr ?r" ?r]) (simp_all add: starts_with_def)
  then show ?thesis by auto
qed

text \<open>
  Paging is complete: when the time stamps of an address's transactions are distinct, a client
  that follows \<open>nextCursor\<close>, with any positive limit, receives the whole history, newest first,
  every transaction once, in at most one request more than there are transactions.
\<close>

theorem paging_complete:
  assumes "distinct (map t_timestamp (filter (visible ids ty) t))" and "0 < limit"
    and "length (filter (visible ids ty) t) < n"
  shows "all_pages n ids ty limit t None = history ids ty t"
proof -
  have "filter (before_cursor None) (history ids ty t) = history ids ty t"
    by (simp add: before_cursor_def [abs_def] truthy_def)
  then show ?thesis
    using assms(3) all_pages_from [OF history_sorted [OF assms(1)] assms(2), of None "history ids ty t" "[]" n]
    by (simp add: history_def)
qed

definition demo_row :: "string \<Rightarrow> int \<Rightarrow> tx_row" where
  "demo_row i ts = \<lparr>t_id = i, t_vault_id = Some ''v'', t_tx_hash = i, t_type = Deposit, amount_encrypted = [],
     t_block_number = None, t_block_timestamp = None, t_execution_status = None, t_timestamp = ts\<rparr>"

theorem paging_complete_witness:
  "all_pages 4 [''v''] None 2 [demo_row ''a'' 10, demo_row ''b'' 30, demo_row ''c'' 20] None
   = [demo_row ''b'' 30, demo_row ''c'' 20, demo_row ''a'' 10]"
proof -
  have "all_pages 4 [''v''] None 2 [demo_row ''a'' 10, demo_row ''b'' 30, demo_row ''c'' 20] None
      = history [''v''] None [demo_row ''a'' 10, demo_row ''b'' 30, demo_row ''c'' 20]"
    by (rule paging_complete) (simp_all add: visible_def demo_row_def wanted_type_def)
  then show ?thesis by (simp add: history_def visible_def demo_row_def wanted_type_def)
qed

text \<open>
  The cursor is the bare time stamp, so paging loses transactions that share one: of three
  transactions of the same second, a client with pages of two sees only two.
\<close>

theorem paging_loses_ties:
  "all_pages n [''v''] None 2 [demo_row ''a'' 10, demo_row ''b'' 10, demo_row ''c'' 10] None
   = take (2 * n) [demo_row ''a'' 10, demo_row ''b'' 10]"
proof -
  let ?t = "[demo_row ''a'' 10, demo_row ''b'' 10, demo_row ''c'' 10]"
  have h: "history [''v''] None ?t = ?t" by (simp add: history_def visible_def demo_row_def wanted_type_def)
  have 1: "select_page [''v''] None None 2 ?t = [demo_row ''a'' 10, demo_row ''b'' 10]"
    using select_page_eq [of 2 "[''v'']" None None ?t] h
    by (simp add: before_cursor_def [abs_def] truthy_def numeral_2_eq_2)
  have 2: "select_page [''v''] None (Some (str_of_int 10)) 2 ?t = []"
    using select_page_eq [of 2 "[''v'']" None "Some (str_of_int 10)" ?t] h
    by (simp add: before_cursor_def truthy_def parseInt_str_of_int demo_row_def)
  have "all_pages m [''v''] None 2 ?t (Some (str_of_int 10)) = []" for m
    using 2 by (cases m) (simp_all add: next_cursor_def)
  then show ?thesis using 1 by (cases n) (simp_all add: next_cursor_def demo_row_def)
qed

text \<open>
  The pool statistics and the withdrawal service count the same anonymity set: the number the
  privacy route reports is \<open>getAnonymitySetSize\<close>, and spent and unspent commitments partition
  the active vaults.
\<close>

theorem pool_stats_anonymity_set:
  "unspent_count (pool_stats_of d) = getAnonymitySetSize d
   \<and> spent_count (pool_stats_of d) + unspent_count (pool_stats_of d) = total_active (pool_stats_of d)"
proof -
  have "length (filter (\<lambda>v. \<not> p v) xs) + length (filter p xs) = length xs" for p :: "vault_row \<Rightarrow> bool" and xs
    by (induction xs) auto
  from this [of "unspent d" "filter (\<lambda>v. v_status v = active) (vaults d)"]
  have "spent_count (pool_stats_of d) + unspent_count (pool_stats_of d) = total_active (pool_stats_of d)"
    by (simp add: pool_stats_of_def Let_def del: filter_filter)
  moreover have "unspent_count (pool_stats_of d) = getAnonymitySetSize d"
    by (simp add: pool_stats_of_def Let_def getAnonymitySetSize_def conj_commute)
  ultimately show ?thesis by simp
qed

end
