(* ===== verification/Verifier.thy ===== *)
theory Verifier
  imports Vault
begin

text \<open>
  \<open>backend/src/services/ProofVerifier.ts\<close>, \<open>routes/proof.ts\<close> and \<open>routes/withdraw.ts\<close>: the checks
  before a withdrawal, the token they end in, and the route that takes the token. \<open>jsonwebtoken\<close>
  is a parameter: \<open>sign\<close> of a payload, and \<open>verify\<close> with its three outcomes.
\<close>

section \<open>The checks\<close>

record withdraw_proof =
  wp_vaultId :: string
  wp_randomness :: string
  wp_ownerAddress :: string

record checks =
  vaultExists :: bool
  ownerMatch :: bool
  commitmentMatch :: bool
  nullifierMatch :: bool
  nullifierUnused :: bool
  vaultActive :: bool
  timeLockPassed :: bool
  onChainConfirmed :: bool

definition no_checks :: checks where
  "no_checks = \<lparr>vaultExists = False, ownerMatch = False, commitmentMatch = False, nullifierMatch = False,
     nullifierUnused = False, vaultActive = False, timeLockPassed = False, onChainConfirmed = False\<rparr>"

definition check_list :: "checks \<Rightarrow> (string \<times> bool) list" where
  "check_list c = [(''vaultExists'', vaultExists c), (''ownerMatch'', ownerMatch c), (''commitmentMatch'', commitmentMatch c),
     (''nullifierMatch'', nullifierMatch c), (''nullifierUnused'', nullifierUnused c), (''vaultActive'', vaultActive c),
     (''timeLockPassed'', timeLockPassed c), (''onChainConfirmed'', onChainConfirmed c)]"

record token_payload =
  tp_vaultId :: string
  tp_commitment :: string
  tp_nullifierHash :: string
  tp_ownerAddress :: string

datatype token_check = TokenExpired | TokenInvalid | TokenOk token_payload

record verification_result =
  vr_valid :: bool
  vr_reason :: "string option"
  vr_checks :: checks
  proofToken :: "string option"

record verify_env =
  ve_cl :: crypto_lib
  ve_now :: int
  ve_on_chain :: "string \<Rightarrow> bool"
  ve_sign :: "token_payload \<Rightarrow> string"

definition nullifier_used :: "string option \<Rightarrow> db \<Rightarrow> bool" where
  "nullifier_used n d = (case n of None \<Rightarrow> False | Some h \<Rightarrow> list_ex (\<lambda>r. n_nullifier_hash r = h) (nullifiers d))"

definition vault_checks :: "verify_env \<Rightarrow> withdraw_proof \<Rightarrow> vault_row \<Rightarrow> db \<Rightarrow> checks" where
  "vault_checks env p v d = \<lparr>vaultExists = True,
     ownerMatch = (to_lower (owner_address v) = to_lower (wp_ownerAddress p)),
     commitmentMatch = (case decryptAmount (ve_cl env) (encrypted_amount v) (salt v) of
        Inl _ \<Rightarrow> False
      | Inr amt \<Rightarrow> verifyCommitment (ve_cl env) (str_of_int amt) (wp_randomness p) (v_commitment v)),
     nullifierMatch = (case v_nullifier_hash v of None \<Rightarrow> False
      | Some n \<Rightarrow> verifyNullifier (ve_cl env) (v_commitment v) (wp_randomness p) n),
     nullifierUnused = (\<not> nullifier_used (v_nullifier_hash v) d),
     vaultActive = (v_status v = active),
     timeLockPassed = (ve_now env \<ge> unlock_at v),
     onChainConfirmed = ve_on_chain env (v_commitment v)\<rparr>"

text \<open>\<open>names.join(', ')\<close>.\<close>

fun join_comma :: "string list \<Rightarrow> string" where
  "join_comma [] = []"
| "join_comma [s] = s"
| "join_comma (s # ss) = s @ '', '' @ join_comma ss"

definition payload_of :: "vault_row \<Rightarrow> string \<Rightarrow> token_payload" where
  "payload_of v vid = \<lparr>tp_vaultId = vid, tp_commitment = v_commitment v,
     tp_nullifierHash = (case v_nullifier_hash v of None \<Rightarrow> [] | Some n \<Rightarrow> n), tp_ownerAddress = owner_address v\<rparr>"

definition verifyWithdrawProof :: "verify_env \<Rightarrow> withdraw_proof \<Rightarrow> db \<Rightarrow> verification_result" where
  "verifyWithdrawProof env p d = (case row_by v_id (wp_vaultId p) (vaults d) of
     None \<Rightarrow> \<lparr>vr_valid = False, vr_reason = Some ''Vault not found'', vr_checks = no_checks, proofToken = None\<rparr>
   | Some v \<Rightarrow>
       let c = vault_checks env p v d; failedChecks = map fst (filter (\<lambda>(_, b). \<not> b) (check_list c))
       in if \<not> list_all snd (check_list c)
          then \<lparr>vr_valid = False, vr_reason = Some (''Failed checks: '' @ join_comma failedChecks), vr_checks = c, proofToken = None\<rparr>
          else \<lparr>vr_valid = True, vr_reason = None, vr_checks = c,
                 proofToken = Some (ve_sign env (payload_of v (wp_vaultId p)))\<rparr>)"

definition checks_json :: "checks \<Rightarrow> json" where
  "checks_json c = JObj (map (\<lambda>(k, b). (k, JBool b)) (check_list c))"

text \<open>\<open>POST /api/proof/verify-withdraw\<close>; a field that is missing or empty is refused.\<close>

definition post_verify_withdraw :: "verify_env \<Rightarrow> string \<Rightarrow> string \<Rightarrow> string \<Rightarrow> db \<Rightarrow> response" where
  "post_verify_withdraw env vid rnd owner d =
     (if vid = [] \<or> rnd = [] \<or> owner = [] then fail_with 400 ''Missing required fields: vaultId, randomness, ownerAddress''
      else let r = verifyWithdrawProof env \<lparr>wp_vaultId = vid, wp_randomness = rnd, wp_ownerAddress = owner\<rparr> d in
        if vr_valid r then respond 200 [(''success'', JBool True), (''valid'', JBool True), (''checks'', checks_json (vr_checks r)),
             (''proofToken'', JOpt (proofToken r)),
             (''message'', JStr ''All 9 checks passed. Use proofToken in POST /api/withdraw/execute.'')]
        else respond 400 [(''success'', JBool False), (''valid'', JBool False), (''reason'', JOpt (vr_reason r)),
             (''checks'', checks_json (vr_checks r))])"

section \<open>POST /api/withdraw/execute\<close>

definition execute_start :: "(string \<Rightarrow> token_check) \<Rightarrow> string \<Rightarrow> string \<Rightarrow> db \<Rightarrow> response + token_payload \<times> vault_row" where
  "execute_start jwt vid token d = (case jwt token of
     TokenExpired \<Rightarrow> Inl (fail_with 401 (''Proof token expired '' @ emdash @ '' please re-verify''))
   | TokenInvalid \<Rightarrow> Inl (fail_with 401 ''Invalid proof token'')
   | TokenOk tp \<Rightarrow>
       if tp_vaultId tp \<noteq> vid then Inl (fail_with 400 ''Proof token vaultId does not match request vaultId'')
       else (case row_by v_id vid (vaults d) of
           None \<Rightarrow> Inl (fail_with 404 ''Vault not found'')
         | Some v \<Rightarrow>
             if v_status v \<noteq> active
             then Inl (fail_with 400 (''Vault is '' @ vault_status_str (v_status v) @ '' '' @ emdash @ '' can only withdraw from active vault''))
             else Inr (tp, v)))"

definition execute_failed :: "exn \<Rightarrow> response" where
  "execute_failed e = (case e of
     TransactionNotFoundError _ \<Rightarrow> fail_with 404 (message e)
   | TransactionRevertedError _ \<Rightarrow> fail_with 400 (message e)
   | _ \<Rightarrow> fail_with 500 (message e))"

text \<open>The three statements, in one transaction.\<close>

definition execute_store :: "string \<Rightarrow> int \<Rightarrow> string \<Rightarrow> string \<Rightarrow> string \<Rightarrow> tx_receipt \<Rightarrow> vault_row \<Rightarrow> db \<Rightarrow> db res" where
  "execute_store uuid now vid nhash txHash rc v d =
     bind_res (insert_nullifier \<lparr>n_nullifier_hash = nhash, n_vault_id = vid, used_at = now, n_withdraw_tx_hash = txHash\<rparr> d)
       (\<lambda>d1. bind_res (update_vaults (\<lambda>r. v_id r = vid)
            (\<lambda>r. r\<lparr>v_status := withdrawn, withdraw_tx_hash := Some txHash, v_nullifier_hash := Some nhash\<rparr>) d1)
       (\<lambda>d2. insert_transaction \<lparr>t_id = uuid, t_vault_id = Some vid, t_tx_hash = txHash, t_type = Withdraw,
          amount_encrypted = encrypted_amount v, t_block_number = Some (rc_block_number rc), t_block_timestamp = Some 0,
          t_execution_status = Some SUCCEEDED, t_timestamp = now\<rparr> d2))"

text \<open>
  After the awaits: \<open>waited\<close> is the receipt that \<open>waitForTransaction\<close> returns, \<open>again\<close> the one that
  the event check fetches.
\<close>

definition execute_finish :: "sn_config \<Rightarrow> string \<Rightarrow> int \<Rightarrow> tx_receipt res \<Rightarrow> tx_receipt res \<Rightarrow> string \<Rightarrow> token_payload
    \<Rightarrow> vault_row \<Rightarrow> string \<Rightarrow> db \<Rightarrow> response \<times> db" where
  "execute_finish cfg uuid now waited again vid tp v txHash d =
     (case bind_res waited (\<lambda>rc. bind_res (verifyWithdrawalEvent cfg again (tp_nullifierHash tp)) (\<lambda>b. Inr (rc, b))) of
        Inl e \<Rightarrow> (execute_failed e, d)
      | Inr (rc, False) \<Rightarrow> (respond 400 [(''success'', JBool False), (''error'', JStr ''Nullifier not found in withdrawal transaction on-chain''),
            (''txHash'', JStr txHash), (''nullifierHash'', JStr (tp_nullifierHash tp))], d)
      | Inr (rc, True) \<Rightarrow>
          (case execute_store uuid now vid (tp_nullifierHash tp) txHash rc v d of
             Inl e \<Rightarrow> (execute_failed e, d)
           | Inr d' \<Rightarrow> (respond 200 [(''success'', JBool True), (''txHash'', JStr txHash), (''blockNumber'', JInt (rc_block_number rc)),
               (''nullifierHash'', JStr (tp_nullifierHash tp)), (''vaultId'', JStr vid), (''ownerAddress'', JStr (tp_ownerAddress tp))], d')))"

definition withdrawExecute :: "(string \<Rightarrow> token_check) \<Rightarrow> sn_config \<Rightarrow> string \<Rightarrow> int \<Rightarrow> tx_receipt res \<Rightarrow> tx_receipt res
    \<Rightarrow> string \<Rightarrow> string \<Rightarrow> string \<Rightarrow> db \<Rightarrow> response \<times> db" where
  "withdrawExecute jwt cfg uuid now waited again vid token txHash d = (case execute_start jwt vid token d of
     Inl r \<Rightarrow> (r, d)
   | Inr (tp, v) \<Rightarrow> execute_finish cfg uuid now waited again vid tp v txHash d)"

section \<open>GET /api/withdraw/check-nullifier, /eligibility\<close>

definition checkNullifier :: "(string \<Rightarrow> bool) \<Rightarrow> string \<Rightarrow> db \<Rightarrow> response" where
  "checkNullifier on_chain h d = (let row = row_by n_nullifier_hash h (nullifiers d);
      isUsedChain = (case row of None \<Rightarrow> False | Some r \<Rightarrow>
         (case row_by v_id (n_vault_id r) (vaults d) of None \<Rightarrow> False | Some v \<Rightarrow> on_chain (v_commitment v)))
     in respond 200 ([(''success'', JBool True), (''nullifierHash'', JStr h), (''isUsed'', JBool (row \<noteq> None))]
       @ (case row of None \<Rightarrow> [] | Some r \<Rightarrow> [(''usedAt'', JInt (used_at r)), (''txHash'', JStr (n_withdraw_tx_hash r))])
       @ [(''source'', JStr (if row \<noteq> None \<and> isUsedChain then ''both'' else if row \<noteq> None then ''db''
            else if isUsedChain then ''chain'' else ''none''))]))"

definition eligibility :: "int \<Rightarrow> (string \<Rightarrow> bool) \<Rightarrow> string \<Rightarrow> db \<Rightarrow> response" where
  "eligibility now on_chain vid d = (case row_by v_id vid (vaults d) of
     None \<Rightarrow> fail_with 404 ''Vault not found''
   | Some v \<Rightarrow> let secondsRemaining = max 0 (unlock_at v - now) in
       respond 200 [(''success'', JBool True), (''vaultId'', JStr vid), (''isUnlocked'', JBool (secondsRemaining = 0)),
         (''unlockAt'', JInt (unlock_at v)), (''secondsRemaining'', JInt secondsRemaining),
         (''nullifierUsed'', JBool (truthy (v_nullifier_hash v) \<and> nullifier_used (v_nullifier_hash v) d)),
         (''onChainCommitmentActive'', JBool (on_chain (v_commitment v))), (''status'', JStr (vault_status_str (v_status v)))])"

section \<open>Lemmas\<close>

lemma check_list_all: "list_all snd (check_list c) \<longleftrightarrow> c = no_checks\<lparr>vaultExists := True, ownerMatch := True, commitmentMatch := True,
    nullifierMatch := True, nullifierUnused := True, vaultActive := True, timeLockPassed := True, onChainConfirmed := True\<rparr>"
  by (cases c) (auto simp: check_list_def no_checks_def)

lemma verify_valid:
  assumes "vr_valid (verifyWithdrawProof env p d)"
  shows "\<exists>v n. row_by v_id (wp_vaultId p) (vaults d) = Some v \<and> list_all snd (check_list (vault_checks env p v d))
     \<and> v_status v = active \<and> v_nullifier_hash v = Some n \<and> \<not> nullifier_used (Some n) d
     \<and> proofToken (verifyWithdrawProof env p d) = Some (ve_sign env (payload_of v (wp_vaultId p)))"
proof -
  obtain v where v: "row_by v_id (wp_vaultId p) (vaults d) = Some v"
    using assms by (auto simp: verifyWithdrawProof_def split: option.splits)
  then have l: "list_all snd (check_list (vault_checks env p v d))"
    using assms by (auto simp: verifyWithdrawProof_def Let_def split: if_splits)
  then have "v_nullifier_hash v \<noteq> None" by (auto simp: check_list_def vault_checks_def split: option.splits)
  then show ?thesis using v l by (auto simp: verifyWithdrawProof_def Let_def) (auto simp: check_list_def vault_checks_def)
qed

lemma execute_store_spec:
  assumes ok: "schema_ok d" and v: "row_by v_id vid (vaults d) = Some v"
    and s: "execute_store uuid now vid n txHash rc w d = Inr d'"
  shows "schema_ok d'" "n \<notin> n_nullifier_hash ` set (nullifiers d)"
    "row_by n_nullifier_hash n (nullifiers d') = Some \<lparr>n_nullifier_hash = n, n_vault_id = vid, used_at = now, n_withdraw_tx_hash = txHash\<rparr>"
    "row_by v_id vid (vaults d') = Some (v\<lparr>v_status := withdrawn, withdraw_tx_hash := Some txHash, v_nullifier_hash := Some n\<rparr>)"
    "\<exists>t. row_by t_tx_hash txHash (transactions d') = Some t \<and> t_vault_id t = Some vid \<and> t_type t = Withdraw"
proof -
  let ?f = "\<lambda>r. r\<lparr>v_status := withdrawn, withdraw_tx_hash := Some txHash, v_nullifier_hash := Some n\<rparr>"
  let ?n = "\<lparr>n_nullifier_hash = n, n_vault_id = vid, used_at = now, n_withdraw_tx_hash = txHash\<rparr>"
  let ?t = "\<lparr>t_id = uuid, t_vault_id = Some vid, t_tx_hash = txHash, t_type = Withdraw,
          amount_encrypted = encrypted_amount w, t_block_number = Some (rc_block_number rc), t_block_timestamp = Some 0,
          t_execution_status = Some SUCCEEDED, t_timestamp = now\<rparr>"
  obtain d1 d2 where i: "insert_nullifier ?n d = Inr d1" and u: "update_vaults (\<lambda>r. v_id r = vid) ?f d1 = Inr d2"
    and t: "insert_transaction ?t d2 = Inr d'"
    using s by (auto simp: execute_store_def)
  have "schema_ok d1" by (rule schema_insert_nullifier [OF ok i])
  then have "schema_ok d2" using schema_update_vaults [OF _ u] by simp
  then show "schema_ok d'" using t by (rule schema_insert_transaction)
  show "n \<notin> n_nullifier_hash ` set (nullifiers d)" using nullifier_by_hash.ins_fresh [OF i] by simp
  note D = insert_nullifierD [OF i] update_vaultsD [OF u] insert_transactionD [OF t]
  have "nullifiers d' = nullifiers d1" using D by simp
  then show "row_by n_nullifier_hash n (nullifiers d') = Some ?n" using nullifier_by_hash.lookup_inserted [OF i] by simp
  have "vaults d' = update_by (\<lambda>r. v_id r = vid) ?f (vaults d)" using D by simp
  then show "row_by v_id vid (vaults d') = Some (?f v)"
    using row_by_update [of v_id ?f vid "\<lambda>r. v_id r = vid" "vaults d"] v by (auto dest: row_by_Some)
  show "\<exists>t. row_by t_tx_hash txHash (transactions d') = Some t \<and> t_vault_id t = Some vid \<and> t_type t = Withdraw"
    using tx_by_hash.lookup_inserted [OF t] by (intro exI [of _ ?t]) simp
qed

text \<open>What an execution writes, or that it writes nothing.\<close>

lemma withdrawExecute_cases:
  assumes "withdrawExecute jwt cfg uuid now waited again vid token txHash d = (r, d')"
  obtains (refused) "code r \<noteq> 200" "d' = d"
  | (executed) tp v rc where "code r = 200" "jwt token = TokenOk tp" "tp_vaultId tp = vid" "row_by v_id vid (vaults d) = Some v"
      "v_status v = active" "waited = Inr rc" "verifyWithdrawalEvent cfg again (tp_nullifierHash tp) = Inr True"
      "execute_store uuid now vid (tp_nullifierHash tp) txHash rc v d = Inr d'"
proof (cases "execute_start jwt vid token d")
  case (Inl x)
  then have "code x \<noteq> 200" by (auto simp: execute_start_def split: token_check.splits option.splits if_splits)
  then show ?thesis using refused assms Inl by (simp add: withdrawExecute_def)
next
  case (Inr y)
  obtain tp v where y: "y = (tp, v)" by (cases y)
  then have s: "jwt token = TokenOk tp" "tp_vaultId tp = vid" "row_by v_id vid (vaults d) = Some v" "v_status v = active"
    using Inr by (auto simp: execute_start_def split: token_check.splits option.splits if_splits)
  have fail: "code (execute_failed e) \<noteq> 200" for e by (cases e) (simp_all add: execute_failed_def)
  have f: "execute_finish cfg uuid now waited again vid tp v txHash d = (r, d')"
    using assms Inr y by (simp add: withdrawExecute_def)
  show ?thesis
  proof (cases waited)
    case (Inl e)
    then show ?thesis using refused f fail by (auto simp: execute_finish_def)
  next
    case (Inr rc)
    show ?thesis
    proof (cases "verifyWithdrawalEvent cfg again (tp_nullifierHash tp)")
      case (Inl e)
      then show ?thesis using refused f fail Inr by (auto simp: execute_finish_def)
    next
      case (Inr b)
      then show ?thesis using refused executed [OF _ s \<open>waited = Inr rc\<close>] f fail \<open>waited = Inr rc\<close>
        by (cases b; cases "execute_store uuid now vid (tp_nullifierHash tp) txHash rc v d") (auto simp: execute_finish_def)
    qed
  qed
qed

lemma execute_store_ok:
  assumes ok: "schema_ok d" and v: "row_by v_id vid (vaults d) = Some v" and n: "v_nullifier_hash v = Some n"
    and u: "n \<notin> n_nullifier_hash ` set (nullifiers d)" and h: "tx_hash_ok txHash"
    and f: "txHash \<notin> t_tx_hash ` set (transactions d)" "uuid \<notin> t_id ` set (transactions d)"
  shows "is_ok (execute_store uuid now vid n txHash rc w d)"
proof -
  let ?f = "\<lambda>r. r\<lparr>v_status := withdrawn, withdraw_tx_hash := Some txHash, v_nullifier_hash := Some n\<rparr>"
  let ?g = "\<lambda>r. r\<lparr>v_status := withdrawn, withdraw_tx_hash := Some txHash\<rparr>"
  let ?n = "\<lparr>n_nullifier_hash = n, n_vault_id = vid, used_at = now, n_withdraw_tx_hash = txHash\<rparr>"
  let ?t = "\<lparr>t_id = uuid, t_vault_id = Some vid, t_tx_hash = txHash, t_type = Withdraw,
          amount_encrypted = encrypted_amount w, t_block_number = Some (rc_block_number rc), t_block_timestamp = Some 0,
          t_execution_status = Some SUCCEEDED, t_timestamp = now\<rparr>"
  have vid: "v \<in> set (vaults d)" "v_id v = vid" using row_by_Some [OF v] by auto
  then have hv: "has_vault d vid" by (auto simp: has_vault_def list_ex_iff)
  have only: "r = v" if "r \<in> set (vaults d)" "v_id r = vid" for r
  proof -
    have "uniq v_id (vaults d)" using ok by (simp add: schema_ok_def vaults_violation_None)
    then show ?thesis using row_by_unique [of v_id "vaults d" r] that v by simp
  qed
  have i: "insert_nullifier ?n d = Inr (d\<lparr>nullifiers := nullifiers d @ [?n]\<rparr>)"
    using ok u hv by (auto simp: insert_nullifier_def schema_ok_def uniq_def)
  have e: "update_by (\<lambda>r. v_id r = vid) ?f (vaults d) = update_by (\<lambda>r. v_id r = vid) ?g (vaults d)"
    using only n by (auto simp: update_by_def)
  have "vaults_violation (update_by (\<lambda>r. v_id r = vid) ?f (vaults d)) = None"
    using ok h unfolding e by (auto simp: schema_ok_def vaults_violation_None list_all_iff set_update_by)
  then have up: "update_vaults (\<lambda>r. v_id r = vid) ?f (d\<lparr>nullifiers := nullifiers d @ [?n]\<rparr>)
      = Inr (d\<lparr>nullifiers := nullifiers d @ [?n], vaults := update_by (\<lambda>r. v_id r = vid) ?f (vaults d)\<rparr>)"
    by (simp add: update_vaults_def set_vaults_def)
  have "has_vault (d\<lparr>nullifiers := nullifiers d @ [?n], vaults := update_by (\<lambda>r. v_id r = vid) ?f (vaults d)\<rparr>) vid"
  proof -
    have "?f v \<in> set (update_by (\<lambda>r. v_id r = vid) ?f (vaults d))"
      using vid unfolding set_update_by by (intro image_eqI [of _ _ v]) simp_all
    moreover have "v_id (?f v) = vid" using vid by simp
    ultimately show ?thesis unfolding has_vault_def list_ex_iff by fastforce
  qed
  then have "is_ok (insert_transaction ?t (d\<lparr>nullifiers := nullifiers d @ [?n], vaults := update_by (\<lambda>r. v_id r = vid) ?f (vaults d)\<rparr>))"
    using ok h f by (auto simp: insert_transaction_def schema_ok_def uniq_def tx_hash_ok_def)
  then show ?thesis using i up by (simp add: execute_store_def)
qed

text \<open>A request to execute, and a run of them: the nullifiers that were spent, in order.\<close>

record execute_request =
  er_jwt :: "string \<Rightarrow> token_check"
  er_cfg :: sn_config
  er_uuid :: string
  er_now :: int
  er_waited :: "tx_receipt res"
  er_again :: "tx_receipt res"
  er_vault :: string
  er_token :: string
  er_txHash :: string

definition execute_one :: "execute_request \<Rightarrow> db \<Rightarrow> response \<times> db" where
  "execute_one q d = withdrawExecute (er_jwt q) (er_cfg q) (er_uuid q) (er_now q) (er_waited q) (er_again q)
     (er_vault q) (er_token q) (er_txHash q) d"

fun execute_all :: "execute_request list \<Rightarrow> db \<Rightarrow> string list \<times> db" where
  "execute_all [] d = ([], d)"
| "execute_all (q # qs) d = (case execute_one q d of (r, d1) \<Rightarrow> case execute_all qs d1 of (ns, d2) \<Rightarrow>
     ((case er_jwt q (er_token q) of TokenOk tp \<Rightarrow> if code r = 200 then [tp_nullifierHash tp] else [] | _ \<Rightarrow> []) @ ns, d2))"

definition demo_request :: "string \<Rightarrow> string \<Rightarrow> execute_request" where
  "demo_request uuid txHash = \<lparr>er_jwt = (\<lambda>_. TokenOk \<lparr>tp_vaultId = ''v'', tp_commitment = ''0xc'', tp_nullifierHash = ''n'', tp_ownerAddress = ''0x1''\<rparr>),
     er_cfg = demo_cfg_sn, er_uuid = uuid, er_now = 5, er_waited = Inr demo_deposit_receipt,
     er_again = Inr (demo_deposit_receipt\<lparr>rc_events := [\<lparr>from_address = ''0x1'', keys = [], data = [''n'']\<rparr>]\<rparr>),
     er_vault = ''v'', er_token = ''tok'', er_txHash = txHash\<rparr>"

lemma demo_executes:
  "fst (execute_all [demo_request ''t'' ''0x00112233445566778899aabbccddeeff''] demo_db) = [''n'']"
  by (simp add: execute_one_def demo_request_def withdrawExecute_def execute_start_def execute_finish_def demo_db_def
        demo_vault_def row_by_def verifyWithdrawalEvent_def norm_hex_def demo_cfg_sn_def execute_store_def
        insert_nullifier_def insert_transaction_def table_eval)

section \<open>Properties\<close>

text \<open>
  Executing a withdrawal is all or nothing: on an answer of 200 the vault was active and is
  withdrawn with the given hash, the token's nullifier was unused and is now recorded for it, and
  the transaction has its row; on any other answer the database is unchanged.
\<close>

theorem withdrawExecute_outcome:
  assumes "schema_ok d" and "withdrawExecute jwt cfg uuid now waited again vid token txHash d = (r, d')"
  shows "(code r \<noteq> 200 \<and> d' = d)
     \<or> (code r = 200 \<and> schema_ok d' \<and> (\<exists>tp v. jwt token = TokenOk tp \<and> tp_vaultId tp = vid
          \<and> row_by v_id vid (vaults d) = Some v \<and> v_status v = active
          \<and> row_by v_id vid (vaults d') = Some (v\<lparr>v_status := withdrawn, withdraw_tx_hash := Some txHash,
               v_nullifier_hash := Some (tp_nullifierHash tp)\<rparr>)
          \<and> \<not> nullifier_used (Some (tp_nullifierHash tp)) d \<and> nullifier_used (Some (tp_nullifierHash tp)) d'
          \<and> (\<exists>t. row_by t_tx_hash txHash (transactions d') = Some t \<and> t_vault_id t = Some vid \<and> t_type t = Withdraw)))"
  using assms(2)
proof (cases rule: withdrawExecute_cases)
  case (executed tp v rc)
  note s = execute_store_spec [OF assms(1) executed(4,8)]
  have "\<not> nullifier_used (Some (tp_nullifierHash tp)) d" using s(2) by (force simp: nullifier_used_def list_ex_iff)
  moreover have "nullifier_used (Some (tp_nullifierHash tp)) d'"
    using row_by_Some [OF s(3)] by (auto simp: nullifier_used_def list_ex_iff intro!: bexI)
  ultimately show ?thesis using executed s by blast
qed simp

theorem withdrawExecute_outcome_witness:
  "\<exists>r d'. execute_one (demo_request ''t'' ''0x00112233445566778899aabbccddeeff'') demo_db = (r, d') \<and> code r = 200
     \<and> nullifier_used (Some ''n'') d' \<and> schema_ok d'"
proof -
  let ?q = "demo_request ''t'' ''0x00112233445566778899aabbccddeeff''"
  obtain r d' where x: "execute_one ?q demo_db = (r, d')" by fastforce
  have c: "code r = 200"
    using demo_executes x by (simp add: demo_request_def split: if_splits)
  show ?thesis
    using withdrawExecute_outcome [OF schema_demo x [unfolded execute_one_def]] x c by (auto simp: demo_request_def)
qed

lemma execute_all_spent:
  assumes "schema_ok d" and "execute_all qs d = (ns, d')"
  shows "distinct ns \<and> set ns \<inter> n_nullifier_hash ` set (nullifiers d) = {}"
  using assms
proof (induction qs arbitrary: d ns d')
  case (Cons q qs)
  obtain r d1 where o: "execute_one q d = (r, d1)" by fastforce
  obtain ns1 d2 where a: "execute_all qs d1 = (ns1, d2)" by fastforce
  show ?case
    using o [unfolded execute_one_def]
  proof (cases rule: withdrawExecute_cases)
    case refused
    then have "ns = ns1" using Cons.prems(2) o a by (auto split: token_check.splits)
    then show ?thesis using Cons.IH [of d ns1 d2] Cons.prems(1) refused a by simp
  next
    case (executed tp v rc)
    note s = execute_store_spec [OF Cons.prems(1) executed(4,8)]
    have ns: "ns = tp_nullifierHash tp # ns1" using Cons.prems(2) o a executed by auto
    have "set (nullifiers d) \<subseteq> set (nullifiers d1)" "tp_nullifierHash tp \<in> n_nullifier_hash ` set (nullifiers d1)"
      using executed(8) row_by_Some [OF s(3)]
      by (auto simp: execute_store_def dest!: insert_nullifierD update_vaultsD insert_transactionD)
    then show ?thesis using Cons.IH [OF s(1) a] s(2) ns by auto
  qed
qed simp

text \<open>
  A nullifier is spent once: over any sequence of requests to execute, with any tokens, receipts
  and events, the nullifiers of the successful ones are distinct.
\<close>

theorem nullifiers_spent_once:
  assumes "schema_ok d"
  shows "distinct (fst (execute_all qs d)) \<and> set (fst (execute_all qs d)) \<inter> n_nullifier_hash ` set (nullifiers d) = {}"
  using execute_all_spent [OF assms] by (cases "execute_all qs d") simp

lemma execute_all_Cons_fst: "fst (execute_all (q # qs) d) = fst (execute_all [q] d) @ fst (execute_all qs (snd (execute_one q d)))"
  by (simp split: prod.splits)

theorem nullifiers_spent_once_witness:
  "fst (execute_all [demo_request ''t'' ''0x00112233445566778899aabbccddeeff'', demo_request ''u'' ''0x11112233445566778899aabbccddeeff''] demo_db)
     = [''n'']"
proof -
  let ?q = "demo_request ''t'' ''0x00112233445566778899aabbccddeeff''" and ?r = "demo_request ''u'' ''0x11112233445566778899aabbccddeeff''"
  have "fst (execute_all [?q, ?r] demo_db) = ''n'' # fst (execute_all [?r] (snd (execute_one ?q demo_db)))"
    using execute_all_Cons_fst [of ?q "[?r]" demo_db] demo_executes by simp
  moreover have "fst (execute_all [?r] d) = [] \<or> fst (execute_all [?r] d) = [''n'']" for d
    by (simp add: demo_request_def split: prod.splits)
  ultimately have "fst (execute_all [?q, ?r] demo_db) = [''n''] \<or> fst (execute_all [?q, ?r] demo_db) = [''n'', ''n'']" by metis
  moreover have "distinct (fst (execute_all [?q, ?r] demo_db))"
    using nullifiers_spent_once [OF schema_demo, of "[?q, ?r]"] by (rule conjunct1)
  ultimately show ?thesis by auto
qed

text \<open>
  Verification is enough: when all checks of a proof pass, then, provided \<open>jsonwebtoken\<close> returns
  what was signed, and the client's transaction succeeded with the nullifier in its events and is
  not recorded yet, the token executes the withdrawal: the answer is 200 and the vault withdrawn.
  (Whether the last check can pass is the subject of \<open>OnChain\<close>.)
\<close>

theorem verified_withdrawal_executes:
  assumes "schema_ok d" and "vr_valid (verifyWithdrawProof env p d)"
    and "proofToken (verifyWithdrawProof env p d) = Some token"
    and "\<forall>tp. jwt (ve_sign env tp) = TokenOk tp"
    and "row_by v_id (wp_vaultId p) (vaults d) = Some v" and "v_nullifier_hash v = Some n"
    and "verifyWithdrawalEvent cfg (Inr rc) n = Inr True" and "tx_hash_ok txHash"
    and "txHash \<notin> t_tx_hash ` set (transactions d)" and "uuid \<notin> t_id ` set (transactions d)"
  shows "\<exists>r d'. withdrawExecute jwt cfg uuid now (Inr rc) (Inr rc) (wp_vaultId p) token txHash d = (r, d') \<and> code r = 200
     \<and> (\<exists>w. row_by v_id (wp_vaultId p) (vaults d') = Some w \<and> v_status w = withdrawn)"
proof -
  have x: "v_status v = active" "\<not> nullifier_used (Some n) d" "token = ve_sign env (payload_of v (wp_vaultId p))"
    using verify_valid [OF assms(2)] assms(3,5,6) by auto
  have u: "n \<notin> n_nullifier_hash ` set (nullifiers d)" using x(2) by (auto simp: nullifier_used_def list_ex_iff)
  obtain d' where s: "execute_store uuid now (wp_vaultId p) n txHash rc v d = Inr d'"
    using execute_store_ok [OF assms(1,5,6) u assms(8,9,10), of now rc v] by (auto simp: is_ok_iff)
  have "code (fst (withdrawExecute jwt cfg uuid now (Inr rc) (Inr rc) (wp_vaultId p) token txHash d)) = 200
     \<and> snd (withdrawExecute jwt cfg uuid now (Inr rc) (Inr rc) (wp_vaultId p) token txHash d) = d'"
    using assms(4-7) x s
    by (simp add: withdrawExecute_def execute_start_def execute_finish_def payload_of_def)
  moreover have "\<exists>w. row_by v_id (wp_vaultId p) (vaults d') = Some w \<and> v_status w = withdrawn"
    using execute_store_spec(4) [OF assms(1,5) s] by simp
  ultimately show ?thesis by (metis prod.collapse)
qed

text \<open>A token format that can be read back: each field preceded by its length in unary.\<close>

definition put_field :: "string \<Rightarrow> string" where
  "put_field s = replicate (length s) (CHR ''1'') @ CHR ''0'' # s"

definition get_field :: "string \<Rightarrow> string \<times> string" where
  "get_field x = (let n = length (takeWhile (\<lambda>c. c = CHR ''1'') x) in (take n (drop (Suc n) x), drop (Suc n + n) x))"

lemma get_put_field: "get_field (put_field s @ rest) = (s, rest)"
proof -
  have "takeWhile (\<lambda>c. c = CHR ''1'') (put_field s @ rest) = replicate (length s) (CHR ''1'')"
  proof -
    have "takeWhile (\<lambda>c. c = CHR ''1'') (replicate n (CHR ''1'') @ CHR ''0'' # u) = replicate n (CHR ''1'')" for n u
      by (induction n) simp_all
    then show ?thesis by (simp add: put_field_def)
  qed
  then show ?thesis by (simp add: get_field_def put_field_def Let_def)
qed

definition demo_sign :: "token_payload \<Rightarrow> string" where
  "demo_sign tp = put_field (tp_vaultId tp) @ put_field (tp_commitment tp) @ put_field (tp_nullifierHash tp) @ put_field (tp_ownerAddress tp)"

definition demo_jwt :: "string \<Rightarrow> token_check" where
  "demo_jwt x = (case get_field x of (a, x1) \<Rightarrow> case get_field x1 of (b, x2) \<Rightarrow> case get_field x2 of (c, x3) \<Rightarrow>
     case get_field x3 of (e, _) \<Rightarrow> TokenOk \<lparr>tp_vaultId = a, tp_commitment = b, tp_nullifierHash = c, tp_ownerAddress = e\<rparr>)"

lemma demo_jwt_sign: "demo_jwt (demo_sign tp) = TokenOk tp"
  using get_put_field [of "tp_ownerAddress tp" "[]"] by (simp add: demo_jwt_def demo_sign_def get_put_field)

definition demo_verify :: verify_env where
  "demo_verify = \<lparr>ve_cl = demo_lib, ve_now = 10000000, ve_on_chain = (\<lambda>_. True), ve_sign = demo_sign\<rparr>"

definition demo_ready_db :: db where
  "demo_ready_db = empty_db\<lparr>vaults := (case prepare_row demo_prepare ''0x1'' 50000 30 of
     Inl _ \<Rightarrow> [] | Inr v \<Rightarrow> [v\<lparr>v_status := active\<rparr>])\<rparr>"

definition demo_randomness :: string where
  "demo_randomness = (case generateRandomness (replicate 31 1) of Inl _ \<Rightarrow> [] | Inr s \<Rightarrow> s)"

lemma demo_verifies:
  "vr_valid (verifyWithdrawProof demo_verify \<lparr>wp_vaultId = ''u'', wp_randomness = demo_randomness, wp_ownerAddress = ''0X1''\<rparr> demo_ready_db)"
  by code_simp

lemma schema_demo_ready: "schema_ok demo_ready_db"
proof -
  obtain v where v: "prepare_row demo_prepare ''0x1'' 50000 30 = Inr v" using demo_prepared by blast
  have "lock_duration_days v = 30 \<and> deposit_tx_hash v = None \<and> withdraw_tx_hash v = None"
    using v by (auto simp: prepare_row_def prepared_vault_def Let_def)
  then show ?thesis using v
    by (simp add: demo_ready_db_def table_eval split: option.splits)
qed

theorem verified_withdrawal_executes_witness:
  "\<exists>token cfg rc r d'. withdrawExecute demo_jwt cfg ''t'' 5 (Inr rc) (Inr rc) ''u'' token ''0x00112233445566778899aabbccddeeff'' demo_ready_db = (r, d')
     \<and> code r = 200 \<and> (\<exists>w. row_by v_id ''u'' (vaults d') = Some w \<and> v_status w = withdrawn)"
proof -
  let ?p = "\<lparr>wp_vaultId = ''u'', wp_randomness = demo_randomness, wp_ownerAddress = ''0X1''\<rparr>"
  obtain v n where v: "row_by v_id (wp_vaultId ?p) (vaults demo_ready_db) = Some v" "v_nullifier_hash v = Some n"
    "proofToken (verifyWithdrawProof demo_verify ?p demo_ready_db) = Some (ve_sign demo_verify (payload_of v (wp_vaultId ?p)))"
    using verify_valid [OF demo_verifies] by blast
  let ?rc = "demo_deposit_receipt\<lparr>rc_events := [\<lparr>from_address = ''0x1'', keys = [], data = [n]\<rparr>]\<rparr>"
  have j: "\<forall>tp. demo_jwt (ve_sign demo_verify tp) = TokenOk tp" by (simp add: demo_verify_def demo_jwt_sign)
  have e: "verifyWithdrawalEvent demo_cfg_sn (Inr ?rc) n = Inr True"
    by (simp add: verifyWithdrawalEvent_def demo_cfg_sn_def)
  have h: "tx_hash_ok ''0x00112233445566778899aabbccddeeff''" by (simp add: tx_hash_ok_def like_prefix_def to_lower_def)
  have f: "''0x00112233445566778899aabbccddeeff'' \<notin> t_tx_hash ` set (transactions demo_ready_db)"
    "''t'' \<notin> t_id ` set (transactions demo_ready_db)"
    by (simp_all add: demo_ready_db_def empty_db_def)
  show ?thesis
    using verified_withdrawal_executes [OF schema_demo_ready demo_verifies v(3) j v(1,2) e h f] by fastforce
qed

end
