(* ===== verification/Bridge.thy ===== *)
theory Bridge
  imports Vault Spv Relay "HOL-Library.Product_Lexorder"
begin

text \<open>
  \<open>backend/src/services/BitcoinSignetService.ts\<close> and \<open>routes/bridge.ts\<close>: recognising a deposit on
  Signet and turning it into a deposit on Starknet. What the explorer and Starknet answer are
  arguments, per attempt where the code retries; the numbers of the explorer are integers below
  \<open>2 ^ 53\<close>. Waiting takes time only.
\<close>

section \<open>BitcoinSignetService: addresses and amounts\<close>

text \<open>\<open>XVERSE_WALLET_ADDRESS || BTC_VAULT_ADDRESS\<close>.\<close>

definition getDepositAddress :: "string \<Rightarrow> string option \<Rightarrow> string res" where
  "getDepositAddress xverse vault_env =
     (let addr = (if xverse \<noteq> [] then Some xverse else vault_env) in
      if \<not> truthy addr \<or> \<not> starts_with (the addr) ''tb1''
      then Inl (Error (''XVERSE_WALLET_ADDRESS not configured in .env'' @ [CHR 0x0A]
        @ ''Open Xverse '' @ [CHR 0xE2, CHR 0x86, CHR 0x92] @ '' Settings '' @ [CHR 0xE2, CHR 0x86, CHR 0x92]
        @ '' switch to Signet '' @ [CHR 0xE2, CHR 0x86, CHR 0x92] @ '' copy tb1q... address''))
      else Inr (the addr))"

definition expectedSats :: "rat \<Rightarrow> int" where
  "expectedSats amountBTC = math_round (mul amountBTC (10 ^ 8))"

definition tolerance :: "int \<Rightarrow> int" where
  "tolerance sats_v = max 1000 (math_round (mul (of_int sats_v) (fl (1 / 100))))"

definition near :: "int \<Rightarrow> int \<Rightarrow> bool" where
  "near sats_v value = (\<bar>value - sats_v\<bar> \<le> tolerance sats_v)"

definition getKnownTxids :: "db \<Rightarrow> string list" where
  "getKnownTxids d = List.map_filter v_bitcoin_txid (vaults d)"

text \<open>
  \<open>sinceMs ? Math.floor(sinceMs / 1000) : 0\<close>; \<open>None\<close> is \<open>undefined\<close> or \<open>NaN\<close>. Logging a time that
  no \<open>Date\<close> can hold throws.
\<close>

definition sinceSeconds :: "int option \<Rightarrow> int" where
  "sinceSeconds sinceMs = (case sinceMs of None \<Rightarrow> 0 | Some ms \<Rightarrow> if ms = 0 then 0 else \<lfloor>dvd_js (of_int ms) 1000\<rfloor>)"

definition since_loggable :: "int option \<Rightarrow> bool" where
  "since_loggable sinceMs = (sinceSeconds sinceMs = 0 \<or> \<bar>the sinceMs\<bar> \<le> 8640000000000000)"

section \<open>Step 1: the mempool\<close>

record mempool_tx =
  mt_txid :: string
  mt_block_time :: "int option"
  mt_outputs :: "(string option \<times> int) list"

definition or_zero :: "int option \<Rightarrow> int" where
  "or_zero x = (case x of None \<Rightarrow> 0 | Some n \<Rightarrow> n)"

definition mempool_match :: "string list \<Rightarrow> int \<Rightarrow> string \<Rightarrow> int \<Rightarrow> mempool_tx \<Rightarrow> bool" where
  "mempool_match known since address sats_v tx =
     (\<not> List.member known (mt_txid tx)
      \<and> \<not> (since \<noteq> 0 \<and> or_zero (mt_block_time tx) \<noteq> 0 \<and> or_zero (mt_block_time tx) < since)
      \<and> list_ex (\<lambda>(a, value). a = Some address \<and> (value = sats_v \<or> near sats_v value)) (mt_outputs tx))"

section \<open>Step 2: the unspent outputs\<close>

record sig_utxo =
  su_txid :: string
  su_value :: int
  su_confirmed :: bool
  su_block_time :: "int option"
  su_block_height :: "int option"

definition is_fresh :: "string list \<Rightarrow> int \<Rightarrow> sig_utxo \<Rightarrow> bool" where
  "is_fresh known since u =
     (if List.member known (su_txid u) then False
      else if \<not> su_confirmed u then True
      else \<not> (since \<noteq> 0 \<and> (case su_block_time u of None \<Rightarrow> False | Some t \<Rightarrow> t < since)))"

text \<open>The comparator of the sort: negative when \<open>a\<close> comes first.\<close>

definition newest_first :: "sig_utxo \<Rightarrow> sig_utxo \<Rightarrow> int" where
  "newest_first a b =
     (if \<not> su_confirmed a \<and> su_confirmed b then -1
      else if su_confirmed a \<and> \<not> su_confirmed b then 1
      else if \<not> su_confirmed a \<and> \<not> su_confirmed b then 0
      else let aTime = or_zero (su_block_time a); bTime = or_zero (su_block_time b) in
        if aTime \<noteq> bTime then bTime - aTime
        else or_zero (su_block_height b) - or_zero (su_block_height a))"

text \<open>\<open>Array.prototype.sort\<close> with a comparator is stable.\<close>

fun insert_cmp :: "('a \<Rightarrow> 'a \<Rightarrow> int) \<Rightarrow> 'a \<Rightarrow> 'a list \<Rightarrow> 'a list" where
  "insert_cmp cmp x [] = [x]"
| "insert_cmp cmp x (y # ys) = (if cmp x y \<le> 0 then x # y # ys else y # insert_cmp cmp x ys)"

definition sort_cmp :: "('a \<Rightarrow> 'a \<Rightarrow> int) \<Rightarrow> 'a list \<Rightarrow> 'a list" where
  "sort_cmp cmp xs = foldr (insert_cmp cmp) xs []"

definition pick_utxo :: "int \<Rightarrow> sig_utxo list \<Rightarrow> sig_utxo option" where
  "pick_utxo sats_v sorted_utxos = (case List.find (\<lambda>u. su_value u = sats_v) sorted_utxos of
     Some u \<Rightarrow> Some u
   | None \<Rightarrow> (case List.find (\<lambda>u. near sats_v (su_value u)) sorted_utxos of
       Some u \<Rightarrow> Some u
     | None \<Rightarrow> (case sorted_utxos of [] \<Rightarrow> None | u # _ \<Rightarrow> Some u)))"

text \<open>The number of confirmations; \<open>None\<close> is \<open>NaN\<close>.\<close>

definition confirmations_of :: "string http \<Rightarrow> sig_utxo \<Rightarrow> int option" where
  "confirmations_of tip u =
     (if su_confirmed u \<and> or_zero (su_block_height u) \<noteq> 0 then
        (case tip of
           HttpOk text \<Rightarrow> map_option (\<lambda>h. max 0 (h - or_zero (su_block_height u) + 1)) (parseInt text)
         | _ \<Rightarrow> Some 1)
      else Some 0)"

record signet_env =
  se_mempool :: "string \<Rightarrow> mempool_tx list http"
  se_utxos :: "string \<Rightarrow> nat \<Rightarrow> sig_utxo list http"
  se_tip :: "string http"

text \<open>A detection: nothing, or a transaction and its confirmations.\<close>

type_synonym detection = "(string \<times> int option) option"

definition detect_utxo :: "signet_env \<Rightarrow> string list \<Rightarrow> int \<Rightarrow> int \<Rightarrow> sig_utxo list \<Rightarrow> detection" where
  "detect_utxo env known since sats_v utxos =
     (case pick_utxo sats_v (sort_cmp newest_first (filter (is_fresh known since) utxos)) of
        None \<Rightarrow> None
      | Some u \<Rightarrow> Some (su_txid u, confirmations_of (se_tip env) u))"

fun utxo_loop :: "signet_env \<Rightarrow> string \<Rightarrow> string list \<Rightarrow> int \<Rightarrow> int \<Rightarrow> nat \<Rightarrow> nat \<Rightarrow> detection" where
  "utxo_loop env address known since sats_v attempt 0 = None"
| "utxo_loop env address known since sats_v attempt (Suc n) = (case se_utxos env address attempt of
     HttpOk utxos \<Rightarrow> detect_utxo env known since sats_v utxos
   | _ \<Rightarrow> utxo_loop env address known since sats_v (Suc attempt) n)"

definition detectBTCLock :: "signet_env \<Rightarrow> string \<Rightarrow> rat \<Rightarrow> int option \<Rightarrow> db \<Rightarrow> detection res" where
  "detectBTCLock env address amountBTC sinceMs d =
     (if \<not> since_loggable sinceMs then Inl (RangeError ''Invalid time value'')
      else let sats_v = expectedSats amountBTC; since = sinceSeconds sinceMs; known = getKnownTxids d in
        Inr (case (case se_mempool env address of
                HttpOk txs \<Rightarrow> List.find (mempool_match known since address sats_v) txs | _ \<Rightarrow> None) of
             Some tx \<Rightarrow> Some (mt_txid tx, Some 0)
           | None \<Rightarrow> utxo_loop env address known since sats_v 1 3))"

definition verifyTransaction_btc :: "json http \<Rightarrow> json res" where
  "verifyTransaction_btc answer = (case answer of
     NetFail e \<Rightarrow> Inl e | NotOk _ \<Rightarrow> Inl (Error ''TX not found'') | HttpOk j \<Rightarrow> Inr j)"

definition getBridgeStatus :: "string res \<Rightarrow> string http \<Rightarrow> (bool \<times> json) res" where
  "getBridgeStatus address tip = bind_res address (\<lambda>addr.
     let status = (\<lambda>h s. JObj [(''network'', JStr ''signet''), (''block_height'', h), (''address'', JStr addr), (''status'', JStr s)])
     in Inr (case tip of
          NetFail _ \<Rightarrow> (False, status (JInt 0) ''degraded'')
        | NotOk _ \<Rightarrow> (True, status (JInt 0) ''online'')
        | HttpOk text \<Rightarrow> (True, status (case parseInt text of None \<Rightarrow> JNull | Some h \<Rightarrow> JInt h) ''online'')))"

section \<open>The read-only routes of /api/bridge\<close>

definition get_deposit_address :: "string res \<Rightarrow> string option \<Rightarrow> response" where
  "get_deposit_address address vault_id =
     (if \<not> truthy vault_id then respond 400 [(''error'', JStr ''vault_id is required'')]
      else (case address of
          Inl e \<Rightarrow> respond 500 [(''error'', JStr (message e))]
        | Inr addr \<Rightarrow> respond 200 [(''address'', JStr addr), (''network'', JStr ''signet''), (''vault_id'', JOpt vault_id),
            (''mempool_url'', JStr (''https://mempool.space/signet/address/'' @ addr))]))"

definition detection_json :: "detection \<Rightarrow> (string \<times> json) list" where
  "detection_json r = (case r of
     None \<Rightarrow> [(''detected'', JBool False)]
   | Some (t, c) \<Rightarrow> [(''detected'', JBool True), (''txid'', JStr t),
       (''confirmations'', case c of None \<Rightarrow> JNull | Some n \<Rightarrow> JInt n)])"

definition get_detect_lock :: "signet_env \<Rightarrow> string option \<Rightarrow> string option \<Rightarrow> string option \<Rightarrow> db \<Rightarrow> response" where
  "get_detect_lock env address amountRaw since d =
     (if \<not> truthy address \<or> \<not> truthy amountRaw then
        respond 400 [(''error'', JStr ''Missing required params: address and amount'')]
      else (case parseFloat (the amountRaw) of
          None \<Rightarrow> respond 400 [(''error'', JStr ''Invalid amount parameter'')]
        | Some amountBTC \<Rightarrow>
            if amountBTC \<le> 0 then respond 400 [(''error'', JStr ''Invalid amount parameter'')]
            else (case detectBTCLock env (the address) amountBTC
                     (if truthy since then parseInt (the since) else None) d of
                Inl e \<Rightarrow> respond 500 [(''detected'', JBool False), (''error'', JStr (message e))]
              | Inr r \<Rightarrow> respond 200 (detection_json r))))"

text \<open>\<open>{ txid, ...result }\<close> of a JSON object.\<close>

definition spread_over :: "string \<Rightarrow> json \<Rightarrow> json \<Rightarrow> (string \<times> json) list" where
  "spread_over k x obj = (case obj of
     JObj kvs \<Rightarrow> (k, case map_of kvs k of None \<Rightarrow> x | Some y \<Rightarrow> y) # filter (\<lambda>(k', _). k' \<noteq> k) kvs
   | _ \<Rightarrow> [(k, x)])"

definition get_verify_tx :: "(string \<Rightarrow> json http) \<Rightarrow> string option \<Rightarrow> response" where
  "get_verify_tx answer t =
     (if \<not> truthy t then respond 400 [(''error'', JStr ''txid is required'')]
      else (case verifyTransaction_btc (answer (the t)) of
          Inl e \<Rightarrow> respond 500 [(''error'', JStr (message e))]
        | Inr j \<Rightarrow> respond 200 (spread_over ''txid'' (JOpt t) j)))"

text \<open>An address that is not configured throws outside of any \<open>try\<close>: then there is no answer.\<close>

definition get_status_bridge :: "string res \<Rightarrow> string http \<Rightarrow> response res" where
  "get_status_bridge address tip = bind_res (getBridgeStatus address tip) (\<lambda>(online, j).
     Inr \<lparr>code = (if online then 200 else 503), body = j\<rparr>)"

text \<open>\<open>x.toFixed(8)\<close> for \<open>|x| < 1e21\<close>: the nearest multiple of \<open>1e-8\<close>, exactly, half up.\<close>

definition fixed8_pos :: "rat \<Rightarrow> string" where
  "fixed8_pos x = (let n = \<lfloor>x * 10 ^ 8 + 1 / 2\<rfloor> in
     to_base 10 (n div 10 ^ 8) @ ''.'' @ pad_start 8 (CHR ''0'') (to_base 10 (n mod 10 ^ 8)))"

definition toFixed8 :: "rat \<Rightarrow> string" where
  "toFixed8 x = (if x < 0 then CHR ''-'' # fixed8_pos (- x) else fixed8_pos x)"

definition btc_text :: "int \<Rightarrow> string" where
  "btc_text sats_v = toFixed8 (dvd_js (of_int sats_v) (10 ^ 8))"

definition minRequired :: int where "minRequired = 51000"

definition get_sender_balance :: "string option \<Rightarrow> (string \<Rightarrow> int list http) \<Rightarrow> response" where
  "get_sender_balance sender utxo_values =
     (let failed = (\<lambda>m. respond 500 [(''error'', JStr m), (''hasFunds'', JBool False), (''balance'', JInt 0)]) in
      if \<not> truthy sender then failed ''SENDER_ADDRESS not configured''
      else (case http_res ''Failed to fetch UTXOs: '' (utxo_values (the sender)) of
          Inl e \<Rightarrow> failed (message e)
        | Inr values \<Rightarrow> let totalBalance = sum_list values in
            respond 200 [(''hasFunds'', JBool (totalBalance \<ge> minRequired)), (''balance'', JInt totalBalance),
              (''balanceBTC'', JStr (btc_text totalBalance)), (''minRequired'', JInt minRequired),
              (''address'', JOpt sender), (''utxoCount'', JInt (int (length values))),
              (''canBroadcast'', JBool (totalBalance \<ge> minRequired)),
              (''message'', JStr (if totalBalance = 0
                 then ''No funds available for auto-broadcast. Please fund the sender address or use manual deposit.''
                 else if totalBalance < minRequired
                 then ''Insufficient funds ('' @ str_of_int totalBalance @ '' sats). Need at least '' @ str_of_int minRequired @ '' sats.''
                 else ''Auto-broadcast available''))]))"

definition post_broadcast :: "(int \<Rightarrow> psbt option \<times> string res) \<Rightarrow> json \<Rightarrow> psbt option \<times> response" where
  "post_broadcast send b = (let amount = json_field b ''amount'' in
     case (if truthy_json amount then parseFloat (js_text (the amount)) else None) of
       None \<Rightarrow> (None, respond 400 [(''error'', JStr ''Valid amount is required'')])
     | Some x \<Rightarrow> (case send (math_round (mul x (10 ^ 8))) of
         (p, Inr t) \<Rightarrow> (p, respond 200 [(''success'', JBool True), (''txid'', JStr t), (''message'', JStr ''Transaction broadcasted successfully'')])
       | (p, Inl e) \<Rightarrow> (p, respond 500 [(''error'', JStr
            (if str_includes (message e) ''No UTXOs found''
             then ''Auto-broadcast unavailable: Sender wallet has no funds. Please use manual deposit or fund the sender address.''
             else if str_includes (message e) ''Insufficient funds'' then ''Insufficient funds in sender wallet. '' @ message e
             else message e)), (''technicalError'', JStr (message e))])))"

definition VAULT_SCRIPT_PUBKEY :: "string option \<Rightarrow> string" where
  "VAULT_SCRIPT_PUBKEY env = (if truthy env then the env else ''0014473a7ca841d83c513373c8396ed1d48ba198a53c'')"

definition get_spv_proof :: "explorer \<Rightarrow> string option \<Rightarrow> string option \<Rightarrow> response" where
  "get_spv_proof ex script_env t =
     (if \<not> truthy t \<or> \<not> (length (the t) = 64 \<and> list_all is_hex (the t))
      then respond 400 [(''error'', JStr ''txid must be a 64-char hex string'')]
      else (case buildSpvProof ex (the t) (VAULT_SCRIPT_PUBKEY script_env) of
          Inl e \<Rightarrow> fail_with 500 (message e)
        | Inr proof \<Rightarrow> (case encodeSpvProofAsCalldata proof of (rawTxBytes, merkleProofWords) \<Rightarrow>
            respond 200 [(''success'', JBool True), (''txid'', JOpt t), (''blockHeight'', JInt (blockHeight proof)),
              (''txPos'', JInt (txPos proof)), (''rawTxHex'', JStr (rawTxHex proof)),
              (''rawTxBytes'', JArr (map JInt rawTxBytes)),
              (''merkleProof'', JArr (map (\<lambda>w. JArr (map JInt w)) (merkleProof proof))),
              (''merkleProofWords'', JArr (map (\<lambda>w. JArr (map JInt w)) merkleProofWords)),
              (''voutIndex'', JInt (int (voutIndex proof))), (''amountSats'', JInt (pr_amountSats proof)),
              (''amountBTC'', JStr (btc_text (pr_amountSats proof)))])))"

definition relay_reached :: "relay_status \<Rightarrow> int \<Rightarrow> bool" where
  "relay_reached s height = (case rs_lastRelayedHeight s of None \<Rightarrow> False | Some h \<Rightarrow> h \<ge> height)"

definition estimatedWait :: "bool \<Rightarrow> bool \<Rightarrow> int \<Rightarrow> rat" where
  "estimatedWait isStored reached now_ms =
     (if isStored \<or> reached then 0 else max 0 (fl (60 - dvd_js (of_int (now_ms mod 60000)) 1000)))"

definition get_header_status :: "(int \<Rightarrow> bool) \<Rightarrow> relay_status \<Rightarrow> int \<Rightarrow> string option \<Rightarrow> response" where
  "get_header_status stored s now_ms height_text =
     (case (case height_text of None \<Rightarrow> None | Some t \<Rightarrow> parseInt t) of
        None \<Rightarrow> respond 400 [(''error'', JStr ''Invalid height parameter'')]
      | Some height \<Rightarrow>
          if height \<le> 0 then respond 400 [(''error'', JStr ''Invalid height parameter'')]
          else respond 200 [(''blockHeight'', JInt height), (''isStored'', JBool (stored height)),
            (''headerRelay'', JObj [(''running'', JBool (rs_running s)),
               (''lastRelayedHeight'', case rs_lastRelayedHeight s of None \<Rightarrow> JNull | Some h \<Rightarrow> JInt h),
               (''pollIntervalSeconds'', JInt (math_round (dvd_js (of_int (rs_pollIntervalMs s)) 1000)))]),
            (''estimatedWaitSeconds'', JNum (estimatedWait (stored height) (relay_reached s height) now_ms))])"

section \<open>POST /api/bridge/spv-deposit\<close>

record spv_body =
  sb_commitment :: string
  sb_blockHeight :: int
  sb_txPos :: int
  sb_rawTxBytes :: "int list"
  sb_voutIndex :: int
  sb_merkleProofWords :: "rat list list"
  sb_bitcoin_txid :: "string option"
  sb_vault_id :: "string option"
  sb_secret :: "string option"
  sb_nullifier_hash :: "string option"
  sb_amount :: "rat option"
  sb_sender :: "string option"

text \<open>
  The schema, in zod 4: \<open>int()\<close> accepts the safe integers, \<open>optional()\<close> a missing field. A list
  is accepted when each of its elements is.
\<close>

definition z_int :: "int \<Rightarrow> int \<Rightarrow> json \<Rightarrow> int option" where
  "z_int lo hi j = (case j of
     JNum x \<Rightarrow> if of_int \<lfloor>x\<rfloor> = x \<and> \<bar>\<lfloor>x\<rfloor>\<bar> < 2 ^ 53 \<and> lo \<le> \<lfloor>x\<rfloor> \<and> \<lfloor>x\<rfloor> \<le> hi then Some \<lfloor>x\<rfloor> else None
   | _ \<Rightarrow> None)"

definition z_number :: "json \<Rightarrow> rat option" where
  "z_number j = (case j of JNum x \<Rightarrow> Some x | _ \<Rightarrow> None)"

fun z_all :: "(json \<Rightarrow> 'a option) \<Rightarrow> json list \<Rightarrow> 'a list option" where
  "z_all p [] = Some []"
| "z_all p (j # js) = (case (p j, z_all p js) of (Some x, Some xs) \<Rightarrow> Some (x # xs) | _ \<Rightarrow> None)"

definition z_array :: "(json \<Rightarrow> 'a option) \<Rightarrow> json \<Rightarrow> 'a list option" where
  "z_array p j = (case j of JArr js \<Rightarrow> z_all p js | _ \<Rightarrow> None)"

definition z_words :: "json \<Rightarrow> rat list option" where
  "z_words j = (case z_array z_number j of Some ws \<Rightarrow> if length ws = 8 then Some ws else None | None \<Rightarrow> None)"

definition field_of :: "(json \<Rightarrow> 'a option) \<Rightarrow> json \<Rightarrow> string \<Rightarrow> 'a option" where
  "field_of p b k = (case json_field b k of None \<Rightarrow> None | Some j \<Rightarrow> p j)"

definition opt_number :: "json \<Rightarrow> string \<Rightarrow> rat option option" where
  "opt_number b k = (case json_field b k of
     None \<Rightarrow> Some None | Some (JNum x) \<Rightarrow> if 0 < x then Some (Some x) else None | _ \<Rightarrow> None)"

definition MAX_SAFE :: int where "MAX_SAFE = 2 ^ 53 - 1"

definition spv_schema :: "json \<Rightarrow> spv_body option" where
  "spv_schema b =
     (case (json_field b ''commitment'', field_of (z_int 1 MAX_SAFE) b ''blockHeight'', field_of (z_int 0 MAX_SAFE) b ''txPos'',
            field_of (z_array (z_int 0 255)) b ''rawTxBytes'', field_of (z_int 0 MAX_SAFE) b ''voutIndex'',
            field_of (z_array z_words) b ''merkleProofWords'') of
        (Some (JStr c), Some bh, Some tp, Some raw, Some vo, Some ws) \<Rightarrow>
          (case (opt_str b ''bitcoin_txid'', opt_str b ''vault_id'', opt_str b ''secret'', opt_str b ''nullifier_hash'',
                 opt_number b ''amount'', opt_str b ''deposit_sender_address'') of
             (Some bt, Some vid, Some se, Some nu, Some am, Some sa) \<Rightarrow>
               if starts_with c ''0x'' \<and> pred_option is_uuid vid \<and> pred_option (\<lambda>a. starts_with a ''tb1'') sa
               then Some \<lparr>sb_commitment = c, sb_blockHeight = bh, sb_txPos = tp, sb_rawTxBytes = raw, sb_voutIndex = vo,
                      sb_merkleProofWords = ws, sb_bitcoin_txid = bt, sb_vault_id = vid, sb_secret = se,
                      sb_nullifier_hash = nu, sb_amount = am, sb_sender = sa\<rparr>
               else None
           | _ \<Rightarrow> None)
      | _ \<Rightarrow> None)"

text \<open>
  What the world answers: \<open>isHeaderStored\<close> per attempt, \<open>executeSpvDeposit\<close>, \<open>waitForTransaction\<close>,
  the random bytes and the clock.
\<close>

record spv_env =
  sv_cl :: crypto_lib
  sv_header :: "nat \<Rightarrow> bool"
  sv_execute :: "string \<Rightarrow> int \<Rightarrow> int \<Rightarrow> int list \<Rightarrow> int \<Rightarrow> rat list list \<Rightarrow> string res"
  sv_wait :: "string \<Rightarrow> unit res"
  sv_account :: string
  sv_salt :: buffer
  sv_rand :: buffer
  sv_iv :: buffer
  sv_now_ms :: int

definition maxAttempts :: nat where
  "maxAttempts = nat \<lceil>dvd_js (120 * 1000) 5000\<rceil>"

text \<open>The polling loop from an attempt on: the attempt that found the header.\<close>

fun await_header :: "(nat \<Rightarrow> bool) \<Rightarrow> nat \<Rightarrow> nat \<Rightarrow> nat option" where
  "await_header stored attempt 0 = None"
| "await_header stored attempt (Suc n) = (if stored attempt then Some attempt else await_header stored (Suc attempt) n)"

definition spv_vault :: "spv_env \<Rightarrow> spv_body \<Rightarrow> string \<Rightarrow> string \<Rightarrow> string \<Rightarrow> string \<Rightarrow> vault_row" where
  "spv_vault env b vid nul hint txHash =
     (let actualSalt = generateSalt (sv_salt env);
          amountInWei = (case sb_amount b of None \<Rightarrow> 0 | Some a \<Rightarrow> \<lfloor>mul a (10 ^ 18)\<rfloor>) in \<lparr>
        v_id = vid, owner_address = sv_account env, v_commitment = sb_commitment b,
        encrypted_amount = encryptAmount (sv_cl env) (sv_iv env) amountInWei actualSalt, salt = actualSalt,
        randomness_hint = hint, lock_duration_days = 30, v_created_at = sv_now_ms env,
        unlock_at = sv_now_ms env + 86400 * 30, v_status = active, deposit_tx_hash = Some txHash,
        withdraw_tx_hash = None, v_bitcoin_txid = sb_bitcoin_txid b, v_nullifier_hash = Some nul,
        bitcoin_withdrawal_address = None, deposit_sender_address = sb_sender b\<rparr>)"

text \<open>
  \<open>INSERT ... ON CONFLICT(id) DO UPDATE\<close>: the checks of the new row come first, then the conflict
  on the id, and only without one the other constraints.
\<close>

definition upsert_vault :: "vault_row \<Rightarrow> db \<Rightarrow> db res" where
  "upsert_vault v d = (case vaults_violation [v] of
     Some e \<Rightarrow> Inl e
   | None \<Rightarrow> if has_vault d (v_id v)
       then update_vaults (\<lambda>r. v_id r = v_id v) (\<lambda>r. r\<lparr>deposit_tx_hash := deposit_tx_hash v,
              v_bitcoin_txid := v_bitcoin_txid v,
              v_nullifier_hash := (case v_nullifier_hash r of None \<Rightarrow> v_nullifier_hash v | Some n \<Rightarrow> Some n),
              deposit_sender_address := (case deposit_sender_address r of None \<Rightarrow> deposit_sender_address v | Some a \<Rightarrow> Some a),
              v_status := active\<rparr>) d
       else insert_vault v d)"

text \<open>Storing the vault; a failing statement is only logged, a failing draw of randomness is not.\<close>

definition store_spv :: "spv_env \<Rightarrow> spv_body \<Rightarrow> string \<Rightarrow> db \<Rightarrow> db res" where
  "store_spv env b txHash d =
     (if truthy (sb_vault_id b) \<and> truthy (sb_nullifier_hash b) then
        bind_res (generateRandomness (sv_rand env)) (\<lambda>hint.
          case upsert_vault (spv_vault env b (the (sb_vault_id b)) (the (sb_nullifier_hash b)) hint txHash) d of
            Inl _ \<Rightarrow> Inr d | Inr d' \<Rightarrow> Inr d')
      else Inr d)"

definition spv_ok :: "spv_body \<Rightarrow> string \<Rightarrow> response" where
  "spv_ok b txHash = respond 200 [(''success'', JBool True), (''transaction_hash'', JStr txHash),
     (''bitcoin_txid'', JOpt (sb_bitcoin_txid b)), (''vault_id'', JOpt (sb_vault_id b)),
     (''voyager_url'', JStr (''https://sepolia.voyager.online/tx/'' @ txHash)),
     (''message'', JStr ''Bitcoin SPV proof verified on-chain. mBTC minted to vault.'')]"

definition header_missing :: "int \<Rightarrow> response" where
  "header_missing h = respond 503 [(''success'', JBool False), (''error'', JStr (''Bitcoin block header '' @ str_of_int h
       @ '' not yet relayed to Starknet. Please wait a moment and try again.'')), (''code'', JStr ''HEADER_NOT_RELAYED''),
     (''blockHeight'', JInt h),
     (''suggestion'', JStr ''The header relay service runs every 30 seconds. Please wait up to 2 minutes and retry.'')]"

definition spv_failed :: "exn \<Rightarrow> response" where
  "spv_failed e =
     (if str_includes (message e) ''Block header not relayed'' then respond 503 [(''success'', JBool False),
        (''error'', JStr ''Bitcoin block header not yet available on Starknet. Please wait and retry.''),
        (''code'', JStr ''HEADER_NOT_RELAYED''), (''technicalError'', JStr (message e))]
      else let isFunding = str_includes (message e) ''INSUFFICIENT SEPOLIA ETH'' in
        respond (if isFunding then 402 else 500) [(''success'', JBool False), (''error'', JStr (message e)),
          (''code'', JStr (if isFunding then ''INSUFFICIENT_GAS'' else ''SPV_DEPOSIT_FAILED''))])"

definition run_spv_deposit :: "spv_env \<Rightarrow> spv_body \<Rightarrow> db \<Rightarrow> response \<times> db" where
  "run_spv_deposit env b d =
     (if await_header (sv_header env) 0 maxAttempts = None then (header_missing (sb_blockHeight b), d)
      else (case bind_res (sv_execute env (sb_commitment b) (sb_blockHeight b) (sb_txPos b) (sb_rawTxBytes b)
                     (sb_voutIndex b) (sb_merkleProofWords b))
                   (\<lambda>h. bind_res (sv_wait env h) (\<lambda>_. bind_res (store_spv env b h d) (\<lambda>d'. Inr (h, d')))) of
          Inl e \<Rightarrow> (spv_failed e, d)
        | Inr (h, d') \<Rightarrow> (spv_ok b h, d')))"

definition post_spv_deposit :: "spv_env \<Rightarrow> json \<Rightarrow> db \<Rightarrow> response \<times> db" where
  "post_spv_deposit env j d = (case spv_schema j of
     None \<Rightarrow> (respond 400 [(''error'', JStr ''Validation failed'')], d)
   | Some b \<Rightarrow> run_spv_deposit env b d)"

section \<open>Lemmas\<close>

text \<open>The comparator compares these keys, so that the sort is the library's.\<close>

definition newest_key :: "sig_utxo \<Rightarrow> bool \<times> int \<times> int" where
  "newest_key u = (if su_confirmed u then (True, - or_zero (su_block_time u), - or_zero (su_block_height u))
     else (False, 0, 0))"

lemma newest_first_key: "newest_first a b \<le> 0 \<longleftrightarrow> newest_key a \<le> newest_key b"
  by (auto simp: newest_first_def newest_key_def Let_def less_eq_prod_def)

lemma insert_cmp_newest: "insert_cmp newest_first u us = insort_key newest_key u us"
  by (induction us) (auto simp: newest_first_key)

lemma sort_cmp_newest: "sort_cmp newest_first us = sort_key newest_key us"
  by (simp add: sort_cmp_def sort_key_def insert_cmp_newest [abs_def])

lemma pick_utxo_in: "pick_utxo s us = Some u \<Longrightarrow> u \<in> set us"
  by (auto simp: pick_utxo_def find_Some_iff split: option.splits list.splits)

lemma pick_utxo_None [simp]: "pick_utxo s us = None \<longleftrightarrow> us = []"
  by (auto simp: pick_utxo_def split: option.splits list.splits)

lemma detect_utxo_Some:
  "detect_utxo env known since s us = Some (t, c) \<Longrightarrow> \<exists>u \<in> set us. su_txid u = t \<and> is_fresh known since u"
  by (auto simp: detect_utxo_def sort_cmp_newest dest!: pick_utxo_in split: option.splits)

lemma detect_utxo_None: "detect_utxo env known since s us = None \<longleftrightarrow> (\<forall>u \<in> set us. \<not> is_fresh known since u)"
proof -
  have "sort_cmp newest_first vs = [] \<longleftrightarrow> vs = []" for vs by (simp add: sort_cmp_newest flip: length_0_conv)
  moreover have "detect_utxo env known since s us = None
      \<longleftrightarrow> pick_utxo s (sort_cmp newest_first (filter (is_fresh known since) us)) = None"
    by (cases "pick_utxo s (sort_cmp newest_first (filter (is_fresh known since) us))")
      (simp_all add: detect_utxo_def del: pick_utxo_None)
  ultimately show ?thesis by (simp add: filter_empty_conv)
qed

lemma utxo_loop_Some:
  "utxo_loop env addr known since s k n = Some (t, c) \<Longrightarrow>
     \<exists>j us u. k \<le> j \<and> j < k + n \<and> se_utxos env addr j = HttpOk us \<and> u \<in> set us \<and> su_txid u = t \<and> is_fresh known since u"
proof (induction n arbitrary: k)
  case (Suc n)
  show ?case
  proof (cases "\<exists>us. se_utxos env addr k = HttpOk us")
    case True
    then obtain us where us: "se_utxos env addr k = HttpOk us" by blast
    then have "detect_utxo env known since s us = Some (t, c)" using Suc.prems by simp
    then obtain u where "u \<in> set us" "su_txid u = t" "is_fresh known since u" using detect_utxo_Some by blast
    then show ?thesis using us by (intro exI [of _ k] exI [of _ us] exI [of _ u]) simp
  next
    case False
    then have "utxo_loop env addr known since s (Suc k) n = Some (t, c)"
      using Suc.prems by (simp split: http.splits)
    then obtain j us u where "Suc k \<le> j" "j < Suc k + n" "se_utxos env addr j = HttpOk us" "u \<in> set us" "su_txid u = t"
        "is_fresh known since u"
      using Suc.IH by blast
    then show ?thesis by (intro exI [of _ j] exI [of _ us] exI [of _ u]) simp
  qed
qed simp

lemma await_header_None: "await_header stored k n = None \<longleftrightarrow> (\<forall>j. k \<le> j \<and> j < k + n \<longrightarrow> \<not> stored j)"
proof (induction n arbitrary: k)
  case (Suc n)
  have "k \<le> i \<longleftrightarrow> i = k \<or> Suc k \<le> i" for i by auto
  then show ?case using Suc.IH [of "Suc k"] by auto
qed auto

lemma maxAttempts_24: "maxAttempts = 24"
  by code_simp

lemma to_fixed8_exact:
  assumes "0 \<le> n" "n < 2 ^ 52"
  shows "btc_text n = to_base 10 (n div 10 ^ 8) @ ''.'' @ pad_start 8 (CHR ''0'') (to_base 10 (n mod 10 ^ 8))"
proof (cases "n = 0")
  case True
  have "dvd_js 0 (10 ^ 8) = 0" by code_simp
  moreover have "\<lfloor>1 / 2 :: rat\<rfloor> = 0" by (simp add: floor_eq_iff)
  ultimately show ?thesis using True by (simp add: btc_text_def toFixed8_def fixed8_pos_def)
next
  case False
  let ?x = "of_int n / 10 ^ 8 :: rat"
  have x: "0 < ?x" using False assms by simp
  have "\<bar>fl ?x - ?x\<bar> \<le> ?x / 2 ^ 53" using fl_error [OF x] .
  moreover have "(of_int n :: rat) < 2 ^ 52" using assms(2) by (metis of_int_less_iff of_int_numeral of_int_power)
  ultimately have e: "\<bar>fl ?x * 10 ^ 8 - of_int n\<bar> < 1 / 2" by (simp add: abs_le_iff abs_less_iff field_simps)
  then have "of_int n \<le> fl ?x * 10 ^ 8 + 1 / 2" "fl ?x * 10 ^ 8 + 1 / 2 < of_int n + 1" by linarith+
  then have "\<lfloor>fl ?x * 10 ^ 8 + 1 / 2\<rfloor> = n" by (rule floor_unique)
  moreover have "?x / 2 ^ 53 < ?x" using x by simp
  then have "0 < fl ?x" using fl_error [OF x] by linarith
  ultimately show ?thesis by (simp add: btc_text_def toFixed8_def fixed8_pos_def dvd_js_def Let_def)
qed

lemma upsert_schema: "schema_ok d \<Longrightarrow> upsert_vault v d = Inr d' \<Longrightarrow> schema_ok d'"
  by (auto simp: upsert_vault_def split: option.splits if_splits
      intro: schema_update_vaults schema_insert_vault)

lemma store_spv_cases:
  "(store_spv env b h d = Inr d' \<longrightarrow> d' = d \<or> (\<exists>v. upsert_vault v d = Inr d'))
   \<and> (is_ok (store_spv env b h d) \<longleftrightarrow>
        (truthy (sb_vault_id b) \<and> truthy (sb_nullifier_hash b) \<longrightarrow> is_ok (generateRandomness (sv_rand env))))"
proof (cases "truthy (sb_vault_id b) \<and> truthy (sb_nullifier_hash b)")
  case True
  show ?thesis
  proof (cases "generateRandomness (sv_rand env)")
    case (Inr hint)
    let ?v = "spv_vault env b (the (sb_vault_id b)) (the (sb_nullifier_hash b)) hint h"
    show ?thesis using True Inr by (cases "upsert_vault ?v d") (auto simp: store_spv_def simp del: bind_res_eq_Inr)
  qed (use True in \<open>simp add: store_spv_def del: bind_res_eq_Inr\<close>)
qed (auto simp: store_spv_def)

lemma store_spv_schema: "schema_ok d \<Longrightarrow> store_spv env b h d = Inr d' \<Longrightarrow> schema_ok d'"
  using store_spv_cases [of env b h d d'] upsert_schema by blast

lemma violation_amount:
  "vaults_violation (vs @ [v\<lparr>encrypted_amount := x\<rparr>]) = vaults_violation (vs @ [v])"
  "vaults_violation [v\<lparr>encrypted_amount := x\<rparr>] = vaults_violation [v]"
  by (simp_all add: table_eval)

lemma spv_vault_amount:
  "spv_vault env (b\<lparr>sb_amount := Some a\<rparr>) vid nul hint h = (spv_vault env b vid nul hint h)
     \<lparr>encrypted_amount := encryptAmount (sv_cl env) (sv_iv env) \<lfloor>mul a (10 ^ 18)\<rfloor> (generateSalt (sv_salt env))\<rparr>"
  by (simp add: spv_vault_def Let_def)

lemma violation_single: "vaults_violation (vs @ [v]) = None \<Longrightarrow> vaults_violation [v] = None"
  by (auto simp: vaults_violation_None uniq_def uniq_opt_def List.map_filter_def split: option.splits)

lemma violation_fresh: "vaults_violation (vaults d @ [v]) = None \<Longrightarrow> \<not> has_vault d (v_id v)"
  by (simp add: vaults_violation_None uniq_def has_vault_def list_ex_iff) (metis image_eqI)

lemma upsert_fresh:
  assumes "vaults_violation (vaults d @ [v]) = None"
  shows "upsert_vault v d = Inr (d\<lparr>vaults := vaults d @ [v]\<rparr>)"
  using assms violation_single [OF assms] violation_fresh [OF assms]
  by (simp add: upsert_vault_def insert_vault_def set_vaults_def)

text \<open>A deposit that succeeds for a vault that the schema admits appends it.\<close>

lemma run_spv_fresh:
  assumes "\<exists>k < 24. sv_header env k"
    and "sv_execute env (sb_commitment b) (sb_blockHeight b) (sb_txPos b) (sb_rawTxBytes b) (sb_voutIndex b)
           (sb_merkleProofWords b) = Inr h" and "sv_wait env h = Inr ()"
    and "sb_vault_id b = Some vid" and "sb_nullifier_hash b = Some nul" and "vid \<noteq> []" and "nul \<noteq> []"
    and "generateRandomness (sv_rand env) = Inr hint"
    and ok: "vaults_violation (vaults d @ [spv_vault env b vid nul hint h]) = None"
  shows "run_spv_deposit env b d = (spv_ok b h, d\<lparr>vaults := vaults d @ [spv_vault env b vid nul hint h]\<rparr>)"
proof -
  have "store_spv env b h d = Inr (d\<lparr>vaults := vaults d @ [spv_vault env b vid nul hint h]\<rparr>)"
    using assms(4-8) upsert_fresh [OF ok] by (simp add: store_spv_def truthy_def)
  moreover obtain k where "await_header (sv_header env) 0 maxAttempts = Some k"
    using assms(1) await_header_None [of "sv_header env" 0 maxAttempts]
    by (cases "await_header (sv_header env) 0 maxAttempts") (auto simp: maxAttempts_24)
  ultimately show ?thesis using assms(2,3) by (simp add: run_spv_deposit_def)
qed

definition demo_signet :: signet_env where
  "demo_signet = \<lparr>se_mempool = (\<lambda>_. HttpOk []), se_utxos = (\<lambda>_ _. HttpOk [\<lparr>su_txid = ''t1'', su_value = 777,
     su_confirmed = False, su_block_time = None, su_block_height = None\<rparr>]), se_tip = NetFail (Error [])\<rparr>"

definition demo_spv :: spv_env where
  "demo_spv = \<lparr>sv_cl = demo_lib, sv_header = (\<lambda>k. k = 2),
     sv_execute = (\<lambda>_ _ _ _ _ _. Inr ''0x00112233445566778899aabbccddeeff''), sv_wait = (\<lambda>_. Inr ()),
     sv_account = ''0x'' @ replicate 64 (CHR ''1''), sv_salt = replicate 32 7, sv_rand = replicate 31 7,
     sv_iv = replicate 12 7, sv_now_ms = 1700000000000\<rparr>"

definition demo_spv_body :: spv_body where
  "demo_spv_body = \<lparr>sb_commitment = ''0x1'', sb_blockHeight = 5, sb_txPos = 0, sb_rawTxBytes = [1, 2], sb_voutIndex = 0,
     sb_merkleProofWords = [], sb_bitcoin_txid = None, sb_vault_id = Some ''v'', sb_secret = None,
     sb_nullifier_hash = Some ''n'', sb_amount = Some (1 / 2), sb_sender = None\<rparr>"

lemma demo_hint: "generateRandomness (replicate 31 7) = Inr (''0x'' @ concat (replicate 31 ''07''))"
  by code_simp

lemma demo_headers: "\<exists>k < 24. sv_header demo_spv k"
  by (rule exI [of _ 2]) (simp add: demo_spv_def)

section \<open>Properties\<close>

text \<open>
  The sort that ranks the unspent outputs is the lexicographic one: unconfirmed outputs first, in
  the explorer's order, then by falling block time, then by falling height; it loses no output.
\<close>

theorem newest_first_sorts:
  "sort_cmp newest_first us = sort_key newest_key us
   \<and> sorted (map newest_key (sort_cmp newest_first us)) \<and> mset (sort_cmp newest_first us) = mset us"
  by (simp add: sort_cmp_newest)

text \<open>
  A detected deposit is a new one: its transaction belongs to no vault, and the explorer reported it,
  in the mempool with an output to the address within the tolerance of the expected amount, or among
  the address's unspent outputs at one of the three attempts.
\<close>

theorem detect_sound:
  assumes "detectBTCLock env address amountBTC sinceMs d = Inr (Some (t, c))"
  shows "(\<forall>v \<in> set (vaults d). v_bitcoin_txid v \<noteq> Some t)
    \<and> ((\<exists>txs tx value. se_mempool env address = HttpOk txs \<and> tx \<in> set txs \<and> mt_txid tx = t
           \<and> (Some address, value) \<in> set (mt_outputs tx) \<and> near (expectedSats amountBTC) value)
       \<or> (\<exists>j us u. 1 \<le> j \<and> j \<le> 3 \<and> se_utxos env address j = HttpOk us \<and> u \<in> set us \<and> su_txid u = t))"
proof -
  let ?known = "getKnownTxids d" and ?s = "expectedSats amountBTC" and ?since = "sinceSeconds sinceMs"
  have known: "\<forall>v \<in> set (vaults d). v_bitcoin_txid v \<noteq> Some t" if "\<not> List.member ?known t"
    using that by (force simp: getKnownTxids_def List.map_filter_def)
  have exact: "near s s" for s by (simp add: near_def tolerance_def)
  let ?hit = "case se_mempool env address of HttpOk txs \<Rightarrow> List.find (mempool_match ?known ?since address ?s) txs | _ \<Rightarrow> None"
  show ?thesis
  proof (cases ?hit)
    case (Some tx)
    then obtain txs where "se_mempool env address = HttpOk txs" "tx \<in> set txs"
        "mempool_match ?known ?since address ?s tx"
      by (auto simp: find_Some_iff split: http.splits)
    moreover have "mt_txid tx = t" using assms Some by (simp add: detectBTCLock_def Let_def split: if_splits)
    ultimately show ?thesis using known exact by (fastforce simp: mempool_match_def list_ex_iff)
  next
    case None
    then have "utxo_loop env address ?known ?since ?s 1 3 = Some (t, c)"
      using assms by (simp add: detectBTCLock_def Let_def split: if_splits)
    then obtain j us u where "1 \<le> j" "j < 1 + 3" "se_utxos env address j = HttpOk us" "u \<in> set us" "su_txid u = t"
        "is_fresh ?known ?since u"
      using utxo_loop_Some by blast
    moreover from this have "j \<le> 3" "\<not> List.member ?known t" by (auto simp: is_fresh_def split: if_splits)
    ultimately show ?thesis using known by blast
  qed
qed

theorem detect_sound_witness:
  "\<exists>t c. detectBTCLock demo_signet ''tb1q'' 1 None empty_db = Inr (Some (t, c))
     \<and> (\<exists>j us u. 1 \<le> j \<and> j \<le> 3 \<and> se_utxos demo_signet ''tb1q'' j = HttpOk us \<and> u \<in> set us \<and> su_txid u = t)"
proof -
  have d: "detectBTCLock demo_signet ''tb1q'' 1 None empty_db = Inr (Some (''t1'', Some 0))"
    by code_simp
  show ?thesis using detect_sound [OF d] d by (auto simp: demo_signet_def)
qed

text \<open>
  Outside of the mempool the amount plays no role: when the mempool shows no match and the explorer
  answers, a deposit is detected exactly when the address has an unspent output that is not of a
  known transaction and not too old, of whatever value.
\<close>

theorem detect_ignores_amount:
  assumes "since_loggable sinceMs" and "se_mempool env address = HttpOk []" and "se_utxos env address 1 = HttpOk us"
  shows "(\<exists>t c. detectBTCLock env address amountBTC sinceMs d = Inr (Some (t, c)))
         \<longleftrightarrow> (\<exists>u \<in> set us. is_fresh (getKnownTxids d) (sinceSeconds sinceMs) u)"
proof -
  have "detectBTCLock env address amountBTC sinceMs d
      = Inr (detect_utxo env (getKnownTxids d) (sinceSeconds sinceMs) (expectedSats amountBTC) us)"
    using assms by (simp add: detectBTCLock_def Let_def numeral_3_eq_3)
  then show ?thesis
    using detect_utxo_None [of env "getKnownTxids d" "sinceSeconds sinceMs" "expectedSats amountBTC" us]
    by (cases "detect_utxo env (getKnownTxids d) (sinceSeconds sinceMs) (expectedSats amountBTC) us") auto
qed

theorem detect_ignores_amount_witness:
  "\<exists>t c. detectBTCLock demo_signet ''tb1q'' 1000 None empty_db = Inr (Some (t, c))"
  by (subst detect_ignores_amount [where us = "[\<lparr>su_txid = ''t1'', su_value = 777, su_confirmed = False,
        su_block_time = None, su_block_height = None\<rparr>]"])
     (simp_all add: demo_signet_def since_loggable_def sinceSeconds_def is_fresh_def getKnownTxids_def empty_db_def
        List.map_filter_def)

text \<open>
  The outcome of an SPV deposit. The route asks for the block header at most 24 times; it answers
  200 exactly when one answer was positive, the contract took the proof, the transaction succeeded
  and the random hint could be drawn; otherwise it answers 503, 402 or 500 and stores nothing; and
  it keeps the schema.
\<close>

theorem spv_deposit_outcome:
  assumes "schema_ok d" and "run_spv_deposit env b d = (r, d')"
  shows "(code r = 200 \<longleftrightarrow> (\<exists>k < 24. sv_header env k)
           \<and> (\<exists>h. sv_execute env (sb_commitment b) (sb_blockHeight b) (sb_txPos b) (sb_rawTxBytes b)
                 (sb_voutIndex b) (sb_merkleProofWords b) = Inr h
               \<and> sv_wait env h = Inr ()
               \<and> (truthy (sb_vault_id b) \<and> truthy (sb_nullifier_hash b) \<longrightarrow> is_ok (generateRandomness (sv_rand env)))))
       \<and> (code r \<noteq> 200 \<longrightarrow> d' = d \<and> (code r = 402 \<or> code r = 500 \<or> code r = 503)) \<and> schema_ok d'"
proof -
  have hdr: "await_header (sv_header env) 0 maxAttempts = None \<longleftrightarrow> \<not> (\<exists>k < 24. sv_header env k)"
    by (auto simp: await_header_None maxAttempts_24)
  have st: "is_ok (store_spv env b h d) \<longleftrightarrow>
      (truthy (sb_vault_id b) \<and> truthy (sb_nullifier_hash b) \<longrightarrow> is_ok (generateRandomness (sv_rand env)))" for h
    using store_spv_cases by blast
  have f: "code (spv_failed e) = 402 \<or> code (spv_failed e) = 500 \<or> code (spv_failed e) = 503" for e
    by (simp add: spv_failed_def Let_def)
  show ?thesis
  proof (cases "await_header (sv_header env) 0 maxAttempts = None")
    case True
    then show ?thesis using assms hdr by (auto simp: run_spv_deposit_def header_missing_def)
  next
    case False
    let ?x = "sv_execute env (sb_commitment b) (sb_blockHeight b) (sb_txPos b) (sb_rawTxBytes b)
        (sb_voutIndex b) (sb_merkleProofWords b)"
    let ?r = "bind_res ?x (\<lambda>h. bind_res (sv_wait env h) (\<lambda>_. bind_res (store_spv env b h d) (\<lambda>d'. Inr (h, d'))))"
    have ok: "is_ok ?r \<longleftrightarrow> (\<exists>h. ?x = Inr h \<and> sv_wait env h = Inr () \<and> is_ok (store_spv env b h d))"
      by (auto simp: is_ok_iff)
    show ?thesis
    proof (cases ?r)
      case (Inl e)
      then have "r = spv_failed e" "d' = d" using assms(2) False by (simp_all add: run_spv_deposit_def)
      moreover have "\<not> is_ok ?r" using Inl by simp
      ultimately show ?thesis using ok st hdr False f [of e] assms(1) by auto
    next
      case (Inr p)
      then obtain h d1 where p: "?r = Inr (h, d1)" by (cases p) auto
      then have "r = spv_ok b h" "d' = d1" using assms(2) False by (simp_all add: run_spv_deposit_def)
      moreover have "is_ok ?r" using p by simp
      moreover have "schema_ok d1" using p store_spv_schema [OF assms(1)] by auto
      ultimately show ?thesis using ok st hdr False by (auto simp: spv_ok_def)
    qed
  qed
qed

theorem spv_deposit_outcome_witness:
  "code (fst (run_spv_deposit demo_spv demo_spv_body empty_db)) = 200
   \<and> schema_ok (snd (run_spv_deposit demo_spv demo_spv_body empty_db))"
proof -
  note o = spv_deposit_outcome [OF schema_empty, of demo_spv demo_spv_body
      "fst (run_spv_deposit demo_spv demo_spv_body empty_db)" "snd (run_spv_deposit demo_spv demo_spv_body empty_db)"]
  have "is_ok (generateRandomness (sv_rand demo_spv))" using demo_hint by (simp add: demo_spv_def)
  moreover have "sv_wait demo_spv h = Inr ()" for h by (simp add: demo_spv_def)
  moreover have "sv_execute demo_spv c bh tp raw vo ws = Inr ''0x00112233445566778899aabbccddeeff''" for c bh tp raw vo ws
    by (simp add: demo_spv_def)
  ultimately show ?thesis using o demo_headers by simp
qed

text \<open>
  Nothing ties the stored amount to the proof: the amount of the request goes into the vault as it
  is, for any positive number whatever, with the same call of the contract and the same answer; and it is
  this amount that a later withdrawal reads and burns.
\<close>

theorem spv_amount_unchecked:
  assumes "aead_law (sv_cl env)" and "length (sv_iv env) = 12" and "\<exists>k < 24. sv_header env k"
    and "sv_execute env (sb_commitment b) (sb_blockHeight b) (sb_txPos b) (sb_rawTxBytes b) (sb_voutIndex b)
           (sb_merkleProofWords b) = Inr h" and "sv_wait env h = Inr ()"
    and "sb_vault_id b = Some vid" and "sb_nullifier_hash b = Some nul" and "vid \<noteq> []" and "nul \<noteq> []"
    and "generateRandomness (sv_rand env) = Inr hint"
    and "vaults_violation (vaults d @ [spv_vault env b vid nul hint h]) = None" and "isValidAddress (sv_account env)"
  shows "\<forall>a. \<exists>d' v. run_spv_deposit env (b\<lparr>sb_amount := Some a\<rparr>) d = (spv_ok b h, d')
     \<and> row_by v_id vid (vaults d') = Some v \<and> v_nullifier_hash v = Some nul
     \<and> vault_amount (sv_cl env) vid d' = Inr \<lfloor>mul a (10 ^ 18)\<rfloor>
     \<and> (\<forall>burn t. burn (sv_account env) \<lfloor>mul a (10 ^ 18)\<rfloor> = Inr t \<longrightarrow> withdraw_burn (sv_cl env) burn v d' = Inr t)"
proof
  fix a
  let ?b = "b\<lparr>sb_amount := Some a\<rparr>"
  define v where "v = spv_vault env ?b vid nul hint h"
  have f: "v_id v = vid" "v_nullifier_hash v = Some nul" "withdraw_tx_hash v = None" "owner_address v = sv_account env"
    "encrypted_amount v = encryptAmount (sv_cl env) (sv_iv env) \<lfloor>mul a (10 ^ 18)\<rfloor> (salt v)"
    by (simp_all add: v_def spv_vault_def Let_def)
  have ok: "vaults_violation (vaults d @ [v]) = None"
    using assms(11) by (simp add: v_def spv_vault_amount violation_amount)
  define d' where "d' = d\<lparr>vaults := vaults d @ [v]\<rparr>"
  have run: "run_spv_deposit env ?b d = (spv_ok b h, d')"
    using run_spv_fresh [of env ?b h vid nul hint d] assms(3-10) ok by (simp add: v_def d'_def spv_ok_def)
  have uq: "uniq v_id (vaults d')" using ok by (simp add: d'_def vaults_violation_None)
  have row: "row_by v_id vid (vaults d') = Some v"
    using row_by_unique [OF uq, of v] f(1) by (simp add: d'_def)
  then have amt: "vault_amount (sv_cl env) vid d' = Inr \<lfloor>mul a (10 ^ 18)\<rfloor>"
    using decrypt_encrypt [OF assms(1,2)] f(5) by (simp add: vault_amount_def)
  have "sv_account env \<noteq> []" "sv_account env \<noteq> ''0x0''"
    using assms(12) by (auto simp: isValidAddress_def hex_0x_def)
  then have "\<forall>burn t. burn (sv_account env) \<lfloor>mul a (10 ^ 18)\<rfloor> = Inr t \<longrightarrow> withdraw_burn (sv_cl env) burn v d' = Inr t"
    using f row amt assms(12) by (simp add: withdraw_burn_def)
  then show "\<exists>d' v. run_spv_deposit env ?b d = (spv_ok b h, d')
     \<and> row_by v_id vid (vaults d') = Some v \<and> v_nullifier_hash v = Some nul
     \<and> vault_amount (sv_cl env) vid d' = Inr \<lfloor>mul a (10 ^ 18)\<rfloor>
     \<and> (\<forall>burn t. burn (sv_account env) \<lfloor>mul a (10 ^ 18)\<rfloor> = Inr t \<longrightarrow> withdraw_burn (sv_cl env) burn v d' = Inr t)"
    using run row f(2) amt by blast
qed

theorem spv_amount_unchecked_witness:
  "\<exists>d'. run_spv_deposit demo_spv (demo_spv_body\<lparr>sb_amount := Some 21000000\<rparr>) empty_db
         = (spv_ok demo_spv_body ''0x00112233445566778899aabbccddeeff'', d')
     \<and> vault_amount demo_lib ''v'' d' = Inr \<lfloor>mul 21000000 (10 ^ 18)\<rfloor>"
proof -
  have a: "aead_law (sv_cl demo_spv)" "length (sv_iv demo_spv) = 12" using aead_law_demo by (simp_all add: demo_spv_def)
  have x: "sv_execute demo_spv (sb_commitment demo_spv_body) (sb_blockHeight demo_spv_body) (sb_txPos demo_spv_body)
      (sb_rawTxBytes demo_spv_body) (sb_voutIndex demo_spv_body) (sb_merkleProofWords demo_spv_body)
      = Inr ''0x00112233445566778899aabbccddeeff''" "sv_wait demo_spv h = Inr ()" for h
    by (simp_all add: demo_spv_def)
  have b: "sb_vault_id demo_spv_body = Some ''v''" "sb_nullifier_hash demo_spv_body = Some ''n''"
    by (simp_all add: demo_spv_body_def)
  have g: "generateRandomness (sv_rand demo_spv) = Inr (''0x'' @ concat (replicate 31 ''07''))"
    using demo_hint by (simp add: demo_spv_def)
  have v: "vaults_violation (vaults empty_db @ [spv_vault demo_spv demo_spv_body ''v'' ''n'' hint
      ''0x00112233445566778899aabbccddeeff'']) = None" for hint
    by (simp add: spv_vault_def Let_def table_eval)
  have "isValidAddress (''0x'' @ replicate 64 (CHR ''1''))" by code_simp
  then have "isValidAddress (sv_account demo_spv)" by (simp add: demo_spv_def)
  then show ?thesis
    using spv_amount_unchecked [OF a demo_headers x b _ _ g v, rule_format, of 21000000]
    by (auto simp: demo_spv_def)
qed

text \<open>
  C40. The BTC texts that the bridge shows (\<open>(sats / 1e8).toFixed(8)\<close>) are exact for every amount below
  \<open>2 ^ 52\<close> satoshis, twice of all there will be: whole coins, a point, and all eight digits.
\<close>

theorem btc_text_exact:
  assumes "0 \<le> n" and "n < 2 ^ 52"
  shows "btc_text n = to_base 10 (n div 10 ^ 8) @ ''.'' @ pad_start 8 (CHR ''0'') (to_base 10 (n mod 10 ^ 8))"
  using assms by (rule to_fixed8_exact)

theorem btc_text_exact_witness: "btc_text 2100000000000001 = ''21000000.00000001''"
proof -
  have "to_base 10 21000000 @ ''.'' @ pad_start 8 (CHR ''0'') (to_base 10 1) = ''21000000.00000001''" by code_simp
  then show ?thesis using btc_text_exact [of 2100000000000001] by simp
qed

text \<open>
  The two conversions of a deposit agree on every allowed denomination: the wei that a deposit
  stores are turned back into the denomination's satoshis by the withdrawal.
\<close>

theorem denominations_round_trip:
  "map (\<lambda>x. actualSats \<lfloor>mul x (10 ^ 18)\<rfloor>) ALLOWED_DENOMINATIONS_BTC = ALLOWED_DENOMINATIONS_SATS
   \<and> map expectedSats ALLOWED_DENOMINATIONS_BTC = ALLOWED_DENOMINATIONS_SATS"
  by code_simp

end
