(* ===== verification/Admin.thy ===== *)
theory Admin
  imports Bridge AuditTrail
begin

text \<open>
  \<open>config/env.ts\<close>, \<open>services/WalletService.ts\<close>, the health check and the start-up work of
  \<open>index.ts\<close>, and \<open>routes/debug.ts\<close>. The process environment is a partial function of names; the
  URL test of zod is an argument. Printing, and the order in which Express mounts its routers,
  are not modelled.
\<close>

section \<open>The environment\<close>

type_synonym environment = "string \<Rightarrow> string option"

record env_config =
  cf_rpc_url :: string
  cf_vault_contract :: string
  cf_mockbtc_contract :: string
  cf_db_path :: string
  cf_encryption_key :: string
  cf_jwt_secret :: string
  cf_port :: rat
  cf_node_env :: string
  cf_account_address :: string
  cf_private_key :: string
  cf_bitcoin_network :: string
  cf_xverse :: string
  cf_mempool_url :: string
  cf_min_confirmations :: rat
  cf_starknet_account :: string
  cf_sepolia_key :: string
  cf_vault_address :: string
  cf_sbtc_address :: string

text \<open>A string with a default is its default or passes the check; without a default it must be set.\<close>

definition env_str :: "environment \<Rightarrow> string \<Rightarrow> string option \<Rightarrow> (string \<Rightarrow> bool) \<Rightarrow> string option" where
  "env_str e k dflt p = (case e k of None \<Rightarrow> dflt | Some s \<Rightarrow> if p s then Some s else None)"

definition env_num :: "environment \<Rightarrow> string \<Rightarrow> rat \<Rightarrow> rat option" where
  "env_num e k dflt = (case e k of None \<Rightarrow> Some dflt | Some s \<Rightarrow> number_of_string s)"

definition one_of :: "string list \<Rightarrow> string \<Rightarrow> bool" where
  "one_of xs s = List.member xs s"

definition with_prefix :: "string \<Rightarrow> string \<Rightarrow> bool" where
  "with_prefix p s = starts_with s p"

definition env_parse :: "(string \<Rightarrow> bool) \<Rightarrow> environment \<Rightarrow> env_config" where
  "env_parse is_url e = \<lparr>
     cf_rpc_url = the (env_str e ''STARKNET_RPC_URL'' None (\<lambda>u. u \<noteq> [] \<and> starts_with u ''https://'')),
     cf_vault_contract = the (env_str e ''VAULT_CONTRACT_ADDRESS'' (Some ''0x072d121d6a86c73b649519cb51546dfba728ff0f1f3c041662ea7088ef01775'') (\<lambda>_. True)),
     cf_mockbtc_contract = the (env_str e ''MOCKBTC_CONTRACT_ADDRESS'' (Some ''0x0201c23ba72660516c987e8d11b8f6238b386f13099880cd1a8f5b065667343'') (\<lambda>_. True)),
     cf_db_path = the (env_str e ''DB_PATH'' (Some ''./privatebtc-production-v4.db'') (\<lambda>_. True)),
     cf_encryption_key = the (env_str e ''ENCRYPTION_KEY'' None (\<lambda>s. 32 \<le> length s)),
     cf_jwt_secret = the (env_str e ''JWT_SECRET'' None (\<lambda>s. s \<noteq> [])),
     cf_port = the (env_num e ''PORT'' 3001),
     cf_node_env = the (env_str e ''NODE_ENV'' (Some ''development'') (one_of [''development'', ''production'', ''test''])),
     cf_account_address = the (env_str e ''ACCOUNT_ADDRESS'' (Some []) (\<lambda>_. True)),
     cf_private_key = the (env_str e ''PRIVATE_KEY'' (Some []) (\<lambda>_. True)),
     cf_bitcoin_network = the (env_str e ''BITCOIN_NETWORK'' (Some ''signet'') (one_of [''signet'', ''mainnet'', ''testnet''])),
     cf_xverse = the (env_str e ''XVERSE_WALLET_ADDRESS'' (Some ''tb1q'') (with_prefix ''tb1'')),
     cf_mempool_url = the (env_str e ''MEMPOOL_API_URL'' (Some ''https://mempool.space/signet/api'') is_url),
     cf_min_confirmations = the (env_num e ''SIGNET_MIN_CONFIRMATIONS'' 1),
     cf_starknet_account = the (env_str e ''STARKNET_ACCOUNT_ADDRESS'' (Some ''0x'') (with_prefix ''0x'')),
     cf_sepolia_key = the (env_str e ''SEPOLIA_PRIVATE_KEY'' (Some ''0x'') (with_prefix ''0x'')),
     cf_vault_address = the (env_str e ''VAULT_ADDRESS'' (Some ''0x'') (with_prefix ''0x'')),
     cf_sbtc_address = the (env_str e ''SBTC_ADDRESS'' (Some ''0x'') (with_prefix ''0x''))\<rparr>"

definition env_valid :: "(string \<Rightarrow> bool) \<Rightarrow> environment \<Rightarrow> bool" where
  "env_valid is_url e =
     (env_str e ''STARKNET_RPC_URL'' None (\<lambda>u. u \<noteq> [] \<and> starts_with u ''https://'') \<noteq> None
      \<and> env_str e ''ENCRYPTION_KEY'' None (\<lambda>s. 32 \<le> length s) \<noteq> None
      \<and> env_str e ''JWT_SECRET'' None (\<lambda>s. s \<noteq> []) \<noteq> None
      \<and> env_num e ''PORT'' 3001 \<noteq> None
      \<and> env_str e ''NODE_ENV'' (Some ''development'') (one_of [''development'', ''production'', ''test'']) \<noteq> None
      \<and> env_str e ''BITCOIN_NETWORK'' (Some ''signet'') (one_of [''signet'', ''mainnet'', ''testnet'']) \<noteq> None
      \<and> env_str e ''XVERSE_WALLET_ADDRESS'' (Some ''tb1q'') (with_prefix ''tb1'') \<noteq> None
      \<and> env_str e ''MEMPOOL_API_URL'' (Some ''https://mempool.space/signet/api'') is_url \<noteq> None
      \<and> env_num e ''SIGNET_MIN_CONFIRMATIONS'' 1 \<noteq> None
      \<and> list_all (\<lambda>k. env_str e k (Some ''0x'') (with_prefix ''0x'') \<noteq> None)
          [''STARKNET_ACCOUNT_ADDRESS'', ''SEPOLIA_PRIVATE_KEY'', ''VAULT_ADDRESS'', ''SBTC_ADDRESS''])"

text \<open>\<open>None\<close>: the process exits.\<close>

definition envSchema :: "(string \<Rightarrow> bool) \<Rightarrow> environment \<Rightarrow> env_config option" where
  "envSchema is_url e = (if env_valid is_url e then Some (env_parse is_url e) else None)"

section \<open>WalletService\<close>

record account =
  ac_address :: string
  ac_signer :: string
  ac_node :: string

definition or_str :: "string \<Rightarrow> string \<Rightarrow> string" where
  "or_str a b = (if a \<noteq> [] then a else b)"

definition wallet_key :: "env_config \<Rightarrow> string" where
  "wallet_key c = or_str (cf_private_key c) (cf_sepolia_key c)"

definition wallet_address :: "env_config \<Rightarrow> string" where
  "wallet_address c = or_str (cf_account_address c) (cf_starknet_account c)"

text \<open>\<open>cached\<close> is the module's singleton.\<close>

definition getAccount :: "env_config \<Rightarrow> account option \<Rightarrow> account option" where
  "getAccount c cached = (case cached of
     Some a \<Rightarrow> Some a
   | None \<Rightarrow> if wallet_key c = [] \<or> wallet_address c = [] \<or> wallet_address c = ''0x'' then None
       else Some \<lparr>ac_address = wallet_address c, ac_signer = wallet_key c, ac_node = cf_rpc_url c\<rparr>)"

definition isAccountConfigured :: "env_config \<Rightarrow> bool" where
  "isAccountConfigured c = (wallet_key c \<noteq> [] \<and> wallet_address c \<noteq> [] \<and> wallet_address c \<noteq> ''0x'')"

definition getAccountAddress :: "env_config \<Rightarrow> string option" where
  "getAccountAddress c = (if wallet_address c \<noteq> [] \<and> wallet_address c \<noteq> ''0x'' then Some (wallet_address c) else None)"

text \<open>\<open>call\<close> is \<open>balanceOf\<close> of the token, \<open>to_bn\<close> the library's reading of a u256.\<close>

definition wallet_balance :: "(string \<Rightarrow> (string \<times> string) res) \<Rightarrow> (int \<times> int \<Rightarrow> int) \<Rightarrow> string \<Rightarrow> int res" where
  "wallet_balance call to_bn walletAddress =
     bind_res (call walletAddress) (\<lambda>(lo, hi).
     bind_res (big_int_res lo) (\<lambda>l. bind_res (big_int_res hi) (\<lambda>h. Inr (to_bn (l, h)))))"

section \<open>index.ts\<close>

definition debug_mounted :: "env_config \<Rightarrow> bool" where
  "debug_mounted c = (cf_node_env c = ''development'')"

text \<open>The service's answers with their \<open>catch\<close> values, and whether the database answers.\<close>

definition health :: "int res \<Rightarrow> bool res \<Rightarrow> bool res \<Rightarrow> bool \<Rightarrow> json \<Rightarrow> relay_status \<Rightarrow> int \<Rightarrow> response" where
  "health live vault_ok token_ok dbConnected circuit_json s now_ms =
     (let blockNumber = (case live of Inl _ \<Rightarrow> 0 | Inr n \<Rightarrow> n);
          reachable = (\<lambda>r. case r of Inl _ \<Rightarrow> False | Inr b \<Rightarrow> b) in
      \<lparr>code = 200, body = JObj [(''status'', JStr (if blockNumber > 0 then ''ok'' else ''degraded'')),
        (''starknet'', JObj [(''network'', JStr ''sepolia''), (''blockNumber'', JInt blockNumber),
           (''vaultContractReachable'', JBool (reachable vault_ok)), (''mockBtcContractReachable'', JBool (reachable token_ok)),
           (''circuit'', circuit_json)]),
        (''headerRelay'', JObj [(''running'', JBool (rs_running s)),
           (''lastRelayedHeight'', case rs_lastRelayedHeight s of None \<Rightarrow> JNull | Some h \<Rightarrow> JInt h),
           (''pollIntervalSeconds'', JInt (math_round (dvd_js (of_int (rs_pollIntervalMs s)) 1000)))]),
        (''db'', JObj [(''connected'', JBool dbConnected)]), (''timestamp'', JInt now_ms)]\<rparr>)"

text \<open>The processor's settings: \<open>None\<close> is \<open>NaN\<close>.\<close>

definition processor_settings :: "environment \<Rightarrow> int option \<times> int option \<times> bool" where
  "processor_settings e =
     (parseInt (if truthy (e ''WITHDRAWAL_PROCESSOR_INTERVAL_MS'') then the (e ''WITHDRAWAL_PROCESSOR_INTERVAL_MS'') else ''30000''),
      parseInt (if truthy (e ''WITHDRAWAL_MIN_CONFIRMATIONS'') then the (e ''WITHDRAWAL_MIN_CONFIRMATIONS'') else ''1''),
      e ''USE_OPCAT_COVENANTS'' = Some ''true'')"

definition sync_todo :: "db \<Rightarrow> (string \<times> string) list" where
  "sync_todo d = List.map_filter (\<lambda>v. if v_status v = pending then map_option (\<lambda>h. (v_id v, h)) (deposit_tx_hash v) else None)
     (vaults d)"

definition sync_confirmed :: "live_receipt res \<Rightarrow> bool" where
  "sync_confirmed answer = (case answer of Inl _ \<Rightarrow> False
     | Inr r \<Rightarrow> execution_status r = Some ''SUCCEEDED'' \<or> finality_status r = Some ''ACCEPTED_ON_L2'')"

fun sync_loop :: "(string \<Rightarrow> live_receipt res) \<Rightarrow> (string \<times> string) list \<Rightarrow> db \<Rightarrow> db" where
  "sync_loop rpc [] d = d"
| "sync_loop rpc ((i, h) # todo) d = sync_loop rpc todo
     (if sync_confirmed (rpc h)
      then (case update_vaults (\<lambda>v. v_id v = i) (\<lambda>v. v\<lparr>v_status := active\<rparr>) d of Inl _ \<Rightarrow> d | Inr d' \<Rightarrow> d')
      else d)"

definition autoSync :: "(string \<Rightarrow> live_receipt res) \<Rightarrow> db \<Rightarrow> db" where
  "autoSync rpc d = sync_loop rpc (sync_todo d) d"

section \<open>routes/debug.ts\<close>

definition thrown :: "exn \<Rightarrow> response" where
  "thrown e = errorHandler \<lparr>from_json_parser = False, err_status = 0, err_message = message e\<rparr>"

definition timeTravel :: "int \<Rightarrow> string \<Rightarrow> db \<Rightarrow> response \<times> db" where
  "timeTravel now vid d =
     (if vid = [] then (fail_with 400 ''vaultId is required'', d)
      else let past = now - 1; p = (\<lambda>v. v_id v = vid \<and> v_status v = active) in
        (case update_vaults p (\<lambda>v. v\<lparr>unlock_at := past\<rparr>) d of
           Inl e \<Rightarrow> (thrown e, d)
         | Inr d' \<Rightarrow> if \<not> list_ex p (vaults d) then (fail_with 404 ''Vault not found or not in active status'', d')
             else (respond 200 [(''success'', JBool True),
               (''message'', JStr (''Vault '' @ vid @ '' time-travelled '' @ emdash @ '' unlock_at set to past'')),
               (''newUnlockAt'', JInt past)], d')))"

definition debugVaults :: "db \<Rightarrow> response" where
  "debugVaults d = (let vs = take 50 (sort_key (\<lambda>v. - v_created_at v) (vaults d)) in
     respond 200 [(''success'', JBool True), (''count'', JInt (int (length vs))), (''vaults'', JArr (map (\<lambda>v. JObj [
       (''id'', JStr (v_id v)), (''owner_address'', JStr (owner_address v)), (''commitment'', JStr (v_commitment v)),
       (''status'', JStr (vault_status_str (v_status v))), (''lock_duration_days'', JInt (lock_duration_days v)),
       (''created_at'', JInt (v_created_at v)), (''unlock_at'', JInt (unlock_at v)),
       (''deposit_tx_hash'', JOpt (deposit_tx_hash v))]) vs))])"

definition JOptInt :: "int option \<Rightarrow> json" where
  "JOptInt n = (case n of None \<Rightarrow> JNull | Some z \<Rightarrow> JInt z)"

definition debugAuthorizations :: "db \<Rightarrow> response" where
  "debugAuthorizations d = (let az = take 20 (sort_key (\<lambda>a. - a_created_at a) (auths d)) in
     respond 200 [(''success'', JBool True), (''count'', JInt (int (length az))), (''authorizations'', JArr (map (\<lambda>a. JObj [
       (''id'', JStr (a_id a)), (''vault_id'', JStr (a_vault_id a)), (''nullifier_hash'', JStr (a_nullifier_hash a)),
       (''starknet_tx_hash'', JStr (starknet_tx_hash a)), (''bitcoin_address'', JStr (bitcoin_address a)),
       (''amount_sats'', JInt (amount_sats a)), (''status'', JStr (auth_status_str (a_status a))),
       (''created_at'', JInt (a_created_at a)), (''confirmed_at'', JOptInt (confirmed_at a)),
       (''bitcoin_txid'', JOpt (a_bitcoin_txid a)), (''error_message'', JOpt (error_message a))]) az))])"

definition debugCovenantStatus :: "covenant_status res \<Rightarrow> response" where
  "debugCovenantStatus status = (case status of
     Inl e \<Rightarrow> fail_with 500 (message e)
   | Inr s \<Rightarrow> respond 200 [(''success'', JBool True), (''covenant'', JObj [(''address'', JStr (cs_address s)),
       (''balance'', JInt (cs_balance s)), (''utxoCount'', JInt (int (cs_utxoCount s))), (''network'', JStr (cs_network s))])])"

text \<open>The payout of the route, without the check of the burn; \<open>reset\<close> is its \<open>catch\<close>.\<close>

definition forceWithdrawal :: "int \<Rightarrow> covenant_env \<Rightarrow> string \<Rightarrow> db \<Rightarrow> psbt option \<times> response \<times> db" where
  "forceWithdrawal now env authId d =
     (if authId = [] then (None, fail_with 400 ''authId required'', d)
      else (case getAuthorizationById authId d of
          None \<Rightarrow> (None, fail_with 404 (''Authorization '' @ authId @ '' not found''), d)
        | Some auth \<Rightarrow>
            if a_status auth = a_completed then (None, respond 200 [(''success'', JBool True),
              (''message'', JStr ''Already completed''), (''bitcoinTxid'', JOpt (a_bitcoin_txid auth))], d)
            else let d1 = auth_step (Update now authId a_processing None None) d;
                     failed = (\<lambda>e d. (fail_with 500 (message e), auth_step (Update now authId a_pending None None) d)) in
              (case executeCovenantWithdrawal env authId d1 of
                 (p, Inl e) \<Rightarrow> (p, failed e d1)
               | (p, Inr t) \<Rightarrow> (case updateStatus now authId a_completed (Some t) None d1 of
                   Inl e \<Rightarrow> (p, failed e d1)
                 | Inr d2 \<Rightarrow> (p, respond 200 [(''success'', JBool True), (''bitcoinTxid'', JStr t),
                     (''explorerUrl'', JStr (''https://mempool.space/signet/tx/'' @ t)),
                     (''message'', JStr (str_of_int (amount_sats auth) @ '' sats sent to '' @ bitcoin_address auth))], d2)))))"

section \<open>Lemmas\<close>

definition synced :: "(string \<Rightarrow> live_receipt res) \<Rightarrow> (string \<times> string) list \<Rightarrow> vault_row \<Rightarrow> vault_row" where
  "synced rpc todo v = (if \<exists>(i, h) \<in> set todo. i = v_id v \<and> sync_confirmed (rpc h) then v\<lparr>v_status := active\<rparr> else v)"

lemma synced_Nil [simp]: "synced rpc [] = id"
  by (auto simp: synced_def)

lemma synced_Cons: "synced rpc todo (synced rpc [p] v) = synced rpc (p # todo) v"
  by (auto simp: synced_def split: prod.splits)

lemma sync_loop_spec:
  "schema_ok d \<Longrightarrow> sync_loop rpc todo d = d\<lparr>vaults := map (synced rpc todo) (vaults d)\<rparr>"
proof (induction todo arbitrary: d)
  case Nil
  then show ?case by simp
next
  case (Cons p todo)
  obtain i h where p: "p = (i, h)" by fastforce
  let ?d = "d\<lparr>vaults := map (synced rpc [p]) (vaults d)\<rparr>"
  show ?case
  proof (cases "sync_confirmed (rpc h)")
    case False
    then have "synced rpc [p] v = v" for v by (simp add: synced_def p)
    then show ?thesis using Cons.IH [OF Cons.prems] False synced_Cons [of rpc todo p] p by simp
  next
    case True
    have "synced rpc [p] v = (if v_id v = i then v\<lparr>v_status := active\<rparr> else v)" for v
      using True by (simp add: synced_def p)
    then have "update_by (\<lambda>v. v_id v = i) (\<lambda>v. v\<lparr>v_status := active\<rparr>) (vaults d) = map (synced rpc [p]) (vaults d)"
      by (simp add: update_by_def)
    then have u: "update_vaults (\<lambda>v. v_id v = i) (\<lambda>v. v\<lparr>v_status := active\<rparr>) d = Inr ?d"
      using update_status_ok [OF Cons.prems] by simp
    have "schema_ok ?d" using schema_update_vaults [OF Cons.prems u] by simp
    from Cons.IH [OF this] show ?thesis using True u synced_Cons [of rpc todo p] p by (simp add: comp_def)
  qed
qed

lemma in_sync_todo: "(i, h) \<in> set (sync_todo d) \<longleftrightarrow>
    (\<exists>v \<in> set (vaults d). v_status v = pending \<and> deposit_tx_hash v = Some h \<and> v_id v = i)"
  by (force simp: sync_todo_def List.map_filter_def)

lemma synced_todo:
  assumes "schema_ok d" "v \<in> set (vaults d)"
  shows "synced rpc (sync_todo d) v = (if v_status v = pending \<and> (\<exists>h. deposit_tx_hash v = Some h \<and> sync_confirmed (rpc h))
     then v\<lparr>v_status := active\<rparr> else v)"
proof -
  have same: "w = v" if "w \<in> set (vaults d)" "v_id w = v_id v" for w
    using assms that by (auto simp: schema_ok_def vaults_violation_None uniq_def distinct_map dest: inj_onD)
  have "(\<exists>(i, h) \<in> set (sync_todo d). i = v_id v \<and> sync_confirmed (rpc h))
      \<longleftrightarrow> v_status v = pending \<and> (\<exists>h. deposit_tx_hash v = Some h \<and> sync_confirmed (rpc h))"
    using in_sync_todo [of _ _ d] same assms(2) by blast
  then show ?thesis by (simp add: synced_def)
qed

definition covenant_mode :: proc_config where
  "covenant_mode = \<lparr>pollIntervalMs = 30000, minConfirmations = 1, useCovenants = True\<rparr>"

definition no_receipt :: "int \<Rightarrow> covenant_env \<Rightarrow> btc_env \<Rightarrow> proc_env" where
  "no_receipt now env w = \<lparr>clock = now, receipt = (\<lambda>_. None), wallet_env = w, cov_env = env\<rparr>"

lemma force_processes:
  assumes "getAuthorizationById i d = Some a" and "a_status a \<noteq> a_completed" and "i \<noteq> []"
  shows "\<exists>r. forceWithdrawal now env i d
     = (fst (processAuthorization covenant_mode (no_receipt now env w) a d), r,
        snd (processAuthorization covenant_mode (no_receipt now env w) a d))"
proof -
  have i: "a_id a = i" by (rule get_id [OF assms(1)])
  let ?d1 = "auth_step (Update now i a_processing None None) d"
  obtain p x where e: "executeCovenantWithdrawal env i ?d1 = (p, x)" by fastforce
  show ?thesis
  proof (cases x)
    case (Inl m)
    then show ?thesis using assms i e
      by (simp add: forceWithdrawal_def processAuthorization_def payout_def verifyStarknetTransaction_def
          covenant_mode_def no_receipt_def Let_def del: auth_step.simps)
  next
    case (Inr t)
    then show ?thesis using assms i e
      by (cases "updateStatus now i a_completed (Some t) None ?d1")
        (simp_all add: forceWithdrawal_def processAuthorization_def payout_def verifyStarknetTransaction_def
          covenant_mode_def no_receipt_def Let_def del: auth_step.simps)
  qed
qed

lemma env_str_ok:
  assumes "env_str e k dflt p \<noteq> None" and "pred_option p dflt"
  shows "p (the (env_str e k dflt p))"
  using assms by (auto simp: env_str_def split: option.splits if_splits)

lemma env_parse_simps:
  "cf_rpc_url (env_parse is_url e) = the (env_str e ''STARKNET_RPC_URL'' None (\<lambda>u. u \<noteq> [] \<and> starts_with u ''https://''))"
  "cf_encryption_key (env_parse is_url e) = the (env_str e ''ENCRYPTION_KEY'' None (\<lambda>s. 32 \<le> length s))"
  "cf_node_env (env_parse is_url e) = the (env_str e ''NODE_ENV'' (Some ''development'') (one_of [''development'', ''production'', ''test'']))"
  "cf_xverse (env_parse is_url e) = the (env_str e ''XVERSE_WALLET_ADDRESS'' (Some ''tb1q'') (with_prefix ''tb1''))"
  "cf_account_address (env_parse is_url e) = the (env_str e ''ACCOUNT_ADDRESS'' (Some []) (\<lambda>_. True))"
  "cf_private_key (env_parse is_url e) = the (env_str e ''PRIVATE_KEY'' (Some []) (\<lambda>_. True))"
  "cf_starknet_account (env_parse is_url e) = the (env_str e ''STARKNET_ACCOUNT_ADDRESS'' (Some ''0x'') (with_prefix ''0x''))"
  "cf_sepolia_key (env_parse is_url e) = the (env_str e ''SEPOLIA_PRIVATE_KEY'' (Some ''0x'') (with_prefix ''0x''))"
  by (simp_all add: env_parse_def)

lemma with_prefix_nonempty: "with_prefix (c # p) s \<Longrightarrow> s \<noteq> []"
  by (auto simp: with_prefix_def starts_with_def)

lemma envSchema_fields:
  assumes "envSchema is_url e = Some c"
  shows "c = env_parse is_url e" "starts_with (cf_rpc_url c) ''https://''" "32 \<le> length (cf_encryption_key c)"
    "one_of [''development'', ''production'', ''test''] (cf_node_env c)" "with_prefix ''tb1'' (cf_xverse c)"
    "with_prefix ''0x'' (cf_starknet_account c)" "with_prefix ''0x'' (cf_sepolia_key c)"
proof -
  have v: "env_valid is_url e" and c: "c = env_parse is_url e"
    using assms by (auto simp: envSchema_def split: if_splits)
  show "c = env_parse is_url e" by (rule c)
  have p: "pred_option (with_prefix ''tb1'') (Some ''tb1q'')" "pred_option (with_prefix ''0x'') (Some ''0x'')"
    "pred_option (one_of [''development'', ''production'', ''test'']) (Some ''development'')"
    by (simp_all add: with_prefix_def starts_with_def one_of_def)
  show "starts_with (cf_rpc_url c) ''https://''"
    using v env_str_ok [of e "''STARKNET_RPC_URL''" None "\<lambda>u. u \<noteq> [] \<and> starts_with u ''https://''"]
    by (simp add: c env_parse_simps env_valid_def)
  show "32 \<le> length (cf_encryption_key c)"
    using v env_str_ok [of e "''ENCRYPTION_KEY''" None "\<lambda>s. 32 \<le> length s"] by (simp add: c env_parse_simps env_valid_def)
  show "one_of [''development'', ''production'', ''test''] (cf_node_env c)"
    unfolding c env_parse_simps by (rule env_str_ok [OF _ p(3)]) (use v in \<open>unfold env_valid_def, blast\<close>)
  show "with_prefix ''tb1'' (cf_xverse c)"
    unfolding c env_parse_simps by (rule env_str_ok [OF _ p(1)]) (use v in \<open>unfold env_valid_def, blast\<close>)
  show "with_prefix ''0x'' (cf_starknet_account c)" "with_prefix ''0x'' (cf_sepolia_key c)"
    unfolding c env_parse_simps
    by (rule env_str_ok [OF _ p(2)], use v in \<open>simp add: env_valid_def\<close>)+
qed

definition no_wallet :: btc_env where
  "no_wallet = \<lparr>cfg_key = None, cfg_sender = None, cfg_vault = None, from_wif = (\<lambda>_. Inl (Error [])),
     b_utxos = (\<lambda>_. NetFail (Error [])), b_fees = NetFail (Error []), b_tx_scripts = (\<lambda>_. Inl (Error [])),
     b_build = (\<lambda>_ _. Inl (Error [])), b_post = (\<lambda>_. NetFail (Error [])), b_lost = (\<lambda>_. False)\<rparr>"

definition demo_environ :: environment where
  "demo_environ = [''STARKNET_RPC_URL'' \<mapsto> ''https://node'', ''ENCRYPTION_KEY'' \<mapsto> replicate 32 (CHR ''k''),
     ''JWT_SECRET'' \<mapsto> ''s'', ''STARKNET_ACCOUNT_ADDRESS'' \<mapsto> ''0x5'']"

lemma demo_environ_ok: "envSchema (\<lambda>_. True) demo_environ = Some (env_parse (\<lambda>_. True) demo_environ)"
proof -
  have "env_valid (\<lambda>_. True) demo_environ" by code_simp
  then show ?thesis by (simp add: envSchema_def)
qed

definition demo_sync_db :: db where
  "demo_sync_db = demo_done_db\<lparr>vaults := update_by (\<lambda>_. True) (\<lambda>v. v\<lparr>v_status := pending\<rparr>) (vaults demo_done_db)\<rparr>"

lemma schema_demo_sync: "schema_ok demo_sync_db"
  using schema_update_vaults [OF schema_demo_done update_status_ok [OF schema_demo_done, of "\<lambda>_. True" pending]]
  by (simp add: demo_sync_db_def)

section \<open>Properties\<close>

text \<open>
  What a parsed environment guarantees: the node is reached over https, the encryption key has 32
  characters, the environment is one of three, the deposit address is always there (its error is dead
  code), and the wallet service's three questions for an account have the same answer.
\<close>

theorem config_typed:
  assumes "envSchema is_url e = Some c"
  shows "starts_with (cf_rpc_url c) ''https://'' \<and> 32 \<le> length (cf_encryption_key c)
     \<and> cf_node_env c \<in> {''development'', ''production'', ''test''}
     \<and> (\<exists>addr. getDepositAddress (cf_xverse c) b = Inr addr \<and> starts_with addr ''tb1'')
     \<and> (isAccountConfigured c \<longleftrightarrow> getAccountAddress c \<noteq> None)
     \<and> (isAccountConfigured c \<longleftrightarrow> getAccount c None \<noteq> None)"
proof -
  note f = envSchema_fields [OF assms]
  have "cf_xverse c \<noteq> []" "wallet_key c \<noteq> []"
    using f with_prefix_nonempty by (auto simp: wallet_key_def or_str_def)
  moreover have "starts_with (cf_xverse c) ''tb1''" "cf_node_env c \<in> {''development'', ''production'', ''test''}"
    using f(4,5) by (auto simp: with_prefix_def one_of_def)
  ultimately show ?thesis using f(2,3)
    by (auto simp: isAccountConfigured_def getAccountAddress_def getAccount_def getDepositAddress_def truthy_def)
qed

theorem config_typed_witness:
  "\<exists>c. envSchema (\<lambda>_. True) demo_environ = Some c \<and> starts_with (cf_rpc_url c) ''https://''
     \<and> (isAccountConfigured c \<longleftrightarrow> getAccount c None \<noteq> None)"
  using config_typed [OF demo_environ_ok] demo_environ_ok by blast

text \<open>
  What an environment that leaves things out leads to, silently: without \<open>NODE_ENV\<close> the debug
  routes are mounted; without a wallet address the deposit address is the bare prefix \<open>tb1q\<close>; and without
  any private key an account with an address counts as configured, and signs with the key \<open>0x\<close>.
\<close>

theorem defaults_unsafe:
  assumes "envSchema is_url e = Some c"
  shows "(e ''NODE_ENV'' = None \<longrightarrow> debug_mounted c)
     \<and> (e ''XVERSE_WALLET_ADDRESS'' = None \<longrightarrow> getDepositAddress (cf_xverse c) b = Inr ''tb1q'')
     \<and> (e ''PRIVATE_KEY'' = None \<and> e ''SEPOLIA_PRIVATE_KEY'' = None \<and> wallet_address c \<noteq> ''0x'' \<longrightarrow>
          isAccountConfigured c \<and> (\<exists>a. getAccount c None = Some a \<and> ac_signer a = ''0x''))"
proof -
  note f = envSchema_fields [OF assms]
  have "wallet_address c \<noteq> []" using with_prefix_nonempty [OF f(6)] by (simp add: wallet_address_def or_str_def)
  moreover have "cf_node_env c = ''development''" if "e ''NODE_ENV'' = None"
    using that by (simp add: f(1) env_parse_simps env_str_def)
  moreover have "cf_xverse c = ''tb1q''" if "e ''XVERSE_WALLET_ADDRESS'' = None"
    using that by (simp add: f(1) env_parse_simps env_str_def)
  moreover have "wallet_key c = ''0x''" if "e ''PRIVATE_KEY'' = None" "e ''SEPOLIA_PRIVATE_KEY'' = None"
    using that by (simp add: f(1) env_parse_simps env_str_def wallet_key_def or_str_def)
  ultimately show ?thesis
    by (auto simp: debug_mounted_def getDepositAddress_def truthy_def starts_with_def isAccountConfigured_def getAccount_def)
qed

theorem defaults_unsafe_witness:
  "\<exists>c. envSchema (\<lambda>_. True) demo_environ = Some c \<and> debug_mounted c \<and> getDepositAddress (cf_xverse c) None = Inr ''tb1q''
     \<and> isAccountConfigured c"
proof -
  have "wallet_address (env_parse (\<lambda>_. True) demo_environ) = ''0x5''" by code_simp
  moreover have "demo_environ ''NODE_ENV'' = None" "demo_environ ''XVERSE_WALLET_ADDRESS'' = None"
    "demo_environ ''PRIVATE_KEY'' = None" "demo_environ ''SEPOLIA_PRIVATE_KEY'' = None"
    by (simp_all add: demo_environ_def)
  ultimately show ?thesis using defaults_unsafe [OF demo_environ_ok, of None] demo_environ_ok by simp
qed

text \<open>
  The synchronisation at start-up activates exactly the pending vaults whose deposit the node
  confirms, and changes nothing else.
\<close>

theorem autoSync_effect:
  assumes "schema_ok d"
  shows "autoSync rpc d = d\<lparr>vaults := map (\<lambda>v. if v_status v = pending
       \<and> (\<exists>h. deposit_tx_hash v = Some h \<and> sync_confirmed (rpc h)) then v\<lparr>v_status := active\<rparr> else v) (vaults d)\<rparr>"
proof -
  have "map (synced rpc (sync_todo d)) (vaults d) = map (\<lambda>v. if v_status v = pending
       \<and> (\<exists>h. deposit_tx_hash v = Some h \<and> sync_confirmed (rpc h)) then v\<lparr>v_status := active\<rparr> else v) (vaults d)"
    by (intro map_cong refl) (simp add: synced_todo [OF assms])
  then show ?thesis by (simp add: autoSync_def sync_loop_spec [OF assms])
qed

theorem autoSync_effect_witness:
  "map v_status (vaults demo_sync_db) = [pending]
   \<and> map v_status (vaults (autoSync (\<lambda>_. Inr \<lparr>execution_status = Some ''SUCCEEDED'', finality_status = None\<rparr>) demo_sync_db)) = [active]"
  by (subst autoSync_effect [OF schema_demo_sync])
     (simp add: demo_sync_db_def demo_done_db_def demo_wei_vault_def demo_vault_def update_by_def sync_confirmed_def)

text \<open>
  Forcing a withdrawal does to the database and the network what the background processor does with
  the same authorization in covenant mode when the receipt of the burn never comes: the burn is not
  checked at all.
\<close>

theorem force_is_unverified_processing:
  assumes "getAuthorizationById i d = Some a" and "a_status a \<noteq> a_completed" and "i \<noteq> []"
  shows "\<exists>r. forceWithdrawal now env i d
     = (fst (processAuthorization covenant_mode (no_receipt now env w) a d), r,
        snd (processAuthorization covenant_mode (no_receipt now env w) a d))"
  using assms by (rule force_processes)

theorem force_is_unverified_processing_witness:
  "\<exists>r. forceWithdrawal 9 demo_env ''a'' demo_auth_db
     = (fst (processAuthorization covenant_mode (no_receipt 9 demo_env no_wallet)
          (new_auth ''a'' 5 (demo_params\<lparr>amountSats := 10000\<rparr>)) demo_auth_db), r,
        snd (processAuthorization covenant_mode (no_receipt 9 demo_env no_wallet)
          (new_auth ''a'' 5 (demo_params\<lparr>amountSats := 10000\<rparr>)) demo_auth_db))"
  by (rule force_is_unverified_processing) (simp_all add: getAuthorizationById_def row_by_def demo_auth_db_def)

text \<open>
  A forced payout counts: it pays the terms of an authorization that was not completed and, when the answer to its
  broadcast arrives, completes it, so that no later pass of the background processor pays it again, whatever happens; a
  request that pays nothing leaves the authorization completed or pending.
\<close>

theorem force_withdrawal_outcome:
  assumes "getAuthorizationById i d = Some a" and "i \<noteq> []" and "forceWithdrawal now env i d = (p, r, d')"
    and "schema_ok d" and "broadcasts_answered (no_receipt now env no_wallet)"
  shows "(case p of
       Some q \<Rightarrow> a_status a \<noteq> a_completed \<and> hd (p_outputs q) = \<lparr>o_address = bitcoin_address a, o_value = amount_sats a\<rparr>
         \<and> status_of i d' = Some a_completed
         \<and> (\<forall>cfg runs paid d''. processor_run cfg runs d' = (paid, d'') \<longrightarrow> i \<notin> fst ` set paid)
     | None \<Rightarrow> status_of i d' = Some a_completed \<or> status_of i d' = Some a_pending)"
proof (cases "a_status a = a_completed")
  case True
  then show ?thesis using assms by (auto simp: forceWithdrawal_def status_of_def)
next
  case False
  have i: "a_id a = i" by (rule get_id [OF assms(1)])
  obtain q1 d1 where pa: "processAuthorization covenant_mode (no_receipt now env no_wallet) a d = (q1, d1)" by fastforce
  then have e: "q1 = p" "d1 = d'"
    using force_processes [OF assms(1) False assms(2), of now env no_wallet] assms(3) by auto
  note sp = processAuthorization_spec [OF pa, of a]
  show ?thesis
  proof (cases p)
    case None
    then show ?thesis using sp(2) e i assms(1) by simp
  next
    case (Some q)
    have ok': "schema_ok d'" using touches_schema [OF sp(1) assms(4)] e i assms(1) by simp
    have c: "status_of i d' = Some a_completed" and q: "pays_terms q a"
      using sp(3) [of q] assms(5) e i assms(1) Some by auto
    have "i \<notin> fst ` set paid" if "processor_run cfg runs d' = (paid, d'')" for cfg runs paid d''
      using accountsD(2) [OF processor_run_accounts [OF that ok'], of i] c by force
    then show ?thesis using Some False q c by (auto simp: pays_terms_def)
  qed
qed

theorem force_withdrawal_outcome_witness:
  "\<exists>q r d'. forceWithdrawal 9 demo_env ''a'' demo_auth_db = (Some q, r, d') \<and> status_of ''a'' d' = Some a_completed"
proof -
  let ?a = "new_auth ''a'' 5 (demo_params\<lparr>amountSats := 10000\<rparr>)"
  obtain p r d' where f: "forceWithdrawal 9 demo_env ''a'' demo_auth_db = (p, r, d')" by (metis prod_cases3)
  have g: "getAuthorizationById ''a'' demo_auth_db = Some ?a"
    by (simp add: getAuthorizationById_def row_by_def demo_auth_db_def)
  have "broadcasts_answered (no_receipt 9 demo_env no_wallet)"
    by (simp add: broadcasts_answered_def no_receipt_def no_wallet_def demo_env_def)
  note o = force_withdrawal_outcome [OF g _ f schema_demo_auth this]
  have "fst (forceWithdrawal 9 demo_env ''a'' demo_auth_db) \<noteq> None" by code_simp
  then have "p \<noteq> None" using f by simp
  then show ?thesis using f o by auto
qed

end
