(* ===== verification/Sharp.thy ===== *)
theory Sharp
  imports Commitments
begin

text \<open>
  \<open>backend/src/services/SharpService.ts\<close> and \<open>routes/sharp.ts\<close>: proofs made by command line tools in
  a Linux subsystem, and the table \<open>sharp_proofs\<close>. What a command prints and returns is an
  argument, a function of the command line; so are SHA-256, \<open>path.resolve\<close> and fresh ids. The
  argument files are written and removed without failure, and the rate limiter is not modelled.
\<close>

section \<open>The table\<close>

datatype proof_status = SUBMITTED | IN_PROGRESS | PROCESSED | ONCHAIN | FAILED

fun proof_status_str :: "proof_status \<Rightarrow> string" where
  "proof_status_str SUBMITTED = ''SUBMITTED''"
| "proof_status_str IN_PROGRESS = ''IN_PROGRESS''"
| "proof_status_str PROCESSED = ''PROCESSED''"
| "proof_status_str ONCHAIN = ''ONCHAIN''"
| "proof_status_str FAILED = ''FAILED''"

record sharp_row =
  sh_id :: string
  sh_job_key :: string
  sh_secret_hash :: string
  sh_salt_hash :: string
  sh_status :: proof_status
  sh_on_chain :: int
  sh_created_at :: int

definition insert_sharp :: "sharp_row \<Rightarrow> sharp_row list \<Rightarrow> sharp_row list res" where
  "insert_sharp r t =
     (if \<not> uniq sh_id (t @ [r]) then Inl (unique_error ''sharp_proofs.id'')
      else if \<not> uniq sh_job_key (t @ [r]) then Inl (unique_error ''sharp_proofs.job_key'')
      else Inr (t @ [r]))"

interpretation sharp_by_job: keyed_table sh_job_key "\<lambda>t. t" insert_sharp
  by unfold_locales (auto simp: insert_sharp_def split: if_splits)

section \<open>Commands\<close>

record wsl_out =
  w_stdout :: string
  w_stderr :: string
  w_status :: "int option"

text \<open>\<open>path.resolve(p).replace(/\\/g, '/')\<close>, then a drive letter becomes a mount point.\<close>

definition slashes :: "string \<Rightarrow> string" where
  "slashes = map (\<lambda>c. if c = CHR 0x5C then CHR ''/'' else c)"

definition is_letter :: "char \<Rightarrow> bool" where
  "is_letter c = (let n = char_code (lower_char c) in 97 \<le> n \<and> n \<le> 122)"

definition toWslPath :: "(string \<Rightarrow> string) \<Rightarrow> string \<Rightarrow> string" where
  "toWslPath resolve windowsPath =
     (let normalized = slashes (resolve windowsPath) in case normalized of
        d # s \<Rightarrow> if is_letter d \<and> starts_with s '':/''
          then ''/mnt/'' @ [lower_char d] @ ''/'' @ takeWhile (\<lambda>c. c \<noteq> CHR 0x0A \<and> c \<noteq> CHR 0x0D) (drop 2 s)
          else normalized
      | [] \<Rightarrow> normalized)"

definition executeInWsl :: "(string list \<Rightarrow> wsl_out) \<Rightarrow> string \<Rightarrow> wsl_out" where
  "executeInWsl wsl innerCmd = wsl [''-d'', ''Ubuntu'', ''bash'', ''-c'',
     ''export PATH=\"/home/sl/.asdf/installs/scarb/2.12.2/bin:/home/sl/.local/bin:/usr/bin:/bin:$PATH\" && '' @ innerCmd]"

text \<open>\<open>/Saving proof to:\s+(\S+)/\<close>: the first word after the first such text that has one.\<close>

definition word_after :: "string \<Rightarrow> string option" where
  "word_after s = (let t = dropWhile is_space s; w = takeWhile (\<lambda>c. \<not> is_space c) t
     in if t = s \<or> w = [] then None else Some w)"

fun proof_path :: "string \<Rightarrow> string option" where
  "proof_path [] = None"
| "proof_path (c # s) =
     (case (if starts_with (c # s) ''Saving proof to:'' then word_after (drop 16 (c # s)) else None) of
        Some w \<Rightarrow> Some w | None \<Rightarrow> proof_path s)"

definition toHex :: "string \<Rightarrow> string res" where
  "toHex val = (if starts_with val ''0x'' then Inr val
     else bind_res (big_int_res val) (\<lambda>z. Inr (''0x'' @ big_hex z)))"

record sharp_env =
  sh_wsl :: "string list \<Rightarrow> wsl_out"
  sh_resolve :: "string \<Rightarrow> string"
  sh_project :: string
  sh_sha256 :: "buffer \<Rightarrow> buffer"
  sh_read_json :: "string \<Rightarrow> json res"
  sh_uuid_args :: string
  sh_uuid_job :: string
  sh_uuid_row :: string
  sh_now :: int

definition prove_cmd :: "sharp_env \<Rightarrow> string \<Rightarrow> string" where
  "prove_cmd env argsFileName = ''cd '' @ toWslPath (sh_resolve env) (sh_project env)
     @ '' && scarb prove --execute --arguments-file ''
     @ toWslPath (sh_resolve env) (sh_project env @ ''/'' @ argsFileName)"

definition flow_failed :: "string \<Rightarrow> exn \<Rightarrow> exn" where
  "flow_failed suffix e = Error (''Proving flow failed: '' @ message e @ suffix)"

section \<open>SharpService\<close>

text \<open>\<open>Array.isArray(j) ? j : (j.proof || [j])\<close>.\<close>

definition proof_array :: "json \<Rightarrow> json res" where
  "proof_array j = (case j of
     JArr xs \<Rightarrow> Inr j
   | JNull \<Rightarrow> Inl (Error ''Cannot read properties of null (reading 'proof')'')
   | _ \<Rightarrow> Inr (if truthy_json (json_field j ''proof'') then the (json_field j ''proof'') else JArr [j]))"

definition withdraw_proof_run :: "sharp_env \<Rightarrow> json res" where
  "withdraw_proof_run env =
     (let proveRes = executeInWsl (sh_wsl env) (prove_cmd env (''withdraw_args_'' @ sh_uuid_args env @ ''.json'')) in
      if w_status proveRes \<noteq> Some 0 then
        Inl (Error (''scarb prove failed (exit '' @ (case w_status proveRes of None \<Rightarrow> ''null'' | Some n \<Rightarrow> str_of_int n)
          @ ''):'' @ [CHR 0x0A] @ (if w_stderr proveRes \<noteq> [] then w_stderr proveRes else w_stdout proveRes)))
      else (case proof_path (w_stdout proveRes) of
          None \<Rightarrow> Inl (Error (''Could not parse proof path from scarb output.'' @ [CHR 0x0A] @ ''STDOUT: '' @ w_stdout proveRes))
        | Some rel \<Rightarrow> bind_res (sh_read_json env rel) proof_array))"

definition generateWithdrawProof :: "sharp_env \<Rightarrow> string \<Rightarrow> string \<Rightarrow> string \<Rightarrow> json res" where
  "generateWithdrawProof env secret commitmentHash nullifier =
     bind_res (toHex secret) (\<lambda>_. bind_res (toHex commitmentHash) (\<lambda>_. bind_res (toHex nullifier) (\<lambda>_.
       case withdraw_proof_run env of
         Inl e \<Rightarrow> Inl (flow_failed ([CHR 0x0A, CHR 0x0A] @ ''Please ensure Scarb 2.12.2 is installed in WSL Ubuntu.'') e)
       | Inr j \<Rightarrow> Inr j)))"

definition prove_and_verify :: "sharp_env \<Rightarrow> unit res" where
  "prove_and_verify env =
     (let wslProjectPath = toWslPath (sh_resolve env) (sh_project env);
          proveRes = executeInWsl (sh_wsl env) (prove_cmd env (''proof_args_'' @ sh_uuid_args env @ ''.json'')) in
      if w_status proveRes \<noteq> Some 0 then Inl (Error (''scarb prove failed: '' @ w_stderr proveRes))
      else (case proof_path (w_stdout proveRes) of
          None \<Rightarrow> Inl (Error (''Could not parse proof path from scarb prove output: '' @ w_stdout proveRes))
        | Some rel \<Rightarrow>
            let verifyRes = executeInWsl (sh_wsl env) (''cd '' @ wslProjectPath @ '' && scarb verify --proof-file ''
                  @ wslProjectPath @ ''/'' @ rel)
            in if w_status verifyRes \<noteq> Some 0 then Inl (Error (''Proof verification failed: '' @ w_stderr verifyRes))
               else Inr ()))"

definition sharp_new :: "sharp_env \<Rightarrow> string \<Rightarrow> string \<Rightarrow> sharp_row" where
  "sharp_new env secret salt_v = \<lparr>sh_id = sh_uuid_row env, sh_job_key = sh_uuid_job env,
     sh_secret_hash = hex_encode (sh_sha256 env (utf8 secret)), sh_salt_hash = hex_encode (sh_sha256 env (utf8 salt_v)),
     sh_status = PROCESSED, sh_on_chain = 0, sh_created_at = sh_now env\<rparr>"

definition submitProof :: "sharp_env \<Rightarrow> string \<Rightarrow> string \<Rightarrow> sharp_row list \<Rightarrow> string res \<times> sharp_row list" where
  "submitProof env secret salt_v t =
     (case bind_res (toHex secret) (\<lambda>_. toHex salt_v) of
        Inl e \<Rightarrow> (Inl e, t)
      | Inr _ \<Rightarrow> (case bind_res (prove_and_verify env) (\<lambda>_. insert_sharp (sharp_new env secret salt_v) t) of
          Inl e \<Rightarrow> (Inl (flow_failed [] e), t)
        | Inr t' \<Rightarrow> (Inr (sh_uuid_job env), t')))"

definition read_status :: "string \<Rightarrow> proof_status" where
  "read_status stdout =
     (if str_includes stdout ''ONCHAIN'' then ONCHAIN else if str_includes stdout ''PROCESSED'' then PROCESSED
      else if str_includes stdout ''FAILED'' then FAILED else IN_PROGRESS)"

text \<open>A status that is no column value, \<open>UNKNOWN\<close>, is reported when the tool fails otherwise.\<close>

definition checkProofStatus :: "sharp_env \<Rightarrow> string \<Rightarrow> sharp_row list \<Rightarrow> (string \<times> bool) \<times> sharp_row list" where
  "checkProofStatus env jobKey t =
     (if starts_with jobKey ''SIMULATED-JOB'' then ((''PROCESSED'', False), t)
      else let out = executeInWsl (sh_wsl env) (''cairo-sharp status '' @ jobKey) in
        if w_status out \<noteq> Some 0 then
          (if str_includes (w_stderr out) ''not found'' \<or> str_includes (w_stderr out) ''command not found''
           then ((''PROCESSED'', False), t) else ((''UNKNOWN'', False), t))
        else let s = read_status (w_stdout out) in
          ((proof_status_str s, s = ONCHAIN),
           update_by (\<lambda>r. sh_job_key r = jobKey) (\<lambda>r. r\<lparr>sh_status := s, sh_on_chain := (if s = ONCHAIN then 1 else 0)\<rparr>) t))"

definition getProofHistory :: "sharp_row list \<Rightarrow> sharp_row list" where
  "getProofHistory t = sort_key (\<lambda>r. - sh_created_at r) t"

section \<open>routes/sharp.ts\<close>

definition post_submit :: "sharp_env \<Rightarrow> string option \<Rightarrow> json \<Rightarrow> sharp_row list \<Rightarrow> response \<times> sharp_row list" where
  "post_submit env content_type b t = (case validateBody [''secret'', ''salt''] ''POST'' content_type (Some b) of
     Some r \<Rightarrow> (r, t)
   | None \<Rightarrow>
       if \<not> truthy_json (json_field b ''secret'') \<or> \<not> truthy_json (json_field b ''salt'') then
         (fail_with 400 ''Both \"secret\" and \"salt\" are required non-empty strings.'', t)
       else (case submitProof env (js_text (the (json_field b ''secret''))) (js_text (the (json_field b ''salt''))) t of
           (Inl e, t') \<Rightarrow> (fail_with 500 (message e), t')
         | (Inr jobKey, t') \<Rightarrow> (respond 200 [(''success'', JBool True), (''data'', JObj [(''jobKey'', JStr jobKey),
             (''message'', JStr ''Proof submitted to SHARP for ZK-verification'')])], t')))"

definition status_message :: "string \<Rightarrow> string" where
  "status_message s =
     (if s = ''IN_PROGRESS'' then ''Prover is generating your STARK proof '' @ emdash @ '' please wait''
      else if s = ''PROCESSED'' then ''Proof generated, awaiting on-chain verification''
      else if s = ''ONCHAIN'' then [CHR 0xE2, CHR 0x9C, CHR 0x85] @ '' Proof verified on-chain '' @ emdash @ '' commitment is ZK-proven!''
      else if s = ''FAILED'' then [CHR 0xE2, CHR 0x9D, CHR 0x8C] @ '' Proof generation failed '' @ emdash @ '' check your Cairo logic''
      else ''Current status of your proof job'')"

definition get_sharp_status :: "sharp_env \<Rightarrow> string \<Rightarrow> sharp_row list \<Rightarrow> response \<times> sharp_row list" where
  "get_sharp_status env jobKey t = (case checkProofStatus env jobKey t of ((s, onChain), t') \<Rightarrow>
     (respond 200 [(''success'', JBool True), (''data'', JObj [(''jobKey'', JStr jobKey), (''status'', JStr s),
        (''onChain'', JBool onChain), (''message'', JStr (status_message s))])], t'))"

definition get_sharp_history :: "sharp_row list \<Rightarrow> response" where
  "get_sharp_history t = respond 200 [(''success'', JBool True), (''data'', JObj [(''proofs'', JArr (map (\<lambda>r. JObj [
     (''id'', JStr (sh_id r)), (''job_key'', JStr (sh_job_key r)), (''secret_hash'', JStr (sh_secret_hash r)),
     (''salt_hash'', JStr (sh_salt_hash r)), (''status'', JStr (proof_status_str (sh_status r))),
     (''on_chain'', JInt (sh_on_chain r)), (''created_at'', JInt (sh_created_at r))]) (getProofHistory t)))])]"

section \<open>Runs\<close>

inductive sharp_run :: "sharp_row list \<Rightarrow> sharp_row list \<Rightarrow> bool" for t where
  stop: "sharp_run t t"
| submit: "sharp_run t t1 \<Longrightarrow> submitProof env secret s t1 = (x, t2) \<Longrightarrow> sharp_run t t2"
| check: "sharp_run t t1 \<Longrightarrow> checkProofStatus env jobKey t1 = (x, t2) \<Longrightarrow> sharp_run t t2"

section \<open>Lemmas\<close>

definition sharp_ok :: "sharp_row list \<Rightarrow> bool" where
  "sharp_ok t \<longleftrightarrow> uniq sh_job_key t \<and> list_all (\<lambda>r. sh_on_chain r = (if sh_status r = ONCHAIN then 1 else 0)) t"

definition sharp_terms :: "sharp_row \<Rightarrow> string \<times> string \<times> string \<times> string \<times> int" where
  "sharp_terms r = (sh_id r, sh_job_key r, sh_secret_hash r, sh_salt_hash r, sh_created_at r)"

lemma submit_cases:
  "submitProof env secret s t = (x, t') \<Longrightarrow>
     t' = t \<or> t' = t @ [sharp_new env secret s] \<and> insert_sharp (sharp_new env secret s) t = Inr t'
       \<and> prove_and_verify env = Inr () \<and> x = Inr (sh_uuid_job env)"
  by (auto simp: submitProof_def insert_sharp_def split: sum.splits if_splits)

lemma check_cases:
  "checkProofStatus env k t = (x, t') \<Longrightarrow>
     t' = t \<or> (\<exists>s. t' = update_by (\<lambda>r. sh_job_key r = k) (\<lambda>r. r\<lparr>sh_status := s, sh_on_chain := (if s = ONCHAIN then 1 else 0)\<rparr>) t)"
  by (auto simp: checkProofStatus_def Let_def split: if_splits)

lemma sharp_ok_update:
  "sharp_ok t \<Longrightarrow> sharp_ok (update_by p (\<lambda>r. r\<lparr>sh_status := s, sh_on_chain := (if s = ONCHAIN then 1 else 0)\<rparr>) t)"
  by (auto simp: sharp_ok_def list_all_iff set_update_by)

definition demo_sharp :: "wsl_out \<Rightarrow> sharp_env" where
  "demo_sharp out = \<lparr>sh_wsl = (\<lambda>_. out), sh_resolve = (\<lambda>p. p), sh_project = ''/p'', sh_sha256 = (\<lambda>b. b),
     sh_read_json = (\<lambda>_. Inr (JArr [])), sh_uuid_args = ''u'', sh_uuid_job = ''j'', sh_uuid_row = ''i'', sh_now = 5\<rparr>"

definition demo_proved :: wsl_out where
  "demo_proved = \<lparr>w_stdout = ''ONCHAIN Saving proof to: target/p.json'', w_stderr = [], w_status = Some 0\<rparr>"

section \<open>Properties\<close>

text \<open>
  Over any sequence of submissions and status checks, whatever the tools answer, the table of proofs stays
  consistent: job keys are unique, \<open>on_chain\<close> is 1 exactly for the rows whose status is \<open>ONCHAIN\<close>,
  and no row is removed or changes anything but these two columns.
\<close>

theorem sharp_table_consistent:
  assumes "sharp_run t t'" and "sharp_ok t"
  shows "sharp_ok t' \<and> (\<exists>new. map sharp_terms t' = map sharp_terms t @ new)"
  using assms
proof (induction rule: sharp_run.induct)
  case stop
  then show ?case by simp
next
  case (submit t1 env secret s x t2)
  show ?case using submit_cases [OF submit.hyps(2)]
  proof
    assume a: "t2 = t1 @ [sharp_new env secret s] \<and> insert_sharp (sharp_new env secret s) t1 = Inr t2
       \<and> prove_and_verify env = Inr () \<and> x = Inr (sh_uuid_job env)"
    then have "uniq sh_job_key t2" using sharp_by_job.ins_unique by blast
    then show ?thesis using a submit by (auto simp: sharp_ok_def sharp_new_def)
  qed (use submit in simp)
next
  case (check t1 env k x t2)
  have "map sharp_terms (update_by p (\<lambda>r. r\<lparr>sh_status := s, sh_on_chain := c\<rparr>) t1) = map sharp_terms t1" for p s c
    by (rule map_update_by) (simp add: sharp_terms_def)
  then show ?case using check_cases [OF check.hyps(2)] check sharp_ok_update by metis
qed

theorem sharp_table_consistent_witness:
  "\<exists>t' r. sharp_run [] t' \<and> t' = [r] \<and> sh_status r = ONCHAIN \<and> sharp_ok t'"
proof -
  let ?e = "demo_sharp demo_proved"
  obtain x t1 where s: "submitProof ?e ''0x1'' ''0x2'' [] = (x, t1)" by fastforce
  obtain y t2 where c: "checkProofStatus ?e ''j'' t1 = (y, t2)" by fastforce
  have "sharp_run [] t2" using s c by (intro sharp_run.check [OF sharp_run.submit [OF sharp_run.stop]])
  moreover have "map sh_status (snd (checkProofStatus ?e ''j'' (snd (submitProof ?e ''0x1'' ''0x2'' [])))) = [ONCHAIN]"
    by code_simp
  then have "map sh_status t2 = [ONCHAIN]" using s c by simp
  moreover have "sharp_ok []" by (simp add: sharp_ok_def uniq_def)
  ultimately show ?thesis using sharp_table_consistent [of "[]" t2] by auto
qed

text \<open>
  A status check says \<open>PROCESSED\<close> for every job key, known or not, whenever the status tool cannot be
  found, and it stores nothing.
\<close>

theorem sharp_missing_tool_processed:
  assumes "\<And>args. w_status (sh_wsl env args) \<noteq> Some 0 \<and> str_includes (w_stderr (sh_wsl env args)) ''not found''"
  shows "get_sharp_status env jobKey t = (respond 200 [(''success'', JBool True), (''data'', JObj [(''jobKey'', JStr jobKey),
     (''status'', JStr ''PROCESSED''), (''onChain'', JBool False),
     (''message'', JStr ''Proof generated, awaiting on-chain verification'')])], t)"
  using assms by (simp add: get_sharp_status_def checkProofStatus_def executeInWsl_def status_message_def Let_def)

theorem sharp_missing_tool_processed_witness:
  "code (fst (get_sharp_status (demo_sharp \<lparr>w_stdout = [], w_stderr = ''command not found'', w_status = Some 127\<rparr>)
     ''no such job'' [])) = 200"
proof -
  have "str_includes ''command not found'' ''not found''" by code_simp
  then have m: "get_sharp_status (demo_sharp \<lparr>w_stdout = [], w_stderr = ''command not found'', w_status = Some 127\<rparr>)
      ''no such job'' [] = (respond 200 [(''success'', JBool True), (''data'', JObj [(''jobKey'', JStr ''no such job''),
     (''status'', JStr ''PROCESSED''), (''onChain'', JBool False),
     (''message'', JStr ''Proof generated, awaiting on-chain verification'')])], [])"
    by (intro sharp_missing_tool_processed) (simp add: demo_sharp_def)
  show ?thesis unfolding m by simp
qed

end
