(* ===== verification/Ledger.thy ===== *)
theory Ledger
  imports Commitments Htlc
begin

text \<open>
  Abstract specifications of the services that keep money or secrets in tables, and the simulation
  that the tables implement them: the withdrawal authorizations are a ledger from ids to terms,
  status and payment; the nullifiers of the commitment service are a map to used or unused.
\<close>

section \<open>Simulation\<close>

text \<open>A service whose every command does to the abstraction of the state what its specification says.\<close>

locale simulation =
  fixes abs :: "'s \<Rightarrow> 'a" and impl :: "'c \<Rightarrow> 's \<Rightarrow> 's" and spec :: "'c \<Rightarrow> 'a \<Rightarrow> 'a" and inv :: "'s \<Rightarrow> bool"
  assumes impl_inv: "inv s \<Longrightarrow> inv (impl c s)"
    and impl_abs: "inv s \<Longrightarrow> abs (impl c s) = spec c (abs s)"
begin

lemma run_inv: "inv s \<Longrightarrow> inv (fold impl cs s)"
  by (induction cs arbitrary: s) (auto intro: impl_inv)

lemma run_abs: "inv s \<Longrightarrow> abs (fold impl cs s) = fold spec cs (abs s)"
  by (induction cs arbitrary: s) (auto simp: impl_abs impl_inv)

end

section \<open>The ledger of withdrawals\<close>

record entry =
  e_vault :: string
  e_nullifier :: string
  e_burn :: string
  e_address :: string
  e_sats :: int
  e_status :: auth_status
  e_txid :: "string option"

record ledger =
  known_vaults :: "string set"
  entries :: "string \<rightharpoonup> entry"

definition entry_of :: "auth_row \<Rightarrow> entry" where
  "entry_of a = \<lparr>e_vault = a_vault_id a, e_nullifier = a_nullifier_hash a, e_burn = starknet_tx_hash a,
     e_address = bitcoin_address a, e_sats = amount_sats a, e_status = a_status a, e_txid = a_bitcoin_txid a\<rparr>"

definition ledger_of :: "db \<Rightarrow> ledger" where
  "ledger_of d = \<lparr>known_vaults = {i. has_vault d i}, entries = (\<lambda>i. map_option entry_of (getAuthorizationById i d))\<rparr>"

text \<open>An entry may be opened for a vault that exists, once per id, nullifier and burn.\<close>

definition may_open :: "string \<Rightarrow> auth_params \<Rightarrow> ledger \<Rightarrow> bool" where
  "may_open i p l \<longleftrightarrow> starts_with (bitcoinAddress p) ''tb1'' \<and> starts_with (starknetTxHash p) ''0x'' \<and> 34 \<le> length (starknetTxHash p)
     \<and> vaultId p \<in> known_vaults l \<and> i \<notin> dom (entries l)
     \<and> (\<forall>e \<in> ran (entries l). e_nullifier e \<noteq> nullifierHash p \<and> e_burn e \<noteq> starknetTxHash p)"

definition set_entry :: "auth_status \<Rightarrow> string option \<Rightarrow> entry \<Rightarrow> entry" where
  "set_entry s t e = (if s = a_completed then e\<lparr>e_status := s, e_txid := t\<rparr> else e\<lparr>e_status := s\<rparr>)"

fun ledger_step :: "auth_cmd \<Rightarrow> ledger \<Rightarrow> ledger" where
  "ledger_step (Create i now p) l =
     (if may_open i p l then l\<lparr>entries := (entries l)(i \<mapsto> \<lparr>e_vault = vaultId p, e_nullifier = nullifierHash p,
         e_burn = starknetTxHash p, e_address = bitcoinAddress p, e_sats = amountSats p, e_status = a_pending, e_txid = None\<rparr>)\<rparr>
      else l)"
| "ledger_step (Update now i s t err) l =
     (if s = a_completed \<and> \<not> truthy t then l
      else l\<lparr>entries := (entries l)(i := map_option (set_entry s t) (entries l i))\<rparr>)"

lemma may_open_ledger: "schema_ok d \<Longrightarrow> may_open uuid p (ledger_of d) \<longleftrightarrow> auth_admissible uuid p d"
proof -
  assume "schema_ok d"
  then have "getAuthorizationById (a_id a) d = Some a" if "a \<in> set (auths d)" for a
    using that row_by_unique [of a_id "auths d" a]
    by (simp add: schema_ok_def auths_violation_None getAuthorizationById_def)
  then have ran: "ran (entries (ledger_of d)) = entry_of ` set (auths d)"
    by (auto simp: ledger_of_def ran_def getAuthorizationById_def dest: row_by_Some)
  have dom: "i \<in> dom (entries (ledger_of d)) \<longleftrightarrow> i \<in> a_id ` set (auths d)" for i
    using row_by_None [of a_id i "auths d"] by (auto simp: ledger_of_def getAuthorizationById_def dom_def)
  show ?thesis unfolding may_open_def auth_admissible_def ran dom
    by (auto simp: entry_of_def ledger_of_def list_all_iff)
qed

lemma ledger_create: "schema_ok d \<Longrightarrow> ledger_of (auth_step (Create i now p) d) = ledger_step (Create i now p) (ledger_of d)"
proof -
  assume ok: "schema_ok d"
  note iff = createAuthorization_iff [OF ok, of i now p]
  show ?thesis
  proof (cases rule: createAuthorization_cases [of i now p d])
    case (fail e)
    then have "\<not> auth_admissible i p d" using iff by auto
    then show ?thesis using fail may_open_ledger [OF ok] by simp
  next
    case (ok d')
    then have "auth_admissible i p d" using iff by auto
    moreover have "getAuthorizationById j d' = (if j = i then Some (new_auth i now p) else getAuthorizationById j d)" for j
      using auth_by_id.lookup_inserted [OF ok(2)] auth_by_id.lookup_other [OF ok(2), of j]
      by (simp add: getAuthorizationById_def)
    moreover have "has_vault d' = has_vault d" using insert_authD [OF ok(2)] by (simp add: has_vault_def fun_eq_iff)
    ultimately show ?thesis using ok(1) may_open_ledger [OF \<open>schema_ok d\<close>, of i p]
      by (auto simp: ledger_of_def entry_of_def new_auth_def fun_eq_iff)
  qed
qed

lemma ledger_update: "ledger_of (auth_step (Update now i s t err) d) = ledger_step (Update now i s t err) (ledger_of d)"
proof (cases "s = a_completed \<and> \<not> truthy t")
  case True
  then show ?thesis by (simp add: updateStatus_def)
next
  case False
  define f :: "auth_row \<Rightarrow> auth_row" where "f = (\<lambda>a. let a1 = a\<lparr>a_status := s\<rparr>;
            a2 = (if s = a_completed then a1\<lparr>confirmed_at := Some now, a_bitcoin_txid := t\<rparr> else a1)
        in if truthy err then a2\<lparr>error_message := err\<rparr> else a2)"
  have u: "auth_step (Update now i s t err) d = update_auth i f d"
    by (simp only: auth_step.simps updateStatus_def if_not_P [OF False] sum.case f_def)
  have k: "a_id (f a) = a_id a" "entry_of (f a) = set_entry s t (entry_of a)" for a
    by (simp_all add: f_def Let_def entry_of_def set_entry_def)
  have "getAuthorizationById j (update_auth i f d) = map_option (\<lambda>a. if a_id a = i then f a else a) (getAuthorizationById j d)" for j
    unfolding getAuthorizationById_def update_auth_def using row_by_update [of a_id f j "\<lambda>a. a_id a = i" "auths d"] k by simp
  moreover have "a_id a = j" if "getAuthorizationById j d = Some a" for a j
    using that by (auto simp: getAuthorizationById_def dest: row_by_Some)
  ultimately show ?thesis using False k unfolding u
    by (auto simp: ledger_of_def fun_eq_iff has_vault_def update_auth_def map_option_case split: option.splits)
qed

lemma ledger_simulates: "schema_ok d \<Longrightarrow> ledger_of (auth_step c d) = ledger_step c (ledger_of d)"
  using ledger_create ledger_update by (cases c) (simp_all del: auth_step.simps ledger_step.simps)

interpretation auth_sim: simulation ledger_of auth_step ledger_step schema_ok
  by unfold_locales (simp_all add: auth_step_schema ledger_simulates)

section \<open>The nullifiers of commitments\<close>

text \<open>Each known nullifier is unused or used; using it works once.\<close>

definition nullifier_map :: "scs \<Rightarrow> string \<rightharpoonup> bool" where
  "nullifier_map t n = map_option (\<lambda>r. sc_used r = 1) (row_by sc_nullifier_hash n t)"

definition use_nullifier :: "string \<Rightarrow> (string \<rightharpoonup> bool) \<Rightarrow> (string \<rightharpoonup> bool)" where
  "use_nullifier n m = (if m n = Some False then m(n \<mapsto> True) else m)"

lemma nullifier_map_mark: "nullifier_map (snd (mark_body n t)) = use_nullifier n (nullifier_map t)"
proof (cases "row_by sc_nullifier_hash n t")
  case None
  then show ?thesis by (simp add: mark_body_def use_nullifier_def nullifier_map_def)
next
  case (Some r)
  have k: "sc_nullifier_hash x = m" if "row_by sc_nullifier_hash m t = Some x" for x m
    using that by (auto dest: row_by_Some)
  have "row_by sc_nullifier_hash m (update_by (\<lambda>r. sc_nullifier_hash r = n) (\<lambda>r. r\<lparr>sc_used := 1\<rparr>) t)
      = map_option (\<lambda>r. if sc_nullifier_hash r = n then r\<lparr>sc_used := 1\<rparr> else r) (row_by sc_nullifier_hash m t)" for m
    by (rule row_by_update) simp
  then show ?thesis using Some k
    by (auto simp: mark_body_def use_nullifier_def nullifier_map_def fun_eq_iff map_option_case split: option.splits)
qed

interpretation nullifier_sim: simulation nullifier_map "\<lambda>n t. snd (mark_body n t)" use_nullifier "\<lambda>_. True"
  by unfold_locales (simp_all add: nullifier_map_mark)

section \<open>Properties\<close>

text \<open>
  C13. The table of withdrawal authorizations implements the ledger: any sequence of \<open>createAuthorization\<close>
  and \<open>updateStatus\<close> calls, failing ones included, does to ids, terms, statuses and payments what the
  abstract ledger does, in which an entry is opened once per id, nullifier and burn, for a known
  vault and a Signet address, and only its status and payment change afterwards.
\<close>

theorem authorizations_refine_ledger:
  assumes "schema_ok d"
  shows "ledger_of (auth_run cs d) = fold ledger_step cs (ledger_of d)"
  using auth_sim.run_abs [OF assms] by (simp add: auth_run_def)

theorem authorizations_refine_ledger_witness:
  "\<exists>e. entries (fold ledger_step [Create ''b'' 5 demo_params, Update 6 ''b'' a_completed (Some ''t'') None] (ledger_of demo_db)) ''b'' = Some e
     \<and> e_status e = a_completed \<and> e_txid e = Some ''t''"
proof -
  let ?cs = "[Create ''b'' 5 demo_params, Update 6 ''b'' a_completed (Some ''t'') None]"
  have "map_option (\<lambda>a. (a_status a, a_bitcoin_txid a)) (getAuthorizationById ''b'' (auth_run ?cs demo_db)) = Some (a_completed, Some ''t'')"
    by code_simp
  then show ?thesis unfolding authorizations_refine_ledger [OF schema_demo, symmetric]
    by (auto simp: ledger_of_def entry_of_def)
qed

text \<open>
  Marking nullifiers implements a map from known nullifiers to used or unused in which a nullifier can
  be used once: whatever the sequence of calls, the used ones are those used before and the known ones
  of the sequence.
\<close>

theorem nullifiers_refine_map:
  "nullifier_map (fold (\<lambda>n t. snd (mark_body n t)) ns t) = fold use_nullifier ns (nullifier_map t)
   \<and> {n. fold use_nullifier ns (nullifier_map t) n = Some True}
       = {n. nullifier_map t n = Some True} \<union> (set ns \<inter> dom (nullifier_map t))"
proof
  show "nullifier_map (fold (\<lambda>n t. snd (mark_body n t)) ns t) = fold use_nullifier ns (nullifier_map t)"
    by (rule nullifier_sim.run_abs) simp
  show "{n. fold use_nullifier ns (nullifier_map t) n = Some True}
       = {n. nullifier_map t n = Some True} \<union> (set ns \<inter> dom (nullifier_map t))"
  proof (induction ns arbitrary: t)
    case (Cons n ns)
    have "{k. use_nullifier n (nullifier_map t) k = Some True}
        = {k. nullifier_map t k = Some True} \<union> ({n} \<inter> dom (nullifier_map t))"
      and "dom (use_nullifier n (nullifier_map t)) = dom (nullifier_map t)"
      by (auto simp: use_nullifier_def split: if_splits)
    then show ?case using Cons.IH [of "snd (mark_body n t)"] by (auto simp: nullifier_map_mark)
  qed simp
qed

end
