(* ===== verification/Client.thy ===== *)
theory Client
  imports Bridge AuditTrail
begin

text \<open>
  The browser's side of the HTTP interface: \<open>frontend/src/lib/api.ts\<close>, and the wallet hook
  \<open>frontend/src/lib/useXverseWallet.ts\<close>. A request either gets a response, whose body is JSON, or
  fails with the code and the message of a network error. The wallet extension is outside the program: what it
  answers is an argument. Toasts and console output are not modelled.
\<close>

section \<open>Requests\<close>

datatype reply = NoReply string string | Reply response

definition ok_code :: "nat \<Rightarrow> bool" where
  "ok_code c = (200 \<le> c \<and> c < 300)"

text \<open>What axios throws: the response, when there is one, a message and a code.\<close>

record axios_error =
  ax_response :: "response option"
  ax_message :: string
  ax_code :: "string option"

definition axios_data :: "reply \<Rightarrow> axios_error + json" where
  "axios_data r = (case r of
     NoReply c m \<Rightarrow> Inl \<lparr>ax_response = None, ax_message = m, ax_code = Some c\<rparr>
   | Reply p \<Rightarrow> if ok_code (code p) then Inr (body p)
       else Inl \<lparr>ax_response = Some p, ax_message = ''Request failed with status code '' @ str_of_nat (code p),
         ax_code = Some (if code p < 500 then ''ERR_BAD_REQUEST'' else ''ERR_BAD_RESPONSE'')\<rparr>)"

text \<open>\<open>a || b\<close> on values that may be \<open>undefined\<close>; reading a property of \<open>null\<close> is a \<open>TypeError\<close>.\<close>

definition or_else :: "json option \<Rightarrow> json option \<Rightarrow> json option" where
  "or_else a b = (if truthy_json a then a else b)"

definition opt_field :: "json option \<Rightarrow> string \<Rightarrow> json option" where
  "opt_field j k = (case j of None \<Rightarrow> None | Some v \<Rightarrow> json_field v k)"

definition null_read :: "string \<Rightarrow> axios_error" where
  "null_read k = \<lparr>ax_response = None, ax_message = ''Cannot read properties of null (reading '' @ [CHR 0x27] @ k @ [CHR 0x27] @ '')'', ax_code = None\<rparr>"

definition undefined_read :: "string \<Rightarrow> axios_error" where
  "undefined_read k = \<lparr>ax_response = None, ax_message = ''Cannot read properties of undefined (reading '' @ [CHR 0x27] @ k @ [CHR 0x27] @ '')'', ax_code = None\<rparr>"

definition read_prop :: "json option \<Rightarrow> string \<Rightarrow> axios_error + json option" where
  "read_prop j k = (case j of None \<Rightarrow> Inl (undefined_read k) | Some JNull \<Rightarrow> Inl (null_read k) | Some v \<Rightarrow> Inr (json_field v k))"

declare respond_def [client_eval] json_field_def [client_eval] truthy_json_def [client_eval]
  ok_code_def [client_eval] axios_data_def [client_eval] or_else_def [client_eval]
  opt_field_def [client_eval] read_prop_def [client_eval]

section \<open>api.ts\<close>

record deposit_result =
  dr_commitment :: "json option"
  dr_nullifier_hash :: "json option"

definition commitment_failed :: "axios_error \<Rightarrow> string" where
  "commitment_failed e =
     (let errorBody = or_else (opt_field (map_option body (ax_response e)) ''error'') (Some (JStr (ax_message e)));
          status = (case ax_response e of None \<Rightarrow> 500 | Some p \<Rightarrow> if code p = 0 then 500 else code p)
      in ''Request failed with status code '' @ str_of_nat status @ '': '' @ js_text (the errorBody))"

definition depositCommitment :: "reply \<Rightarrow> string + deposit_result" where
  "depositCommitment r = (case axios_data r of
     Inl e \<Rightarrow> Inl (commitment_failed e)
   | Inr responseData \<Rightarrow>
       if responseData = JNull then Inl (commitment_failed (null_read ''commitment_hash''))
       else let nested = json_field responseData ''data'' in
         Inr \<lparr>dr_commitment = or_else (json_field responseData ''commitment_hash'')
                     (or_else (opt_field nested ''commitment'') (json_field responseData ''commitment'')),
                dr_nullifier_hash = or_else (json_field responseData ''nullifier_hash'') (opt_field nested ''nullifier_hash'')\<rparr>)"

record lock_result =
  lk_locked :: "json option"
  lk_transactionId :: "json option"
  lk_confirmations :: "json option"
  lk_amountMatched :: "json option"
  lk_status :: string
  lk_signet_url :: "json option"
  lk_mempool_url :: "json option"

definition lock_of :: "json \<Rightarrow> lock_result" where
  "lock_of j = \<lparr>lk_locked = json_field j ''detected'', lk_transactionId = json_field j ''txid'',
     lk_confirmations = json_field j ''confirmations'', lk_amountMatched = json_field j ''amount_btc'',
     lk_status = (if truthy_json (json_field j ''detected'') then ''LOCKED'' else ''PENDING''),
     lk_signet_url = json_field j ''signet_url'', lk_mempool_url = json_field j ''mempool_url''\<rparr>"

definition detectLock :: "reply \<Rightarrow> axios_error + lock_result" where
  "detectLock r = (case axios_data r of
     Inl e \<Rightarrow> Inl e
   | Inr d \<Rightarrow> if d = JNull then Inl (null_read ''data'') else Inr (lock_of (the (or_else (json_field d ''data'') (Some d)))))"

text \<open>The query of \<open>detectLock\<close>; a start time of 0 is left out.\<close>

definition detect_query :: "string \<Rightarrow> rat \<Rightarrow> int option \<Rightarrow> (string \<times> string) list" where
  "detect_query address amt since = [(''address'', address), (''amount'', num_str amt)]
     @ (case since of None \<Rightarrow> [] | Some t \<Rightarrow> if t = 0 then [] else [(''since'', str_of_int t)])"

record vault_stats =
  vs_network :: "json option"
  vs_blockNumber :: "json option"
  vs_vaultContractReachable :: "json option"
  vs_mockBtcContractReachable :: "json option"
  vs_circuitTripped :: "json option"

text \<open>\<open>getVaultStatus\<close>, whose deposits and contracts in flight are the constant 0.\<close>

definition getVaultStatus :: "reply \<Rightarrow> axios_error + vault_stats" where
  "getVaultStatus r = (case axios_data r of
     Inl e \<Rightarrow> Inl e
   | Inr h \<Rightarrow> (case read_prop (Some h) ''starknet'' of
       Inl e \<Rightarrow> Inl e
     | Inr starknet \<Rightarrow> (case read_prop starknet ''network'' of
         Inl e \<Rightarrow> Inl e
       | Inr net \<Rightarrow> (case read_prop (opt_field starknet ''circuit'') ''isTripped'' of
           Inl e \<Rightarrow> Inl e
         | Inr tripped \<Rightarrow> Inr \<lparr>vs_network = net, vs_blockNumber = opt_field starknet ''blockNumber'',
             vs_vaultContractReachable = opt_field starknet ''vaultContractReachable'',
             vs_mockBtcContractReachable = opt_field starknet ''mockBtcContractReachable'', vs_circuitTripped = tripped\<rparr>))))"

definition getAuditLogs :: "reply \<Rightarrow> json" where
  "getAuditLogs r = (case axios_data r of
     Inl e \<Rightarrow> JArr []
   | Inr d \<Rightarrow> if d = JNull then JArr [] else the (or_else (json_field d ''events'') (Some (JArr []))))"

section \<open>useXverseWallet.ts\<close>

record wallet_state =
  wl_isConnected :: bool
  wl_paymentAddress :: "string option"
  wl_ordinalsAddress :: "string option"
  wl_isConnecting :: bool
  wl_error :: "string option"
  wl_isInstalled :: "bool option"

definition arrow :: string where
  "arrow = [CHR 0xE2, CHR 0x86, CHR 0x92]"

definition init_wallet :: wallet_state where
  "init_wallet = \<lparr>wl_isConnected = False, wl_paymentAddress = None, wl_ordinalsAddress = None, wl_isConnecting = False,
     wl_error = None, wl_isInstalled = None\<rparr>"

text \<open>400 ms after mounting the extension counts as installed, unless it is known not to be.\<close>

definition wallet_mounted :: "wallet_state \<Rightarrow> wallet_state" where
  "wallet_mounted s = s\<lparr>wl_isInstalled := Some (case wl_isInstalled s of None \<Rightarrow> True | Some b \<Rightarrow> b)\<rparr>"

text \<open>
  An answer of the extension: its status, the error it may carry (a message and a code), its JSON
  text, and the addresses with their purposes.
\<close>

record wallet_answer =
  wa_status :: string
  wa_error_message :: "string option"
  wa_error_code :: "int option"
  wa_text :: string
  wa_addresses :: "(string \<times> string) list"

definition connect_start :: "wallet_state \<Rightarrow> wallet_state" where
  "connect_start s = s\<lparr>wl_isConnecting := True, wl_error := None\<rparr>"

definition connect_timeout :: "wallet_state \<Rightarrow> wallet_state" where
  "connect_timeout s = (if \<not> wl_isConnecting s then s
     else s\<lparr>wl_isConnecting := False, wl_error := Some (''Connection timed out. Check that Xverse is set to Bitcoin Signet (Settings ''
       @ arrow @ '' Network) and try again.'')\<rparr>)"

definition connect_refused :: "string \<Rightarrow> wallet_state \<Rightarrow> wallet_state" where
  "connect_refused m s = s\<lparr>wl_isConnecting := False, wl_error := Some m\<rparr>"

definition cancelled_text :: string where
  "cancelled_text = ''Connection cancelled. Click \"Connect Xverse Wallet\" to try again.''"

text \<open>
  \<open>connectWallet\<close>: the answers to \<open>wallet_connect\<close> and to \<open>getAddresses\<close>, each of which may reject
  with an error (\<open>None\<close> for one without a message). The timer is cleared before the second answer
  is looked at.
\<close>

definition access_denied_text :: string where
  "access_denied_text = ''ACCESS DENIED: Xverse has blocked this site. Fix: Open Xverse '' @ arrow @ '' Settings '' @ arrow
     @ '' Connected Sites '' @ arrow @ '' remove localhost:3000 '' @ arrow @ '' hard refresh this page (Cmd+Shift+R) '' @ arrow @ '' try again.''"

definition wallet_error_text :: "wallet_answer \<Rightarrow> string" where
  "wallet_error_text a =
     (let errMsg = (case wa_error_message a of None \<Rightarrow> [] | Some m \<Rightarrow> m) in
      if wa_error_code a = Some (- 32002) \<or> str_includes (to_lower errMsg) ''access denied'' then access_denied_text
      else if wa_error_code a = Some (- 32603) \<or> str_includes (to_lower errMsg) ''internal''
      then ''Xverse internal error. Try reloading the Xverse extension from brave://extensions and hard refreshing this page.''
      else ''Wallet error: '' @ errMsg)"

definition find_address :: "string \<Rightarrow> wallet_answer \<Rightarrow> string option" where
  "find_address purpose a = map_option snd (List.find (\<lambda>(p, _). p = purpose) (wa_addresses a))"

definition addresses_answered :: "wallet_answer \<Rightarrow> wallet_state \<Rightarrow> wallet_state" where
  "addresses_answered a s =
     (if wa_status a = ''success'' then (case find_address ''payment'' a of
        Some addr \<Rightarrow> \<lparr>wl_isConnected = True, wl_paymentAddress = Some addr, wl_ordinalsAddress = find_address ''ordinals'' a,
          wl_isConnecting = False, wl_error = None, wl_isInstalled = Some True\<rparr>
      | None \<Rightarrow> connect_refused ''No payment address returned. Make sure Xverse is on Bitcoin Signet.'' s)
      else if wa_status a = ''cancel'' \<or> wa_status a = ''error'' then
        (if wa_status a = ''cancel'' then connect_refused cancelled_text s else s)
      else connect_refused (wallet_error_text a) s)"

definition connect_threw :: "string option \<Rightarrow> wallet_state \<Rightarrow> wallet_state" where
  "connect_threw m s =
     (let msg = (if truthy m then the m else ''Failed to connect to Xverse wallet'');
          notInstalled = str_includes (to_lower msg) ''no bitcoin wallet'' \<or> str_includes (to_lower msg) ''not installed''
            \<or> str_includes (to_lower msg) ''no wallet''
      in s\<lparr>wl_isConnecting := False, wl_isInstalled := (if notInstalled then Some False else wl_isInstalled s),
           wl_error := Some (if notInstalled then ''Xverse extension not found. Please install Xverse and refresh the page.'' else msg)\<rparr>)"

definition connect_answered :: "string option + wallet_answer \<Rightarrow> string option + wallet_answer \<Rightarrow> wallet_state \<Rightarrow> wallet_state" where
  "connect_answered first second s = (case first of
     Inl m \<Rightarrow> connect_threw m s
   | Inr a \<Rightarrow>
       if wa_status a \<noteq> ''success'' then connect_refused (if wa_status a = ''cancel'' then cancelled_text
           else ''Connection rejected: '' @ (if truthy (wa_error_message a) then the (wa_error_message a) else wa_text a)) s
       else (case second of Inl m \<Rightarrow> connect_threw m s | Inr b \<Rightarrow> addresses_answered b s))"

definition disconnectWallet :: "wallet_state \<Rightarrow> wallet_state" where
  "disconnectWallet s = s\<lparr>wl_isConnected := False, wl_paymentAddress := None, wl_ordinalsAddress := None,
     wl_isConnecting := False, wl_error := None\<rparr>"

text \<open>
  \<open>sendBitcoin\<close>: a promise that the first of several callbacks settles. \<open>snd_finished\<close> and the timer
  are the two variables of the closure, \<open>snd_result\<close> what the promise was settled with.
\<close>

record sending =
  snd_finished :: bool
  snd_timer :: bool
  snd_result :: "string res option"

datatype send_event = Timer_fires | On_finish "string option list" | On_cancel | Send_throws exn

definition init_send :: sending where
  "init_send = \<lparr>snd_finished = False, snd_timer = True, snd_result = None\<rparr>"

text \<open>\<open>response.txid || response.txId || response.transactionId || response.tx\<close>\<close>

fun first_truthy :: "string option list \<Rightarrow> string option" where
  "first_truthy [] = None"
| "first_truthy (x # xs) = (if truthy x then x else first_truthy xs)"

fun send_outcome :: "send_event \<Rightarrow> string res" where
  "send_outcome Timer_fires = Inr ''pending''"
| "send_outcome (On_finish ids) = Inr (case first_truthy ids of Some t \<Rightarrow> t | None \<Rightarrow> ''pending'')"
| "send_outcome On_cancel = Inr ''pending''"
| "send_outcome (Send_throws e) = Inl e"

definition send_step :: "send_event \<Rightarrow> sending \<Rightarrow> sending" where
  "send_step ev s =
     (if ev = Timer_fires \<and> \<not> snd_timer s then s
      else if snd_finished s then s
      else s\<lparr>snd_finished := True, snd_timer := False,
             snd_result := (case snd_result s of None \<Rightarrow> Some (send_outcome ev) | Some r \<Rightarrow> Some r)\<rparr>)"

section \<open>Lemmas\<close>

lemma create_answers:
  assumes "r = post_create_commitment cl (JObj [(''amount'', JStr a), (''secret'', JStr se)])"
  shows "(\<exists>x c n. code r = 200 \<and> parseFloat a = Some x \<and> isAllowedDenomination x \<and> generateCommitment cl (num_str x) se = Inr c
            \<and> generateNullifier cl c se = Inr n \<and> body r = JObj [(''success'', JBool True),
                (''data'', JObj [(''commitment'', JStr c), (''nullifier_hash'', JStr n)]),
                (''commitment'', JStr c), (''nullifier_hash'', JStr n)])
       \<or> ((code r = 400 \<or> code r = 500) \<and> (\<exists>m. json_field (body r) ''error'' = Some (JStr m)))"
proof -
  have f: "json_field (JObj [(''amount'', JStr a), (''secret'', JStr se)]) ''amount'' = Some (JStr a)"
    "json_field (JObj [(''amount'', JStr a), (''secret'', JStr se)]) ''secret'' = Some (JStr se)"
    by (simp_all add: json_field_def)
  have e: "json_field (body (respond k ((''error'', JStr m) # fs))) ''error'' = Some (JStr m)" for k m fs
    by (simp add: respond_def json_field_def)
  show ?thesis
  proof (cases "a = [] \<or> se = []")
    case True
    then show ?thesis using assms e by (auto simp: post_create_commitment_def f truthy_json_def)
  next
    case False
    show ?thesis
    proof (cases "parseFloat a")
      case None
      then show ?thesis using assms e False by (simp add: post_create_commitment_def f truthy_json_def)
    next
      case (Some x)
      show ?thesis
      proof (cases "0 < x \<and> isAllowedDenomination x \<and> 10 \<le> length se")
        case True
        then show ?thesis
          using assms e False Some
          by (cases "generateCommitment cl (num_str x) se"; cases "generateNullifier cl (projr (generateCommitment cl (num_str x) se)) se")
             (auto simp: post_create_commitment_def f truthy_json_def respond_def json_field_def)
      next
        case False
        then show ?thesis
          using assms e \<open>\<not> (a = [] \<or> se = [])\<close> Some
          by (auto simp: post_create_commitment_def f truthy_json_def bad_denomination_def)
      qed
    qed
  qed
qed

lemma ok_code_200 [simp]: "ok_code 200" "\<not> ok_code 400" "\<not> ok_code 402" "\<not> ok_code 500" "\<not> ok_code 503"
  by (simp_all add: ok_code_def)

lemma depositCommitment_ok:
  assumes "code r = 200" and "body r = JObj [(''success'', JBool True),
      (''data'', JObj [(''commitment'', JStr c), (''nullifier_hash'', JStr n)]), (''commitment'', JStr c), (''nullifier_hash'', JStr n)]"
  shows "depositCommitment (Reply r) = Inr \<lparr>dr_commitment = Some (JStr c), dr_nullifier_hash = Some (JStr n)\<rparr>"
  using assms by (simp add: depositCommitment_def Let_def client_eval)

lemma depositCommitment_error:
  assumes "code r = 400 \<or> code r = 500" and "json_field (body r) ''error'' = Some (JStr m)"
  shows "depositCommitment (Reply r) = Inl (''Request failed with status code '' @ str_of_nat (code r) @ '': ''
     @ (if m = [] then ''Request failed with status code '' @ str_of_nat (code r) else m))"
  using assms by (auto simp: depositCommitment_def commitment_failed_def Let_def client_eval)

lemma sent_done: "snd_finished s \<Longrightarrow> snd_result (fold send_step evs s) = snd_result s"
  by (induction evs arbitrary: s) (auto simp: send_step_def)

section \<open>Properties\<close>

text \<open>
  What the client makes of the server's answer to a request for a commitment: exactly the commitment
  and the nullifier that the server computed from the amount's canonical text and the secret, or an
  error that names the status and the server's reason.
\<close>

theorem commitment_reaches_client:
  "case depositCommitment (Reply (post_create_commitment cl (JObj [(''amount'', JStr a), (''secret'', JStr se)]))) of
     Inr res \<Rightarrow> \<exists>x c n. parseFloat a = Some x \<and> isAllowedDenomination x \<and> generateCommitment cl (num_str x) se = Inr c
       \<and> generateNullifier cl c se = Inr n \<and> res = \<lparr>dr_commitment = Some (JStr c), dr_nullifier_hash = Some (JStr n)\<rparr>
   | Inl t \<Rightarrow> \<exists>k m. (k = 400 \<or> k = 500) \<and> t = ''Request failed with status code '' @ str_of_nat k @ '': '' @ m"
proof -
  let ?r = "post_create_commitment cl (JObj [(''amount'', JStr a), (''secret'', JStr se)])"
  from create_answers [OF refl] consider
    (made) x c n where "code ?r = 200" "parseFloat a = Some x" "isAllowedDenomination x"
      "generateCommitment cl (num_str x) se = Inr c" "generateNullifier cl c se = Inr n"
      "depositCommitment (Reply ?r) = Inr \<lparr>dr_commitment = Some (JStr c), dr_nullifier_hash = Some (JStr n)\<rparr>"
    | (refused) m where "code ?r = 400 \<or> code ?r = 500" "json_field (body ?r) ''error'' = Some (JStr m)"
    using depositCommitment_ok [of ?r] by blast
  then show ?thesis
    by cases (auto simp: depositCommitment_error)
qed

text \<open>
  Sending settles once: whatever callbacks the wallet fires, in whatever order and however often, and
  whenever the timer of 15 seconds fires, the promise has the outcome of the first of them.
\<close>

theorem send_settles_once:
  "snd_result (fold send_step evs init_send) = (case evs of [] \<Rightarrow> None | ev # _ \<Rightarrow> Some (send_outcome ev))"
proof (cases evs)
  case (Cons ev es)
  have "snd_finished (send_step ev init_send)" "snd_result (send_step ev init_send) = Some (send_outcome ev)"
    by (simp_all add: send_step_def init_send_def)
  then show ?thesis using sent_done [of "send_step ev init_send" es] Cons by simp
qed (simp add: init_send_def)

text \<open>
  An error answer of the wallet is never reported: when \<open>getAddresses\<close> answers with status \<open>error\<close>, the
  timer has been cleared already and the state stays \<open>connecting\<close>, without a message; the branch that
  would explain the error is only reached by statuses that are none of the three.
\<close>

theorem wallet_error_hangs:
  assumes "wa_status a = ''success''" and "wa_status b = ''error''"
  shows "connect_answered (Inr a) (Inr b) (connect_start s) = connect_start s
     \<and> wl_isConnecting (connect_start s) \<and> wl_error (connect_start s) = None"
  using assms by (simp add: connect_answered_def addresses_answered_def connect_start_def)

theorem wallet_error_hangs_witness:
  "wl_isConnecting (connect_answered
     (Inr \<lparr>wa_status = ''success'', wa_error_message = None, wa_error_code = None, wa_text = [], wa_addresses = []\<rparr>)
     (Inr \<lparr>wa_status = ''error'', wa_error_message = Some ''access denied'', wa_error_code = Some (- 32002), wa_text = [],
           wa_addresses = []\<rparr>) (connect_start init_wallet))"
  using wallet_error_hangs [of "\<lparr>wa_status = ''success'', wa_error_message = None, wa_error_code = None, wa_text = [], wa_addresses = []\<rparr>"
      "\<lparr>wa_status = ''error'', wa_error_message = Some ''access denied'', wa_error_code = Some (- 32002), wa_text = [], wa_addresses = []\<rparr>"
      init_wallet] by simp

end
