(* ===== verification/DepositPage.thy ===== *)
theory DepositPage
  imports Client
begin

text \<open>
  \<open>frontend/src/app/deposit/page.tsx\<close>: the four steps of a deposit as a state machine. \<open>page\<close> holds the
  state hooks that the handlers read and write. A handler or a poll runs with the values of the
  render that created it (its closure), so that a poll carries a copy of what it captured. All
  updates of one handler between two awaits end in one render, after which the effect on
  \<open>[step, bitcoinTx, confirmations]\<close> may start a submission. Rendering, toasts and links are not
  modelled. Amounts typed as text are parsed as the source does.
\<close>

section \<open>State\<close>

record page =
  pg_step :: nat
  pg_loading :: bool
  pg_amount :: string
  pg_secret :: string
  pg_commitment :: string
  pg_nullifierHash :: string
  pg_bitcoinTx :: string
  pg_isScanning :: bool
  pg_scanError :: "string option"
  pg_hasSentBTC :: bool
  pg_confirmations :: rat
  pg_vaultId :: string
  pg_txHash :: string
  pg_voyagerUrl :: string
  pg_submitSuccess :: bool
  pg_isSubmitting :: bool
  pg_submitError :: "string option"
  pg_depositAddress :: string
  pg_walletAddress :: "string option"
  pg_interval :: "nat option"

text \<open>The first render, with the secret drawn from 31 random bytes and the vault's fresh uuid.\<close>

definition init_page :: "buffer \<Rightarrow> string \<Rightarrow> page" where
  "init_page rand uuid = \<lparr>pg_step = 1, pg_loading = False, pg_amount = [], pg_secret = ''0x'' @ hex_encode rand,
     pg_commitment = [], pg_nullifierHash = [], pg_bitcoinTx = [], pg_isScanning = False, pg_scanError = None,
     pg_hasSentBTC = False, pg_confirmations = 0, pg_vaultId = uuid, pg_txHash = [], pg_voyagerUrl = [],
     pg_submitSuccess = False, pg_isSubmitting = False, pg_submitError = None, pg_depositAddress = ''Loading...'',
     pg_walletAddress = None, pg_interval = None\<rparr>"

text \<open>The denomination buttons.\<close>

definition page_denominations :: "rat list" where
  "page_denominations = map fl [1 / 10000, 1 / 1000, 1 / 100, 1 / 10]"

definition choose_amount :: "rat \<Rightarrow> page \<Rightarrow> page" where
  "choose_amount d s = s\<lparr>pg_amount := num_str d\<rparr>"

text \<open>The check of the sender's balance on mounting: whether the automatic broadcast is offered, and why not.\<close>

definition checkBroadcastAvailability :: "reply \<Rightarrow> bool \<times> json option" where
  "checkBroadcastAvailability r = (case axios_data r of
     Inl _ \<Rightarrow> (True, None)
   | Inr b \<Rightarrow> if b = JNull then (True, None)
       else if truthy_json (json_field b ''canBroadcast'') then (True, None)
       else (False, json_field b ''message''))"

section \<open>Step 1: the commitment\<close>

text \<open>The request for a commitment, when the handler gets that far.\<close>

definition commitment_request :: "page \<Rightarrow> json option" where
  "commitment_request s =
     (if pg_amount s = [] \<or> (case number_of_string (pg_amount s) of None \<Rightarrow> True | Some x \<Rightarrow> x \<le> 0)
         \<or> pg_secret s = [] \<or> pg_loading s
      then None else Some (JObj [(''amount'', JStr (pg_amount s)), (''secret'', JStr (pg_secret s))]))"

text \<open>The two answers, of \<open>/commitment/create\<close> and of \<open>/bridge/deposit-address\<close>.\<close>

definition handleGenerateCommitment :: "reply \<Rightarrow> reply \<Rightarrow> page \<Rightarrow> page" where
  "handleGenerateCommitment created addressed s =
     (if commitment_request s = None then s
      else (case depositCommitment created of
          Inl _ \<Rightarrow> s\<lparr>pg_loading := False\<rparr>
        | Inr res \<Rightarrow>
            if \<not> truthy_json (dr_commitment res) \<or> \<not> truthy_json (dr_nullifier_hash res) then s\<lparr>pg_loading := False\<rparr>
            else let s1 = s\<lparr>pg_commitment := js_text (the (dr_commitment res)),
                            pg_nullifierHash := js_text (the (dr_nullifier_hash res))\<rparr>
              in (case axios_data addressed of
                    Inl _ \<Rightarrow> s1\<lparr>pg_loading := False\<rparr>
                  | Inr a \<Rightarrow> if \<not> truthy_json (json_field a ''address'') then s1\<lparr>pg_loading := False\<rparr>
                      else s1\<lparr>pg_depositAddress := js_text (the (json_field a ''address'')), pg_step := 2, pg_loading := False\<rparr>)))"

section \<open>Step 2: sending and polling\<close>

text \<open>\<open>Math.floor(parseFloat(amount) * 100_000_000)\<close>; \<open>None\<close> is \<open>NaN\<close>, for which \<open>BigInt\<close> throws.\<close>

definition wallet_sats :: "string \<Rightarrow> int option" where
  "wallet_sats amt = map_option (\<lambda>x. \<lfloor>mul x 100000000\<rfloor>) (parseFloat amt)"

text \<open>
  A poller: the values that \<open>poll\<close> captured, and its own count of attempts. \<open>po_id\<close> names the
  interval that calls it.
\<close>

record poller =
  po_id :: nat
  po_step :: nat
  po_attempts :: nat

definition MAX_ATTEMPTS :: nat where "MAX_ATTEMPTS = 180"

definition known_txid :: "string option \<Rightarrow> bool" where
  "known_txid t \<longleftrightarrow> truthy t \<and> t \<noteq> Some ''pending''"

text \<open>
  \<open>startPolling(knownTxid)\<close>, called from a render with state \<open>closure\<close>: the new state and the poller
  that the interval \<open>i\<close> runs, at once and then every five seconds.
\<close>

definition startPolling :: "nat \<Rightarrow> page \<Rightarrow> string option \<Rightarrow> page \<Rightarrow> page \<times> poller" where
  "startPolling i closure knownTxid s =
     (let s1 = s\<lparr>pg_hasSentBTC := True, pg_isScanning := True, pg_scanError := None\<rparr>;
          s2 = (if known_txid knownTxid
                then s1\<lparr>pg_bitcoinTx := the knownTxid, pg_confirmations := 0,
                        pg_voyagerUrl := ''https://mempool.space/signet/tx/'' @ the knownTxid, pg_step := 3, pg_isScanning := False\<rparr>
                else s1)
      in (s2\<lparr>pg_interval := Some i\<rparr>, \<lparr>po_id = i, po_step = pg_step closure, po_attempts = 0\<rparr>))"

text \<open>\<open>handleWalletSend\<close> after the wallet has answered, and \<open>handleAutoSend\<close> after the server has.\<close>

definition handleWalletSend :: "nat \<Rightarrow> wallet_state \<Rightarrow> page \<Rightarrow> string res \<Rightarrow> page \<Rightarrow> page \<times> poller option" where
  "handleWalletSend i w closure sent s = (if \<not> wl_isConnected w \<or> \<not> truthy (wl_paymentAddress w) then (s, None)
   else case sent of
     Inl _ \<Rightarrow> (s, None)
   | Inr t \<Rightarrow> (case startPolling i closure (if t \<noteq> [] \<and> t \<noteq> ''pending'' then Some t else None) s of (s', p) \<Rightarrow> (s', Some p)))"

definition handleAutoSend :: "nat \<Rightarrow> page \<Rightarrow> reply \<Rightarrow> page \<Rightarrow> page \<times> poller option" where
  "handleAutoSend i closure r s = (case axios_data r of
     Inl _ \<Rightarrow> (s, None)
   | Inr res \<Rightarrow> if res = JNull then (s, None) else (case startPolling i closure None s of (s', p) \<Rightarrow> (s', Some p)))"

text \<open>
  What one poll makes of the answer: the state, and whether the interval and the time-out are
  cleared. Clearing acts on the interval that \<open>intervalRef\<close> holds by then.
\<close>

definition txid_of :: "lock_result \<Rightarrow> string" where
  "txid_of r = (if truthy_json (lk_transactionId r) then js_text (the (lk_transactionId r)) else [])"

definition confs_of :: "lock_result \<Rightarrow> rat" where
  "confs_of r = (case lk_confirmations r of Some (JNum x) \<Rightarrow> x | _ \<Rightarrow> 0)"

definition poll_answer :: "axios_error + lock_result \<Rightarrow> poller \<Rightarrow> page \<Rightarrow> page \<times> bool" where
  "poll_answer answer p s = (case answer of
     Inr result \<Rightarrow>
       if truthy_json (lk_locked result) then
         (if txid_of result = [] then (s\<lparr>pg_scanError := Some ''Transaction detected but no TXID returned''\<rparr>, False)
          else ((if po_step p < 3
                 then s\<lparr>pg_isScanning := False, pg_bitcoinTx := txid_of result, pg_confirmations := confs_of result,
                        pg_voyagerUrl := (if truthy_json (lk_mempool_url result) then js_text (the (lk_mempool_url result))
                                          else ''https://mempool.space/signet/tx/'' @ txid_of result), pg_step := 3\<rparr>
                 else s\<lparr>pg_confirmations := confs_of result\<rparr>), 1 \<le> confs_of result))
       else if MAX_ATTEMPTS \<le> po_attempts p then
         (s\<lparr>pg_isScanning := False, pg_scanError := Some (''No transaction detected after 15 minutes '' @ emdash
              @ '' are you sure you sent to the right address?''), pg_hasSentBTC := False\<rparr>, True)
       else (s, False)
   | Inl err \<Rightarrow>
       if 10 \<le> po_attempts p \<and> ax_code err = Some ''ERR_NETWORK'' then
         (s\<lparr>pg_isScanning := False, pg_scanError := Some ''Cannot connect to backend server. Is it running on port 3001?'',
            pg_hasSentBTC := False\<rparr>, True)
       else (s, False))"

section \<open>Step 3: the submission\<close>

text \<open>A template literal, in which \<open>undefined\<close> has a text.\<close>

definition shown :: "json option \<Rightarrow> string" where
  "shown j = (case j of None \<Rightarrow> ''undefined'' | Some v \<Rightarrow> js_text v)"

text \<open>The proof, or the message of the error thrown.\<close>

definition proof_answer :: "reply \<Rightarrow> string + json" where
  "proof_answer r = (case r of
     NoReply c m \<Rightarrow> Inl m
   | Reply p \<Rightarrow>
       if \<not> ok_code (code p) then Inl (case read_prop (Some (body p)) ''error'' of
            Inl e \<Rightarrow> ax_message e
          | Inr x \<Rightarrow> js_text (the (or_else x (Some (JStr ''Failed to fetch SPV proof'')))))
       else if body p = JNull then Inl (ax_message (null_read ''blockHeight'')) else Inr (body p))"

definition present :: "string \<Rightarrow> json option \<Rightarrow> (string \<times> json) list" where
  "present k j = (case j of None \<Rightarrow> [] | Some v \<Rightarrow> [(k, v)])"

text \<open>The body of the deposit; \<open>JSON.stringify\<close> leaves out what is undefined and turns \<open>NaN\<close> into \<open>null\<close>.\<close>

definition submit_body :: "page \<Rightarrow> json \<Rightarrow> json" where
  "submit_body s proof_json = JObj ([(''vault_id'', JStr (pg_vaultId s)), (''commitment'', JStr (pg_commitment s))]
     @ present ''blockHeight'' (json_field proof_json ''blockHeight'') @ present ''txPos'' (json_field proof_json ''txPos'')
     @ present ''rawTxBytes'' (json_field proof_json ''rawTxBytes'') @ present ''voutIndex'' (json_field proof_json ''voutIndex'')
     @ present ''merkleProofWords'' (json_field proof_json ''merkleProofWords'')
     @ [(''bitcoin_txid'', JStr (pg_bitcoinTx s)), (''secret'', JStr (pg_secret s)), (''nullifier_hash'', JStr (pg_nullifierHash s)),
        (''amount'', case parseFloat (pg_amount s) of None \<Rightarrow> JNull | Some x \<Rightarrow> JNum x)]
     @ present ''deposit_sender_address'' (map_option JStr (pg_walletAddress s)))"

definition deposit_answer :: "reply \<Rightarrow> string + json" where
  "deposit_answer r = (case r of
     NoReply c m \<Rightarrow> Inl m
   | Reply p \<Rightarrow>
       if \<not> ok_code (code p) then Inl (case read_prop (Some (body p)) ''code'' of
            Inl e \<Rightarrow> ax_message e
          | Inr x \<Rightarrow>
              if x = Some (JStr ''HEADER_NOT_RELAYED'') then shown (json_field (body p) ''error'') @ [CHR 0x0A, CHR 0x0A]
                @ js_text (the (or_else (json_field (body p) ''suggestion'')
                    (Some (JStr ''The header relay service is syncing. Please wait 1-2 minutes and try again.''))))
              else js_text (the (or_else (json_field (body p) ''error'')
                    (Some (JStr ''SPV relayer submission failed. Ensure block header is relayed.'')))))
       else if body p = JNull then Inl (ax_message (null_read ''transaction_hash'')) else Inr (body p))"

definition submit_start :: "page \<Rightarrow> page" where
  "submit_start s = s\<lparr>pg_isSubmitting := True, pg_submitError := None\<rparr>"

definition submit_done :: "string + json \<Rightarrow> page \<Rightarrow> page" where
  "submit_done answer s = (case answer of
     Inl m \<Rightarrow> s\<lparr>pg_submitError := Some m, pg_isSubmitting := False\<rparr>
   | Inr d \<Rightarrow> s\<lparr>pg_txHash := (case json_field d ''transaction_hash'' of None \<Rightarrow> [] | Some j \<Rightarrow> js_text j),
        pg_voyagerUrl := (if truthy_json (json_field d ''voyager_url'') then js_text (the (json_field d ''voyager_url''))
                          else ''https://sepolia.voyager.online/tx/'' @ shown (json_field d ''transaction_hash'')),
        pg_submitSuccess := True, pg_step := 4, pg_isSubmitting := False\<rparr>)"

text \<open>
  \<open>handleSubmitStarknet\<close> of a render \<open>closure\<close>, against a server that answers the two requests and
  keeps a state. The check of the header in between only shows a message.
\<close>

definition handleSubmitStarknet :: "(string \<Rightarrow> reply) \<Rightarrow> (json \<Rightarrow> 'd \<Rightarrow> reply \<times> 'd) \<Rightarrow> page \<Rightarrow> page \<Rightarrow> 'd \<Rightarrow> page \<times> 'd" where
  "handleSubmitStarknet spv_proof spv_deposit closure s d =
     (case proof_answer (spv_proof (pg_bitcoinTx closure)) of
        Inl m \<Rightarrow> (submit_done (Inl m) (submit_start s), d)
      | Inr proof_json \<Rightarrow> (case spv_deposit (submit_body closure proof_json) d of
          (r, d') \<Rightarrow> (submit_done (deposit_answer r) (submit_start s), d')))"

section \<open>The page and its timers\<close>

text \<open>
  \<open>c_pollers\<close> holds the closures that were created, \<open>c_live\<close> the intervals that are still armed,
  \<open>c_flight\<close> the polls that await an answer and \<open>c_submits\<close> the submissions that the effect started.
\<close>

record client =
  c_page :: page
  c_pollers :: "nat \<Rightarrow> poller option"
  c_live :: "nat list"
  c_flight :: "nat list"
  c_submits :: nat

definition effect_fires :: "page \<Rightarrow> page \<Rightarrow> bool" where
  "effect_fires old new \<longleftrightarrow>
     (pg_step old, pg_bitcoinTx old, pg_confirmations old) \<noteq> (pg_step new, pg_bitcoinTx new, pg_confirmations new)
     \<and> pg_step new = 3 \<and> pg_bitcoinTx new \<noteq> [] \<and> 1 \<le> pg_confirmations new"

definition render :: "page \<Rightarrow> client \<Rightarrow> client" where
  "render s c = c\<lparr>c_page := s, c_submits := c_submits c + (if effect_fires (c_page c) s then 1 else 0)\<rparr>"

text \<open>A call of \<open>startPolling\<close>, which polls at once; a tick of a live interval; an answer to a poll.\<close>

definition start_polling :: "nat \<Rightarrow> page \<Rightarrow> string option \<Rightarrow> client \<Rightarrow> client" where
  "start_polling i closure knownTxid c = (case startPolling i closure knownTxid (c_page c) of
     (s, p) \<Rightarrow> (render s c)\<lparr>c_pollers := (c_pollers c)(i \<mapsto> p\<lparr>po_attempts := 1\<rparr>), c_live := c_live c @ [i],
        c_flight := c_flight c @ [i]\<rparr>)"

definition tick :: "nat \<Rightarrow> client \<Rightarrow> client" where
  "tick i c = (if i \<in> set (c_live c)
     then c\<lparr>c_pollers := (c_pollers c)(i := map_option (\<lambda>p. p\<lparr>po_attempts := Suc (po_attempts p)\<rparr>) (c_pollers c i)),
            c_flight := c_flight c @ [i]\<rparr>
     else c)"

definition answered :: "nat \<Rightarrow> reply \<Rightarrow> client \<Rightarrow> client" where
  "answered i r c = (if i \<notin> set (c_flight c) then c
     else (case c_pollers c i of
        None \<Rightarrow> c
      | Some p \<Rightarrow> (case poll_answer (detectLock r) p (c_page c) of
          (s, stop) \<Rightarrow> (render s c)\<lparr>c_flight := remove1 i (c_flight c),
             c_live := (if stop then (case pg_interval (c_page c) of None \<Rightarrow> c_live c | Some j \<Rightarrow> removeAll j (c_live c))
                        else c_live c)\<rparr>)))"

section \<open>Lemmas\<close>

lemma words_all_length:
  "words_all hs = Inr ws \<Longrightarrow> list_all (\<lambda>w. length w = 8) ws"
  by (induction hs arbitrary: ws)
     (auto simp: hexHashToWords_def Let_def list32 split: if_splits)

lemma buildSpvProof_words: "buildSpvProof ex t sc = Inr p \<Longrightarrow> list_all (\<lambda>w. length w = 8) (merkleProof p)"
  by (auto simp: buildSpvProof_def Let_def intro: words_all_length)

lemma z_all_map: "(\<And>x. x \<in> set xs \<Longrightarrow> p (f x) = Some (g x)) \<Longrightarrow> z_all p (map f xs) = Some (map g xs)"
  by (induction xs) auto

lemma z_int_JInt: "z_int lo hi (JInt n) = (if \<bar>n\<bar> < 2 ^ 53 \<and> lo \<le> n \<and> n \<le> hi then Some n else None)"
  by (simp add: z_int_def JInt_def)

lemma z_words_ints: "length w = 8 \<Longrightarrow> z_words (JArr (map JInt w)) = Some (map of_int w)"
  using z_all_map [of w z_number JInt of_int] by (simp add: z_words_def z_array_def z_number_def JInt_def)

lemma z_words_all:
  "list_all (\<lambda>w. length w = 8) ws \<Longrightarrow>
     z_array z_words (JArr (map (\<lambda>w. JArr (map JInt w)) ws)) = Some (map (map of_int) ws)"
  by (auto simp: z_array_def list_all_iff intro!: z_all_map z_words_ints)

lemma z_bytes: "z_array (z_int 0 255) (JArr (map JInt (map uint (bs :: buffer)))) = Some (map uint bs)"
proof -
  have "z_int 0 255 (JInt (uint b)) = Some (uint b)" for b :: byte
    using uint_lt2p [of b] by (simp add: z_int_JInt)
  then show ?thesis using z_all_map [of bs "z_int 0 255" "\<lambda>b. JInt (uint b)" uint]
    by (simp add: z_array_def comp_def)
qed

text \<open>What the route of the proof answers, as the page reads it.\<close>

lemma proof_answer_server:
  assumes "length tx = 64" and "list_all is_hex tx" and "buildSpvProof ex tx (VAULT_SCRIPT_PUBKEY e) = Inr p"
  shows "\<exists>pj. proof_answer (Reply (get_spv_proof ex e (Some tx))) = Inr pj
     \<and> json_field pj ''blockHeight'' = Some (JInt (blockHeight p)) \<and> json_field pj ''txPos'' = Some (JInt (txPos p))
     \<and> json_field pj ''rawTxBytes'' = Some (JArr (map JInt (fst (encodeSpvProofAsCalldata p))))
     \<and> json_field pj ''voutIndex'' = Some (JInt (int (voutIndex p)))
     \<and> json_field pj ''merkleProofWords'' = Some (JArr (map (\<lambda>w. JArr (map JInt w)) (snd (encodeSpvProofAsCalldata p))))"
  using assms by (auto simp: get_spv_proof_def proof_answer_def truthy_def encodeSpvProofAsCalldata_def respond_def
      ok_code_def json_field_def)

lemma uuid_nonempty: "\<not> is_uuid []"
  by (simp add: is_uuid_def uuid_shape_def)

definition ready_to_submit :: "page \<Rightarrow> bool" where
  "ready_to_submit s \<longleftrightarrow> starts_with (pg_commitment s) ''0x'' \<and> is_uuid (pg_vaultId s) \<and> length (pg_bitcoinTx s) = 64
     \<and> list_all is_hex (pg_bitcoinTx s) \<and> (\<exists>x > 0. parseFloat (pg_amount s) = Some x)
     \<and> pred_option (\<lambda>a. starts_with a ''tb1'') (pg_walletAddress s)"

definition proof_in_range :: "spv_proof \<Rightarrow> bool" where
  "proof_in_range p \<longleftrightarrow> 1 \<le> blockHeight p \<and> blockHeight p \<le> MAX_SAFE \<and> 0 \<le> txPos p \<and> txPos p \<le> MAX_SAFE
     \<and> int (voutIndex p) \<le> MAX_SAFE"

text \<open>The deposit that the page asks for, as the server's schema reads it.\<close>

definition requested :: "page \<Rightarrow> spv_proof \<Rightarrow> spv_body" where
  "requested s p = \<lparr>sb_commitment = pg_commitment s, sb_blockHeight = blockHeight p, sb_txPos = txPos p,
     sb_rawTxBytes = fst (encodeSpvProofAsCalldata p), sb_voutIndex = int (voutIndex p),
     sb_merkleProofWords = map (map of_int) (snd (encodeSpvProofAsCalldata p)), sb_bitcoin_txid = Some (pg_bitcoinTx s),
     sb_vault_id = Some (pg_vaultId s), sb_secret = Some (pg_secret s), sb_nullifier_hash = Some (pg_nullifierHash s),
     sb_amount = parseFloat (pg_amount s), sb_sender = pg_walletAddress s\<rparr>"

lemma submit_body_schema:
  assumes "ready_to_submit s" and "proof_in_range p" and "list_all (\<lambda>w. length w = 8) (merkleProof p)"
    and "json_field pj ''blockHeight'' = Some (JInt (blockHeight p))" "json_field pj ''txPos'' = Some (JInt (txPos p))"
    and "json_field pj ''rawTxBytes'' = Some (JArr (map JInt (fst (encodeSpvProofAsCalldata p))))"
    and "json_field pj ''voutIndex'' = Some (JInt (int (voutIndex p)))"
    and "json_field pj ''merkleProofWords'' = Some (JArr (map (\<lambda>w. JArr (map JInt w)) (snd (encodeSpvProofAsCalldata p))))"
  shows "spv_schema (submit_body s pj) = Some (requested s p)"
proof -
  obtain x where x: "0 < x" "parseFloat (pg_amount s) = Some x" using assms(1) by (auto simp: ready_to_submit_def)
  let ?b = "submit_body s pj"
  have f: "json_field ?b ''commitment'' = Some (JStr (pg_commitment s))"
    "json_field ?b ''blockHeight'' = Some (JInt (blockHeight p))" "json_field ?b ''txPos'' = Some (JInt (txPos p))"
    "json_field ?b ''rawTxBytes'' = Some (JArr (map JInt (fst (encodeSpvProofAsCalldata p))))"
    "json_field ?b ''voutIndex'' = Some (JInt (int (voutIndex p)))"
    "json_field ?b ''merkleProofWords'' = Some (JArr (map (\<lambda>w. JArr (map JInt w)) (snd (encodeSpvProofAsCalldata p))))"
    "json_field ?b ''bitcoin_txid'' = Some (JStr (pg_bitcoinTx s))" "json_field ?b ''vault_id'' = Some (JStr (pg_vaultId s))"
    "json_field ?b ''secret'' = Some (JStr (pg_secret s))" "json_field ?b ''nullifier_hash'' = Some (JStr (pg_nullifierHash s))"
    "json_field ?b ''amount'' = Some (JNum x)"
    "json_field ?b ''deposit_sender_address'' = map_option JStr (pg_walletAddress s)"
    using assms(4-) x(2) by (simp_all add: submit_body_def json_field_def [of "JObj _"] present_def split: option.splits)
  have z: "field_of (z_int 1 MAX_SAFE) ?b ''blockHeight'' = Some (blockHeight p)"
    "field_of (z_int 0 MAX_SAFE) ?b ''txPos'' = Some (txPos p)" "field_of (z_int 0 MAX_SAFE) ?b ''voutIndex'' = Some (int (voutIndex p))"
    "field_of (z_array (z_int 0 255)) ?b ''rawTxBytes'' = Some (fst (encodeSpvProofAsCalldata p))"
    "field_of (z_array z_words) ?b ''merkleProofWords'' = Some (map (map of_int) (snd (encodeSpvProofAsCalldata p)))"
    using assms(2,3) z_bytes z_words_all
    by (simp_all add: field_of_def f z_int_JInt proof_in_range_def MAX_SAFE_def encodeSpvProofAsCalldata_def)
  have o: "opt_str ?b ''deposit_sender_address'' = Some (pg_walletAddress s)"
    "opt_str ?b ''bitcoin_txid'' = Some (Some (pg_bitcoinTx s))" "opt_str ?b ''vault_id'' = Some (Some (pg_vaultId s))"
    "opt_str ?b ''secret'' = Some (Some (pg_secret s))" "opt_str ?b ''nullifier_hash'' = Some (Some (pg_nullifierHash s))"
    "opt_number ?b ''amount'' = Some (Some x)"
    by (cases "pg_walletAddress s") (simp_all add: opt_str_def opt_number_def f x(1))
  show ?thesis using assms(1) x
    by (simp add: spv_schema_def f(1) z o requested_def ready_to_submit_def)
qed

text \<open>What the polls are about: answers without a deposit, and with one.\<close>

definition undetected :: "reply \<Rightarrow> bool" where
  "undetected r \<longleftrightarrow> (\<exists>res. detectLock r = Inr res \<and> \<not> truthy_json (lk_locked res))"

definition detected :: "string \<Rightarrow> rat \<Rightarrow> reply \<Rightarrow> bool" where
  "detected t x r \<longleftrightarrow> (\<exists>res. detectLock r = Inr res \<and> truthy_json (lk_locked res) \<and> txid_of res = t \<and> t \<noteq> [] \<and> confs_of res = x)"

text \<open>Polls that do not overlap: each is answered before the next tick.\<close>

fun poll_run :: "nat \<Rightarrow> reply list \<Rightarrow> client \<Rightarrow> client" where
  "poll_run i [] c = c"
| "poll_run i (r # rs) c = poll_run i rs (tick i (answered i r c))"

text \<open>The interval \<open>i\<close> runs and its poll number \<open>k\<close> awaits an answer.\<close>

definition polling :: "nat \<Rightarrow> nat \<Rightarrow> client \<Rightarrow> bool" where
  "polling i k c \<longleftrightarrow> c_live c = [i] \<and> c_flight c = [i] \<and> pg_interval (c_page c) = Some i
     \<and> c_pollers c i = Some \<lparr>po_id = i, po_step = 2, po_attempts = k\<rparr>"

lemma poll_run_stopped:
  "i \<notin> set (c_live c) \<Longrightarrow> i \<notin> set (c_flight c) \<Longrightarrow> poll_run i rs c = c"
  by (induction rs) (simp_all add: answered_def tick_def)

lemma polling_undetected:
  assumes "polling i k c" and "undetected r" and "k < 180"
  shows "polling i (Suc k) (tick i (answered i r c)) \<and> c_page (tick i (answered i r c)) = c_page c
     \<and> c_submits (tick i (answered i r c)) = c_submits c"
  using assms by (auto simp: polling_def undetected_def answered_def poll_answer_def MAX_ATTEMPTS_def render_def
      effect_fires_def tick_def)

lemma polling_gives_up_at:
  assumes "polling i k c" and "undetected r" and "180 \<le> k"
  shows "\<exists>c'. tick i (answered i r c) = c' \<and> c_live c' = [] \<and> c_flight c' = [] \<and> \<not> pg_hasSentBTC (c_page c')
     \<and> pg_scanError (c_page c') \<noteq> None \<and> pg_step (c_page c') = pg_step (c_page c)
     \<and> (pg_step (c_page c) = 2 \<longrightarrow> c_submits c' = c_submits c)"
  using assms by (auto simp: polling_def undetected_def answered_def poll_answer_def MAX_ATTEMPTS_def render_def
      effect_fires_def tick_def)

lemma polling_unconfirmed:
  assumes "polling i k c" and "detected t x r" and "x < 1"
  shows "polling i (Suc k) (tick i (answered i r c)) \<and> pg_step (c_page (tick i (answered i r c))) = 3
     \<and> pg_confirmations (c_page (tick i (answered i r c))) = x
     \<and> c_submits (tick i (answered i r c)) = c_submits c"
  using assms by (auto simp: polling_def detected_def answered_def poll_answer_def render_def effect_fires_def tick_def)

lemma polling_confirmed:
  assumes "polling i k c" and "detected t x r" and "1 \<le> x"
    and "pg_step (c_page c) \<noteq> 3 \<or> pg_confirmations (c_page c) < 1"
  shows "c_live (tick i (answered i r c)) = [] \<and> c_flight (tick i (answered i r c)) = []
     \<and> pg_step (c_page (tick i (answered i r c))) = 3 \<and> pg_bitcoinTx (c_page (tick i (answered i r c))) = t
     \<and> c_submits (tick i (answered i r c)) = Suc (c_submits c)"
  using assms by (auto simp: polling_def detected_def answered_def poll_answer_def render_def effect_fires_def tick_def)

lemma request_accepted:
  assumes "ready_to_submit s" and "buildSpvProof ex (pg_bitcoinTx s) (VAULT_SCRIPT_PUBKEY e) = Inr p" and "proof_in_range p"
  shows "\<exists>pj. proof_answer (Reply (get_spv_proof ex e (Some (pg_bitcoinTx s)))) = Inr pj
     \<and> spv_schema (submit_body s pj) = Some (requested s p)"
proof -
  obtain pj where pj: "proof_answer (Reply (get_spv_proof ex e (Some (pg_bitcoinTx s)))) = Inr pj"
    "json_field pj ''blockHeight'' = Some (JInt (blockHeight p))" "json_field pj ''txPos'' = Some (JInt (txPos p))"
    "json_field pj ''rawTxBytes'' = Some (JArr (map JInt (fst (encodeSpvProofAsCalldata p))))"
    "json_field pj ''voutIndex'' = Some (JInt (int (voutIndex p)))"
    "json_field pj ''merkleProofWords'' = Some (JArr (map (\<lambda>w. JArr (map JInt w)) (snd (encodeSpvProofAsCalldata p))))"
    using proof_answer_server [OF _ _ assms(2)] assms(1) by (auto simp: ready_to_submit_def)
  then show ?thesis
    using submit_body_schema [OF assms(1,3) buildSpvProof_words [OF assms(2)] pj(2-)] by blast
qed

text \<open>The server's two routes as the page reaches them.\<close>

definition spv_server :: "explorer \<Rightarrow> string option \<Rightarrow> string \<Rightarrow> reply" where
  "spv_server ex e t = Reply (get_spv_proof ex e (Some t))"

definition deposit_server :: "spv_env \<Rightarrow> json \<Rightarrow> db \<Rightarrow> reply \<times> db" where
  "deposit_server env b d = (case post_spv_deposit env b d of (r, d') \<Rightarrow> (Reply r, d'))"

lemma page_deposit:
  assumes "ready_to_submit s" and "buildSpvProof ex (pg_bitcoinTx s) (VAULT_SCRIPT_PUBKEY e) = Inr p" and "proof_in_range p"
    and "\<exists>k < 24. sv_header env k"
    and "sv_execute env (pg_commitment s) (blockHeight p) (txPos p) (fst (encodeSpvProofAsCalldata p)) (int (voutIndex p))
           (map (map of_int) (snd (encodeSpvProofAsCalldata p))) = Inr h" and "sv_wait env h = Inr ()"
    and "pg_nullifierHash s \<noteq> []" and "generateRandomness (sv_rand env) = Inr hint"
    and "vaults_violation (vaults d @ [spv_vault env (requested s p) (pg_vaultId s) (pg_nullifierHash s) hint h]) = None"
  shows "\<exists>s'. handleSubmitStarknet (spv_server ex e) (deposit_server env) s s d
       = (s', d\<lparr>vaults := vaults d @ [spv_vault env (requested s p) (pg_vaultId s) (pg_nullifierHash s) hint h]\<rparr>)
     \<and> pg_step s' = 4 \<and> pg_submitSuccess s' \<and> pg_submitError s' = None \<and> pg_txHash s' = h"
proof -
  let ?v = "spv_vault env (requested s p) (pg_vaultId s) (pg_nullifierHash s) hint h"
  obtain pj where pj: "proof_answer (spv_server ex e (pg_bitcoinTx s)) = Inr pj"
    "spv_schema (submit_body s pj) = Some (requested s p)"
    using request_accepted [OF assms(1-3)] by (auto simp: spv_server_def)
  have "pg_vaultId s \<noteq> []" using assms(1) uuid_nonempty by (auto simp: ready_to_submit_def)
  then have "run_spv_deposit env (requested s p) d = (spv_ok (requested s p) h, d\<lparr>vaults := vaults d @ [?v]\<rparr>)"
    using run_spv_fresh [of env "requested s p" h "pg_vaultId s" "pg_nullifierHash s" hint d] assms(4-9)
    by (simp add: requested_def)
  then have "deposit_server env (submit_body s pj) d = (Reply (spv_ok (requested s p) h), d\<lparr>vaults := vaults d @ [?v]\<rparr>)"
    by (simp add: deposit_server_def post_spv_deposit_def pj(2))
  then have "handleSubmitStarknet (spv_server ex e) (deposit_server env) s s d
      = (submit_done (deposit_answer (Reply (spv_ok (requested s p) h))) (submit_start s), d\<lparr>vaults := vaults d @ [?v]\<rparr>)"
    by (simp add: handleSubmitStarknet_def pj(1))
  then show ?thesis
    by (simp add: submit_done_def deposit_answer_def spv_ok_def respond_def ok_code_def json_field_def submit_start_def)
qed

section \<open>A concrete deposit\<close>

definition demo_page :: page where
  "demo_page = (init_page (replicate 31 7) ''00000000-0000-0000-0000-000000000000'')\<lparr>pg_step := 3, pg_amount := ''0.01'',
     pg_commitment := ''0x5'', pg_nullifierHash := ''0x6'', pg_bitcoinTx := replicate 64 (CHR ''a''), pg_confirmations := 1,
     pg_walletAddress := Some ''tb1q''\<rparr>"

definition demo_script :: "string option" where
  "demo_script = Some (hex_encode [0, 20, 2])"

lemma demo_ready: "ready_to_submit demo_page"
proof -
  have "parseFloat ''0.01'' = Some (fl (1 / 100)) \<and> 0 < fl (1 / 100)" by code_simp
  then show ?thesis
    by (auto simp: ready_to_submit_def demo_page_def init_page_def is_uuid_def starts_with_def list_all_iff is_hex_def
        hex_val_def char_code_def Let_def)
qed

lemma demo_built: "\<exists>p. buildSpvProof demo_explorer (pg_bitcoinTx demo_page) (VAULT_SCRIPT_PUBKEY demo_script) = Inr p \<and> proof_in_range p"
proof -
  have "case buildSpvProof demo_explorer (pg_bitcoinTx demo_page) (VAULT_SCRIPT_PUBKEY demo_script) of
      Inr p \<Rightarrow> proof_in_range p | Inl _ \<Rightarrow> False" by code_simp
  then show ?thesis by (auto split: sum.splits)
qed

definition demo_reply :: "bool \<Rightarrow> int \<Rightarrow> reply" where
  "demo_reply found n = Reply (respond 200 (detection_json (if found then Some (''t1'', Some n) else None)))"

lemma demo_undetected: "undetected (demo_reply False n)"
  by (simp add: undetected_def demo_reply_def detectLock_def detection_json_def lock_of_def client_eval)

lemma demo_detected: "detected ''t1'' (of_int n) (demo_reply True n)"
  by (simp add: detected_def demo_reply_def detectLock_def detection_json_def lock_of_def txid_of_def confs_of_def
        JInt_def client_eval)

definition demo_client :: client where
  "demo_client = \<lparr>c_page = (init_page [] [])\<lparr>pg_step := 2\<rparr>, c_pollers = (\<lambda>_. None), c_live = [], c_flight = [], c_submits = 0\<rparr>"

lemma demo_client_fresh: "pg_step (c_page demo_client) = 2" "c_live demo_client = []" "c_flight demo_client = []"
  "c_submits demo_client = 0"
  by (simp_all add: demo_client_def)

section \<open>Properties\<close>

text \<open>
  C32. What the page sends is what the server takes: once the page is ready and the server has built a
  proof, the body that the page makes of the answer of \<open>/spv-proof\<close> passes the schema of
  \<open>/spv-deposit\<close> and is read as exactly the proof, the page's commitment, vault, nullifier and amount.
\<close>

theorem submit_request_accepted:
  assumes "ready_to_submit s" and "buildSpvProof ex (pg_bitcoinTx s) (VAULT_SCRIPT_PUBKEY e) = Inr p" and "proof_in_range p"
  shows "\<exists>pj. proof_answer (Reply (get_spv_proof ex e (Some (pg_bitcoinTx s)))) = Inr pj
     \<and> spv_schema (submit_body s pj) = Some (requested s p)"
  using assms by (rule request_accepted)

theorem submit_request_accepted_witness:
  "\<exists>pj p. proof_answer (Reply (get_spv_proof demo_explorer demo_script (Some (pg_bitcoinTx demo_page)))) = Inr pj
     \<and> spv_schema (submit_body demo_page pj) = Some (requested demo_page p)"
  using demo_built submit_request_accepted [OF demo_ready] by blast

text \<open>
  A deposit from the page to the vault's row: when the header is relayed and the contract takes the
  proof that the server built, the page ends at step 4 with the contract's transaction, and the database
  has one more vault, active, with the page's id, commitment, nullifier and Bitcoin transaction,
  and with the wallet's address as the one that withdrawals must not go to.
\<close>

theorem deposit_page_stores_vault:
  assumes "ready_to_submit s" and "buildSpvProof ex (pg_bitcoinTx s) (VAULT_SCRIPT_PUBKEY e) = Inr p" and "proof_in_range p"
    and "\<exists>k < 24. sv_header env k"
    and "sv_execute env (pg_commitment s) (blockHeight p) (txPos p) (fst (encodeSpvProofAsCalldata p)) (int (voutIndex p))
           (map (map of_int) (snd (encodeSpvProofAsCalldata p))) = Inr h" and "sv_wait env h = Inr ()"
    and "pg_nullifierHash s \<noteq> []" and "generateRandomness (sv_rand env) = Inr hint"
    and "vaults_violation (vaults d @ [spv_vault env (requested s p) (pg_vaultId s) (pg_nullifierHash s) hint h]) = None"
  shows "\<exists>s' v. handleSubmitStarknet (spv_server ex e) (deposit_server env) s s d = (s', d\<lparr>vaults := vaults d @ [v]\<rparr>)
     \<and> pg_step s' = 4 \<and> pg_submitSuccess s' \<and> pg_submitError s' = None \<and> pg_txHash s' = h
     \<and> v_id v = pg_vaultId s \<and> v_commitment v = pg_commitment s \<and> v_nullifier_hash v = Some (pg_nullifierHash s)
     \<and> v_bitcoin_txid v = Some (pg_bitcoinTx s) \<and> deposit_tx_hash v = Some h \<and> v_status v = active
     \<and> deposit_sender_address v = pg_walletAddress s"
  using page_deposit [OF assms]
  by (elim exE) (intro exI conjI, auto simp: spv_vault_def Let_def requested_def)

theorem deposit_page_stores_vault_witness:
  "\<exists>s' d'. handleSubmitStarknet (spv_server demo_explorer demo_script) (deposit_server demo_spv) demo_page demo_page empty_db
     = (s', d') \<and> pg_step s' = 4 \<and> map v_id (vaults d') = [''00000000-0000-0000-0000-000000000000'']"
proof -
  obtain p where p: "buildSpvProof demo_explorer (pg_bitcoinTx demo_page) (VAULT_SCRIPT_PUBKEY demo_script) = Inr p"
    "proof_in_range p" using demo_built by blast
  have e: "sv_execute demo_spv (pg_commitment demo_page) (blockHeight p) (txPos p) (fst (encodeSpvProofAsCalldata p))
      (int (voutIndex p)) (map (map of_int) (snd (encodeSpvProofAsCalldata p))) = Inr ''0x00112233445566778899aabbccddeeff''"
    "sv_wait demo_spv h = Inr ()" for h by (simp_all add: demo_spv_def)
  have n: "pg_nullifierHash demo_page \<noteq> []" "pg_vaultId demo_page = ''00000000-0000-0000-0000-000000000000''"
    by (simp_all add: demo_page_def init_page_def)
  have g: "generateRandomness (sv_rand demo_spv) = Inr (''0x'' @ concat (replicate 31 ''07''))"
    using demo_hint by (simp add: demo_spv_def)
  have v: "vaults_violation (vaults empty_db @ [spv_vault demo_spv (requested demo_page p) (pg_vaultId demo_page)
      (pg_nullifierHash demo_page) hint ''0x00112233445566778899aabbccddeeff'']) = None" for hint
    by (simp add: spv_vault_def Let_def table_eval)
  show ?thesis
    using deposit_page_stores_vault [OF demo_ready p demo_headers e n(1) g v] n(2) by (auto simp: empty_db_def)
qed

definition funding_help :: "page \<Rightarrow> bool" where
  "funding_help s \<longleftrightarrow> pg_submitError s = Some ''INSUFFICIENT_GAS''"

text \<open>
  The lack of funds is never explained: the page shows its instructions when \<open>submitError\<close> is the
  code \<open>INSUFFICIENT_GAS\<close>, but a failed submission stores the error's text there, so that no answer
  with status 402 of the deposit route ever shows them.
\<close>

theorem funding_help_never_shown:
  assumes "post_spv_deposit env j d = (r, d')" and "code r = 402"
  shows "\<not> funding_help (submit_done (deposit_answer (Reply r)) s)"
proof -
  obtain b where "run_spv_deposit env b d = (r, d')"
    using assms by (cases "spv_schema j") (auto simp: post_spv_deposit_def)
  then obtain e where "r = spv_failed e"
    using assms(2) by (auto simp: run_spv_deposit_def spv_ok_def header_missing_def split: sum.splits if_splits prod.splits)
  then have e: "r = spv_failed e" "str_includes (message e) ''INSUFFICIENT SEPOLIA ETH''"
    "\<not> str_includes (message e) ''Block header not relayed''"
    using assms(2) by (simp_all add: spv_failed_def Let_def split: if_splits)
  have "\<not> str_includes ''INSUFFICIENT_GAS'' ''INSUFFICIENT SEPOLIA ETH''"
    "\<not> str_includes [] ''INSUFFICIENT SEPOLIA ETH''" by code_simp+
  then have "message e \<noteq> ''INSUFFICIENT_GAS''" "message e \<noteq> []" using e(2) by metis+
  then show ?thesis using e
    by (simp add: spv_failed_def funding_help_def submit_done_def deposit_answer_def client_eval)
qed

theorem funding_help_never_shown_witness:
  "code (spv_failed (Error ''INSUFFICIENT SEPOLIA ETH: 0'')) = 402
   \<and> \<not> funding_help (submit_done (deposit_answer (Reply (spv_failed (Error ''INSUFFICIENT SEPOLIA ETH: 0'')))) demo_page)"
proof -
  let ?env = "demo_spv\<lparr>sv_execute := \<lambda>_ _ _ _ _ _. Inl (Error ''INSUFFICIENT SEPOLIA ETH: 0'')\<rparr>"
  obtain pj p where "spv_schema (submit_body demo_page pj) = Some (requested demo_page p)"
    using demo_built request_accepted [OF demo_ready] by blast
  moreover obtain k where "await_header (sv_header demo_spv) 0 maxAttempts = Some k"
    using demo_headers await_header_None [of "sv_header demo_spv" 0 maxAttempts]
    by (cases "await_header (sv_header demo_spv) 0 maxAttempts") (auto simp: maxAttempts_24)
  ultimately have r: "post_spv_deposit ?env (submit_body demo_page pj) empty_db
      = (spv_failed (Error ''INSUFFICIENT SEPOLIA ETH: 0''), empty_db)"
    by (simp add: post_spv_deposit_def run_spv_deposit_def)
  have "str_includes ''INSUFFICIENT SEPOLIA ETH: 0'' ''INSUFFICIENT SEPOLIA ETH''"
    "\<not> str_includes ''INSUFFICIENT SEPOLIA ETH: 0'' ''Block header not relayed''" by code_simp+
  then have c: "code (spv_failed (Error ''INSUFFICIENT SEPOLIA ETH: 0'')) = 402" by (simp add: spv_failed_def)
  show ?thesis using funding_help_never_shown [OF r c] c by blast
qed

lemma poll_run_append: "poll_run i (as @ bs) c = poll_run i bs (poll_run i as c)"
  by (induction as arbitrary: c) simp_all

lemma polling_keeps:
  assumes "polling i k c" and "\<forall>u \<in> set us. undetected u \<or> (\<exists>t x. detected t x u \<and> x < 1)" and "k + length us \<le> 180"
    and "pg_step (c_page c) \<noteq> 3 \<or> pg_confirmations (c_page c) < 1"
  shows "polling i (k + length us) (poll_run i us c) \<and> c_submits (poll_run i us c) = c_submits c
     \<and> (pg_step (c_page (poll_run i us c)) \<noteq> 3 \<or> pg_confirmations (c_page (poll_run i us c)) < 1)"
  using assms
proof (induction us arbitrary: k c)
  case (Cons u us)
  let ?c = "tick i (answered i u c)"
  have "polling i (Suc k) ?c \<and> c_submits ?c = c_submits c \<and> (pg_step (c_page ?c) \<noteq> 3 \<or> pg_confirmations (c_page ?c) < 1)"
    using Cons.prems polling_undetected [of i k c u] polling_unconfirmed [of i k c _ _ u] by fastforce
  then show ?case using Cons.IH [of "Suc k" ?c] Cons.prems(2,3) by simp
qed simp

text \<open>
  C25. Polls that do not overlap find a deposit and submit it once: whatever mixture of empty answers and of
  unconfirmed sightings comes first (fewer than 180 of them), the first confirmed sighting stops
  the interval, brings the page to step 3 with the transaction seen last, and starts exactly one
  submission; all later answers change nothing.
\<close>

theorem deposit_detected_submits_once:
  assumes "pg_step (c_page c) = 2" and "c_live c = []" and "c_flight c = []"
    and "\<forall>u \<in> set us. undetected u \<or> (\<exists>t x. detected t x u \<and> x < 1)" and "length us < 180"
    and "detected t x r" and "1 \<le> x"
  shows "\<exists>c'. poll_run i (us @ r # qs) (start_polling i (c_page c) None c) = c' \<and> c_live c' = []
     \<and> pg_step (c_page c') = 3 \<and> pg_bitcoinTx (c_page c') = t \<and> c_submits c' = Suc (c_submits c)"
proof -
  let ?c = "start_polling i (c_page c) None c"
  have c: "polling i 1 ?c \<and> pg_step (c_page ?c) = 2 \<and> c_submits ?c = c_submits c"
    using assms(1-3) by (simp add: start_polling_def startPolling_def known_txid_def truthy_def Let_def render_def
        effect_fires_def polling_def)
  then have p: "polling i (1 + length us) (poll_run i us ?c)" "c_submits (poll_run i us ?c) = c_submits c"
    "pg_step (c_page (poll_run i us ?c)) \<noteq> 3 \<or> pg_confirmations (c_page (poll_run i us ?c)) < 1"
    using polling_keeps [of i 1 ?c us] assms(4,5) by auto
  show ?thesis
    using polling_confirmed [OF p(1) assms(6,7) p(3)] p(2) poll_run_stopped [of i _ qs] by (simp add: poll_run_append)
qed

theorem deposit_detected_submits_once_witness:
  "c_submits (poll_run 7 ([demo_reply False 0, demo_reply True 0] @ demo_reply True 1 # [demo_reply True 2])
     (start_polling 7 (c_page demo_client) None demo_client)) = 1"
proof -
  have "\<forall>u \<in> set [demo_reply False 0, demo_reply True 0]. undetected u \<or> (\<exists>t x. detected t x u \<and> x < 1)"
    using demo_undetected demo_detected [of 0] by (auto intro!: exI [of _ "''t1''"] exI [of _ 0])
  then show ?thesis
    using deposit_detected_submits_once [OF demo_client_fresh(1-3) _ _ demo_detected [of 1], of _ 7 "[demo_reply True 2]"]
      demo_client_fresh(4) by (simp del: poll_run.simps append.simps)
qed

lemma polling_waits:
  assumes "polling i k c" and "\<forall>r \<in> set rs. undetected r" and "k + length rs \<le> 180"
  shows "polling i (k + length rs) (poll_run i rs c) \<and> c_page (poll_run i rs c) = c_page c
     \<and> c_submits (poll_run i rs c) = c_submits c"
  using assms
proof (induction rs arbitrary: k c)
  case (Cons r rs)
  then show ?case using polling_undetected [of i k c r] Cons.IH [of "Suc k" "tick i (answered i r c)"] by auto
qed simp

text \<open>Without a sighting the page asks exactly 180 times, a quarter of an hour, and then allows another try.\<close>

theorem polling_gives_up:
  assumes "pg_step (c_page c) = 2" and "c_live c = []" and "c_flight c = []" and "\<forall>r \<in> set rs. undetected r"
  shows "(c_live (poll_run i rs (start_polling i (c_page c) None c)) = [] \<longleftrightarrow> 180 \<le> length rs)
     \<and> (pg_hasSentBTC (c_page (poll_run i rs (start_polling i (c_page c) None c))) \<longleftrightarrow> length rs < 180)
     \<and> c_submits (poll_run i rs (start_polling i (c_page c) None c)) = c_submits c"
proof -
  let ?c = "start_polling i (c_page c) None c"
  have c: "polling i 1 ?c" "pg_step (c_page ?c) = 2" "c_submits ?c = c_submits c" "pg_hasSentBTC (c_page ?c)"
    using assms(1-3) by (simp_all add: start_polling_def startPolling_def known_txid_def truthy_def Let_def render_def
        effect_fires_def polling_def)
  show ?thesis
  proof (cases "length rs < 180")
    case True
    then show ?thesis using polling_waits [OF c(1) assms(4)] c by (auto simp: polling_def)
  next
    case False
    then obtain r where rs: "rs = take 179 rs @ r # drop 180 rs"
      using id_take_nth_drop [of 179 rs] by auto
    let ?d = "poll_run i (take 179 rs) ?c"
    have d: "polling i 180 ?d" "c_page ?d = c_page ?c" "c_submits ?d = c_submits c"
      using polling_waits [OF c(1), of "take 179 rs"] assms(4) False c(3) by (auto dest: in_set_takeD)
    have "undetected r" using assms(4) rs by (metis in_set_conv_decomp)
    then obtain e where e: "tick i (answered i r ?d) = e" "c_live e = []" "c_flight e = []" "\<not> pg_hasSentBTC (c_page e)"
      "c_submits e = c_submits ?d"
      using polling_gives_up_at [OF d(1)] d(2) c(2) by auto
    have "poll_run i rs ?c = e"
      using e(1-3) poll_run_stopped [of i e "drop 180 rs"] arg_cong [OF rs, of "\<lambda>l. poll_run i l ?c"]
      by (simp add: poll_run_append)
    then show ?thesis using e d(3) False by simp
  qed
qed


theorem polling_gives_up_witness:
  "c_live (poll_run 7 (replicate 180 (demo_reply False 0)) (start_polling 7 (c_page demo_client) None demo_client)) = []
   \<and> c_live (poll_run 7 (replicate 179 (demo_reply False 0)) (start_polling 7 (c_page demo_client) None demo_client)) \<noteq> []"
  using polling_gives_up [OF demo_client_fresh(1-3), of "replicate 180 (demo_reply False 0)" 7]
    polling_gives_up [OF demo_client_fresh(1-3), of "replicate 179 (demo_reply False 0)" 7] demo_undetected by simp

text \<open>
  The quarter of an hour does not bind a server that fails: the limit is looked at only in an answer
  without a sighting, so that answers with an error status keep the page scanning however many
  they are.
\<close>

theorem polling_ignores_failures:
  assumes "polling i k c" and "\<forall>r \<in> set rs. \<exists>p. r = Reply p \<and> \<not> ok_code (code p)"
  shows "polling i (k + length rs) (poll_run i rs c) \<and> c_page (poll_run i rs c) = c_page c"
  using assms
proof (induction rs arbitrary: k c)
  case (Cons r rs)
  then obtain p where p: "r = Reply p" "\<not> ok_code (code p)" by auto
  then have "polling i (Suc k) (tick i (answered i r c)) \<and> c_page (tick i (answered i r c)) = c_page c"
    using Cons.prems(1) by (auto simp: polling_def answered_def poll_answer_def detectLock_def axios_data_def render_def
        effect_fires_def tick_def)
  then show ?case using Cons.IH [of "Suc k" "tick i (answered i r c)"] Cons.prems(2) by simp
qed simp

text \<open>
  A late answer undoes a finished deposit: \<open>step\<close> in the poll is the one of the render that started it, so
  a poll still on its way when another one has confirmed the transaction, and the submission has
  ended at step 4, sets the page back to step 3 and the effect submits the deposit again.
\<close>

theorem late_poll_resubmits:
  assumes "pg_step (c_page c) = 2" and "c_live c = []" and "c_flight c = []"
    and "detected t x r" and "1 \<le> x" and "detected u y q" and "1 \<le> y"
    and "c1 = answered i r (tick i (start_polling i (c_page c) None c))"
    and "c2 = render (submit_done (Inr a) (submit_start (c_page c1))) c1"
  shows "c_submits c1 = Suc (c_submits c) \<and> c_live c1 = [] \<and> pg_step (c_page c2) = 4 \<and> pg_submitSuccess (c_page c2)
     \<and> pg_step (c_page (answered i q c2)) = 3 \<and> pg_bitcoinTx (c_page (answered i q c2)) = u
     \<and> c_submits (answered i q c2) = c_submits c + 2"
proof -
  obtain p where p: "c_pollers (tick i (start_polling i (c_page c) None c)) i = Some p" "po_step p = 2"
    "set (c_flight (tick i (start_polling i (c_page c) None c))) = {i}"
    "remove1 i (c_flight (tick i (start_polling i (c_page c) None c))) = [i]"
    "c_live (tick i (start_polling i (c_page c) None c)) = [i]"
    "pg_interval (c_page (tick i (start_polling i (c_page c) None c))) = Some i"
    "c_submits (tick i (start_polling i (c_page c) None c)) = c_submits c"
    "pg_step (c_page (tick i (start_polling i (c_page c) None c))) = 2"
    using assms(1-3) by (simp add: start_polling_def startPolling_def known_txid_def truthy_def Let_def render_def
        effect_fires_def tick_def)
  have c1: "c_submits c1 = Suc (c_submits c) \<and> c_live c1 = [] \<and> c_flight c1 = [i] \<and> c_pollers c1 i = Some p"
    using assms(4,5,8) p by (auto simp: answered_def poll_answer_def detected_def render_def effect_fires_def)
  then have "c_submits c2 = Suc (c_submits c) \<and> c_flight c2 = [i] \<and> c_pollers c2 i = Some p \<and> pg_step (c_page c2) = 4
      \<and> pg_submitSuccess (c_page c2)"
    using assms(9) by (simp add: submit_done_def render_def effect_fires_def)
  then show ?thesis
    using c1 p(2) assms(6,7) by (auto simp: answered_def poll_answer_def detected_def render_def effect_fires_def)
qed

theorem late_poll_resubmits_witness:
  "\<exists>c2. pg_step (c_page c2) = 4 \<and> pg_step (c_page (answered 7 (demo_reply True 2) c2)) = 3
     \<and> c_submits (answered 7 (demo_reply True 2) c2) = 2"
  using late_poll_resubmits [OF demo_client_fresh(1-3) demo_detected [of 1] _ demo_detected [of 2] _ refl refl,
      of 7 "JObj []"] demo_client_fresh(4) by auto

text \<open>
  The transaction that the wallet reported does not bind the page: the next sighting replaces it by
  whatever transaction the server saw at the address, and when that one is confirmed it is the one
  submitted.
\<close>

theorem wallet_txid_replaced:
  assumes "pg_step (c_page c) = 2" and "c_live c = []" and "c_flight c = []" and "known_txid (Some w)"
    and "detected t x r" and "1 \<le> x"
  shows "pg_bitcoinTx (c_page (start_polling i (c_page c) (Some w) c)) = w
     \<and> pg_bitcoinTx (c_page (answered i r (start_polling i (c_page c) (Some w) c))) = t
     \<and> c_submits (answered i r (start_polling i (c_page c) (Some w) c)) = Suc (c_submits c)"
  using assms by (auto simp: start_polling_def startPolling_def Let_def render_def effect_fires_def answered_def
      poll_answer_def detected_def)

theorem wallet_txid_replaced_witness:
  "pg_bitcoinTx (c_page (answered 7 (demo_reply True 1) (start_polling 7 (c_page demo_client) (Some ''mine'') demo_client))) = ''t1''"
  using wallet_txid_replaced [OF demo_client_fresh(1-3) _ demo_detected [of 1], of "''mine''" 7]
  by (simp add: known_txid_def truthy_def)

text \<open>
  The amount that the wallet is asked to send, a product rounded down, is for every denomination of
  the page exactly the number of satoshis that the bridge looks for, and that the server admits.
\<close>

theorem wallet_sends_what_is_expected:
  "map (\<lambda>d. wallet_sats (num_str d)) page_denominations = map Some ALLOWED_DENOMINATIONS_SATS
   \<and> map expectedSats page_denominations = ALLOWED_DENOMINATIONS_SATS
   \<and> list_all isAllowedDenomination page_denominations"
  by code_simp
end
