(* ===== verification/Pages.thy ===== *)
theory Pages
  imports Client Admin
begin

text \<open>
  The other pages of \<open>frontend/src/app\<close>: the withdrawal (\<open>withdraw/page.tsx\<close>), the audit ledger
  (\<open>audit/page.tsx\<close>), the dashboard (\<open>page.tsx\<close>) and the Starknet wallet
  (\<open>context/WalletContext.tsx\<close>). What a page shows is modelled where it depends on what the
  server answered; layout is not.
\<close>

section \<open>The withdrawal page\<close>

record shown_withdrawal =
  sw_nullifier_hash :: string
  sw_txHash :: string
  sw_bitcoinTxid :: string
  sw_bitcoinAddress :: string

datatype withdraw_notice = Missing_data | Invalid_address | Complete string | Partial string | Failed string

record withdraw_page =
  wd_secret :: string
  wd_nullifier :: string
  wd_bitcoinAddress :: string
  wd_proofLoading :: bool
  wd_proofParams :: "shown_withdrawal option"

text \<open>The checks before the request, and the request.\<close>

definition withdraw_guard :: "withdraw_page \<Rightarrow> withdraw_notice option" where
  "withdraw_guard s =
     (if wd_secret s = [] \<or> wd_nullifier s = [] then Some Missing_data
      else if \<not> starts_with (wd_bitcoinAddress s) ''tb1'' then Some Invalid_address
      else None)"

definition withdraw_request_body :: "withdraw_page \<Rightarrow> json" where
  "withdraw_request_body s = JObj [(''secret'', JStr (wd_secret s)), (''nullifier_hash'', JStr (wd_nullifier s)),
     (''bitcoin_address'', JStr (wd_bitcoinAddress s))]"

text \<open>A falsy field is replaced by a text.\<close>

definition field_or :: "json \<Rightarrow> string \<Rightarrow> string \<Rightarrow> string" where
  "field_or j k dflt = (if truthy_json (json_field j k) then js_text (the (json_field j k)) else dflt)"

definition failure_text :: "axios_error \<Rightarrow> string" where
  "failure_text e = (let m = or_else (opt_field (map_option body (ax_response e)) ''error'') (Some (JStr (ax_message e)))
     in if truthy_json m then js_text (the m) else ''API Error'')"

definition handleWithdraw :: "reply \<Rightarrow> withdraw_page \<Rightarrow> withdraw_notice \<times> withdraw_page" where
  "handleWithdraw r s = (case withdraw_guard s of
     Some n \<Rightarrow> (n, s)
   | None \<Rightarrow> (case axios_data r of
       Inl e \<Rightarrow> (Failed (failure_text e), s\<lparr>wd_proofLoading := False\<rparr>)
     | Inr d \<Rightarrow>
         if d = JNull then (Failed (ax_message (null_read ''txHash'')), s\<lparr>wd_proofLoading := False\<rparr>)
         else ((if truthy_json (json_field d ''bitcoinTxid'') then Complete (take 12 (wd_bitcoinAddress s))
                else Partial (field_or d ''message'' ''Starknet withdrawal OK, but Bitcoin payout pending.'')),
               s\<lparr>wd_proofLoading := False, wd_proofParams := Some \<lparr>sw_nullifier_hash = wd_nullifier s,
                   sw_txHash = field_or d ''txHash'' ''Unknown'', sw_bitcoinTxid = field_or d ''bitcoinTxid'' ''Pending'',
                   sw_bitcoinAddress = wd_bitcoinAddress s\<rparr>\<rparr>)))"

text \<open>The sentence of the banner, and whether the page shows the transaction's link.\<close>

definition banner :: "shown_withdrawal \<Rightarrow> string" where
  "banner p = (if sw_bitcoinTxid p \<noteq> [] then ''Bitcoin has been sent to your address!'' else ''Bitcoin payout is pending.'')"

definition shows_link :: "shown_withdrawal \<Rightarrow> bool" where
  "shows_link p \<longleftrightarrow> sw_bitcoinTxid p \<noteq> [] \<and> sw_bitcoinTxid p \<noteq> ''Pending''"

definition withdraw_disabled :: "withdraw_page \<Rightarrow> bool" where
  "withdraw_disabled s \<longleftrightarrow> wd_proofLoading s \<or> wd_proofParams s \<noteq> None"

section \<open>The audit page\<close>

text \<open>\<open>StatusBadge\<close>: the label of a status; what the table lacks is shown as pending.\<close>

definition badge_table :: "string \<Rightarrow> string option" where
  "badge_table s =
     (if s = ''ACCEPTED_ON_L2'' \<or> s = ''SUCCEEDED'' then Some ''Confirmed''
      else if s = ''PENDING'' then Some ''Pending''
      else if s = ''RECEIVED'' then Some ''Received''
      else if s = ''REJECTED'' then Some ''Failed'' else None)"

definition statusBadge :: "string \<Rightarrow> string" where
  "statusBadge s = (case badge_table s of Some l \<Rightarrow> l | None \<Rightarrow> the (badge_table ''PENDING''))"

text \<open>A hash in short: ten characters, three dots, the last six.\<close>

definition last_chars :: "nat \<Rightarrow> string \<Rightarrow> string" where
  "last_chars n s = drop (length s - n) s"

definition short_hash :: "string \<Rightarrow> string" where
  "short_hash h = take 10 h @ ''...'' @ last_chars 6 h"

record audit_page =
  ap_events :: "json option"
  ap_isLoading :: bool
  ap_isVerifying :: bool
  ap_verifyResults :: "json option"
  ap_showModal :: bool
  ap_autoRefresh :: bool

definition init_audit :: audit_page where
  "init_audit = \<lparr>ap_events = Some (JArr []), ap_isLoading = True, ap_isVerifying = False, ap_verifyResults = None,
     ap_showModal = False, ap_autoRefresh = False\<rparr>"

definition fetchAudit :: "reply \<Rightarrow> audit_page \<Rightarrow> audit_page" where
  "fetchAudit r s = (case axios_data r of
     Inl e \<Rightarrow> s\<lparr>ap_isLoading := False\<rparr>
   | Inr d \<Rightarrow> if d = JNull then s\<lparr>ap_isLoading := False\<rparr> else s\<lparr>ap_events := json_field d ''events'', ap_isLoading := False\<rparr>)"

definition handleVerify :: "reply \<Rightarrow> audit_page \<Rightarrow> audit_page" where
  "handleVerify r s = (case axios_data r of
     Inl e \<Rightarrow> s\<lparr>ap_isVerifying := False\<rparr>
   | Inr d \<Rightarrow> s\<lparr>ap_verifyResults := Some d, ap_showModal := True, ap_isVerifying := False\<rparr>)"

section \<open>The dashboard\<close>

datatype check_status = Idle | Checking | Pass | Fail

text \<open>
  \<open>runChecks\<close>: the four tests in order, each of an answer of its own: the health twice (the second
  time with its block number), the vault's status, and the bridge.
\<close>

definition dashboard_tests :: "(reply \<Rightarrow> bool) list" where
  "dashboard_tests =
     [\<lambda>r. case axios_data r of Inl _ \<Rightarrow> False | Inr _ \<Rightarrow> True,
      \<lambda>r. case axios_data r of Inl _ \<Rightarrow> False | Inr h \<Rightarrow> (case read_prop (Some h) ''starknet'' of
          Inl _ \<Rightarrow> False | Inr starknet \<Rightarrow> (case read_prop starknet ''blockNumber'' of Inl _ \<Rightarrow> False | Inr b \<Rightarrow> truthy_json b)),
      \<lambda>r. case getVaultStatus r of Inl _ \<Rightarrow> False | Inr _ \<Rightarrow> True,
      \<lambda>r. case axios_data r of Inl _ \<Rightarrow> False | Inr _ \<Rightarrow> True]"

definition set_check :: "nat \<Rightarrow> check_status \<Rightarrow> check_status list \<Rightarrow> check_status list" where
  "set_check i s cs = map (\<lambda>(c, idx). if idx = i then s else c) (zip cs [0..<length cs])"

fun run_checks :: "nat \<Rightarrow> (reply \<Rightarrow> bool) list \<Rightarrow> (nat \<Rightarrow> reply) \<Rightarrow> check_status list \<Rightarrow> check_status list" where
  "run_checks i [] answers cs = cs"
| "run_checks i (t # ts) answers cs =
     run_checks (Suc i) ts answers (set_check i (if t (answers i) then Pass else Fail) (set_check i Checking cs))"

definition runChecks :: "(nat \<Rightarrow> reply) \<Rightarrow> check_status list \<Rightarrow> check_status list" where
  "runChecks answers cs = run_checks 0 dashboard_tests answers cs"

record dashboard =
  db_status :: "vault_stats option"
  db_logs :: "json list"
  db_loading :: bool

definition fetchDashboardData :: "reply \<Rightarrow> reply \<Rightarrow> dashboard \<Rightarrow> dashboard" where
  "fetchDashboardData health_reply audit_reply s = (case getVaultStatus health_reply of
     Inl e \<Rightarrow> s\<lparr>db_loading := False\<rparr>
   | Inr v \<Rightarrow> (case getAuditLogs audit_reply of
       JArr es \<Rightarrow> \<lparr>db_status = Some v, db_logs = take 5 es, db_loading = False\<rparr>
     | _ \<Rightarrow> s\<lparr>db_status := Some v, db_loading := False\<rparr>))"

text \<open>The colour of an event's dot.\<close>

definition dot :: "json \<Rightarrow> string" where
  "dot e = (if json_field e ''status'' = Some (JStr ''success'') then ''green''
     else if json_field e ''status'' = Some (JStr ''pending'') then ''orange'' else ''red'')"

definition formatHash :: "string \<Rightarrow> string" where
  "formatHash h = (if h = [] then [] else take 8 h @ ''...'' @ last_chars 6 h)"

section \<open>The Starknet wallet\<close>

record stark_wallet =
  sk_connected :: bool
  sk_selectedAddress :: "string option"
  sk_accountAddress :: "string option"

text \<open>The provider's state: the wallet object and the address.\<close>

type_synonym wallet_context = "stark_wallet option \<times> string option"

definition take_wallet :: "stark_wallet option res \<Rightarrow> wallet_context \<Rightarrow> wallet_context" where
  "take_wallet answer c = (case answer of
     Inr (Some w) \<Rightarrow> if sk_connected w
       then (Some w, if truthy (sk_selectedAddress w) then sk_selectedAddress w
                     else if truthy (sk_accountAddress w) then sk_accountAddress w else None)
       else c
   | _ \<Rightarrow> c)"

definition drop_wallet :: "unit res \<Rightarrow> wallet_context \<Rightarrow> wallet_context" where
  "drop_wallet answer c = (case answer of Inr _ \<Rightarrow> (None, None) | Inl _ \<Rightarrow> c)"

section \<open>Lemmas\<close>

lemma sort_key_Nil: "sort_key f xs = [] \<longleftrightarrow> xs = []"
  by (metis length_0_conv length_sort)

lemma health_answers: "axios_data (Reply (health live vault_ok token_ok dbc circ rs now))
    = Inr (body (health live vault_ok token_ok dbc circ rs now))"
  by (simp add: axios_data_def health_def Let_def)

lemma health_status: "\<exists>v. getVaultStatus (Reply (health live vault_ok token_ok dbc (JObj circ) rs now)) = Inr v"
  by (simp add: getVaultStatus_def health_answers, simp add: health_def Let_def json_field_def read_prop_def opt_field_def)

section \<open>Properties\<close>

text \<open>
  The banner always says that Bitcoin has been sent: a missing transaction is stored as the text
  \<open>Pending\<close>, which is not empty, so that the banner claims the payout after every answer of the
  server, also when it is queued or has failed.
\<close>

theorem banner_always_claims_payout:
  assumes "withdraw_guard s = None" and "axios_data r = Inr d" and "d \<noteq> JNull"
  shows "\<exists>p. wd_proofParams (snd (handleWithdraw r s)) = Some p
     \<and> (\<not> truthy_json (json_field d ''bitcoinTxid'') \<longrightarrow>
          banner p = ''Bitcoin has been sent to your address!'' \<and> \<not> shows_link p \<and> withdraw_disabled (snd (handleWithdraw r s)))"
  using assms by (simp add: handleWithdraw_def banner_def field_or_def shows_link_def withdraw_disabled_def)

definition demo_withdraw_page :: withdraw_page where
  "demo_withdraw_page = \<lparr>wd_secret = ''0x1'', wd_nullifier = ''0x2'', wd_bitcoinAddress = ''tb1q'', wd_proofLoading = True,
     wd_proofParams = None\<rparr>"

theorem banner_always_claims_payout_witness:
  "\<exists>p. wd_proofParams (snd (handleWithdraw (Reply (respond 200 [(''bitcoinTxid'', JNull)])) demo_withdraw_page)) = Some p
     \<and> banner p = ''Bitcoin has been sent to your address!''"
proof -
  have "withdraw_guard demo_withdraw_page = None"
    by (simp add: withdraw_guard_def demo_withdraw_page_def starts_with_def)
  moreover have "axios_data (Reply (respond 200 [(''bitcoinTxid'', JNull)])) = Inr (JObj [(''bitcoinTxid'', JNull)])"
    by (simp add: axios_data_def respond_def)
  ultimately show ?thesis
    using banner_always_claims_payout [of demo_withdraw_page "Reply (respond 200 [(''bitcoinTxid'', JNull)])"]
    by (fastforce simp: json_field_def truthy_json_def)
qed

text \<open>
  Every event of the audit is shown red on the dashboard: the server reports \<open>SUCCEEDED\<close> and
  \<open>PENDING\<close>, the page looks for \<open>success\<close> and \<open>pending\<close>.
\<close>

theorem dashboard_dots_red:
  assumes "getVaultStatus h = Inr v"
  shows "(db_logs (fetchDashboardData h (Reply (getAudit d)) s) = [] \<longleftrightarrow> (\<forall>x \<in> set (vaults d). deposit_tx_hash x = None))
     \<and> (\<forall>e \<in> set (db_logs (fetchDashboardData h (Reply (getAudit d)) s)). dot e = ''red'')"
proof -
  let ?vs = "take 50 (sort_key (\<lambda>v. - v_created_at v) (filter (\<lambda>v. deposit_tx_hash v \<noteq> None) (vaults d)))"
  have "getAuditLogs (Reply (getAudit d)) = JArr (map audit_event ?vs)"
    by (simp add: getAuditLogs_def getAudit_def client_eval)
  then have l: "db_logs (fetchDashboardData h (Reply (getAudit d)) s) = take 5 (map audit_event ?vs)"
    using assms by (simp add: fetchDashboardData_def)
  have "dot (audit_event v) = ''red''" for v
    by (simp add: dot_def audit_event_def Let_def json_field_def)
  moreover have "?vs = [] \<longleftrightarrow> (\<forall>x \<in> set (vaults d). deposit_tx_hash x = None)"
    by (simp add: sort_key_Nil filter_empty_conv)
  ultimately show ?thesis unfolding l
    by (simp add: take_map)
qed

definition demo_health :: response where
  "demo_health = health (Inr 5) (Inr False) (Inr True) True (JObj [(''isTripped'', JBool False)])
     \<lparr>rs_running = True, rs_lastRelayedHeight = Some 9, rs_pollIntervalMs = 30000\<rparr> 0"

theorem dashboard_dots_red_witness:
  "db_logs (fetchDashboardData (Reply demo_health) (Reply (getAudit (empty_db\<lparr>vaults := [demo_vault\<lparr>deposit_tx_hash := Some ''0xab''\<rparr>]\<rparr>)))
          \<lparr>db_status = None, db_logs = [], db_loading = True\<rparr>) \<noteq> []"
proof -
  obtain v where "getVaultStatus (Reply demo_health) = Inr v"
    using health_status unfolding demo_health_def by blast
  then show ?thesis
    using dashboard_dots_red [of "Reply demo_health" v "empty_db\<lparr>vaults := [demo_vault\<lparr>deposit_tx_hash := Some ''0xab''\<rparr>]\<rparr>"]
    by simp
qed

text \<open>
  The check that the vault contract is reachable passes whenever the server answers: it only asks
  for the status, which is built just the same when the contract is not reachable.
\<close>

theorem vault_check_ignores_reachability:
  assumes "length cs = 4"
  shows "runChecks (\<lambda>_. Reply (health live vault_ok token_ok dbc (JObj circ) rs now)) cs ! 2 = Pass"
proof -
  obtain a b c d where cs: "cs = [a, b, c, d]"
    using assms by (auto simp: numeral_eq_Suc length_Suc_conv)
  obtain v where "getVaultStatus (Reply (health live vault_ok token_ok dbc (JObj circ) rs now)) = Inr v"
    using health_status by blast
  then show ?thesis by (simp add: cs runChecks_def dashboard_tests_def set_check_def)
qed

theorem vault_check_ignores_reachability_witness:
  "runChecks (\<lambda>_. Reply (health (Inr 5) (Inr False) (Inr True) True (JObj [(''isTripped'', JBool False)])
     \<lparr>rs_running = True, rs_lastRelayedHeight = Some 9, rs_pollIntervalMs = 30000\<rparr> 0)) [Idle, Idle, Idle, Idle] ! 2 = Pass"
  by (rule vault_check_ignores_reachability) simp

text \<open>A deposit that Starknet reverted is shown with the badge of a pending one.\<close>

theorem reverted_shown_pending:
  assumes "execution_status r = Some ''REVERTED''"
  shows "statusBadge (live_status r) = ''Pending''"
  using assms by (simp add: live_status_def truthy_def statusBadge_def badge_table_def)

theorem reverted_shown_pending_witness:
  "statusBadge (live_status \<lparr>execution_status = Some ''REVERTED'', finality_status = Some ''ACCEPTED_ON_L2''\<rparr>) = ''Pending''"
  by (rule reverted_shown_pending) simp

end
