(* ===== verification/Journey.thy ===== *)
theory Journey
  imports DepositPage Verifier
begin

text \<open>
  From a deposit to its payout: lemmas that run the handlers of several components one after the
  other. A withdrawal whose world cooperates (the burn succeeds, the covenant has the funds, the
  network takes the transaction in time) pays, records and completes.
\<close>

lemma find_uniq_opt:
  "uniq_opt key t \<Longrightarrow> r \<in> set t \<Longrightarrow> key r = Some k \<Longrightarrow> List.find (\<lambda>r. key r = Some k) t = Some r"
proof (induction t)
  case (Cons a t)
  then show ?case
    by (cases "key a") (force simp: uniq_opt_def List.map_filter_simps List.map_filter_def image_iff)+
qed simp

text \<open>A covenant with funds: some choice of its outputs covers the amount and the fees, and the network takes what is signed.\<close>

definition can_pay :: "covenant_env \<Rightarrow> int \<Rightarrow> string \<Rightarrow> bool" where
  "can_pay env amount tid \<longleftrightarrow>
     (\<exists>us c. fetchCovenantUtxos env = Inr us \<and> mset c \<subseteq># mset us \<and> c \<noteq> [] \<and> amount + FEE_PER_INPUT * int (length c) \<le> total c)
     \<and> (\<forall>p. \<exists>hex t. sign_and_extract env p = Inr (hex, t) \<and> api_post_tx env hex = HttpOk tid) \<and> tid \<noteq> []"

lemma covenant_can_pay:
  assumes "getAuthorizationById i d = Some a" and "can_pay env (amount_sats a) tid"
  shows "\<exists>q. executeCovenantWithdrawal env i d = (Some q, Inr tid) \<and> pays_terms q a"
proof -
  obtain us c where c: "fetchCovenantUtxos env = Inr us" "mset c \<subseteq># mset us" "c \<noteq> []"
    "amount_sats a + FEE_PER_INPUT * int (length c) \<le> total c"
    using assms(2) by (auto simp: can_pay_def)
  obtain s tot where s: "selectUtxos FEE_PER_INPUT us (amount_sats a) = Inr (s, tot)"
    using cov.sel_optimal [OF c(2-4)] by blast
  have "us \<noteq> []" using c(2,3) by auto
  then obtain q where q: "covenant_psbt env i d = Inr q" "pays_terms q a"
    using assms(1) c(1) s by (auto simp: covenant_psbt_def Let_def pays_terms_def payment_outputs_def)
  obtain hex t where "sign_and_extract env q = Inr (hex, t)" "api_post_tx env hex = HttpOk tid"
    using assms(2) unfolding can_pay_def by meson
  then have "executeCovenantWithdrawal env i d = (Some q, Inr tid)"
    using q(1) by (simp add: executeCovenantWithdrawal_def createCovenantWithdrawal_def broadcastCovenantTransaction_def)
  then show ?thesis using q(2) by blast
qed

text \<open>What the world has to do for the withdrawal of \<open>amt\<close> wei from the vault \<open>v\<close>, and which ids have to be fresh.\<close>

definition cooperates :: "withdraw_env \<Rightarrow> vault_row \<Rightarrow> int \<Rightarrow> string \<Rightarrow> string \<Rightarrow> db \<Rightarrow> bool" where
  "cooperates w v amt burn_hash tid d \<longleftrightarrow>
     we_burn w (owner_address v) amt = Inr burn_hash \<and> starts_with burn_hash ''0x'' \<and> 34 \<le> length burn_hash
     \<and> isValidAddress (owner_address v)
     \<and> list_all (\<lambda>a. Some (a_nullifier_hash a) \<noteq> v_nullifier_hash v \<and> starknet_tx_hash a \<noteq> burn_hash \<and> a_id a \<noteq> we_uuid_auth w) (auths d)
     \<and> list_all (\<lambda>t. t_id t \<noteq> we_uuid_tx w \<and> t_tx_hash t \<noteq> burn_hash) (transactions d)
     \<and> useCovenants (we_cfg w) \<and> we_in_time w \<and> can_pay (cov_env (we_proc w)) (actualSats amt) tid"

lemma withdraw_authorize_fresh:
  assumes "schema_ok d" and "v \<in> set (vaults d)" and "v_nullifier_hash v = Some n" and "cooperates w v amt h tid d"
    and "starts_with addr ''tb1''"
  shows "\<exists>a d1. withdraw_authorize (we_uuid_auth w) (we_now w) (v_id v) n h addr amt d = (Inr a, d1)
     \<and> terms a = (we_uuid_auth w, v_id v, n, h, addr, actualSats amt) \<and> getAuthorizationById (we_uuid_auth w) d1 = Some a
     \<and> vaults d1 = vaults d \<and> transactions d1 = transactions d \<and> schema_ok d1"
proof -
  let ?p = "\<lparr>vaultId = v_id v, nullifierHash = n, starknetTxHash = h, bitcoinAddress = addr, amountSats = actualSats amt\<rparr>"
  have new: "getAuthorizationByNullifier n d = None"
    using assms(3,4) by (auto simp: cooperates_def getAuthorizationByNullifier_def row_by_None list_all_iff)
  have "auth_admissible (we_uuid_auth w) ?p d"
    using assms by (auto simp: auth_admissible_def cooperates_def has_vault_def list_all_iff list_ex_iff)
  then obtain a d1 where a: "createAuthorization (we_uuid_auth w) (we_now w) ?p d = (Inr a, d1)"
    "terms a = (we_uuid_auth w, v_id v, n, h, addr, actualSats amt)" "getAuthorizationById (we_uuid_auth w) d1 = Some a"
    using createAuthorization_iff [OF assms(1), of "we_uuid_auth w" "we_now w" ?p] by auto
  have i: "insert_auth a d = Inr d1"
    using authorize_new(2) [OF new, of "we_uuid_auth w" "we_now w" "v_id v" h addr amt a d1] a(1) new
    by (simp add: withdraw_authorize_def)
  then have "vaults d1 = vaults d \<and> transactions d1 = transactions d" using insert_authD by fastforce
  then show ?thesis
    using a new schema_insert_auth [OF assms(1) i] by (simp add: withdraw_authorize_def)
qed

lemma withdraw_record_fresh:
  assumes "schema_ok d" and "v \<in> set (vaults d)" and "withdraw_tx_hash v = None" and "tx_hash_ok h"
    and "list_all (\<lambda>t. t_id t \<noteq> u \<and> t_tx_hash t \<noteq> h) (transactions d)"
  shows "\<exists>d'. withdraw_record u now v h addr d = (None, d') \<and> auths d' = auths d
     \<and> row_by v_id (v_id v) (vaults d') = Some (v\<lparr>v_status := withdrawn, withdraw_tx_hash := Some h, bitcoin_withdrawal_address := Some addr\<rparr>)"
proof -
  let ?f = "\<lambda>r. r\<lparr>v_status := withdrawn, withdraw_tx_hash := Some h, bitcoin_withdrawal_address := Some addr\<rparr>"
  let ?d = "d\<lparr>vaults := update_by (\<lambda>r. v_id r = v_id v) ?f (vaults d)\<rparr>"
  have "vaults_violation (vaults ?d) = None"
    using assms(1,4) by (auto simp: schema_ok_def vaults_violation_None list_all_iff set_update_by)
  then have u: "update_vaults (\<lambda>r. v_id r = v_id v) ?f d = Inr ?d"
    by (simp add: update_vaults_def set_vaults_def)
  have r: "row_by v_id (v_id v) (vaults ?d) = Some (?f v)"
    using row_by_update [of v_id ?f "v_id v" "\<lambda>r. v_id r = v_id v" "vaults d"] row_by_unique [of v_id "vaults d" v] assms(1,2)
    by (simp add: schema_ok_def vaults_violation_None)
  have "has_vault ?d (v_id v)" using r by (auto simp: has_vault_def list_ex_iff dest: row_by_Some)
  then have "insert_transaction \<lparr>t_id = u, t_vault_id = Some (v_id v), t_tx_hash = h, t_type = Withdraw,
      amount_encrypted = encrypted_amount (?f v), t_block_number = None, t_block_timestamp = None, t_execution_status = None,
      t_timestamp = now\<rparr> ?d = Inr (?d\<lparr>transactions := transactions d @ [\<lparr>t_id = u, t_vault_id = Some (v_id v), t_tx_hash = h,
      t_type = Withdraw, amount_encrypted = encrypted_amount (?f v), t_block_number = None, t_block_timestamp = None,
      t_execution_status = None, t_timestamp = now\<rparr>]\<rparr>)"
    using assms(1,4,5)
    by (auto simp: insert_transaction_def tx_hash_ok_def uniq_def schema_ok_def list_all_iff)
  then show ?thesis using u r assms(3) by (simp add: withdraw_record_def is_retry_def)
qed

lemma auth_step_tables [simp]:
  "transactions (auth_step (Update now i s t e) d) = transactions d"
  by (auto simp: updateStatus_def update_auth_def)

lemma withdraw_in_full:
  assumes ok: "schema_ok d" and v: "v \<in> set (vaults d)" "v_nullifier_hash v = Some n" "v_status v = active"
      "withdraw_tx_hash v = None"
    and amt: "vault_amount (we_cl w) (v_id v) d = Inr amt" and w: "cooperates w v amt h tid d"
    and addr: "starts_with addr ''tb1''" "we_sender w \<noteq> Some addr"
  shows "\<exists>q r d'. withdraw w n addr d = (Some q, r, d') \<and> code r = 200
     \<and> json_field (body r) ''bitcoinTxid'' = Some (JStr tid)
     \<and> hd (p_outputs q) = \<lparr>o_address = addr, o_value = actualSats amt\<rparr>
     \<and> row_by v_id (v_id v) (vaults d') = Some (v\<lparr>v_status := withdrawn, withdraw_tx_hash := Some h, bitcoin_withdrawal_address := Some addr\<rparr>)
     \<and> (\<exists>b. getAuthorizationById (we_uuid_auth w) d' = Some b \<and> a_status b = a_completed \<and> a_bitcoin_txid b = Some tid)"
proof -
  have "uniq_opt v_nullifier_hash (vaults d)" using ok by (simp add: schema_ok_def vaults_violation_None)
  then have f: "List.find (\<lambda>v. v_nullifier_hash v = Some n) (vaults d) = Some v"
    using v(1,2) by (rule find_uniq_opt)
  have "addr \<noteq> []" using addr(1) by (auto simp: starts_with_def)
  then have ch: "withdraw_check (we_sender w) n addr d = Inr v"
    using f v(3) addr by (auto simp: withdraw_check_def)
  have h: "tx_hash_ok h" using w by (simp add: cooperates_def tx_hash_ok_def like_prefix_starts)
  have "row_by v_id (v_id v) (vaults d) = Some v"
    using ok v(1) row_by_unique [of v_id "vaults d" v] by (simp add: schema_ok_def vaults_violation_None)
  moreover have "owner_address v \<noteq> []" "owner_address v \<noteq> ''0x0''" "isValidAddress (owner_address v)"
    using w by (auto simp: cooperates_def isValidAddress_def hex_0x_def)
  ultimately have bu: "withdraw_burn (we_cl w) (we_burn w) v d = Inr h"
    using v(4) amt w by (simp add: withdraw_burn_def cooperates_def Let_def)
  obtain a d1 where a: "withdraw_authorize (we_uuid_auth w) (we_now w) (v_id v) n h addr amt d = (Inr a, d1)"
    "terms a = (we_uuid_auth w, v_id v, n, h, addr, actualSats amt)" "getAuthorizationById (we_uuid_auth w) d1 = Some a"
    "vaults d1 = vaults d" "transactions d1 = transactions d" "schema_ok d1"
    using withdraw_authorize_fresh [OF ok v(1,2) w addr(1)] by blast
  have i: "a_id a = we_uuid_auth w" "amount_sats a = actualSats amt" "bitcoin_address a = addr"
    using a(2) by (simp_all add: terms_def)
  obtain q where q: "executeCovenantWithdrawal (cov_env (we_proc w)) (a_id a) d1 = (Some q, Inr tid)" "pays_terms q a"
    using covenant_can_pay [of "a_id a" d1 a "cov_env (we_proc w)" tid] a(3) i w by (auto simp: cooperates_def)
  let ?d2 = "auth_step (Update (clock (we_proc w)) (a_id a) a_completed (Some tid) None) d1"
  have tid: "tid \<noteq> []" using w by (simp add: cooperates_def can_pay_def)
  then have po: "withdraw_payout (we_cfg w) (we_proc w) (we_in_time w) (a_id a) d1 = (Some q, Some tid, ?d2)"
    using q(1) w by (simp add: withdraw_payout_def payout_def cooperates_def del: auth_step.simps)
  have ok2: "schema_ok ?d2" using a(6) by (rule auth_step_schema)
  have v2: "vaults ?d2 = vaults d" "transactions ?d2 = transactions d"
    using a(4,5) by (simp_all del: auth_step.simps)
  obtain d3 where re: "withdraw_record (we_uuid_tx w) (we_now w) v h addr ?d2 = (None, d3)" "auths d3 = auths ?d2"
    "row_by v_id (v_id v) (vaults d3) = Some (v\<lparr>v_status := withdrawn, withdraw_tx_hash := Some h, bitcoin_withdrawal_address := Some addr\<rparr>)"
    using withdraw_record_fresh [OF ok2 _ v(4) h, of "we_uuid_tx w"] v(1) v2 w by (auto simp: cooperates_def simp del: auth_step.simps)
  have "\<exists>b. getAuthorizationById (we_uuid_auth w) ?d2 = Some b \<and> a_status b = a_completed \<and> a_bitcoin_txid b = Some tid"
    using a(3) i(1) tid by (auto simp: getAuthorizationById_def updateStatus_def update_auth_def truthy_def row_by_update)
  then have "\<exists>b. getAuthorizationById (we_uuid_auth w) d3 = Some b \<and> a_status b = a_completed \<and> a_bitcoin_txid b = Some tid"
    using re(2) by (simp add: getAuthorizationById_def)
  moreover have "withdraw w n addr d = (Some q, withdraw_response (we_proof_ok w) v h (Some tid) None, d3)"
    by (simp add: withdraw_def ch bu amt withdraw_pay_def a(1) po re(1) del: auth_step.simps)
  moreover have "hd (p_outputs q) = \<lparr>o_address = addr, o_value = actualSats amt\<rparr>"
    using q(2) i by (simp add: pays_terms_def)
  ultimately show ?thesis using re(3)
    by (auto simp: withdraw_response_def respond_def json_field_def JOpt_def)
qed

text \<open>The wei that a deposit of a denomination stores are its satoshis again when they are paid out.\<close>

lemma denominations_kept:
  "list_all (\<lambda>x. actualSats \<lfloor>mul x (10 ^ 18)\<rfloor> = expectedSats x) ALLOWED_DENOMINATIONS_BTC"
  by code_simp

lemma stored_amount:
  assumes "aead_law (sv_cl env)" and "length (sv_iv env) = 12" and "sb_amount b = Some x"
    and "vaults_violation (vaults d @ [spv_vault env b vid nul hint h]) = None"
  shows "vault_amount (sv_cl env) vid (d\<lparr>vaults := vaults d @ [spv_vault env b vid nul hint h]\<rparr>) = Inr \<lfloor>mul x (10 ^ 18)\<rfloor>"
proof -
  let ?v = "spv_vault env b vid nul hint h"
  have "v_id ?v = vid" by (simp add: spv_vault_def Let_def)
  then have "row_by v_id vid (vaults d @ [?v]) = Some ?v"
    using row_by_unique [of v_id "vaults d @ [?v]" ?v] assms(4) by (simp add: vaults_violation_None)
  moreover have "encrypted_amount ?v = encryptAmount (sv_cl env) (sv_iv env) \<lfloor>mul x (10 ^ 18)\<rfloor> (salt ?v)"
    using assms(3) by (simp add: spv_vault_def Let_def)
  ultimately show ?thesis using decrypt_encrypt [OF assms(1,2)] by (simp add: vault_amount_def)
qed

section \<open>A concrete journey\<close>

definition demo_payer :: withdraw_env where
  "demo_payer = demo_withdraw_env\<lparr>we_proc := demo_proc\<lparr>cov_env := demo_env\<lparr>api_utxos := HttpOk [demo_coin 2000000]\<rparr>\<rparr>\<rparr>"

lemma demo_can_pay: "can_pay (cov_env (we_proc demo_payer)) 1000000 ''t''"
  unfolding can_pay_def
  by (intro conjI exI [of _ "[demo_coin 2000000\<lparr>u_script := ''5120''\<rparr>]"])
     (simp_all add: demo_payer_def demo_env_def fetchCovenantUtxos_def attach_script_def demo_coin_def FEE_PER_INPUT_def)

lemma demo_cooperates:
  assumes "owner_address v = sv_account demo_spv"
  shows "cooperates demo_payer v \<lfloor>mul (fl (1 / 100)) (10 ^ 18)\<rfloor> ''0x00112233445566778899aabbccddeeff'' ''t'' (empty_db\<lparr>vaults := vs\<rparr>)"
proof -
  have "actualSats \<lfloor>mul (fl (1 / 100)) (10 ^ 18)\<rfloor> = 1000000" by code_simp
  moreover have "isValidAddress (''0x'' @ replicate 64 (CHR ''1''))" by code_simp
  ultimately show ?thesis using assms demo_can_pay
    by (simp add: cooperates_def demo_payer_def demo_withdraw_env_def demo_cfg_def empty_db_def starts_with_def demo_spv_def)
qed

end
