(* ===== verification/Merkle.thy ===== *)
theory Merkle
  imports Prelude
begin

text \<open>
  Bitcoin's Merkle trees, as specification: the hashes of a block's transactions are combined level
  by level, the last one of an odd level with itself. \<open>merkle_path\<close> is the list of siblings of
  a leaf, as an Electrum server returns it. \<open>climb\<close> folds such a list onto a leaf; folding the
  path gives the root, and, unless two combined pairs collide, only a leaf is carried to the root
  by as many siblings as the tree has levels. The function \<open>h\<close> that combines two nodes is an argument.
\<close>

section \<open>Trees\<close>

fun level_up :: "('a \<Rightarrow> 'a \<Rightarrow> 'a) \<Rightarrow> 'a list \<Rightarrow> 'a list" where
  "level_up h [] = []"
| "level_up h [a] = [h a a]"
| "level_up h (a # b # xs) = h a b # level_up h xs"

lemma length_level_up [simp]: "length (level_up h xs) = (length xs + 1) div 2"
  by (induction h xs rule: level_up.induct) auto

lemma level_up_shrinks: "2 \<le> length xs \<Longrightarrow> length (level_up h xs) < length xs"
  by simp

lemma level_up_Nil_iff [simp]: "level_up h xs = [] \<longleftrightarrow> xs = []"
  by (cases "(h, xs)" rule: level_up.cases) auto

function merkle_root_of :: "('a \<Rightarrow> 'a \<Rightarrow> 'a) \<Rightarrow> 'a list \<Rightarrow> 'a" where
  "merkle_root_of h xs = (if length xs \<le> 1 then hd xs else merkle_root_of h (level_up h xs))"
  by pat_completeness auto
termination
  by (relation "measure (\<lambda>(h, xs). length xs)") auto

function merkle_depth :: "'a list \<Rightarrow> nat" where
  "merkle_depth xs = (if length xs \<le> 1 then 0 else Suc (merkle_depth (level_up (\<lambda>a b. a) xs)))"
  by pat_completeness auto
termination
  by (relation "measure length") auto

definition sibling :: "'a list \<Rightarrow> nat \<Rightarrow> 'a" where
  "sibling xs i = (if even i then (if i + 1 < length xs then xs ! (i + 1) else xs ! i) else xs ! (i - 1))"

function merkle_path :: "('a \<Rightarrow> 'a \<Rightarrow> 'a) \<Rightarrow> 'a list \<Rightarrow> nat \<Rightarrow> 'a list" where
  "merkle_path h xs i = (if length xs \<le> 1 then [] else sibling xs i # merkle_path h (level_up h xs) (i div 2))"
  by pat_completeness auto
termination
  by (relation "measure (\<lambda>(h, xs, i). length xs)") auto

declare merkle_root_of.simps [simp del] merkle_path.simps [simp del] merkle_depth.simps [simp del]

section \<open>Climbing\<close>

fun climb :: "('a \<Rightarrow> 'a \<Rightarrow> 'a) \<Rightarrow> 'a \<Rightarrow> nat \<Rightarrow> 'a list \<Rightarrow> 'a" where
  "climb h x i [] = x"
| "climb h x i (s # ss) = climb h (if even i then h x s else h s x) (i div 2) ss"

lemma nth_level_up:
  "i < length xs \<Longrightarrow> level_up h xs ! (i div 2)
     = (if even i then h (xs ! i) (sibling xs i) else h (sibling xs i) (xs ! i))"
proof (induction h xs arbitrary: i rule: level_up.induct)
  case (3 h a b xs)
  consider "i = 0" | "i = 1" | j where "i = Suc (Suc j)" by (metis One_nat_def not0_implies_Suc)
  then show ?case
  proof cases
    case 3
    then have s: "sibling (a # b # xs) i = sibling xs j"
      using "3.prems" by (auto simp: sibling_def nth_Cons' split: if_splits)
    from 3 "3.prems" "3.IH" [of j] s show ?thesis by simp
  qed (simp_all add: sibling_def)
qed (auto simp: sibling_def)

theorem climb_path: "i < length xs \<Longrightarrow> climb h (xs ! i) i (merkle_path h xs i) = merkle_root_of h xs"
proof (induction h xs arbitrary: i rule: merkle_root_of.induct)
  case (1 h xs)
  show ?case
  proof (cases "length xs \<le> 1")
    case True
    with 1(2) show ?thesis
      by (cases xs) (simp_all add: merkle_path.simps merkle_root_of.simps)
  next
    case False
    then have "i div 2 < length (level_up h xs)" using 1(2) by simp
    from 1(1) [OF False this] nth_level_up [OF 1(2), of h] False show ?thesis
      by (simp add: merkle_path.simps [of h xs] merkle_root_of.simps [of h xs])
  qed
qed

lemma merkle_depth_cong: "length xs = length ys \<Longrightarrow> merkle_depth xs = merkle_depth ys"
proof (induction xs arbitrary: ys rule: merkle_depth.induct)
  case (1 xs)
  show ?case
  proof (cases "length xs \<le> 1")
    case False
    then have "merkle_depth (level_up (\<lambda>a b. a) xs) = merkle_depth (level_up (\<lambda>a b. a) ys)"
      using 1 by simp
    then show ?thesis using False 1(2) by (simp add: merkle_depth.simps [of xs] merkle_depth.simps [of ys])
  qed (use 1(2) in \<open>simp add: merkle_depth.simps\<close>)
qed

lemma merkle_depth_step: "2 \<le> length xs \<Longrightarrow> merkle_depth xs = Suc (merkle_depth (level_up h xs))"
  using merkle_depth_cong [of "level_up (\<lambda>a b. a) xs" "level_up h xs"] by (simp add: merkle_depth.simps [of xs])

lemma length_merkle_path: "length (merkle_path h xs i) = merkle_depth xs"
proof (induction h xs i rule: merkle_path.induct)
  case (1 h xs i)
  then show ?case using merkle_depth_step [of xs h]
    by (cases "length xs \<le> 1") (simp_all add: merkle_path.simps [of h xs] merkle_depth.simps [of xs])
qed

section \<open>Only leaves are carried to the root\<close>

text \<open>The pairs that building a tree combines, and those that a climb combines.\<close>

fun level_pairs :: "'a list \<Rightarrow> ('a \<times> 'a) list" where
  "level_pairs [] = []"
| "level_pairs [a] = [(a, a)]"
| "level_pairs (a # b # xs) = (a, b) # level_pairs xs"

function tree_pairs :: "('a \<Rightarrow> 'a \<Rightarrow> 'a) \<Rightarrow> 'a list \<Rightarrow> ('a \<times> 'a) list" where
  "tree_pairs h xs = (if length xs \<le> 1 then [] else level_pairs xs @ tree_pairs h (level_up h xs))"
  by pat_completeness auto
termination
  by (relation "measure (\<lambda>(h, xs). length xs)") auto

declare tree_pairs.simps [simp del]

fun climb_pairs :: "('a \<Rightarrow> 'a \<Rightarrow> 'a) \<Rightarrow> 'a \<Rightarrow> nat \<Rightarrow> 'a list \<Rightarrow> ('a \<times> 'a) list" where
  "climb_pairs h x i [] = []"
| "climb_pairs h x i (s # ss) =
     (let p = (if even i then (x, s) else (s, x)) in p # climb_pairs h (h (fst p) (snd p)) (i div 2) ss)"

lemma level_up_pairs: "level_up h xs = map (\<lambda>(a, b). h a b) (level_pairs xs)"
  by (induction h xs rule: level_up.induct) auto

lemma level_pairs_in: "(a, b) \<in> set (level_pairs xs) \<Longrightarrow> a \<in> set xs \<and> b \<in> set xs"
  by (induction xs rule: level_pairs.induct) auto

theorem climb_only_leaves:
  assumes "climb h x i ss = merkle_root_of h xs" and "length ss = merkle_depth xs" and "xs \<noteq> []"
    and "inj_on (\<lambda>(a, b). h a b) (set (tree_pairs h xs) \<union> set (climb_pairs h x i ss))"
  shows "x \<in> set xs"
  using assms
proof (induction h xs arbitrary: x i ss rule: merkle_root_of.induct)
  case (1 h xs)
  show ?case
  proof (cases "length xs \<le> 1")
    case True
    then have "merkle_root_of h xs = hd xs" "ss = []"
      using 1(3) by (simp_all add: merkle_root_of.simps [of h xs] merkle_depth.simps [of xs])
    then show ?thesis using 1(2,4) by simp
  next
    case False
    then obtain s ss' where ss: "ss = s # ss'" "length ss' = merkle_depth (level_up h xs)"
      using 1(3) merkle_depth_step [of xs h] by (cases ss) auto
    define p where "p = (if even i then (x, s) else (s, x))"
    have root: "climb h (h (fst p) (snd p)) (i div 2) ss' = merkle_root_of h (level_up h xs)"
      using 1(2) False ss by (auto simp: p_def merkle_root_of.simps [of h xs])
    have sets: "set (tree_pairs h xs) = set (level_pairs xs) \<union> set (tree_pairs h (level_up h xs))"
      "set (climb_pairs h x i ss) = insert p (set (climb_pairs h (h (fst p) (snd p)) (i div 2) ss'))"
      using False ss by (simp_all add: tree_pairs.simps [of h xs] p_def Let_def)
    have "h (fst p) (snd p) \<in> set (level_up h xs)"
      by (rule 1(1) [OF False root ss(2)]) (use 1(4,5) sets in \<open>auto elim: inj_on_subset\<close>)
    then obtain q where "q \<in> set (level_pairs xs)" "(\<lambda>(a, b). h a b) q = (\<lambda>(a, b). h a b) p"
      by (auto simp: level_up_pairs split_beta)
    then have "p \<in> set (level_pairs xs)"
      using 1(5) sets by (metis (no_types, lifting) UnCI inj_onD insertCI)
    then show ?thesis by (cases "even i") (auto simp: p_def dest: level_pairs_in)
  qed
qed

text \<open>Along the same siblings two different nodes do not meet, unless pairs collide.\<close>

lemma climb_inject:
  assumes "climb h x i ss = climb h y i ss"
    and "inj_on (\<lambda>(a, b). h a b) (set (climb_pairs h x i ss) \<union> set (climb_pairs h y i ss))"
  shows "x = y"
  using assms
proof (induction ss arbitrary: x y i)
  case (Cons s ss)
  let ?p = "\<lambda>x. if even i then (x, s) else (s, x)" and ?f = "\<lambda>(a, b). h a b"
  have sets: "set (climb_pairs h z i (s # ss)) = insert (?p z) (set (climb_pairs h (?f (?p z)) (i div 2) ss))" for z
    by (simp add: Let_def split_beta)
  have "?f (?p x) = ?f (?p y)"
    by (rule Cons.IH [of _ "i div 2"]) (use Cons.prems sets in \<open>auto split: if_splits elim!: inj_on_subset\<close>)
  then have "?p x = ?p y" by (rule inj_onD [OF Cons.prems(2)]) (simp_all only: sets Un_iff insert_iff simp_thms)
  then show ?case by (auto split: if_splits)
qed simp

end
