(* ===== verification/CairoSpv.thy ===== *)
theory CairoSpv
  imports Spv Merkle
begin

text \<open>
  \<open>contracts/src/bitcoin_spv.cairo\<close>: the library with which the vault contract checks a Bitcoin
  deposit on Starknet. A panic of Cairo is \<open>Inl\<close>. \<open>u8\<close> arrays are buffers; larger unsigned integers
  are \<open>int\<close> or, where they are sizes, \<open>nat\<close>, with the checks for overflow written out. A
  \<open>[u32; 8]\<close> is a list of eight integers. SHA-256 itself is an argument \<open>sha\<close> on buffers;
  \<open>digest32\<close> says that its values have 32 bytes.
\<close>

section \<open>Checked integers and spans\<close>

definition panic :: "string \<Rightarrow> 'a res" where
  "panic m = Inl (Error m)"

definition require :: "bool \<Rightarrow> string \<Rightarrow> 'a res \<Rightarrow> 'a res" where
  "require c m r = (if c then r else panic m)"

definition usize_add :: "nat \<Rightarrow> nat \<Rightarrow> nat res" where
  "usize_add a b = (if a + b < 2 ^ 32 then Inr (a + b) else panic ''u32_add Overflow'')"

definition to_usize :: "int \<Rightarrow> nat res" where
  "to_usize v = (if v < 2 ^ 32 then Inr (nat v) else panic ''Option::unwrap failed.'')"

definition span_at :: "'a list \<Rightarrow> nat \<Rightarrow> 'a res" where
  "span_at s i = (case elem_at s i of None \<Rightarrow> panic ''Index out of bounds'' | Some x \<Rightarrow> Inr x)"

definition span_slice :: "'a list \<Rightarrow> nat \<Rightarrow> nat \<Rightarrow> 'a list res" where
  "span_slice s start len =
     (if start + len \<le> length s then Inr (slice start (start + len) s) else panic ''Index out of bounds'')"

lemma require_Inr [simp]: "require c m r = Inr x \<longleftrightarrow> c \<and> r = Inr x"
  by (simp add: require_def panic_def)

lemma require_True [simp]: "require True m r = r"
  by (simp add: require_def)

section \<open>SHA-256\<close>

text \<open>
  The corelib's \<open>compute_sha256_u32_array\<close>: the message is the big-endian bytes of the words and then the \<^emph>\<open>low\<close>
  \<open>num\<close> bytes of the last word (its padding reduces that word modulo \<open>256 ^ num\<close>).
\<close>

definition compute_sha256_u32_array :: "(buffer \<Rightarrow> buffer) \<Rightarrow> int list \<Rightarrow> int \<Rightarrow> nat \<Rightarrow> int list" where
  "compute_sha256_u32_array sha ws last_word num =
     be_words (sha (concat (map (be_bytes 4) ws) @ drop (4 - num) (be_bytes 4 last_word)))"

text \<open>
  The last word is built with the remaining bytes at its high end, where the corelib does not look for them
  (\<open>hashed_bytes\<close> below says what is hashed). Four bytes are at most \<open>2 ^ 32 - 1\<close>, so these sums do not overflow
  (\<open>word_at_bounds\<close>).
\<close>

definition word_at :: "buffer \<Rightarrow> nat \<Rightarrow> int" where
  "word_at bs i = uint (bs ! i) * 0x1000000 + uint (bs ! (i + 1)) * 0x10000 + uint (bs ! (i + 2)) * 0x100 + uint (bs ! (i + 3))"

definition sha256_bytes :: "(buffer \<Rightarrow> buffer) \<Rightarrow> buffer \<Rightarrow> int list" where
  "sha256_bytes sha bs =
     (let full_words = length bs div 4; rem = length bs mod 4; k = full_words * 4;
          ws = map (\<lambda>i. word_at bs (i * 4)) [0..<full_words];
          last_word = (if rem = 0 then 0
            else if rem = 1 then uint (bs ! k) * 0x1000000
            else if rem = 2 then uint (bs ! k) * 0x1000000 + uint (bs ! (k + 1)) * 0x10000
            else uint (bs ! k) * 0x1000000 + uint (bs ! (k + 1)) * 0x10000 + uint (bs ! (k + 2)) * 0x100)
      in compute_sha256_u32_array sha ws last_word rem)"

definition word_bytes :: "int \<Rightarrow> buffer" where
  "word_bytes w = [byte_of (w div 0x1000000 mod 0x100), byte_of (w div 0x10000 mod 0x100),
     byte_of (w div 0x100 mod 0x100), byte_of (w mod 0x100)]"

definition double_sha256 :: "(buffer \<Rightarrow> buffer) \<Rightarrow> buffer \<Rightarrow> int list" where
  "double_sha256 sha bs = sha256_bytes sha (concat (map word_bytes (sha256_bytes sha bs)))"

section \<open>Merkle proofs\<close>

definition hash_pair :: "(buffer \<Rightarrow> buffer) \<Rightarrow> int list \<Rightarrow> int list \<Rightarrow> int list" where
  "hash_pair sha left right = double_sha256 sha (concat (map word_bytes left) @ concat (map word_bytes right))"

fun merkle_loop :: "(buffer \<Rightarrow> buffer) \<Rightarrow> int list \<Rightarrow> int list list \<Rightarrow> int \<Rightarrow> int list" where
  "merkle_loop sha current [] idx = current"
| "merkle_loop sha current (sib # proof) idx =
     merkle_loop sha (if idx mod 2 = 0 then hash_pair sha current sib else hash_pair sha sib current) proof (idx div 2)"

definition arrays_eq_8 :: "int list \<Rightarrow> int list \<Rightarrow> bool" where
  "arrays_eq_8 a b \<longleftrightarrow> list_all (\<lambda>i. a ! i = b ! i) [0, 1, 2, 3, 4, 5, 6, 7]"

definition verify_merkle_proof :: "(buffer \<Rightarrow> buffer) \<Rightarrow> int list \<Rightarrow> int list list \<Rightarrow> int \<Rightarrow> int list \<Rightarrow> bool" where
  "verify_merkle_proof sha tid proof position merkle_root = arrays_eq_8 (merkle_loop sha tid proof position) merkle_root"

section \<open>Transactions\<close>

text \<open>Little-endian reads of two, four and eight bytes; an index beyond the span panics.\<close>

definition le_at :: "nat \<Rightarrow> buffer \<Rightarrow> nat \<Rightarrow> int res" where
  "le_at n bs offset = bind_res (span_slice bs offset n) (\<lambda>s. Inr (le_uint s))"

definition read_varint :: "buffer \<Rightarrow> nat \<Rightarrow> (int \<times> nat) res" where
  "read_varint bs offset = bind_res (span_at bs offset) (\<lambda>b. let first = uint b in
     if first < 0xfd then Inr (first, 1)
     else if first = 0xfd then bind_res (le_at 2 bs (offset + 1)) (\<lambda>v. Inr (v, 3))
     else if first = 0xfe then bind_res (le_at 4 bs (offset + 1)) (\<lambda>v. Inr (v, 5))
     else bind_res (le_at 8 bs (offset + 1)) (\<lambda>v. Inr (v, 9)))"

definition read_u64_le :: "buffer \<Rightarrow> nat \<Rightarrow> int res" where
  "read_u64_le bs offset = le_at 8 bs offset"

fun skip_vins :: "buffer \<Rightarrow> nat \<Rightarrow> nat \<Rightarrow> nat res" where
  "skip_vins raw 0 cursor = Inr cursor"
| "skip_vins raw (Suc n) cursor =
     bind_res (usize_add cursor 36) (\<lambda>c1.
     bind_res (read_varint raw c1) (\<lambda>(script_len, c).
     bind_res (to_usize script_len) (\<lambda>len.
     bind_res (usize_add c len) (\<lambda>k.
     bind_res (usize_add c1 k) (\<lambda>c2.
     bind_res (usize_add c2 4) (\<lambda>c3. skip_vins raw n c3))))))"

text \<open>The loop over the outputs; \<open>found\<close> holds amount, start and length of the output asked for.\<close>

fun scan_vouts :: "buffer \<Rightarrow> nat \<Rightarrow> nat \<Rightarrow> nat \<Rightarrow> nat \<Rightarrow> int \<times> nat \<times> nat \<Rightarrow> (int \<times> nat \<times> nat) res" where
  "scan_vouts raw vout_index vo 0 cursor found = Inr found"
| "scan_vouts raw vout_index vo (Suc n) cursor found =
     bind_res (read_u64_le raw cursor) (\<lambda>amount.
     bind_res (usize_add cursor 8) (\<lambda>c1.
     bind_res (read_varint raw c1) (\<lambda>(slen, c3).
     bind_res (usize_add c1 c3) (\<lambda>c2.
     bind_res (to_usize slen) (\<lambda>len.
     bind_res (usize_add c2 len) (\<lambda>c4.
     bind_res (usize_add vo 1) (\<lambda>vo'.
       scan_vouts raw vout_index vo' n c4 (if vo = vout_index then (amount, c2, len) else found))))))))"

definition segwit_marked :: "buffer \<Rightarrow> bool res" where
  "segwit_marked raw = bind_res (span_at raw 4) (\<lambda>b4. if b4 \<noteq> 0 then Inr False
     else bind_res (span_at raw 5) (\<lambda>b5. Inr (b5 = 1)))"

definition parse_output :: "buffer \<Rightarrow> nat \<Rightarrow> (int \<times> buffer) res" where
  "parse_output raw vout_index =
     bind_res (segwit_marked raw) (\<lambda>is_segwit. let c0 = (if is_segwit then 6 else 4) in
     bind_res (read_varint raw c0) (\<lambda>(input_count, consumed).
     bind_res (usize_add c0 consumed) (\<lambda>c1.
     bind_res (skip_vins raw (nat input_count) c1) (\<lambda>c2.
     bind_res (read_varint raw c2) (\<lambda>(output_count, consumed2).
     bind_res (usize_add c2 consumed2) (\<lambda>c3.
     require (int vout_index < output_count) ''vout_index out of range''
     (bind_res (scan_vouts raw vout_index 0 (nat output_count) c3 (0, 0, 0)) (\<lambda>(amount, start, len).
     bind_res (span_slice raw start len) (\<lambda>script. Inr (amount, script))))))))))"

section \<open>Scripts\<close>

text \<open>
  The comparison of the two byte strings stops at the first difference. The span of the expected
  bytes is indexed as well: a shorter one panics when no difference precedes its end.
\<close>

fun bytes_match :: "buffer \<Rightarrow> buffer \<Rightarrow> nat \<Rightarrow> nat \<Rightarrow> bool res" where
  "bytes_match script expected i 0 = Inr True"
| "bytes_match script expected i (Suc n) =
     bind_res (span_at script (i + 2)) (\<lambda>a. bind_res (span_at expected i) (\<lambda>b.
       if a \<noteq> b then Inr False else bytes_match script expected (Suc i) n))"

definition script_matches_p2wpkh :: "buffer \<Rightarrow> buffer \<Rightarrow> bool res" where
  "script_matches_p2wpkh script pubkey_hash =
     (if length script \<noteq> 22 then Inr False
      else if script ! 0 \<noteq> 0x00 \<or> script ! 1 \<noteq> 0x14 then Inr False
      else bytes_match script pubkey_hash 0 20)"

definition script_matches_p2tr :: "buffer \<Rightarrow> buffer \<Rightarrow> bool res" where
  "script_matches_p2tr script tapkey =
     (if length script \<noteq> 34 then Inr False
      else if script ! 0 \<noteq> 0x51 \<or> script ! 1 \<noteq> 0x20 then Inr False
      else bytes_match script tapkey 0 32)"


section \<open>Lemmas: hashes\<close>

definition digest32 :: "(buffer \<Rightarrow> buffer) \<Rightarrow> bool" where
  "digest32 sha \<longleftrightarrow> (\<forall>bs. length (sha bs) = 32)"

definition dsha :: "(buffer \<Rightarrow> buffer) \<Rightarrow> buffer \<Rightarrow> buffer" where
  "dsha sha bs = sha (sha bs)"

lemma word_at_bounds: "0 \<le> word_at bs i \<and> word_at bs i < 2 ^ 32"
  using uint_byte_bound [of "bs ! i"] uint_byte_bound [of "bs ! (i + 1)"] uint_byte_bound [of "bs ! (i + 2)"]
    uint_byte_bound [of "bs ! (i + 3)"] by (simp add: word_at_def)

lemma word_bytes_be: "0 \<le> w \<Longrightarrow> word_bytes w = be_bytes 4 w"
  by (simp add: word_bytes_def be_bytes_def numeral_eq_Suc zdiv_zmult2_eq [symmetric])

lemma be_bytes_word: "be_bytes 4 (uint a * 0x1000000 + uint b * 0x10000 + uint c * 0x100 + uint d) = [a, b, c, d :: byte]"
proof -
  have "uint a * 0x1000000 + uint b * 0x10000 + uint c * 0x100 + uint d = be_uint [a, b, c, d]"
    by (simp add: be_uint_def)
  then show ?thesis using be_bytes_be_uint [of "[a, b, c, d]"] by simp
qed

lemma be_bytes_word_at: "be_bytes 4 (word_at bs i) = [bs ! i, bs ! (i + 1), bs ! (i + 2), bs ! (i + 3)]"
  unfolding word_at_def by (rule be_bytes_word)

lemma words_of_bytes:
  "4 * n \<le> length bs \<Longrightarrow> concat (map (\<lambda>i. be_bytes 4 (word_at bs (i * 4))) [0..<n]) = take (n * 4) bs"
proof (induction n)
  case (Suc n)
  have "take (Suc n * 4) bs = take (n * 4) bs @ [bs ! (n * 4), bs ! (n * 4 + 1), bs ! (n * 4 + 2), bs ! (n * 4 + 3)]"
    using Suc.prems by (simp add: take_Suc_conv_app_nth numeral_eq_Suc)
  then show ?case using Suc by (simp add: be_bytes_word_at)
qed simp

text \<open>
  What \<open>sha256_bytes\<close> hashes: the whole words, and of the last one, padded with zeros, its low end. Of one or two
  remaining bytes nothing is left, of three the first is lost.
\<close>

definition hashed_tail :: "buffer \<Rightarrow> buffer" where
  "hashed_tail xs = drop (4 - length xs) (xs @ replicate (4 - length xs) 0)"

definition hashed_bytes :: "buffer \<Rightarrow> buffer" where
  "hashed_bytes bs = take (length bs div 4 * 4) bs @ hashed_tail (drop (length bs div 4 * 4) bs)"

lemma hashed_tail_simps [simp]:
  "hashed_tail [] = []" "hashed_tail [a] = [0]" "hashed_tail [a, b] = [0, 0]" "hashed_tail [a, b, c] = [b, c, 0]"
  by (simp_all add: hashed_tail_def numeral_2_eq_2)

text \<open>The bytes beyond the last whole word are zero: then, and only then, the hash is that of the bytes.\<close>

definition zero_tail :: "buffer \<Rightarrow> bool" where
  "zero_tail bs \<longleftrightarrow> list_all (\<lambda>b. b = 0) (drop (length bs div 4 * 4) bs)"

lemma short_list_cases:
  assumes "length xs < 4"
  obtains "xs = []" | a where "xs = [a]" | a b where "xs = [a, b]" | a b c where "xs = [a, b, c]"
proof (cases xs)
  case (Cons a ys)
  note xs = this
  then show thesis
  proof (cases ys)
    case (Cons b zs)
    then show thesis using that xs assms by (cases zs; cases "tl zs") auto
  qed (use that xs in auto)
qed (use that in auto)

lemma tail_cases:
  obtains "length bs mod 4 = 0" "drop (length bs div 4 * 4) bs = []"
  | a where "length bs mod 4 = 1" "drop (length bs div 4 * 4) bs = [a]"
  | a b where "length bs mod 4 = 2" "drop (length bs div 4 * 4) bs = [a, b]"
  | a b c where "length bs mod 4 = 3" "drop (length bs div 4 * 4) bs = [a, b, c]"
proof -
  have l: "length (drop (length bs div 4 * 4) bs) = length bs mod 4" by (simp add: minus_div_mult_eq_mod)
  then have "length (drop (length bs div 4 * 4) bs) < 4" by simp
  then show thesis
  proof (cases rule: short_list_cases)
    case 1
    then show thesis using l that(1) by simp
  next
    case (2 a)
    then show thesis using l that(2) [of a] by simp
  next
    case (3 a b)
    then show thesis using l that(3) [of a b] by simp
  next
    case (4 a b c)
    then show thesis using l that(4) [of a b c] by simp
  qed
qed

lemma nth_tail: "drop k bs = xs \<Longrightarrow> i < length xs \<Longrightarrow> bs ! (k + i) = xs ! i"
  by (cases "k \<le> length bs") auto

lemma length_hashed_bytes [simp]: "length (hashed_bytes bs) = length bs"
proof -
  have "length (hashed_tail (drop (length bs div 4 * 4) bs)) = length (drop (length bs div 4 * 4) bs)"
    by (cases rule: tail_cases [of bs]) (simp_all only: hashed_tail_simps list.size)
  then show ?thesis unfolding hashed_bytes_def by (simp only: length_append) (simp add: minus_div_mult_eq_mod)
qed

lemma hashed_bytes_same: "hashed_bytes bs = bs \<longleftrightarrow> zero_tail bs"
proof -
  have "hashed_bytes bs = bs \<longleftrightarrow> hashed_tail (drop (length bs div 4 * 4) bs) = drop (length bs div 4 * 4) bs"
    unfolding hashed_bytes_def by (metis append_take_drop_id same_append_eq)
  also have "\<dots> \<longleftrightarrow> zero_tail bs"
    unfolding zero_tail_def by (cases rule: tail_cases [of bs]) (auto simp only: hashed_tail_simps list.pred_inject list.inject)
  finally show ?thesis .
qed

lemma zero_tail_aligned: "length bs mod 4 = 0 \<Longrightarrow> zero_tail bs"
  by (cases rule: tail_cases [of bs]) (simp_all add: zero_tail_def)

lemma hashed_bytes_aligned [simp]: "length bs mod 4 = 0 \<Longrightarrow> hashed_bytes bs = bs"
  by (simp add: hashed_bytes_same zero_tail_aligned)

text \<open>At most the last three bytes differ.\<close>

lemma take_hashed_bytes: "take (length bs - 3) (hashed_bytes bs) = take (length bs - 3) bs"
proof -
  have "length bs = length bs div 4 * 4 + length bs mod 4" by simp
  moreover have "length bs mod 4 < 4" by simp
  ultimately have "length bs - 3 \<le> length bs div 4 * 4" by linarith
  then show ?thesis by (simp add: hashed_bytes_def min_absorb1)
qed

lemma sha256_bytes_eq: "sha256_bytes sha bs = be_words (sha (hashed_bytes bs))"
proof -
  let ?n = "length bs div 4" and ?k = "length bs div 4 * 4"
  have w: "concat (map (be_bytes 4) (map (\<lambda>i. word_at bs (i * 4)) [0..<?n])) = take ?k bs"
    using words_of_bytes [of ?n bs] by (simp add: comp_def)
  show ?thesis
  proof (cases rule: tail_cases [of bs])
    case 1
    then show ?thesis using w by (simp add: sha256_bytes_def Let_def compute_sha256_u32_array_def hashed_bytes_def)
  next
    case (2 a)
    then have "bs ! ?k = a" using nth_tail [OF 2(2), of 0] by simp
    then show ?thesis unfolding sha256_bytes_def Let_def compute_sha256_u32_array_def hashed_bytes_def w 2
      using be_bytes_word [of a 0 0 0] by simp
  next
    case (3 a b)
    then have "bs ! ?k = a" "bs ! (?k + 1) = b" using nth_tail [OF 3(2), of 0] nth_tail [OF 3(2), of 1] by simp_all
    then show ?thesis unfolding sha256_bytes_def Let_def compute_sha256_u32_array_def hashed_bytes_def w 3
      using be_bytes_word [of a b 0 0] by simp
  next
    case (4 a b c)
    then have "bs ! ?k = a" "bs ! (?k + 1) = b" "bs ! (?k + 2) = c"
      using nth_tail [OF 4(2), of 0] nth_tail [OF 4(2), of 1] nth_tail [OF 4(2), of 2] by simp_all
    then show ?thesis unfolding sha256_bytes_def Let_def compute_sha256_u32_array_def hashed_bytes_def w 4
      using be_bytes_word [of a b c 0] by simp
  qed
qed

lemma be_words_nonneg: "w \<in> set (be_words bs) \<Longrightarrow> 0 \<le> w"
  by (induction bs rule: be_words.induct) (auto simp: be_uint_def le_uint_bound)

lemma words_to_bytes: "length bs = 32 \<Longrightarrow> concat (map word_bytes (be_words bs)) = bs"
proof -
  assume l: "length bs = 32"
  have "map word_bytes (be_words bs) = map (be_bytes 4) (be_words bs)"
    by (rule map_cong) (auto simp: word_bytes_be be_words_nonneg)
  then have "concat (map word_bytes (be_words bs)) = concat (map (be_bytes 4) (be_words bs))" by (rule arg_cong)
  also have "\<dots> = bs" by (rule be_words_bytes [of bs 8]) (simp add: l)
  finally show ?thesis .
qed

lemma double_sha256_eq: "digest32 sha \<Longrightarrow> double_sha256 sha bs = be_words (dsha sha (hashed_bytes bs))"
  by (simp add: double_sha256_def sha256_bytes_eq words_to_bytes digest32_def dsha_def)

section \<open>Lemmas: Merkle proofs\<close>

definition node_hash :: "(buffer \<Rightarrow> buffer) \<Rightarrow> buffer \<Rightarrow> buffer \<Rightarrow> buffer" where
  "node_hash sha a b = dsha sha (a @ b)"

lemma hash_pair_eq:
  "digest32 sha \<Longrightarrow> length a = 32 \<Longrightarrow> length b = 32 \<Longrightarrow> hash_pair sha (be_words a) (be_words b) = be_words (node_hash sha a b)"
  by (simp add: hash_pair_def words_to_bytes double_sha256_eq node_hash_def)

lemma length_node_hash [simp]: "digest32 sha \<Longrightarrow> length (node_hash sha a b) = 32"
  by (simp add: node_hash_def dsha_def digest32_def)

lemma merkle_loop_eq:
  "digest32 sha \<Longrightarrow> length x = 32 \<Longrightarrow> list_all (\<lambda>s. length s = 32) ss
     \<Longrightarrow> merkle_loop sha (be_words x) (map be_words ss) (int i) = be_words (climb (node_hash sha) x i ss)"
proof (induction ss arbitrary: x i)
  case (Cons s ss)
  have "int i mod 2 = 0 \<longleftrightarrow> even i" by presburger
  moreover have "int i div 2 = int (i div 2)" by simp
  ultimately show ?case using Cons hash_pair_eq [of sha x s] hash_pair_eq [of sha s x] by simp
qed simp

lemma length_climb: "digest32 sha \<Longrightarrow> length x = 32 \<Longrightarrow> length (climb (node_hash sha) x i ss) = 32"
  by (induction ss arbitrary: x i) auto

lemma be_words_inject: "length a = 32 \<Longrightarrow> length b = 32 \<Longrightarrow> be_words a = be_words b \<longleftrightarrow> a = b"
  using words_to_bytes [of a] words_to_bytes [of b] by metis

lemma arrays_eq_8_iff: "length a = 8 \<Longrightarrow> length b = 8 \<Longrightarrow> arrays_eq_8 a b \<longleftrightarrow> a = b"
proof -
  assume l: "length a = 8" "length b = 8"
  have "[0, 1, 2, 3, 4, 5, 6, 7] = [0..<8]" by (simp add: upt_rec)
  then have "arrays_eq_8 a b \<longleftrightarrow> (\<forall>i < 8. a ! i = b ! i)"
    unfolding arrays_eq_8_def by (simp only: list_all_iff set_upt) auto
  then show ?thesis using l by (metis nth_equalityI)
qed

lemma verify_merkle_proof_eq:
  assumes "digest32 sha" and "length x = 32" and "list_all (\<lambda>s. length s = 32) ss" and "length r = 32"
  shows "verify_merkle_proof sha (be_words x) (map be_words ss) (int i) (be_words r)
     \<longleftrightarrow> climb (node_hash sha) x i ss = r"
  using assms by (simp add: verify_merkle_proof_def merkle_loop_eq arrays_eq_8_iff list32 length_climb be_words_inject)

section \<open>Lemmas: transactions\<close>

lemma usize_add_Inr: "a + b < 2 ^ 32 \<Longrightarrow> usize_add a b = Inr (a + b)"
  by (simp add: usize_add_def)

lemma le_at_append: "length as = off \<Longrightarrow> length bs = n \<Longrightarrow> le_at n (as @ bs @ cs) off = Inr (le_uint bs)"
  using slice_append2 [of as off bs cs] by (simp add: le_at_def span_slice_def)

lemma span_at_append [simp]: "length pre = k \<Longrightarrow> span_at (pre @ b # post) k = Inr b"
  by (simp add: span_at_def)

lemma read_varint_vi:
  assumes "small n" and "length pre = k"
  shows "read_varint (pre @ vi (int n) @ post) k = Inr (int n, length (vi (int n)))"
proof -
  have n: "int n < 2 ^ 53" using assms(1) by (simp add: small_def)
  have le: "le_at j (pre @ (b # le_bytes j (int n)) @ post) (Suc k) = Inr (int n)" if "int n < 256 ^ j" for j b
    using le_at_append [of "pre @ [b]" "Suc k" "le_bytes j (int n)" j post] that assms(2)
    by (simp add: le_uint_le_bytes)
  consider "int n < 0xfd" | "0xfd \<le> int n" "int n < 0x10000" | "0x10000 \<le> int n" "int n < 0x100000000"
    | "0x100000000 \<le> int n" by linarith
  then show ?thesis
  proof cases
    case 1
    then have "uint (byte_of (int n)) = int n" by (intro uint_byte_of) auto
    then show ?thesis using 1 assms(2) by (simp add: vi_def read_varint_def)
  next
    case 2
    then show ?thesis using le [of 2 "0xfd"] assms(2) by (simp add: vi_def read_varint_def)
  next
    case 3
    then show ?thesis using le [of 4 "0xfe"] assms(2) by (simp add: vi_def read_varint_def)
  next
    case 4
    then show ?thesis using le [of 8 "0xff"] n assms(2) by (simp add: vi_def read_varint_def)
  qed
qed

lemma skip_vins_ser:
  assumes "list_all wf_in ins" and "length pre = k" and "k + length (concat (map ser_in ins)) < 2 ^ 32"
  shows "skip_vins (pre @ concat (map ser_in ins) @ post) (length ins) k = Inr (k + length (concat (map ser_in ins)))"
  using assms
proof (induction ins arbitrary: pre k)
  case (Cons i ins)
  let ?v = "length (vi (int (length (script_sig i))))" and ?l = "length (script_sig i)"
  have i: "length (outpoint i) = 36" "length (seq_no i) = 4" "small ?l"
    using Cons.prems by (auto simp: wf_in_def)
  have b: "k + 36 + (?v + ?l) + 4 < 2 ^ 32" using Cons.prems(3) i by (simp add: ser_in_def [of i])
  have "read_varint ((pre @ outpoint i) @ vi (int ?l) @ (script_sig i @ seq_no i
      @ concat (map ser_in ins) @ post)) (k + 36) = Inr (int ?l, ?v)"
    using i Cons.prems(2) by (intro read_varint_vi) auto
  moreover have "skip_vins ((pre @ ser_in i) @ concat (map ser_in ins) @ post) (length ins) (k + length (ser_in i))
       = Inr (k + length (ser_in i) + length (concat (map ser_in ins)))"
    using Cons by (intro Cons.IH) (auto simp: add.assoc)
  ultimately show ?case using i b
    by (simp add: ser_in_def [of i] usize_add_Inr to_usize_def algebra_simps)
qed simp

lemma scan_vouts_done: "j > vo \<Longrightarrow> scan_vouts raw vo j n c found = Inr x \<Longrightarrow> x = found"
proof (induction n arbitrary: j c)
  case (Suc n)
  from Suc.prems obtain c' where "scan_vouts raw vo (j + 1) n c' found = Inr x"
    by (auto simp: usize_add_def panic_def split: if_splits)
  then show ?case using Suc.IH [of "Suc j" c'] Suc.prems(1) by simp
qed simp

lemma scan_vouts_ser:
  assumes "list_all wf_out outs" and "length pre = k" and "k + length (concat (map ser_out outs)) < 2 ^ 32"
    and "j + length outs < 2 ^ 32" and "j \<le> vo \<Longrightarrow> vo < j + length outs"
  shows "\<exists>a st len. scan_vouts (pre @ concat (map ser_out outs) @ post) vo j (length outs) k found = Inr (a, st, len)
     \<and> (j \<le> vo \<longrightarrow> a = sats (outs ! (vo - j))
         \<and> span_slice (pre @ concat (map ser_out outs) @ post) st len = Inr (script_pub (outs ! (vo - j))))"
  using assms
proof (induction outs arbitrary: pre k j found)
  case Nil
  then show ?case by (cases found) auto
next
  case (Cons w outs)
  let ?rest = "concat (map ser_out outs) @ post" and ?v = "vi (int (length (script_pub w)))" and ?l = "length (script_pub w)"
  let ?raw = "pre @ concat (map ser_out (w # outs)) @ post" and ?st = "k + 8 + length (vi (int (length (script_pub w))))"
  have w: "0 \<le> sats w" "sats w < 2 ^ 53" "small ?l"
    using Cons.prems by (auto simp: wf_out_def)
  have raw: "?raw = pre @ le_bytes 8 (sats w) @ ?v @ script_pub w @ ?rest" by (simp add: ser_out_def)
  have b: "k + 8 + (length ?v + ?l) < 2 ^ 32" using Cons.prems(3) by (simp add: ser_out_def)
  have r: "read_u64_le ?raw k = Inr (sats w)"
    unfolding raw using le_at_append [OF Cons.prems(2), of "le_bytes 8 (sats w)" 8 "?v @ script_pub w @ ?rest"] w
    by (simp add: read_u64_le_def le_uint_le_bytes)
  have v: "read_varint ?raw (k + 8) = Inr (int ?l, length ?v)"
    unfolding raw using read_varint_vi [of ?l "pre @ le_bytes 8 (sats w)" "k + 8" "script_pub w @ ?rest"] w Cons.prems(2)
    by simp
  have sl: "span_slice ?raw ?st ?l = Inr (script_pub w)"
    unfolding raw using slice_append2 [of "pre @ le_bytes 8 (sats w) @ ?v" ?st "script_pub w" ?rest] Cons.prems(2)
    by (simp add: span_slice_def add.assoc)
  define found' where "found' = (if j = vo then (sats w, ?st, ?l) else found)"
  have step: "scan_vouts ?raw vo j (length (w # outs)) k found = scan_vouts ?raw vo (j + 1) (length outs) (?st + ?l) found'"
    using r v b Cons.prems(4) w by (simp add: usize_add_Inr to_usize_def found'_def add.assoc)
  have k': "k + length (ser_out w) = ?st + ?l" by (simp add: ser_out_def)
  have raw': "?raw = (pre @ ser_out w) @ concat (map ser_out outs) @ post" by simp
  obtain a st len where IH: "scan_vouts ?raw vo (j + 1) (length outs) (?st + ?l) found' = Inr (a, st, len)"
    "j + 1 \<le> vo \<longrightarrow> a = sats (outs ! (vo - (j + 1))) \<and> span_slice ?raw st len = Inr (script_pub (outs ! (vo - (j + 1))))"
    using Cons.IH [of "pre @ ser_out w" "?st + ?l" "j + 1" found'] Cons.prems k' unfolding raw' by (auto simp: add.assoc)
  consider "vo < j" | "vo = j" | "j < vo" by linarith
  then show ?case
  proof cases
    case 2
    then have "(a, st, len) = (sats w, ?st, ?l)"
      using scan_vouts_done [OF _ IH(1)] by (simp add: found'_def)
    then show ?thesis using 2 IH(1) step sl by auto
  next
    case 3
    then have "vo - j = Suc (vo - (j + 1))" by simp
    then have "(w # outs) ! (vo - j) = outs ! (vo - (j + 1))" by (simp only: nth_Cons_Suc)
    then show ?thesis using 3 IH step by auto
  qed (use IH(1) step in auto)
qed

lemma length_outs: "length outs \<le> length (concat (map ser_out outs))"
  by (induction outs) (auto simp: ser_out_def)

lemma segwit_marked_eq:
  "6 \<le> length raw \<Longrightarrow> segwit_marked raw = Inr (is_segwit raw)"
  by (simp add: segwit_marked_def is_segwit_def span_at_def elem_at_def)

text \<open>
  What the parser reads of a buffer that holds the body of a transaction: it never looks at what follows.
\<close>

lemma parse_output_body:
  assumes "wf_tx t" and raw: "raw = pre @ ser_body t @ post" and pre: "length pre = (if is_segwit raw then 6 else 4)"
    and "length raw < 2 ^ 32"
  shows "parse_output raw i = (if i < length (bx_outs t) then Inr (sats (bx_outs t ! i), script_pub (bx_outs t ! i))
     else panic ''vout_index out of range'')"
proof -
  let ?ins = "concat (map ser_in (bx_ins t))" and ?outs = "concat (map ser_out (bx_outs t))"
  let ?vi = "vi (int (length (bx_ins t)))" and ?vo = "vi (int (length (bx_outs t)))"
  let ?k = "length pre"
  have w: "small (length (bx_ins t))" "small (length (bx_outs t))" "list_all wf_in (bx_ins t)"
    "list_all wf_out (bx_outs t)" "bx_ins t \<noteq> []"
    using assms(1) by (simp_all add: wf_tx_def)
  have buf: "raw = pre @ ?vi @ (?ins @ ?vo @ ?outs @ post)" "raw = (pre @ ?vi) @ ?ins @ (?vo @ ?outs @ post)"
    "raw = (pre @ ?vi @ ?ins) @ ?vo @ (?outs @ post)" "raw = (pre @ ?vi @ ?ins @ ?vo) @ ?outs @ post"
    using raw by (simp_all add: ser_body_def)
  have len: "?k + length ?vi + length ?ins + length ?vo + length ?outs < 2 ^ 32"
  proof -
    have "length raw = ?k + length ?vi + length ?ins + length ?vo + length ?outs + length post"
      unfolding raw ser_body_def by (simp only: length_append add.assoc)
    then show ?thesis using assms(4) by linarith
  qed
  have outs: "length (bx_outs t) \<le> length ?outs" by (rule length_outs)
  have 1: "read_varint raw ?k = Inr (int (length (bx_ins t)), length ?vi)"
    by (subst buf(1), rule read_varint_vi [OF w(1)]) simp
  have 2: "skip_vins raw (length (bx_ins t)) (?k + length ?vi) = Inr (?k + length ?vi + length ?ins)"
    by (subst buf(2), rule skip_vins_ser [OF w(3)]) (use len in simp_all)
  have 3: "read_varint raw (?k + length ?vi + length ?ins) = Inr (int (length (bx_outs t)), length ?vo)"
    by (subst buf(3), rule read_varint_vi [OF w(2)]) simp
  have 4: "\<exists>st n. scan_vouts raw i 0 (length (bx_outs t)) (?k + length ?vi + length ?ins + length ?vo) (0, 0, 0)
      = Inr (sats (bx_outs t ! i), st, n) \<and> span_slice raw st n = Inr (script_pub (bx_outs t ! i))"
    if "i < length (bx_outs t)"
    using scan_vouts_ser [OF w(4), of "pre @ ?vi @ ?ins @ ?vo" "?k + length ?vi + length ?ins + length ?vo" 0 i post "(0, 0, 0)"]
      len outs that unfolding buf(4) [symmetric] by (auto simp: add.assoc)
  have "36 \<le> length ?ins" using w(3,5) by (cases "bx_ins t") (auto simp: ser_in_def wf_in_def)
  moreover have "length ?ins + length pre \<le> length raw" by (subst buf(1)) simp
  ultimately have "6 \<le> length raw" by linarith
  then have r: "parse_output raw i = require (int i < int (length (bx_outs t))) ''vout_index out of range''
     (bind_res (scan_vouts raw i 0 (length (bx_outs t)) (?k + length ?vi + length ?ins + length ?vo) (0, 0, 0))
        (\<lambda>(amount, start, len). bind_res (span_slice raw start len) (\<lambda>script. Inr (amount, script))))"
    using 1 2 3 len pre by (simp add: parse_output_def segwit_marked_eq usize_add_Inr Let_def add.assoc)
  show ?thesis
  proof (cases "i < length (bx_outs t)")
    case True
    then show ?thesis using 4 r by auto
  next
    case False
    then show ?thesis using r by (simp add: require_def)
  qed
qed

lemma serialization_parts:
  assumes "wf_tx t" and "serialization t raw"
  obtains pre post where "raw = pre @ ser_body t @ post" "length pre = (if is_segwit raw then 6 else 4)" "4 \<le> length post"
proof (cases "raw = ser_legacy t")
  case True
  then show thesis using that [of "bx_version t" "bx_locktime t"] assms(1) is_segwit_legacy [OF assms(1)]
    by (simp add: ser_legacy_def wf_tx_def)
next
  case False
  then have "raw = ser_segwit t" using assms(2) by (simp add: serialization_def)
  then show thesis
    using that [of "bx_version t @ [0, 1]" "concat (map encodeWitnessStack (bx_witness t)) @ bx_locktime t"] assms(1)
      is_segwit_segwit [OF assms(1)] by (simp add: ser_segwit_def wf_tx_def)
qed

text \<open>The contract finds in either serialization of a transaction what an output says.\<close>

lemma parse_output_ser:
  assumes "wf_tx t" and "serialization t raw" and "length raw < 2 ^ 32" and "i < length (bx_outs t)"
  shows "parse_output raw i = Inr (sats (bx_outs t ! i), script_pub (bx_outs t ! i))"
  using serialization_parts [OF assms(1,2)] parse_output_body [OF assms(1) _ _ assms(3), of _ _ i] assms(4) by metis

lemma is_segwit_take: "6 \<le> n \<Longrightarrow> is_segwit (take n bs) = is_segwit bs"
  by (simp add: is_segwit_def elem_at_def)

text \<open>
  The same when only the bytes that are hashed are a serialization: the tail that gets lost is in the lock time.
\<close>

lemma parse_output_hashed:
  assumes "wf_tx t" and "serialization t (hashed_bytes raw)" and "length raw < 2 ^ 32"
  shows "parse_output raw i = (if i < length (bx_outs t) then Inr (sats (bx_outs t ! i), script_pub (bx_outs t ! i))
     else panic ''vout_index out of range'')"
proof -
  obtain pre post where h: "hashed_bytes raw = pre @ ser_body t @ post"
      "length pre = (if is_segwit (hashed_bytes raw) then 6 else 4)" "4 \<le> length post"
    using serialization_parts [OF assms(1,2)] .
  let ?n = "length pre + length (ser_body t)"
  have n: "length raw = ?n + length post" using length_hashed_bytes [of raw] h(1) by simp
  have "take ?n raw = take ?n (take (length raw - 3) raw)" using n h(3) by (simp add: min_absorb1)
  also have "\<dots> = take ?n (hashed_bytes raw)"
    unfolding take_hashed_bytes [symmetric] using n h(3) by (simp add: min_absorb1)
  also have "\<dots> = pre @ ser_body t" by (simp add: h(1))
  finally have raw: "raw = pre @ ser_body t @ drop ?n raw" by (metis append.assoc append_take_drop_id)
  have "2 \<le> length (ser_body t)" by (simp add: ser_body_def vi_def)
  then have "6 \<le> ?n" using h(2) by (simp split: if_splits)
  moreover have "take ?n (hashed_bytes raw) = take ?n raw" unfolding h(1) by (subst raw) simp
  ultimately have "is_segwit (hashed_bytes raw) = is_segwit raw" by (metis is_segwit_take)
  then show ?thesis using parse_output_body [OF assms(1) raw _ assms(3), of i] h(2) by simp
qed

lemma bytes_match_eq:
  "length script = length expected + 2 \<Longrightarrow> i + n = length expected
     \<Longrightarrow> bytes_match script expected i n = Inr (drop (i + 2) script = drop i expected)"
proof (induction n arbitrary: i)
  case (Suc n)
  then have "drop (i + 2) script = script ! (i + 2) # drop (Suc i + 2) script" "drop i expected = expected ! i # drop (Suc i) expected"
    by (simp_all add: Cons_nth_drop_Suc)
  then show ?case using Suc by (auto simp: span_at_def elem_at_def)
qed simp

lemma script_matches_p2tr_eq:
  "length tapkey = 32 \<Longrightarrow> script_matches_p2tr script tapkey = Inr (script = 0x51 # 0x20 # tapkey)"
proof -
  assume l: "length tapkey = 32"
  show ?thesis
  proof (cases "length script = 34")
    case True
    then obtain a b rest where "script = a # b # rest" "length rest = 32"
      by (auto simp: numeral_eq_Suc length_Suc_conv)
    then show ?thesis using l bytes_match_eq [of script tapkey 0 32] by (auto simp: script_matches_p2tr_def)
  qed (use l in \<open>auto simp: script_matches_p2tr_def\<close>)
qed

end
