(* ===== verification/MockBtc.thy ===== *)
theory MockBtc
  imports CairoSpv
begin

text \<open>
  \<open>contracts/src/mock_btc.cairo\<close>: the token. Addresses and other field elements are \<open>int\<close>, the zero
  address is 0; \<open>u256\<close> arithmetic panics outside its range. An operation returns the new storage
  and the events it emits; a panic reverts the transaction. The caller is an argument.
\<close>

section \<open>Storage and operations\<close>

type_synonym felt = int

definition u256_add :: "int \<Rightarrow> int \<Rightarrow> int res" where
  "u256_add a b = (if a + b < 2 ^ 256 then Inr (a + b) else panic ''u256_add Overflow'')"

definition u256_sub :: "int \<Rightarrow> int \<Rightarrow> int res" where
  "u256_sub a b = (if b \<le> a then Inr (a - b) else panic ''u256_sub Overflow'')"

record token =
  tk_name :: string
  tk_symbol :: string
  total_supply :: int
  balances :: "felt \<Rightarrow> int"
  allowances :: "felt \<times> felt \<Rightarrow> int"

datatype token_event = Transfer felt felt int | Approval felt felt int

definition token_mint :: "felt \<Rightarrow> int \<Rightarrow> token \<Rightarrow> (token \<times> token_event list) res" where
  "token_mint recipient amount t =
     require (recipient \<noteq> 0) ''ERC20: mint to 0''
     (bind_res (u256_add (total_supply t) amount) (\<lambda>supply.
      bind_res (u256_add (balances t recipient) amount) (\<lambda>b.
        Inr (t\<lparr>total_supply := supply, balances := (balances t)(recipient := b)\<rparr>, [Transfer 0 recipient amount]))))"

definition token_move :: "felt \<Rightarrow> felt \<Rightarrow> int \<Rightarrow> token \<Rightarrow> (token \<times> token_event list) res" where
  "token_move sender recipient amount t =
     require (sender \<noteq> 0) ''ERC20: transfer from 0''
     (require (recipient \<noteq> 0) ''ERC20: transfer to 0''
     (require (amount \<le> balances t sender) ''ERC20: insufficient balance''
     (bind_res (u256_sub (balances t sender) amount) (\<lambda>s.
      let bals = (balances t)(sender := s) in
      bind_res (u256_add (bals recipient) amount) (\<lambda>r.
        Inr (t\<lparr>balances := bals(recipient := r)\<rparr>, [Transfer sender recipient amount]))))))"

definition token_allow :: "felt \<Rightarrow> felt \<Rightarrow> int \<Rightarrow> token \<Rightarrow> (token \<times> token_event list) res" where
  "token_allow owner spender amount t =
     require (owner \<noteq> 0) ''ERC20: approve from 0''
     (require (spender \<noteq> 0) ''ERC20: approve to 0''
       (Inr (t\<lparr>allowances := (allowances t)((owner, spender) := amount)\<rparr>, [Approval owner spender amount])))"

definition MAX_ALLOWANCE :: int where
  "MAX_ALLOWANCE = 0xffffffffffffffffffffffffffffffffffffffffffffffffffffffffffffffff"

definition spend_allowance :: "felt \<Rightarrow> felt \<Rightarrow> int \<Rightarrow> token \<Rightarrow> (token \<times> token_event list) res" where
  "spend_allowance owner spender amount t =
     (let current = allowances t (owner, spender) in
      if current = MAX_ALLOWANCE then Inr (t, [])
      else require (amount \<le> current) ''ERC20: insufficient allowance''
        (bind_res (u256_sub current amount) (\<lambda>left. token_allow owner spender left t)))"

text \<open>The constructor, and the external functions with the caller that the sequencer reports.\<close>

definition empty_token :: token where
  "empty_token = \<lparr>tk_name = [], tk_symbol = [], total_supply = 0, balances = \<lambda>_. 0, allowances = \<lambda>_. 0\<rparr>"

definition token_constructor :: "felt \<Rightarrow> (token \<times> token_event list) res" where
  "token_constructor recipient =
     token_mint recipient (100000 * 1000000000000000000) (empty_token\<lparr>tk_name := ''Mock Bitcoin'', tk_symbol := ''mBTC''\<rparr>)"

datatype token_cmd =
    Token_transfer felt felt int
  | Token_approve felt felt int
  | Token_transfer_from felt felt felt int
  | Token_mint felt felt int

fun token_call :: "token_cmd \<Rightarrow> token \<Rightarrow> (token \<times> token_event list) res" where
  "token_call (Token_transfer caller recipient amount) t = token_move caller recipient amount t"
| "token_call (Token_approve caller spender amount) t = token_allow caller spender amount t"
| "token_call (Token_transfer_from caller sender recipient amount) t =
     bind_res (spend_allowance sender caller amount t) (\<lambda>(t1, es1).
     bind_res (token_move sender recipient amount t1) (\<lambda>(t2, es2). Inr (t2, es1 @ es2)))"
| "token_call (Token_mint caller recipient amount) t = token_mint recipient amount t"

text \<open>A transaction: a panic leaves the storage alone. Amounts are \<open>u256\<close>.\<close>

definition token_tx :: "token_cmd \<Rightarrow> token \<Rightarrow> token" where
  "token_tx c t = (case token_call c t of Inl _ \<Rightarrow> t | Inr (t', _) \<Rightarrow> t')"

fun amount_of :: "token_cmd \<Rightarrow> int" where
  "amount_of (Token_transfer c r a) = a"
| "amount_of (Token_approve c s a) = a"
| "amount_of (Token_transfer_from c s r a) = a"
| "amount_of (Token_mint c r a) = a"

definition is_u256 :: "int \<Rightarrow> bool" where
  "is_u256 v \<longleftrightarrow> 0 \<le> v \<and> v < 2 ^ 256"

section \<open>Lemmas\<close>

text \<open>The supply is the sum of the balances, of which finitely many are not zero.\<close>

definition sums_to :: "(felt \<Rightarrow> int) \<Rightarrow> int \<Rightarrow> bool" where
  "sums_to f s \<longleftrightarrow> finite {a. f a \<noteq> 0} \<and> (\<Sum>a | f a \<noteq> 0. f a) = s"

definition token_ok :: "token \<Rightarrow> bool" where
  "token_ok t \<longleftrightarrow> sums_to (balances t) (total_supply t) \<and> (\<forall>a. 0 \<le> balances t a) \<and> total_supply t < 2 ^ 256"

lemma sums_to_upd:
  assumes "sums_to f s"
  shows "sums_to (f(x := v)) (s - f x + v)"
proof -
  have fin: "finite {a. f a \<noteq> 0}" and s: "(\<Sum>a | f a \<noteq> 0. f a) = s" using assms by (simp_all add: sums_to_def)
  let ?A = "insert x {a. f a \<noteq> 0}"
  have "(\<Sum>a | (f(x := v)) a \<noteq> 0. (f(x := v)) a) = (\<Sum>a \<in> ?A. (f(x := v)) a)"
    by (rule sum.mono_neutral_left) (use fin in auto)
  also have "\<dots> = v + (\<Sum>a \<in> {a. f a \<noteq> 0} - {x}. f a)"
    using fin by (subst sum.insert_remove) auto
  also have "(\<Sum>a \<in> {a. f a \<noteq> 0} - {x}. f a) = s - f x"
    using fin s by (cases "f x = 0") (simp_all add: sum_diff1)
  finally have total: "(\<Sum>a | (f(x := v)) a \<noteq> 0. (f(x := v)) a) = s - f x + v" by simp
  have "finite {a. (f(x := v)) a \<noteq> 0}" by (rule finite_subset [of _ ?A]) (use fin in auto)
  then show ?thesis unfolding sums_to_def using total by blast
qed

lemma token_ok_empty: "token_ok (empty_token\<lparr>tk_name := n, tk_symbol := s\<rparr>)"
  by (simp add: token_ok_def empty_token_def sums_to_def)

lemma token_mint_ok: "token_ok t \<Longrightarrow> 0 \<le> amount \<Longrightarrow> token_mint r amount t = Inr (t', es) \<Longrightarrow> token_ok t'"
  using sums_to_upd [of "balances t" "total_supply t" r "balances t r + amount"]
  by (auto simp: token_mint_def token_ok_def u256_add_def panic_def split: if_splits)

lemma token_move_ok:
  assumes t: "token_ok t" and a: "0 \<le> amount" and m: "token_move s r amount t = Inr (t', es)"
  shows "token_ok t'"
proof -
  define f where "f = (balances t)(s := balances t s - amount)"
  have t': "t' = t\<lparr>balances := f(r := f r + amount)\<rparr>" "amount \<le> balances t s"
    using m by (auto simp: token_move_def u256_sub_def u256_add_def panic_def Let_def f_def split: if_splits)
  have "sums_to f (total_supply t - amount)"
    using sums_to_upd [of "balances t" "total_supply t" s "balances t s - amount"] t by (simp add: token_ok_def f_def)
  then have "sums_to (f(r := f r + amount)) (total_supply t)" using sums_to_upd [of f _ r "f r + amount"] by fastforce
  moreover have "0 \<le> f b" for b using t t'(2) by (simp add: f_def token_ok_def)
  ultimately show ?thesis using t t'(1) a by (auto simp: token_ok_def)
qed

lemma token_allow_ok: "token_ok t \<Longrightarrow> token_allow ow sp amount t = Inr (t', es) \<Longrightarrow> token_ok t'"
  by (auto simp: token_allow_def token_ok_def)

lemma spend_allowance_ok: "token_ok t \<Longrightarrow> spend_allowance ow sp amount t = Inr (t', es) \<Longrightarrow> token_ok t'"
  by (auto simp: spend_allowance_def Let_def u256_sub_def dest: token_allow_ok split: if_splits)

lemma token_tx_ok: "token_ok t \<Longrightarrow> is_u256 (amount_of c) \<Longrightarrow> token_ok (token_tx c t)"
  by (cases c) (auto simp: token_tx_def is_u256_def panic_def dest: token_move_ok token_mint_ok token_allow_ok spend_allowance_ok
      split: sum.splits)

text \<open>Who may take from an account: its owner, or a spender up to its allowance.\<close>

fun takes_from :: "token_cmd \<Rightarrow> felt \<Rightarrow> token \<Rightarrow> bool" where
  "takes_from (Token_transfer caller r amount) a t \<longleftrightarrow> caller = a \<and> 0 < amount"
| "takes_from (Token_transfer_from caller s r amount) a t \<longleftrightarrow> s = a \<and> 0 < amount \<and> amount \<le> allowances t (a, caller)"
| "takes_from _ a t \<longleftrightarrow> False"

lemma spend_allowance_spec:
  "spend_allowance ow sp amount t = Inr (t', es) \<Longrightarrow>
     balances t' = balances t \<and> (amount < 2 ^ 256 \<longrightarrow> amount \<le> allowances t (ow, sp))"
  by (auto simp: spend_allowance_def token_allow_def u256_sub_def panic_def Let_def MAX_ALLOWANCE_def split: if_splits)

lemma token_move_takes: "token_move s r amount t = Inr (t', es) \<Longrightarrow> 0 \<le> amount \<Longrightarrow> balances t' a < balances t a \<Longrightarrow> a = s \<and> 0 < amount"
  by (auto simp: token_move_def u256_sub_def u256_add_def panic_def Let_def split: if_splits)

lemma token_call_takes:
  assumes c: "token_call c t = Inr (t', es)" and less: "balances t' a < balances t a" and u: "is_u256 (amount_of c)"
  shows "takes_from c a t"
proof (cases c)
  case (Token_transfer caller r amount)
  then show ?thesis using c less u token_move_takes [of caller r amount t t' es a] by (force simp: is_u256_def)
next
  case (Token_transfer_from caller s r amount)
  then obtain t1 es1 es2 where m: "spend_allowance s caller amount t = Inr (t1, es1)" "token_move s r amount t1 = Inr (t', es2)"
    using c by auto
  then show ?thesis
    using less u Token_transfer_from spend_allowance_spec [OF m(1)] token_move_takes [OF m(2), of a]
    by (force simp: is_u256_def)
qed (use c less u in \<open>auto simp: token_mint_def token_allow_def u256_add_def panic_def is_u256_def split: if_splits\<close>)

fun caller_of :: "token_cmd \<Rightarrow> felt" where
  "caller_of (Token_transfer c r a) = c"
| "caller_of (Token_approve c s a) = c"
| "caller_of (Token_transfer_from c s r a) = c"
| "caller_of (Token_mint c r a) = c"

text \<open>Only an owner grants allowances.\<close>

lemma no_allowance_kept:
  assumes "token_call c t = Inr (t', es)" and "caller_of c \<noteq> a" and "\<forall>x. allowances t (a, x) = 0" and "is_u256 (amount_of c)"
  shows "allowances t' (a, x) = 0"
  using assms
  by (cases c) (auto simp: token_move_def token_mint_def token_allow_def spend_allowance_def u256_sub_def u256_add_def panic_def
      Let_def is_u256_def MAX_ALLOWANCE_def split: if_splits)

lemma token_mint_spec:
  "token_mint r amount t = Inr (t', es) \<Longrightarrow>
     balances t' = (balances t)(r := balances t r + amount) \<and> allowances t' = allowances t \<and> es = [Transfer 0 r amount]"
  by (auto simp: token_mint_def u256_add_def panic_def split: if_splits)

lemma token_move_spec:
  "token_move s r amount t = Inr (t', es) \<Longrightarrow> 0 \<le> amount \<Longrightarrow>
     balances t s - amount \<le> balances t' s \<and> allowances t' = allowances t \<and> total_supply t' = total_supply t \<and> es = [Transfer s r amount]"
  by (auto simp: token_move_def u256_sub_def u256_add_def panic_def Let_def split: if_splits)

lemma token_move_gives: "token_move s r amount t = Inr (t', es) \<Longrightarrow> r \<noteq> s \<Longrightarrow> balances t' r = balances t r + amount"
  by (auto simp: token_move_def u256_sub_def u256_add_def panic_def Let_def split: if_splits)

section \<open>Properties\<close>

text \<open>
  The supply is accounted for: after any sequence of transactions from deployment, whoever sends
  them, the total supply is the sum of all balances and no balance is negative.
\<close>

theorem supply_accounted:
  assumes "token_constructor r = Inr (t, es)" and "list_all (\<lambda>c. is_u256 (amount_of c)) cs"
  shows "token_ok (fold token_tx cs t)"
proof -
  have "token_ok t" using token_mint_ok [OF token_ok_empty _ assms(1) [unfolded token_constructor_def]] by simp
  then show ?thesis using assms(2) by (induction cs arbitrary: t) (auto simp: token_tx_ok)
qed

theorem supply_accounted_witness:
  "\<exists>t es. token_constructor 5 = Inr (t, es) \<and> token_ok (fold token_tx [Token_transfer 5 6 10, Token_mint 9 9 77, Token_transfer 6 5 11] t)"
proof -
  obtain t es where t: "token_constructor 5 = Inr (t, es)"
    by (simp add: token_constructor_def token_mint_def empty_token_def u256_add_def)
  have "list_all (\<lambda>c. is_u256 (amount_of c)) [Token_transfer 5 6 10, Token_mint 9 9 77, Token_transfer 6 5 11]"
    by (simp add: is_u256_def)
  from supply_accounted [OF t this] t show ?thesis by blast
qed

text \<open>
  An account loses tokens only by its own transfer or through an allowance it gave: but anyone may
  mint any amount to anyone.
\<close>

theorem only_owner_spends:
  assumes "balances (token_tx c t) a < balances t a" and "is_u256 (amount_of c)"
  shows "takes_from c a t"
  using assms token_call_takes by (fastforce simp: token_tx_def split: sum.splits)

lemma anyone_mints:
  assumes "r \<noteq> 0" and "token_ok t" and "total_supply t + amount < 2 ^ 256" and "balances t r + amount < 2 ^ 256"
  shows "balances (token_tx (Token_mint caller r amount) t) r = balances t r + amount"
  using assms by (simp add: token_tx_def token_mint_def u256_add_def)

end
