(* ===== verification/VaultContract.thy ===== *)
theory VaultContract
  imports MockBtc
begin

text \<open>
  \<open>contracts/src/header_store.cairo\<close> and \<open>contracts/src/vault.cairo\<close>: the relayed Merkle roots, and the
  vault that mints for a proved Bitcoin payment and releases tokens against a nullifier. The three
  contracts of the repository form a \<open>world\<close>; a call to another address panics. SHA-256 is the argument
  \<open>sha\<close>. A storage map that was never written reads as zero, or \<open>False\<close>.
\<close>

section \<open>HeaderStore\<close>

text \<open>\<open>merkle_w k\<close> is the map \<open>merkle_w<k>\<close> of the source.\<close>

record headers =
  hs_relayer :: felt
  merkle_w :: "nat \<Rightarrow> int \<Rightarrow> int"
  hs_stored :: "int \<Rightarrow> bool"
  latest_height :: int

definition headers_constructor :: "felt \<Rightarrow> headers" where
  "headers_constructor relayer = \<lparr>hs_relayer = relayer, merkle_w = \<lambda>_ _. 0, hs_stored = \<lambda>_. False, latest_height = 0\<rparr>"

definition store_header :: "felt \<Rightarrow> int \<Rightarrow> int list \<Rightarrow> headers \<Rightarrow> headers res" where
  "store_header caller h merkle_root hs =
     require (caller = hs_relayer hs) ''Only relayer can store headers''
       (Inr (hs\<lparr>merkle_w := (\<lambda>k. if k < 8 then (merkle_w hs k)(h := merkle_root ! k) else merkle_w hs k),
              hs_stored := (hs_stored hs)(h := True),
              latest_height := (if latest_height hs < h then h else latest_height hs)\<rparr>))"

definition get_merkle_root :: "int \<Rightarrow> headers \<Rightarrow> int list res" where
  "get_merkle_root h hs = require (hs_stored hs h) ''Header not stored for height''
     (Inr (map (\<lambda>k. merkle_w hs k h) [0..<8]))"

definition is_header_stored :: "int \<Rightarrow> headers \<Rightarrow> bool" where
  "is_header_stored h hs = hs_stored hs h"

section \<open>PrivateBTCVault\<close>

record vault_contract =
  btc_token :: felt
  header_store_at :: felt
  vc_nullifiers :: "felt \<Rightarrow> bool"
  vc_commitments :: "felt \<Rightarrow> bool"
  tapkey_words :: "int list"
  spent_txids :: "int \<times> int \<Rightarrow> bool"

datatype vault_event = DepositEvent felt int int | WithdrawalEvent felt felt int

definition vault_constructor :: "felt \<Rightarrow> felt \<Rightarrow> int list \<Rightarrow> vault_contract" where
  "vault_constructor tok hs words = \<lparr>btc_token = tok, header_store_at = hs, vc_nullifiers = \<lambda>_. False,
     vc_commitments = \<lambda>_. False, tapkey_words = words, spent_txids = \<lambda>_. False\<rparr>"

text \<open>The deployed contracts with their addresses.\<close>

record world =
  vault_at :: felt
  token_at :: felt
  headers_at :: felt
  w_vault :: vault_contract
  w_token :: token
  w_headers :: headers

definition call_headers :: "world \<Rightarrow> (headers \<Rightarrow> 'a res) \<Rightarrow> 'a res" where
  "call_headers w f = (if header_store_at (w_vault w) = headers_at w then f (w_headers w)
     else panic ''Requested contract address is not deployed'')"

definition call_token :: "world \<Rightarrow> (token \<Rightarrow> 'a res) \<Rightarrow> 'a res" where
  "call_token w f = (if btc_token (w_vault w) = token_at w then f (w_token w)
     else panic ''Requested contract address is not deployed'')"

definition vault_tapkey :: "vault_contract \<Rightarrow> buffer" where
  "vault_tapkey v = concat (map word_bytes (tapkey_words v))"

text \<open>
  The shifts are by 80, 48 and 32 bits, so that the second and the third word overlap (\<open>txid_key_collides\<close>). The sum is
  at most \<open>2 ^ 113\<close> and does not overflow.
\<close>

definition pack_u128 :: "int \<Rightarrow> int \<Rightarrow> int \<Rightarrow> int \<Rightarrow> int" where
  "pack_u128 w0 w1 w2 w3 = w0 * 0x100000000000000000000 + w1 * 0x1000000000000 + w2 * 0x100000000 + w3"

definition u128_mul :: "int \<Rightarrow> int \<Rightarrow> int res" where
  "u128_mul a b = (if a * b < 2 ^ 128 then Inr (a * b) else panic ''u128_mul Overflow'')"

definition txid_key :: "int list \<Rightarrow> int \<times> int" where
  "txid_key tid = (pack_u128 (tid ! 0) (tid ! 1) (tid ! 2) (tid ! 3), pack_u128 (tid ! 4) (tid ! 5) (tid ! 6) (tid ! 7))"

record deposit_args =
  da_commitment :: felt
  da_height :: int
  da_pos :: int
  da_raw_tx :: buffer
  da_vout :: nat
  da_proof :: "int list list"

definition vault_deposit :: "(buffer \<Rightarrow> buffer) \<Rightarrow> deposit_args \<Rightarrow> world
    \<Rightarrow> (world \<times> token_event list \<times> vault_event) res" where
  "vault_deposit sha a w =
     (let v = w_vault w in
      require (\<not> vc_commitments v (da_commitment a)) ''Commitment already used''
      (bind_res (call_headers w (\<lambda>hs. Inr (is_header_stored (da_height a) hs))) (\<lambda>stored.
       require stored ''Block header not relayed yet''
      (bind_res (call_headers w (get_merkle_root (da_height a))) (\<lambda>merkle_root.
       let tid = double_sha256 sha (da_raw_tx a) in
       require (\<not> spent_txids v (txid_key tid)) ''Bitcoin txid already minted''
      (require (verify_merkle_proof sha tid (da_proof a) (da_pos a) merkle_root) ''Invalid Bitcoin Merkle proof''
      (bind_res (parse_output (da_raw_tx a) (da_vout a)) (\<lambda>(amount_sats, script).
       require (0 < amount_sats) ''Zero amount in tx output''
      (bind_res (script_matches_p2tr script (vault_tapkey v)) (\<lambda>paying.
       require paying ''Output not paying covenant P2TR''
      (let v' = v\<lparr>vc_commitments := (vc_commitments v)(da_commitment a := True),
                  spent_txids := (spent_txids v)(txid_key tid := True)\<rparr> in
       bind_res (u128_mul amount_sats 10000000000) (\<lambda>amount_wei.
       bind_res (call_token w (token_mint (vault_at w) amount_wei)) (\<lambda>(t', es).
         Inr (w\<lparr>w_vault := v', w_token := t'\<rparr>, es,
              DepositEvent (da_commitment a) amount_sats (da_height a)))))))))))))))"

definition vault_withdraw :: "felt \<Rightarrow> felt list \<Rightarrow> felt \<Rightarrow> int \<Rightarrow> world \<Rightarrow> (world \<times> token_event list \<times> vault_event) res" where
  "vault_withdraw nullifier proof recipient amount w =
     (let v = w_vault w in
      require (\<not> vc_nullifiers v nullifier) ''Nullifier already used''
      (require (0 < length proof) ''Invalid proof length''
      (bind_res (call_token w (\<lambda>t. Inr (balances t (vault_at w)))) (\<lambda>vault_balance.
       require (amount \<le> vault_balance) ''Insufficient vault balance''
      (let v' = v\<lparr>vc_nullifiers := (vc_nullifiers v)(nullifier := True)\<rparr> in
       bind_res (call_token w (token_move (vault_at w) recipient amount)) (\<lambda>(t', es).
         Inr (w\<lparr>w_vault := v', w_token := t'\<rparr>, es, WithdrawalEvent nullifier recipient amount)))))))"

definition get_total_staked :: "world \<Rightarrow> int res" where
  "get_total_staked w = call_token w (\<lambda>t. Inr (balances t (vault_at w)))"

definition is_commitment_registered :: "felt \<Rightarrow> vault_contract \<Rightarrow> bool" where
  "is_commitment_registered commitment v = vc_commitments v commitment"

section \<open>Transactions\<close>

text \<open>The transactions that reach the contracts, each with its sender where a contract looks at it.\<close>

datatype world_cmd =
    VaultDeposit deposit_args
  | VaultWithdraw felt "felt list" felt int
  | StoreHeader felt int "int list"
  | TokenCmd token_cmd

fun world_call :: "(buffer \<Rightarrow> buffer) \<Rightarrow> world_cmd \<Rightarrow> world \<Rightarrow> world res" where
  "world_call sha (VaultDeposit a) w = bind_res (vault_deposit sha a w) (\<lambda>(w', es, e). Inr w')"
| "world_call sha (VaultWithdraw n proof r amount) w = bind_res (vault_withdraw n proof r amount w) (\<lambda>(w', es, e). Inr w')"
| "world_call sha (StoreHeader caller h words) w = bind_res (store_header caller h words (w_headers w)) (\<lambda>hs. Inr (w\<lparr>w_headers := hs\<rparr>))"
| "world_call sha (TokenCmd c) w = bind_res (token_call c (w_token w)) (\<lambda>(t', es). Inr (w\<lparr>w_token := t'\<rparr>))"

text \<open>A run, with the commands that succeeded, in order: a panic leaves everything as it was.\<close>

fun run_ok :: "('c \<Rightarrow> 's \<Rightarrow> 's res) \<Rightarrow> 'c list \<Rightarrow> 's \<Rightarrow> 'c list \<times> 's" where
  "run_ok step [] s = ([], s)"
| "run_ok step (c # cs) s = (case step c s of
     Inl _ \<Rightarrow> run_ok step cs s
   | Inr s' \<Rightarrow> (case run_ok step cs s' of (ok, s'') \<Rightarrow> (c # ok, s'')))"

definition world_run :: "(buffer \<Rightarrow> buffer) \<Rightarrow> world_cmd list \<Rightarrow> world \<Rightarrow> world_cmd list \<times> world" where
  "world_run sha = run_ok (world_call sha)"

section \<open>Keys that are used once\<close>

text \<open>
  The contract of a storage map that is tested and set: a command that succeeds uses keys that were
  free, and marks them. Then no key is used twice in a run.
\<close>

locale single_use =
  fixes step :: "'c \<Rightarrow> 's \<Rightarrow> 's res"
    and used :: "'s \<Rightarrow> 'k \<Rightarrow> bool"
    and keys_of :: "'c \<Rightarrow> 'k list"
  assumes step_fresh: "step c s = Inr s' \<Longrightarrow> distinct (keys_of c) \<and> (\<forall>k \<in> set (keys_of c). \<not> used s k)"
    and step_marks: "step c s = Inr s' \<Longrightarrow> used s' k \<longleftrightarrow> used s k \<or> k \<in> set (keys_of c)"
begin

lemma used_once:
  "run_ok step cs s = (ok, s') \<Longrightarrow>
     distinct (concat (map keys_of ok)) \<and> (\<forall>k \<in> set (concat (map keys_of ok)). \<not> used s k)"
proof (induction cs arbitrary: s ok)
  case (Cons c cs)
  show ?case
  proof (cases "step c s")
    case (Inr s1)
    with Cons.prems obtain ok1 where "run_ok step cs s1 = (ok1, s')" "ok = c # ok1"
      by (auto split: prod.splits)
    then show ?thesis
      using Cons.IH [of s1 ok1] step_fresh [OF Inr] step_marks [OF Inr] by auto
  qed (use Cons in auto)
qed simp

end

section \<open>Lemmas\<close>

definition deposit_key :: "(buffer \<Rightarrow> buffer) \<Rightarrow> deposit_args \<Rightarrow> int \<times> int" where
  "deposit_key sha a = txid_key (double_sha256 sha (da_raw_tx a))"

definition deposit_sats :: "deposit_args \<Rightarrow> int" where
  "deposit_sats a = (case parse_output (da_raw_tx a) (da_vout a) of Inl _ \<Rightarrow> 0 | Inr (amount, _) \<Rightarrow> amount)"

lemma vault_depositD:
  assumes "vault_deposit sha a w = Inr (w', es, e)"
  shows "\<not> vc_commitments (w_vault w) (da_commitment a)" "\<not> spent_txids (w_vault w) (deposit_key sha a)"
    "hs_stored (w_headers w) (da_height a)"
    "verify_merkle_proof sha (double_sha256 sha (da_raw_tx a)) (da_proof a) (da_pos a)
       (map (\<lambda>k. merkle_w (w_headers w) k (da_height a)) [0..<8])"
    "\<exists>script. parse_output (da_raw_tx a) (da_vout a) = Inr (deposit_sats a, script)
       \<and> script_matches_p2tr script (vault_tapkey (w_vault w)) = Inr True" "0 < deposit_sats a"
    "\<exists>t'. token_mint (vault_at w) (deposit_sats a * 10 ^ 10) (w_token w) = Inr (t', es)
       \<and> w' = w\<lparr>w_vault := (w_vault w)\<lparr>vc_commitments := (vc_commitments (w_vault w))(da_commitment a := True),
            spent_txids := (spent_txids (w_vault w))(deposit_key sha a := True)\<rparr>, w_token := t'\<rparr>"
    "e = DepositEvent (da_commitment a) (deposit_sats a) (da_height a)"
  using assms
  by (auto simp: vault_deposit_def Let_def call_headers_def call_token_def is_header_stored_def get_merkle_root_def
      panic_def deposit_key_def deposit_sats_def u128_mul_def split: if_splits)

lemma vault_withdrawD:
  assumes "vault_withdraw n proof r amount w = Inr (w', es, e)"
  shows "\<not> vc_nullifiers (w_vault w) n" "amount \<le> balances (w_token w) (vault_at w)"
    "\<exists>t'. token_move (vault_at w) r amount (w_token w) = Inr (t', es)
       \<and> w' = w\<lparr>w_vault := (w_vault w)\<lparr>vc_nullifiers := (vc_nullifiers (w_vault w))(n := True)\<rparr>, w_token := t'\<rparr>"
    "e = WithdrawalEvent n r amount"
  using assms by (auto simp: vault_withdraw_def Let_def call_token_def panic_def split: if_splits)

text \<open>Two transaction hashes can have the same key; different keys come from different hashes.\<close>

lemma txid_key_collides: "txid_key [0, 1, 0, 0, 0, 0, 0, 0] = txid_key [0, 0, 0x10000, 0, 0, 0, 0, 0]"
  by (simp add: txid_key_def pack_u128_def)

lemma pack_u128_bounds:
  assumes "0 \<le> w0" "0 \<le> w1" "0 \<le> w2" "0 \<le> w3" and "w0 < 2 ^ 32" "w1 < 2 ^ 32" "w2 < 2 ^ 32" "w3 < 2 ^ 32"
  shows "0 \<le> pack_u128 w0 w1 w2 w3 \<and> pack_u128 w0 w1 w2 w3 < 2 ^ 113"
  using assms by (simp add: pack_u128_def)

text \<open>The deposit and the withdrawal of a command.\<close>

fun deposit_in :: "world_cmd \<Rightarrow> deposit_args list" where
  "deposit_in (VaultDeposit a) = [a]"
| "deposit_in _ = []"

fun withdrawal_in :: "world_cmd \<Rightarrow> (felt \<times> int) list" where
  "withdrawal_in (VaultWithdraw n proof r amount) = [(n, amount)]"
| "withdrawal_in _ = []"

lemma world_call_marks:
  assumes "world_call sha c w = Inr w'"
  shows "\<forall>a \<in> set (deposit_in c). \<not> vc_commitments (w_vault w) (da_commitment a) \<and> \<not> spent_txids (w_vault w) (deposit_key sha a)"
    "vc_commitments (w_vault w') k \<longleftrightarrow> vc_commitments (w_vault w) k \<or> k \<in> da_commitment ` set (deposit_in c)"
    "spent_txids (w_vault w') q \<longleftrightarrow> spent_txids (w_vault w) q \<or> q \<in> deposit_key sha ` set (deposit_in c)"
    "\<forall>x \<in> set (withdrawal_in c). \<not> vc_nullifiers (w_vault w) (fst x)"
    "vc_nullifiers (w_vault w') k \<longleftrightarrow> vc_nullifiers (w_vault w) k \<or> k \<in> fst ` set (withdrawal_in c)"
proof -
  have "(\<forall>a \<in> set (deposit_in c). \<not> vc_commitments (w_vault w) (da_commitment a) \<and> \<not> spent_txids (w_vault w) (deposit_key sha a))
     \<and> (vc_commitments (w_vault w') k \<longleftrightarrow> vc_commitments (w_vault w) k \<or> k \<in> da_commitment ` set (deposit_in c))
     \<and> (spent_txids (w_vault w') q \<longleftrightarrow> spent_txids (w_vault w) q \<or> q \<in> deposit_key sha ` set (deposit_in c))
     \<and> (\<forall>x \<in> set (withdrawal_in c). \<not> vc_nullifiers (w_vault w) (fst x))
     \<and> (vc_nullifiers (w_vault w') k \<longleftrightarrow> vc_nullifiers (w_vault w) k \<or> k \<in> fst ` set (withdrawal_in c))"
  proof (cases c)
    case (VaultDeposit a)
    then obtain es e where "vault_deposit sha a w = Inr (w', es, e)" using assms by auto
    from vault_depositD(1,2,7) [OF this] VaultDeposit show ?thesis by auto
  next
    case (VaultWithdraw n pf r amount)
    then obtain es e where "vault_withdraw n pf r amount w = Inr (w', es, e)" using assms by auto
    from vault_withdrawD(1,3) [OF this] VaultWithdraw show ?thesis by auto
  qed (use assms in auto)
  then show "\<forall>a \<in> set (deposit_in c). \<not> vc_commitments (w_vault w) (da_commitment a) \<and> \<not> spent_txids (w_vault w) (deposit_key sha a)"
    "vc_commitments (w_vault w') k \<longleftrightarrow> vc_commitments (w_vault w) k \<or> k \<in> da_commitment ` set (deposit_in c)"
    "spent_txids (w_vault w') q \<longleftrightarrow> spent_txids (w_vault w) q \<or> q \<in> deposit_key sha ` set (deposit_in c)"
    "\<forall>x \<in> set (withdrawal_in c). \<not> vc_nullifiers (w_vault w) (fst x)"
    "vc_nullifiers (w_vault w') k \<longleftrightarrow> vc_nullifiers (w_vault w) k \<or> k \<in> fst ` set (withdrawal_in c)"
    by blast+
qed

interpretation commitments_once: single_use "world_call sha" "\<lambda>w. vc_commitments (w_vault w)" "\<lambda>c. map da_commitment (deposit_in c)" for sha
proof (unfold_locales, goal_cases)
  case (1 c s s')
  then show ?case using world_call_marks(1) [OF 1] by (cases c) auto
qed (use world_call_marks(2) in auto)

interpretation txids_once: single_use "world_call sha" "\<lambda>w. spent_txids (w_vault w)" "\<lambda>c. map (deposit_key sha) (deposit_in c)" for sha
proof (unfold_locales, goal_cases)
  case (1 c s s')
  then show ?case using world_call_marks(1) [OF 1] by (cases c) auto
qed (use world_call_marks(3) in auto)

interpretation nullifiers_once: single_use "world_call sha" "\<lambda>w. vc_nullifiers (w_vault w)" "\<lambda>c. map fst (withdrawal_in c)" for sha
proof (unfold_locales, goal_cases)
  case (1 c s s')
  then show ?case using world_call_marks(4) [OF 1] by (cases c) auto
qed (use world_call_marks(5) in auto)

lemma distinct_hashes:
  assumes "distinct (concat (map (\<lambda>c. map (deposit_key sha) (f c)) ok))"
  shows "distinct (concat (map (\<lambda>c. map (\<lambda>a. double_sha256 sha (da_raw_tx a)) (f c)) ok))"
proof -
  have "deposit_key sha = (\<lambda>a. txid_key (double_sha256 sha (da_raw_tx a)))" by (simp add: fun_eq_iff deposit_key_def)
  then have "concat (map (\<lambda>c. map (deposit_key sha) (f c)) ok)
      = map txid_key (concat (map (\<lambda>c. map (\<lambda>a. double_sha256 sha (da_raw_tx a)) (f c)) ok))"
    by (simp add: map_concat comp_def)
  then show ?thesis using assms by (simp only: distinct_map)
qed

lemma two_balances:
  assumes "token_ok t" and "a \<noteq> b"
  shows "balances t a + balances t b \<le> total_supply t"
proof -
  let ?S = "{x. balances t x \<noteq> 0}"
  have f: "finite ?S" "sum (balances t) ?S = total_supply t" "\<And>x. 0 \<le> balances t x"
    using assms(1) by (auto simp: token_ok_def sums_to_def)
  have "sum (balances t) {a, b} = sum (balances t) ({a, b} \<inter> ?S)"
    by (rule sum.mono_neutral_right) auto
  also have "\<dots> \<le> sum (balances t) ?S" by (rule sum_mono2) (use f in auto)
  finally show ?thesis using assms(2) f(2) by simp
qed

lemma one_balance: "token_ok t \<Longrightarrow> balances t a \<le> total_supply t"
  using two_balances [of t a "a + 1"] by (simp add: token_ok_def) (smt (verit))

lemma token_move_succeeds:
  assumes "token_ok t" and "s \<noteq> 0" and "r \<noteq> 0" and "0 \<le> amount" and "amount \<le> balances t s"
  shows "\<exists>t'. token_move s r amount t = Inr (t', [Transfer s r amount])
     \<and> (r \<noteq> s \<longrightarrow> balances t' r = balances t r + amount \<and> balances t' s = balances t s - amount)"
proof -
  have "balances t r + amount < 2 ^ 256" if "r \<noteq> s"
    using two_balances [OF assms(1) that] assms(1,5) by (simp add: token_ok_def)
  moreover have "balances t s < 2 ^ 256" using one_balance [OF assms(1), of s] assms(1) by (simp add: token_ok_def)
  ultimately show ?thesis using assms by (cases "r = s") (auto simp: token_move_def u256_sub_def u256_add_def Let_def)
qed

text \<open>
  The reserve: what the vault holds, when nobody can act in its name (it never transfers or approves
  on its own) and amounts are \<open>u256\<close>.
\<close>

definition reserve :: "world \<Rightarrow> int" where
  "reserve w = balances (w_token w) (vault_at w)"

definition reserve_ok :: "world \<Rightarrow> bool" where
  "reserve_ok w \<longleftrightarrow> token_ok (w_token w) \<and> (\<forall>x. allowances (w_token w) (vault_at w, x) = 0)"

fun legal :: "felt \<Rightarrow> world_cmd \<Rightarrow> bool" where
  "legal vault (TokenCmd c) \<longleftrightarrow> caller_of c \<noteq> vault \<and> is_u256 (amount_of c)"
| "legal vault (VaultWithdraw n proof r amount) \<longleftrightarrow> is_u256 amount"
| "legal vault _ \<longleftrightarrow> True"

definition flow :: "world_cmd \<Rightarrow> int" where
  "flow c = sum_list (map (\<lambda>a. deposit_sats a * 10 ^ 10) (deposit_in c)) - sum_list (map snd (withdrawal_in c))"

lemma world_call_reserve:
  assumes "world_call sha c w = Inr w'" and "reserve_ok w" and "legal (vault_at w) c"
  shows "reserve_ok w' \<and> vault_at w' = vault_at w \<and> reserve w + flow c \<le> reserve w'"
proof (cases c)
  case (VaultDeposit a)
  then obtain es e where "vault_deposit sha a w = Inr (w', es, e)" using assms(1) by auto
  note d = vault_depositD(6,7) [OF this]
  then obtain t' where t': "token_mint (vault_at w) (deposit_sats a * 10 ^ 10) (w_token w) = Inr (t', es)"
    "w_token w' = t'" "vault_at w' = vault_at w" by auto
  then have "balances t' (vault_at w) = reserve w + deposit_sats a * 10 ^ 10" "allowances t' = allowances (w_token w)"
    using token_mint_spec [OF t'(1)] by (simp_all add: reserve_def)
  then show ?thesis
    using t' d(1) assms(2) VaultDeposit token_mint_ok [OF _ _ t'(1)] by (simp add: reserve_ok_def reserve_def flow_def)
next
  case (VaultWithdraw n pf r amount)
  then obtain es e where "vault_withdraw n pf r amount w = Inr (w', es, e)" using assms(1) by auto
  then obtain t' where t': "token_move (vault_at w) r amount (w_token w) = Inr (t', es)"
    "w_token w' = t'" "vault_at w' = vault_at w" using vault_withdrawD(3) by fastforce
  have a: "0 \<le> amount" using assms(3) VaultWithdraw by (simp add: is_u256_def)
  have "reserve w - amount \<le> balances t' (vault_at w)" "allowances t' = allowances (w_token w)"
    using token_move_spec [OF t'(1) a] by (simp_all add: reserve_def)
  then show ?thesis
    using t' assms(2) VaultWithdraw a token_move_ok [OF _ a t'(1)] by (simp add: reserve_ok_def reserve_def flow_def)
next
  case (TokenCmd tc)
  then obtain t' es where t': "token_call tc (w_token w) = Inr (t', es)" "w' = w\<lparr>w_token := t'\<rparr>" using assms(1) by auto
  have l: "caller_of tc \<noteq> vault_at w" "is_u256 (amount_of tc)" using assms(3) TokenCmd by simp_all
  have "\<not> takes_from tc (vault_at w) (w_token w)"
    using l assms(2) by (cases tc) (auto simp: reserve_ok_def)
  then have "reserve w \<le> balances t' (vault_at w)"
    using token_call_takes [OF t'(1) _ l(2), of "vault_at w"] by (force simp: reserve_def)
  then show ?thesis
    using t' TokenCmd assms(2) l no_allowance_kept [OF t'(1) l(1) _ l(2)] token_tx_ok [OF _ l(2), of "w_token w"]
    by (auto simp: reserve_ok_def reserve_def flow_def token_tx_def)
qed (use assms in \<open>auto simp: reserve_ok_def reserve_def flow_def\<close>)

section \<open>A concrete world\<close>

definition demo_world :: world where
  "demo_world = \<lparr>vault_at = 100, token_at = 101, headers_at = 102, w_vault = vault_constructor 101 102 (replicate 8 0),
     w_token = empty_token\<lparr>total_supply := 10, balances := (\<lambda>_. 0)(100 := 10)\<rparr>, w_headers = headers_constructor 1\<rparr>"

lemma demo_reserve: "reserve_ok demo_world" "reserve demo_world = 10"
proof -
  have "sums_to ((\<lambda>_. 0)(100 := 10)) 10" using sums_to_upd [of "\<lambda>_. 0" 0 100 10] by (simp add: sums_to_def)
  then show "reserve_ok demo_world" "reserve demo_world = 10"
    by (simp_all add: reserve_ok_def demo_world_def token_ok_def empty_token_def reserve_def)
qed

text \<open>Two withdrawals with the same nullifier: the second one panics.\<close>

definition demo_cmds :: "world_cmd list" where
  "demo_cmds = [VaultWithdraw 7 [1] 5 3, VaultWithdraw 7 [1] 5 3, TokenCmd (Token_mint 9 9 77)]"

lemma demo_cmds_run: "fst (world_run sha demo_cmds demo_world) = [VaultWithdraw 7 [1] 5 3, TokenCmd (Token_mint 9 9 77)]"
  by (simp add: world_run_def demo_cmds_def demo_world_def vault_withdraw_def vault_constructor_def call_token_def token_move_def
      token_mint_def empty_token_def u256_sub_def u256_add_def Let_def require_def panic_def)

section \<open>Properties\<close>

text \<open>
  C7. A Bitcoin transaction mints once: in any sequence of transactions that reach the contracts,
  whoever sends them, the deposits that succeed have distinct commitments, distinct keys of their Bitcoin transaction and
  therefore distinct hashes of it, and the withdrawals that succeed have distinct nullifiers; none was used before.
  (The converse fails: a second transaction whose hash has the same key is refused.)
\<close>

theorem vault_keys_used_once:
  assumes "world_run sha cs w = (ok, w')"
  shows "distinct (concat (map (\<lambda>c. map da_commitment (deposit_in c)) ok))
     \<and> distinct (concat (map (\<lambda>c. map (deposit_key sha) (deposit_in c)) ok))
     \<and> distinct (concat (map (\<lambda>c. map (\<lambda>a. double_sha256 sha (da_raw_tx a)) (deposit_in c)) ok))
     \<and> distinct (concat (map (\<lambda>c. map fst (withdrawal_in c)) ok))
     \<and> (\<forall>c \<in> set ok. (\<forall>a \<in> set (deposit_in c). \<not> spent_txids (w_vault w) (deposit_key sha a))
          \<and> (\<forall>x \<in> set (withdrawal_in c). \<not> vc_nullifiers (w_vault w) (fst x)))"
  using commitments_once.used_once [OF assms [unfolded world_run_def]] txids_once.used_once [OF assms [unfolded world_run_def]]
    nullifiers_once.used_once [OF assms [unfolded world_run_def]] distinct_hashes [of sha deposit_in ok] by auto

theorem vault_keys_used_once_witness:
  "\<exists>ok w'. world_run (\<lambda>bs. bs) demo_cmds demo_world = (ok, w') \<and> length ok = 2
     \<and> distinct (concat (map (\<lambda>c. map fst (withdrawal_in c)) ok))"
proof -
  obtain ok w' where r: "world_run (\<lambda>bs. bs) demo_cmds demo_world = (ok, w')" by fastforce
  then have "length ok = 2" using demo_cmds_run [of "\<lambda>bs. bs"] by simp
  then show ?thesis using vault_keys_used_once [OF r] r by blast
qed

text \<open>
  C28. The reserve covers what was deposited: the vault holds at least what it held before, plus
  \<open>10 ^ 10\<close> for each satoshi of the deposits that succeeded, less the withdrawals that succeeded; no
  transaction sent to the token by others lowers it.
\<close>

theorem reserve_covers:
  assumes "world_run sha cs w = (ok, w')" and "reserve_ok w" and "list_all (legal (vault_at w)) cs"
  shows "reserve w + sum_list (map flow ok) \<le> reserve w'"
  using assms unfolding world_run_def
proof (induction cs arbitrary: w ok)
  case (Cons c cs)
  show ?case
  proof (cases "world_call sha c w")
    case (Inr w1)
    with Cons.prems obtain ok1 where r: "run_ok (world_call sha) cs w1 = (ok1, w')" "ok = c # ok1"
      by (auto split: prod.splits)
    have "reserve_ok w1 \<and> vault_at w1 = vault_at w \<and> reserve w + flow c \<le> reserve w1"
      by (rule world_call_reserve [OF Inr]) (use Cons.prems in auto)
    then show ?thesis using Cons.IH [OF r(1)] Cons.prems r(2) by auto
  qed (use Cons in auto)
qed simp

theorem reserve_covers_witness:
  "\<exists>ok w'. world_run (\<lambda>bs. bs) demo_cmds demo_world = (ok, w') \<and> 10 - 3 \<le> reserve w'"
proof -
  obtain ok w' where r: "world_run (\<lambda>bs. bs) demo_cmds demo_world = (ok, w')" by fastforce
  then have ok: "sum_list (map flow ok) = - 3" using demo_cmds_run [of "\<lambda>bs. bs"] by (auto simp: flow_def)
  have "list_all (legal (vault_at demo_world)) demo_cmds"
    by (simp add: demo_cmds_def demo_world_def is_u256_def)
  from reserve_covers [OF r demo_reserve(1) this] show ?thesis using r ok demo_reserve(2) by auto
qed

text \<open>
  C5. The reserve is open to everyone: \<open>withdraw\<close> asks for a fresh nullifier, of which nothing has to be known, and for
  a non-empty proof, which it does not look at. Whoever calls it, with any unused nullifier and any
  proof, takes any amount up to the whole reserve, although no commitment is theirs.
\<close>

theorem anyone_withdraws:
  assumes "reserve_ok w" and "btc_token (w_vault w) = token_at w" and "vault_at w \<noteq> 0"
    and "\<not> vc_nullifiers (w_vault w) n" and "proof \<noteq> []" and "r \<noteq> 0" and "r \<noteq> vault_at w"
    and "0 \<le> amount" and "amount \<le> reserve w"
  shows "\<exists>w' es. vault_withdraw n proof r amount w = Inr (w', es, WithdrawalEvent n r amount)
     \<and> reserve w' = reserve w - amount \<and> balances (w_token w') r = balances (w_token w) r + amount"
proof -
  obtain t' where t': "token_move (vault_at w) r amount (w_token w) = Inr (t', [Transfer (vault_at w) r amount])"
    "balances t' r = balances (w_token w) r + amount" "balances t' (vault_at w) = balances (w_token w) (vault_at w) - amount"
    using token_move_succeeds [of "w_token w" "vault_at w" r amount] assms by (auto simp: reserve_ok_def reserve_def)
  then show ?thesis using assms by (simp add: vault_withdraw_def call_token_def Let_def reserve_def)
qed

theorem anyone_withdraws_witness:
  "\<exists>w' es. vault_withdraw 7 [0] 5 10 demo_world = Inr (w', es, WithdrawalEvent 7 5 10) \<and> reserve w' = 0"
proof -
  have "\<exists>w' es. vault_withdraw 7 [0] 5 10 demo_world = Inr (w', es, WithdrawalEvent 7 5 10)
     \<and> reserve w' = reserve demo_world - 10 \<and> balances (w_token w') 5 = balances (w_token demo_world) 5 + 10"
    by (rule anyone_withdraws [OF demo_reserve(1)]) (simp_all add: demo_reserve(2), simp_all add: demo_world_def vault_constructor_def)
  then show ?thesis using demo_reserve(2) by auto
qed

end
