(* ===== verification/HtlcContract.thy ===== *)
theory HtlcContract
  imports VaultContract
begin

text \<open>
  \<open>htlc_swap/src/lib.cairo\<close>: one hash time locked contract on Starknet. The ERC-20 tokens it calls are
  OpenZeppelin's interface, hence arguments: \<open>erc20\<close> holds the two calls, with the token's address and
  the caller, on a ledger state of any type; \<open>poseidon1\<close> is \<open>poseidon_hash_span\<close> of one element. What
  is relied on of the tokens is the locale \<open>erc20_ledger\<close>; the repository's own token provides it.
\<close>

section \<open>The contract\<close>

record htlc_contract =
  hc_sender :: felt
  hc_receiver :: felt
  hc_amount :: int
  hc_hashlock :: felt
  hc_timelock :: int
  hc_token :: felt
  hc_withdrawn :: bool
  hc_refunded :: bool

definition new_htlc :: htlc_contract where
  "new_htlc = \<lparr>hc_sender = 0, hc_receiver = 0, hc_amount = 0, hc_hashlock = 0, hc_timelock = 0, hc_token = 0,
     hc_withdrawn = False, hc_refunded = False\<rparr>"

record 'l erc20 =
  transfer_call :: "felt \<Rightarrow> felt \<Rightarrow> felt \<Rightarrow> int \<Rightarrow> 'l \<Rightarrow> (bool \<times> 'l) res"
  transfer_from_call :: "felt \<Rightarrow> felt \<Rightarrow> felt \<Rightarrow> felt \<Rightarrow> int \<Rightarrow> 'l \<Rightarrow> (bool \<times> 'l) res"

datatype htlc_event = Funded felt felt int felt int | Withdrawn felt felt | Refunded felt

text \<open>The caller and the block's timestamp come with every call; \<open>this\<close> is the contract's address.\<close>

datatype htlc_op =
    Fund felt felt int felt int
  | WithdrawCall felt
  | RefundCall

definition htlc_fund :: "'l erc20 \<Rightarrow> felt \<Rightarrow> felt \<Rightarrow> int \<Rightarrow> felt \<Rightarrow> felt \<Rightarrow> int \<Rightarrow> felt \<Rightarrow> int \<Rightarrow> htlc_contract \<times> 'l
    \<Rightarrow> ((htlc_contract \<times> 'l) \<times> htlc_event) res" where
  "htlc_fund tk this caller now receiver hashlock timelock tok amount s =
     (case s of (h, l) \<Rightarrow>
      require (0 < amount) ''Amount must be > 0''
      (require (now < timelock) ''Timelock must be in future''
      (bind_res (transfer_from_call tk tok this caller this amount l) (\<lambda>(_, l').
        Inr ((h\<lparr>hc_sender := caller, hc_receiver := receiver, hc_amount := amount, hc_hashlock := hashlock,
                hc_timelock := timelock, hc_token := tok, hc_withdrawn := False, hc_refunded := False\<rparr>, l'),
             Funded caller receiver amount hashlock timelock)))))"

definition htlc_withdraw :: "'l erc20 \<Rightarrow> (felt \<Rightarrow> felt) \<Rightarrow> felt \<Rightarrow> felt \<Rightarrow> htlc_contract \<times> 'l
    \<Rightarrow> ((htlc_contract \<times> 'l) \<times> htlc_event) res" where
  "htlc_withdraw tk poseidon1 this preimage s =
     (case s of (h, l) \<Rightarrow>
      require (\<not> hc_withdrawn h) ''Already withdrawn''
      (require (\<not> hc_refunded h) ''Already refunded''
      (require (poseidon1 preimage = hc_hashlock h) ''Invalid preimage''
      (bind_res (transfer_call tk (hc_token h) this (hc_receiver h) (hc_amount h) l) (\<lambda>(_, l').
        Inr ((h\<lparr>hc_withdrawn := True\<rparr>, l'), Withdrawn (hc_receiver h) preimage))))))"

definition htlc_refund :: "'l erc20 \<Rightarrow> felt \<Rightarrow> felt \<Rightarrow> int \<Rightarrow> htlc_contract \<times> 'l
    \<Rightarrow> ((htlc_contract \<times> 'l) \<times> htlc_event) res" where
  "htlc_refund tk this caller now s =
     (case s of (h, l) \<Rightarrow>
      require (\<not> hc_withdrawn h) ''Already withdrawn''
      (require (\<not> hc_refunded h) ''Already refunded''
      (require (hc_timelock h \<le> now) ''Timelock not expired''
      (require (caller = hc_sender h) ''Not sender''
      (bind_res (transfer_call tk (hc_token h) this (hc_sender h) (hc_amount h) l) (\<lambda>(_, l').
        Inr ((h\<lparr>hc_refunded := True\<rparr>, l'), Refunded (hc_sender h))))))))"

record htlc_env =
  env_caller :: felt
  env_now :: int

fun htlc_exec :: "'l erc20 \<Rightarrow> (felt \<Rightarrow> felt) \<Rightarrow> felt \<Rightarrow> htlc_env \<times> htlc_op \<Rightarrow> htlc_contract \<times> 'l \<Rightarrow> (htlc_contract \<times> 'l) res" where
  "htlc_exec tk pos1 this (env, Fund receiver tok amount hashlock timelock) s =
     bind_res (htlc_fund tk this (env_caller env) (env_now env) receiver hashlock timelock tok amount s) (\<lambda>(s', e). Inr s')"
| "htlc_exec tk pos1 this (env, WithdrawCall preimage) s = bind_res (htlc_withdraw tk pos1 this preimage s) (\<lambda>(s', e). Inr s')"
| "htlc_exec tk pos1 this (env, RefundCall) s = bind_res (htlc_refund tk this (env_caller env) (env_now env) s) (\<lambda>(s', e). Inr s')"

fun is_fund :: "htlc_op \<Rightarrow> bool" where
  "is_fund (Fund _ _ _ _ _) = True"
| "is_fund _ = False"

section \<open>Tokens\<close>

text \<open>
  What the contract relies on: a transfer takes at most its amount, of the token called, from the caller and
  from nobody else; a successful \<open>transfer_from\<close> adds its amount to the recipient.
\<close>

locale erc20_ledger =
  fixes tk :: "'l erc20"
    and bal :: "'l \<Rightarrow> felt \<Rightarrow> felt \<Rightarrow> int"
  assumes transfer_takes: "transfer_call tk tok caller r amount l = Inr (b, l') \<Longrightarrow> 0 \<le> amount
      \<Longrightarrow> bal l tok' a - (if tok' = tok \<and> a = caller then amount else 0) \<le> bal l' tok' a"
    and transfer_from_gives: "transfer_from_call tk tok caller s r amount l = Inr (b, l') \<Longrightarrow> 0 \<le> amount \<Longrightarrow> r \<noteq> s
      \<Longrightarrow> bal l tok' r + (if tok' = tok then amount else 0) \<le> bal l' tok' r"
begin

text \<open>Without another funding at most one settlement succeeds, and it pays the stored amount.\<close>

lemma settles_at_most_once:
  assumes "run_ok (htlc_exec tk pos1 this) cs (h, l) = (ok, (h', l'))" and "list_all (\<lambda>c. \<not> is_fund (snd c)) cs" and "0 \<le> hc_amount h"
  shows "length ok \<le> (if hc_withdrawn h \<or> hc_refunded h then 0 else 1)
     \<and> bal l tok this - (if tok = hc_token h \<and> ok \<noteq> [] then hc_amount h else 0) \<le> bal l' tok this"
  using assms
proof (induction cs arbitrary: h l ok)
  case (Cons c cs)
  show ?case
  proof (cases "htlc_exec tk pos1 this c (h, l)")
    case (Inr s1)
    obtain h1 l1 where s1: "s1 = (h1, l1)" by (cases s1)
    with Inr Cons.prems obtain ok1 where r: "run_ok (htlc_exec tk pos1 this) cs (h1, l1) = (ok1, (h', l'))" "ok = c # ok1"
      by (auto split: prod.splits)
    have c: "hc_withdrawn h1 \<or> hc_refunded h1" "\<not> (hc_withdrawn h \<or> hc_refunded h)" "hc_amount h1 = hc_amount h" "hc_token h1 = hc_token h"
      "\<exists>to b. transfer_call tk (hc_token h) this to (hc_amount h) l = Inr (b, l1)"
      using Inr s1 Cons.prems(2) by (cases c; cases "snd c"; force simp: htlc_withdraw_def htlc_refund_def)+
    obtain to b where "transfer_call tk (hc_token h) this to (hc_amount h) l = Inr (b, l1)" using c(5) by blast
    from transfer_takes [OF this Cons.prems(3), of tok this]
    have "bal l tok this - (if tok = hc_token h then hc_amount h else 0) \<le> bal l1 tok this" by simp
    then show ?thesis
      using Cons.IH [OF r(1)] Cons.prems(2,3) r(2) c by auto
  qed (use Cons in \<open>auto split: if_splits\<close>)
qed simp

text \<open>A funding on top of another locks the first amount.\<close>

lemma first_funding_locked:
  assumes f1: "htlc_fund tk this a1 now1 r1 hl1 tl1 tok x1 (h, l) = Inr ((h1, l1), e1)" and "a1 \<noteq> this"
    and f2: "htlc_fund tk this a2 now2 r2 hl2 tl2 tok x2 (h1, l1) = Inr ((h2, l2), e2)" and "a2 \<noteq> this"
    and run: "run_ok (htlc_exec tk pos1 this) cs (h2, l2) = (ok, (h3, l3))" and nf: "list_all (\<lambda>c. \<not> is_fund (snd c)) cs"
  shows "bal l tok this + x1 \<le> bal l3 tok this"
proof -
  obtain b1 b2 where t: "transfer_from_call tk tok this a1 this x1 l = Inr (b1, l1)" "0 < x1"
    "transfer_from_call tk tok this a2 this x2 l1 = Inr (b2, l2)" "0 < x2" "hc_amount h2 = x2" "hc_token h2 = tok"
    using f1 f2 by (auto simp: htlc_fund_def)
  have "bal l tok this + x1 \<le> bal l1 tok this" "bal l1 tok this + x2 \<le> bal l2 tok this"
    using transfer_from_gives [OF t(1), of tok] transfer_from_gives [OF t(3), of tok] t(2,4) assms(2,4) by auto
  then show ?thesis using settles_at_most_once [OF run nf, of tok] t(4-6) by (auto split: if_splits)
qed

end

text \<open>The ledger of the repository's tokens, by address.\<close>

definition mock_erc20 :: "(felt \<Rightarrow> token) erc20" where
  "mock_erc20 = \<lparr>
     transfer_call = (\<lambda>tok caller r amount l. bind_res (token_call (Token_transfer caller r amount) (l tok)) (\<lambda>(t', _). Inr (True, l(tok := t')))),
     transfer_from_call = (\<lambda>tok caller s r amount l. bind_res (token_call (Token_transfer_from caller s r amount) (l tok))
       (\<lambda>(t', _). Inr (True, l(tok := t'))))\<rparr>"

interpretation mock: erc20_ledger mock_erc20 "\<lambda>l tok. balances (l tok)"
proof (unfold_locales, goal_cases)
  case (1 tok caller r amount l b l' tok' a)
  then obtain t' es where t': "token_move caller r amount (l tok) = Inr (t', es)" "l' = l(tok := t')"
    by (auto simp: mock_erc20_def)
  then show ?case
    using token_move_spec [OF t'(1) 1(2)] token_move_takes [OF t'(1) 1(2), of a] by (cases "a = caller") force+
next
  case (2 tok caller s r amount l b l' tok')
  then obtain t1 es1 t' es where t': "spend_allowance s caller amount (l tok) = Inr (t1, es1)"
    "token_move s r amount t1 = Inr (t', es)" "l' = l(tok := t')"
    by (auto simp: mock_erc20_def)
  then show ?case using token_move_gives [OF t'(2) 2(3)] spend_allowance_spec [OF t'(1)] by simp
qed

section \<open>Properties\<close>

text \<open>
  One funding pays once: between two fundings at most one of \<open>withdraw\<close> and \<open>refund\<close> succeeds, whoever calls them how often, and
  the contract's balance falls by no more than the stored amount.
\<close>

theorem htlc_contract_pays_once:
  assumes "run_ok (htlc_exec mock_erc20 pos1 this) cs (h, l) = (ok, (h', l'))" and "list_all (\<lambda>c. \<not> is_fund (snd c)) cs"
    and "0 \<le> hc_amount h"
  shows "length ok \<le> 1 \<and> balances (l (hc_token h)) this - hc_amount h \<le> balances (l' (hc_token h)) this"
  using mock.settles_at_most_once [OF assms, of "hc_token h"] assms(3) by (auto split: if_splits)

text \<open>
  A second funding buries the first: \<open>fund\<close> does not ask whether the contract is funded already, and overwrites everything it
  knows. After two fundings with the same token, no sequence of withdrawals and refunds, by anybody, gives
  the first amount back: it stays in the contract.
\<close>

theorem second_funding_buries_first:
  assumes "htlc_fund mock_erc20 this a1 now1 r1 hl1 tl1 tok x1 (h, l) = Inr ((h1, l1), e1)" and "a1 \<noteq> this"
    and "htlc_fund mock_erc20 this a2 now2 r2 hl2 tl2 tok x2 (h1, l1) = Inr ((h2, l2), e2)" and "a2 \<noteq> this"
    and "run_ok (htlc_exec mock_erc20 pos1 this) cs (h2, l2) = (ok, (h3, l3))" and "list_all (\<lambda>c. \<not> is_fund (snd c)) cs"
  shows "balances (l tok) this + x1 \<le> balances (l3 tok) this"
  by (rule mock.first_funding_locked [OF assms])

text \<open>Two funders of a token at address 3, the contract at address 9; then both try to be refunded.\<close>

definition demo_ledger :: "felt \<Rightarrow> token" where
  "demo_ledger = (\<lambda>_. empty_token\<lparr>total_supply := 80, balances := (\<lambda>_. 0)(1 := 50, 2 := 30),
     allowances := (\<lambda>_. 0)((1, 9) := 50, (2, 9) := 30)\<rparr>)"

theorem second_funding_buries_first_witness:
  "\<exists>h1 l1 e1 h2 l2 e2 ok h3 l3. htlc_fund mock_erc20 9 1 0 5 11 100 3 50 (new_htlc, demo_ledger) = Inr ((h1, l1), e1)
     \<and> htlc_fund mock_erc20 9 2 0 5 12 100 3 30 (h1, l1) = Inr ((h2, l2), e2)
     \<and> run_ok (htlc_exec mock_erc20 (\<lambda>x. x) 9) [(\<lparr>env_caller = 1, env_now = 200\<rparr>, RefundCall), (\<lparr>env_caller = 2, env_now = 200\<rparr>, RefundCall)]
         (h2, l2) = (ok, (h3, l3)) \<and> 50 \<le> balances (l3 3) 9"
proof -
  note eval = htlc_fund_def mock_erc20_def demo_ledger_def spend_allowance_def token_allow_def token_move_def empty_token_def
    u256_sub_def u256_add_def MAX_ALLOWANCE_def Let_def new_htlc_def
  have "\<exists>h1 l1 e1 h2 l2 e2. htlc_fund mock_erc20 9 1 0 5 11 100 3 50 (new_htlc, demo_ledger) = Inr ((h1, l1), e1)
     \<and> htlc_fund mock_erc20 9 2 0 5 12 100 3 30 (h1, l1) = Inr ((h2, l2), e2)"
    by (simp add: eval) blast
  then obtain h1 l1 e1 h2 l2 e2 where 1: "htlc_fund mock_erc20 9 1 0 5 11 100 3 50 (new_htlc, demo_ledger) = Inr ((h1, l1), e1)"
    and 2: "htlc_fund mock_erc20 9 2 0 5 12 100 3 30 (h1, l1) = Inr ((h2, l2), e2)" by blast
  obtain ok h3 l3 where 3: "run_ok (htlc_exec mock_erc20 (\<lambda>x. x) 9) [(\<lparr>env_caller = 1, env_now = 200\<rparr>, RefundCall),
      (\<lparr>env_caller = 2, env_now = 200\<rparr>, RefundCall)] (h2, l2) = (ok, (h3, l3))" by (metis prod.exhaust)
  have "balances (demo_ledger 3) 9 + 50 \<le> balances (l3 3) 9"
    by (rule second_funding_buries_first [OF 1 _ 2 _ 3]) simp_all
  then show ?thesis using 1 2 3 by (auto simp: demo_ledger_def empty_token_def)
qed

theorem htlc_contract_pays_once_witness:
  "\<exists>ok h' l'. run_ok (htlc_exec mock_erc20 (\<lambda>x. x) 9) [(\<lparr>env_caller = 1, env_now = 200\<rparr>, RefundCall), (\<lparr>env_caller = 1, env_now = 200\<rparr>, RefundCall)]
       (new_htlc\<lparr>hc_sender := 1, hc_amount := 50, hc_token := 3\<rparr>, demo_ledger) = (ok, (h', l')) \<and> length ok \<le> 1"
proof -
  obtain ok h' l' where r: "run_ok (htlc_exec mock_erc20 (\<lambda>x. x) 9) [(\<lparr>env_caller = 1, env_now = 200\<rparr>, RefundCall),
      (\<lparr>env_caller = 1, env_now = 200\<rparr>, RefundCall)] (new_htlc\<lparr>hc_sender := 1, hc_amount := 50, hc_token := 3\<rparr>, demo_ledger) = (ok, (h', l'))"
    by (metis prod.exhaust)
  from htlc_contract_pays_once [OF r] r show ?thesis by (simp add: new_htlc_def)
qed

end
