(* ===== verification/Chain.thy ===== *)
theory Chain
  imports VaultContract Bridge Relay Verifier
begin

text \<open>
  The backend against the contracts it calls: the header relay's call reaches the store, the
  calldata of an SPV deposit reaches the vault and mints exactly what was paid, nothing is minted
  without a Bitcoin transaction in a relayed block, and the events of the contracts are not where the
  backend looks for them. \<open>sha\<close> is SHA-256, \<open>sel\<close> the selector of an event.
\<close>

section \<open>Calls\<close>

text \<open>
  What the entry point \<open>deposit\<close> makes of calldata: the felts are read by the signature, each in the range of its type.
  \<open>big_int\<close> reads the commitment, as starknet.js does with a string.
\<close>

definition deposit_args_of :: "string list \<Rightarrow> deposit_args option" where
  "deposit_args_of cd = (case read_spv cd of None \<Rightarrow> None | Some p \<Rightarrow> (case big_int (sp_commitment p) of None \<Rightarrow> None | Some c \<Rightarrow>
     if 0 \<le> sp_blockHeight p \<and> sp_blockHeight p < 2 ^ 64 \<and> 0 \<le> sp_txPos p \<and> sp_txPos p < 2 ^ 64
        \<and> list_all (\<lambda>b. 0 \<le> b \<and> b < 256) (sp_rawTxBytes p) \<and> 0 \<le> sp_voutIndex p \<and> sp_voutIndex p < 2 ^ 32
        \<and> list_all (list_all (\<lambda>x. 0 \<le> x \<and> x < 2 ^ 32)) (sp_merkleProofWords p)
     then Some \<lparr>da_commitment = c, da_height = sp_blockHeight p, da_pos = sp_txPos p, da_raw_tx = map byte_of (sp_rawTxBytes p),
            da_vout = nat (sp_voutIndex p), da_proof = sp_merkleProofWords p\<rparr>
     else None))"

definition send_deposit :: "(buffer \<Rightarrow> buffer) \<Rightarrow> string list \<Rightarrow> world \<Rightarrow> (world \<times> token_event list \<times> vault_event) res" where
  "send_deposit sha cd w = (case deposit_args_of cd of
     None \<Rightarrow> panic ''Failed to deserialize param'' | Some a \<Rightarrow> vault_deposit sha a w)"

text \<open>The arguments of \<open>executeSpvDeposit\<close> for a proof that \<open>buildSpvProof\<close> built.\<close>

definition params_of_proof :: "string \<Rightarrow> spv_proof \<Rightarrow> spv_params" where
  "params_of_proof commitment p = \<lparr>sp_commitment = commitment, sp_blockHeight = blockHeight p, sp_txPos = txPos p,
     sp_rawTxBytes = fst (encodeSpvProofAsCalldata p), sp_voutIndex = int (voutIndex p),
     sp_merkleProofWords = snd (encodeSpvProofAsCalldata p)\<rparr>"

text \<open>A block: its height, its header and the transaction hashes, in internal order, over which the header's root is.\<close>

definition block_ok :: "(buffer \<Rightarrow> buffer) \<Rightarrow> buffer \<Rightarrow> buffer list \<Rightarrow> bool" where
  "block_ok sha header leaves \<longleftrightarrow> length header = 80 \<and> leaves \<noteq> [] \<and> list_all (\<lambda>l. length l = 32) leaves
     \<and> slice 36 68 header = merkle_root_of (node_hash sha) leaves"

definition holds_header :: "headers \<Rightarrow> int \<Rightarrow> buffer \<Rightarrow> bool" where
  "holds_header hs h header \<longleftrightarrow> hs_stored hs h \<and> map (\<lambda>k. merkle_w hs k h) [0..<8] = be_words (slice 36 68 header)"

section \<open>Lemmas\<close>

lemma length_vault_tapkey: "length (vault_tapkey v) = 4 * length (tapkey_words v)"
proof -
  have "length (concat (map word_bytes ws)) = 4 * length ws" for ws by (induction ws) (simp_all add: word_bytes_def)
  then show ?thesis by (simp add: vault_tapkey_def)
qed

lemma length_sibling: "list_all (\<lambda>l. length l = n) xs \<Longrightarrow> i < length xs \<Longrightarrow> length (sibling xs i) = n"
  by (auto simp: sibling_def list_all_length)

lemma list_all_level_up: "digest32 sha \<Longrightarrow> list_all (\<lambda>l. length l = 32) (level_up (node_hash sha) xs)"
  by (induction "node_hash sha" xs rule: level_up.induct) auto

lemma list_all_merkle_path:
  "digest32 sha \<Longrightarrow> list_all (\<lambda>l. length l = 32) xs \<Longrightarrow> i < length xs
     \<Longrightarrow> list_all (\<lambda>l. length l = 32) (merkle_path (node_hash sha) xs i)"
proof (induction "node_hash sha" xs i rule: merkle_path.induct)
  case (1 xs i)
  show ?case
  proof (cases "length xs \<le> 1")
    case False
    then have "i div 2 < length (level_up (node_hash sha) xs)" using 1(4) by simp
    then show ?thesis
      using 1(1) [OF False 1(2) list_all_level_up [OF 1(2)]] 1(3,4) False
      by (simp add: merkle_path.simps [of _ xs] length_sibling)
  qed (simp add: merkle_path.simps)
qed

lemma be_words_range: "x \<in> set (be_words bs) \<Longrightarrow> 0 \<le> x \<and> x < 2 ^ 32"
proof (induction bs rule: be_words.induct)
  case (1 a b c d bs)
  then show ?case using le_uint_bound [of "[d, c, b, a]"] by (auto simp: be_uint_def)
qed auto

text \<open>The bounds of the types hold for a proof of a block's transaction.\<close>

lemma deposit_args_of_proof:
  assumes "0 \<le> h" "h < 2 ^ 64" "0 \<le> n" "n < 2 ^ 64" "i < 2 ^ 32" "list_all (\<lambda>s. length s = 32) hs" "big_int cm = Some c"
  shows "deposit_args_of (spv_calldata (params_of_proof cm \<lparr>blockHeight = h, txPos = n, rawTxHex = hex_encode bs,
      merkleProof = map be_words hs, voutIndex = i, pr_amountSats = a\<rparr>))
    = Some \<lparr>da_commitment = c, da_height = h, da_pos = n, da_raw_tx = bs, da_vout = i, da_proof = map be_words hs\<rparr>"
proof -
  let ?p = "params_of_proof cm \<lparr>blockHeight = h, txPos = n, rawTxHex = hex_encode bs,
      merkleProof = map be_words hs, voutIndex = i, pr_amountSats = a\<rparr>"
  have "\<forall>w \<in> set (sp_merkleProofWords ?p). length w = 8"
    using assms(6) by (auto simp: params_of_proof_def encodeSpvProofAsCalldata_def list_all_iff list32)
  then have r: "read_spv (spv_calldata ?p) = Some ?p" by (rule spv_calldata_roundtrip)
  have "list_all (\<lambda>b. 0 \<le> b \<and> b < 256) (map uint bs)" using uint_byte_bound by (simp add: list_all_iff)
  moreover have "list_all (list_all (\<lambda>x. 0 \<le> x \<and> x < 2 ^ 32)) (map be_words hs)"
    using be_words_range by (auto simp: list_all_iff)
  moreover have "map byte_of (map uint bs) = bs" by (simp add: comp_def)
  ultimately show ?thesis
    using r assms(1-5,7)
    by (simp add: deposit_args_of_def params_of_proof_def encodeSpvProofAsCalldata_def)
qed

text \<open>The header relay's call stores the root that the header has.\<close>

lemma relay_holds_header:
  assumes "length header = 80"
    and "parseMerkleRootFromHeader (hex_encode header) = Inr rt" and "merkleRootToU32Array rt = Inr ws"
    and "store_header (hs_relayer hs) h ws hs = Inr hs'"
  shows "holds_header hs' h header"
proof -
  obtain rt' ws' where m: "parseMerkleRootFromHeader (hex_encode header) = Inr rt'" "merkleRootToU32Array rt' = Inr ws'"
    "concat (map (be_bytes 4) ws') = slice 36 68 header"
    using merkle_root_of_header [OF assms(1)] by blast
  then have eq: "rt' = rt" "ws' = ws" using assms(2,3) by auto
  have b: "ws = be_words (hex_decode rt)" "length (hex_decode rt) = 32"
    using assms(3) by (auto simp: merkleRootToU32Array_def Let_def split: if_splits)
  then have "slice 36 68 header = hex_decode rt"
    using m(3) be_words_bytes [of "hex_decode rt" 8] by (simp add: eq)
  moreover have "length ws = 8" using b by (simp add: list32)
  then have w8: "map (\<lambda>k. ws ! k) [0..<8] = ws" by (metis map_nth)
  have hs': "merkle_w hs' = (\<lambda>k. if k < 8 then (merkle_w hs k)(h := ws ! k) else merkle_w hs k)" "hs_stored hs' h"
    using assms(4) by (auto simp: store_header_def panic_def)
  have "map (\<lambda>k. merkle_w hs' k h) [0..<8] = map (\<lambda>k. ws ! k) [0..<8]"
    by (rule map_cong) (simp_all add: hs'(1))
  with w8 hs'(2) have "map (\<lambda>k. merkle_w hs' k h) [0..<8] = ws" "hs_stored hs' h" by simp_all
  ultimately show ?thesis using b by (simp add: holds_header_def)
qed

lemma length_root: "length header = 80 \<Longrightarrow> length (slice 36 68 header) = 32"
  by (simp add: slice_def)

text \<open>The vault's check of a Merkle proof, for the words of a sibling list.\<close>

lemma vault_merkle_check:
  assumes "digest32 sha" and "block_ok sha header leaves" and "holds_header hs h header"
    and "list_all (\<lambda>s. length s = 32) ss" and "length x = 32"
  shows "verify_merkle_proof sha (be_words x) (map be_words ss) (int n) (map (\<lambda>k. merkle_w hs k h) [0..<8])
     \<longleftrightarrow> climb (node_hash sha) x n ss = merkle_root_of (node_hash sha) leaves"
proof -
  have "length (merkle_root_of (node_hash sha) leaves) = 32" "slice 36 68 header = merkle_root_of (node_hash sha) leaves"
    using assms(2) length_root [of header] by (simp_all add: block_ok_def)
  then show ?thesis
    using verify_merkle_proof_eq [OF assms(1,5,4)] assms(3) by (simp add: holds_header_def)
qed

text \<open>A deposit that passes every check of the vault, step by step.\<close>

lemma vault_deposit_accepts:
  assumes "\<not> vc_commitments (w_vault w) (da_commitment a)" and "\<not> spent_txids (w_vault w) (deposit_key sha a)"
    and "hs_stored (w_headers w) (da_height a)" and "header_store_at (w_vault w) = headers_at w"
    and "btc_token (w_vault w) = token_at w" and "vault_at w \<noteq> 0"
    and "verify_merkle_proof sha (double_sha256 sha (da_raw_tx a)) (da_proof a) (da_pos a)
       (map (\<lambda>k. merkle_w (w_headers w) k (da_height a)) [0..<8])"
    and "parse_output (da_raw_tx a) (da_vout a) = Inr (amount, script)" and "0 < amount" and "amount < 2 ^ 64"
    and "script_matches_p2tr script (vault_tapkey (w_vault w)) = Inr True"
    and "token_ok (w_token w)" and "total_supply (w_token w) + amount * 10 ^ 10 < 2 ^ 256"
  shows "\<exists>w' es. vault_deposit sha a w = Inr (w', es, DepositEvent (da_commitment a) amount (da_height a))
     \<and> reserve w' = reserve w + amount * 10 ^ 10"
proof -
  have "balances (w_token w) (vault_at w) + amount * 10 ^ 10 < 2 ^ 256"
    using one_balance [OF assms(12), of "vault_at w"] assms(13) by linarith
  then obtain t' where "token_mint (vault_at w) (amount * 10 ^ 10) (w_token w) = Inr (t', [Transfer 0 (vault_at w) (amount * 10 ^ 10)])"
    "balances t' (vault_at w) = reserve w + amount * 10 ^ 10"
    using assms(6,13) by (auto simp: token_mint_def u256_add_def reserve_def)
  then show ?thesis
    using assms(1-5,7-11)
    by (auto simp: vault_deposit_def Let_def call_headers_def call_token_def is_header_stored_def get_merkle_root_def
        deposit_key_def u128_mul_def reserve_def)
qed

section \<open>Events in receipts\<close>

text \<open>
  How a node reports an event: the selector and the \<open>#[key]\<close> members are keys, the other members data,
  all as hexadecimal felts; a \<open>u256\<close> is its low and its high half.
\<close>

definition felt_hex :: "int \<Rightarrow> string" where
  "felt_hex n = ''0x'' @ to_base 16 n"

fun log_event :: "(string \<Rightarrow> felt) \<Rightarrow> string \<Rightarrow> vault_event \<Rightarrow> event" where
  "log_event sel addr (DepositEvent c amount h) =
     \<lparr>from_address = addr, keys = [felt_hex (sel ''Deposit''), felt_hex c], data = [felt_hex amount, felt_hex h]\<rparr>"
| "log_event sel addr (WithdrawalEvent n recipient amount) =
     \<lparr>from_address = addr, keys = [felt_hex (sel ''Withdrawal''), felt_hex n],
      data = [felt_hex recipient, felt_hex (amount mod 2 ^ 128), felt_hex (amount div 2 ^ 128)]\<rparr>"

text \<open>The receipt of a transaction in which the vault emitted \<open>e\<close>: events of other contracts may surround it.\<close>

definition receipt_of :: "(string \<Rightarrow> felt) \<Rightarrow> sn_config \<Rightarrow> vault_event \<Rightarrow> tx_receipt \<Rightarrow> bool" where
  "receipt_of sel cfg e r \<longleftrightarrow>
     filter (\<lambda>ev. to_lower (from_address ev) = to_lower (vault_address cfg)) (rc_events r) = [log_event sel (vault_address cfg) e]"

lemma lower_hex_digit: "0 \<le> d \<Longrightarrow> d < 16 \<Longrightarrow> lower_char (digit_char d) = digit_char d"
proof -
  assume "0 \<le> d" "d < 16"
  then have "d = 0 \<or> d = 1 \<or> d = 2 \<or> d = 3 \<or> d = 4 \<or> d = 5 \<or> d = 6 \<or> d = 7 \<or> d = 8 \<or> d = 9 \<or> d = 10 \<or> d = 11
    \<or> d = 12 \<or> d = 13 \<or> d = 14 \<or> d = 15" by presburger
  moreover have "\<forall>d \<in> set [0, 1, 2, 3, 4, 5, 6, 7, 8, 9, 10, 11, 12, 13, 14, 15]. lower_char (digit_char d) = digit_char d"
    by code_simp
  ultimately show ?thesis by auto
qed

lemma lower_digits: "0 \<le> n \<Longrightarrow> to_lower acc = acc \<Longrightarrow> to_lower (digits_acc 16 n acc) = digits_acc 16 n acc"
proof (induction "16 :: int" n acc rule: digits_acc.induct)
  case (1 n acc)
  show ?case
  proof (cases "n < 16")
    case True
    then show ?thesis using 1(2,3) lower_hex_digit [of n] by (simp add: digits_acc.simps [of 16 n acc] to_lower_def)
  next
    case False
    then have "to_lower (digits_acc 16 (n div 16) (digit_char (n mod 16) # acc)) = digits_acc 16 (n div 16) (digit_char (n mod 16) # acc)"
      using 1(1) [OF _] 1(2,3) lower_hex_digit [of "n mod 16"] by (simp add: to_lower_def)
    then show ?thesis using False by (simp add: digits_acc.simps [of 16 n acc])
  qed
qed

lemma norm_felt_hex: "0 \<le> n \<Longrightarrow> norm_hex (felt_hex n) = to_base 16 n"
proof -
  assume "0 \<le> n"
  then have "to_lower (felt_hex n) = ''0x'' @ to_base 16 n"
    using lower_digits [of n "[]"] by (simp add: felt_hex_def to_base_def to_lower_def lower_char_def char_code_def Let_def)
  then show ?thesis by (simp add: norm_hex_def starts_with_def)
qed

lemma norm_hex_differs: "0 \<le> n \<Longrightarrow> of_base 16 (norm_hex s) \<noteq> Some n \<Longrightarrow> norm_hex s \<noteq> norm_hex (felt_hex n)"
  using of_base_to_base [of 16 n] norm_felt_hex [of n] by auto

lemma find_filter_single: "filter P xs = [x] \<Longrightarrow> Q x \<Longrightarrow> (\<And>y. Q y \<Longrightarrow> P y) \<Longrightarrow> List.find Q xs = Some x"
proof (induction xs)
  case (Cons a xs)
  then show ?case by (cases "P a") (auto split: if_splits)
qed simp

lemma list_ex_filter: "list_ex (\<lambda>y. P y \<and> Q y) xs \<longleftrightarrow> list_ex Q (filter P xs)"
  by (induction xs) auto

lemma deposit_event_mismatch:
  assumes "receipt_of sel cfg (DepositEvent c amount h) r" and "0 \<le> amount"
    and "of_base 16 (norm_hex expected) \<noteq> Some amount"
  shows "verifyDepositEvent cfg (Inr r) expected ts = Inl (CommitmentMismatchError expected (felt_hex amount))"
proof -
  have "List.find (is_deposit_event cfg) (rc_events r) = Some (log_event sel (vault_address cfg) (DepositEvent c amount h))"
    by (rule find_filter_single [OF assms(1) [unfolded receipt_of_def]]) (simp_all add: is_deposit_event_def)
  then show ?thesis
    using norm_hex_differs [OF assms(2,3)] by (simp add: verifyDepositEvent_def check_deposit_def)
qed

lemma withdrawal_event_missed:
  assumes "receipt_of sel cfg (WithdrawalEvent n recipient amount) r" and "0 \<le> recipient" and "0 \<le> amount"
    and "of_base 16 (norm_hex expected) \<notin> {Some recipient, Some (amount mod 2 ^ 128), Some (amount div 2 ^ 128)}"
  shows "verifyWithdrawalEvent cfg (Inr r) expected = Inr False"
proof -
  have "0 \<le> amount mod 2 ^ 128" "0 \<le> amount div 2 ^ 128" using assms(3) by (simp_all add: pos_imp_zdiv_nonneg_iff)
  then have "norm_hex expected \<noteq> norm_hex (felt_hex recipient)" "norm_hex expected \<noteq> norm_hex (felt_hex (amount mod 2 ^ 128))"
    "norm_hex expected \<noteq> norm_hex (felt_hex (amount div 2 ^ 128))"
    using norm_hex_differs [of recipient expected] norm_hex_differs [of "amount mod 2 ^ 128" expected]
      norm_hex_differs [of "amount div 2 ^ 128" expected] assms(2,4) by blast+
  then show ?thesis
    using assms(1) by (auto simp: verifyWithdrawalEvent_def receipt_of_def list_ex_filter)
qed

section \<open>A concrete block\<close>

text \<open>A block of two transactions, the second of which pays the covenant of \<open>demo_world\<close>, with a toy hash.\<close>

definition pad32 :: "buffer \<Rightarrow> buffer" where
  "pad32 bs = take 32 (bs @ replicate 32 0)"

definition covenant_tx :: btx where
  "covenant_tx = demo_tx\<lparr>bx_outs := [\<lparr>sats = 500, script_pub = [0, 20, 2]\<rparr>, \<lparr>sats = 10000, script_pub = 0x51 # 0x20 # replicate 32 0\<rparr>]\<rparr>"

definition demo_leaves :: "buffer list" where
  "demo_leaves = [replicate 32 7, dsha pad32 (ser_legacy covenant_tx)]"

definition demo_header :: buffer where
  "demo_header = replicate 36 0 @ replicate 32 7 @ replicate 12 0"

definition demo_chain :: world where
  "demo_chain = demo_world\<lparr>w_headers := \<lparr>hs_relayer = 1, merkle_w = (\<lambda>k _. be_words (replicate 32 7) ! k), hs_stored = (\<lambda>h. h = 9), latest_height = 9\<rparr>\<rparr>"

lemma digest32_pad32: "digest32 pad32"
  by (auto simp: digest32_def pad32_def)

lemma demo_tapkey: "vault_tapkey (w_vault demo_chain) = replicate 32 0"
proof -
  have "concat (map word_bytes (replicate 8 0)) = replicate 32 0" by code_simp
  then show ?thesis by (simp add: vault_tapkey_def demo_chain_def demo_world_def vault_constructor_def)
qed

lemma covenant_tx_ok: "wf_tx covenant_tx" "length (ser_legacy covenant_tx) < 2 ^ 32"
  by (simp_all add: covenant_tx_def wf_tx_def demo_tx_def wf_in_def wf_out_def wf_stack_def small_def ser_legacy_def ser_body_def
      ser_in_def ser_out_def vi_def)

lemma demo_leaf: "length (dsha pad32 bs) = 32"
  using digest32_pad32 by (simp add: dsha_def digest32_def)

lemma demo_leaves_at: "length demo_leaves = 2" "demo_leaves ! Suc 0 = dsha pad32 (ser_legacy covenant_tx)"
  by (simp_all add: demo_leaves_def)

lemma demo_tail: "zero_tail (ser_legacy covenant_tx)"
  by (simp add: zero_tail_def ser_legacy_def ser_body_def ser_in_def ser_out_def vi_def covenant_tx_def demo_tx_def)

lemma demo_tree:
  "merkle_path (node_hash pad32) demo_leaves (Suc 0) = [replicate 32 7]" "merkle_root_of (node_hash pad32) demo_leaves = replicate 32 7"
  "merkle_depth demo_leaves = 1" "tree_pairs (node_hash pad32) demo_leaves = [(replicate 32 7, dsha pad32 (ser_legacy covenant_tx))]"
proof -
  have "node_hash pad32 (replicate 32 7) b = replicate 32 7" for b
    by (simp add: node_hash_def dsha_def pad32_def)
  then show "merkle_root_of (node_hash pad32) demo_leaves = replicate 32 7"
    by (simp add: demo_leaves_def merkle_root_of.simps)
qed (simp_all add: demo_leaves_def merkle_path.simps merkle_depth.simps tree_pairs.simps sibling_def)

lemma demo_block: "block_ok pad32 demo_header demo_leaves" "holds_header (w_headers demo_chain) 9 demo_header"
proof -
  have s: "slice 36 68 demo_header = replicate 32 7"
    using slice_append2 [of "replicate 36 0" 36 "replicate 32 7" "replicate 12 0"] by (simp add: demo_header_def)
  then show "block_ok pad32 demo_header demo_leaves"
    using demo_tree(2) by (simp add: block_ok_def demo_header_def demo_leaves_def demo_leaf)
  have "length (be_words (replicate 32 7)) = 8" by (rule list32) simp
  then have "map (\<lambda>k. be_words (replicate 32 7) ! k) [0..<8] = be_words (replicate 32 7)" by (metis map_nth)
  then show "holds_header (w_headers demo_chain) 9 demo_header"
    by (simp add: holds_header_def demo_chain_def s)
qed

definition demo_electrum :: explorer where
  "demo_electrum = \<lparr>ex_merkle = (\<lambda>_. Inr \<lparr>block_height = 9, pos = 1, merkle = [hex_encode (rev (replicate 32 7))]\<rparr>),
     ex_hex = (\<lambda>_. Inr (hex_encode (ser_segwit covenant_tx)))\<rparr>"

definition demo_args :: deposit_args where
  "demo_args = \<lparr>da_commitment = 12, da_height = 9, da_pos = 1, da_raw_tx = ser_legacy covenant_tx, da_vout = 1,
     da_proof = [be_words (replicate 32 7)]\<rparr>"

lemma demo_parse: "parse_output (ser_legacy covenant_tx) 1 = Inr (10000, 0x51 # 0x20 # replicate 32 0)"
proof -
  have "bx_outs covenant_tx = [\<lparr>sats = 500, script_pub = [0, 20, 2]\<rparr>, \<lparr>sats = 10000, script_pub = 0x51 # 0x20 # replicate 32 0\<rparr>]"
    by (simp add: covenant_tx_def)
  moreover have "serialization covenant_tx (ser_legacy covenant_tx)" by (simp add: serialization_def)
  ultimately show ?thesis using parse_output_ser [OF covenant_tx_ok(1) _ covenant_tx_ok(2), of 1] by simp
qed

lemma demo_deposit:
  "\<exists>w' es. vault_deposit pad32 demo_args demo_chain = Inr (w', es, DepositEvent 12 10000 9)" "deposit_sats demo_args = 10000"
proof -
  have tid: "double_sha256 pad32 (ser_legacy covenant_tx) = be_words (dsha pad32 (ser_legacy covenant_tx))"
    using double_sha256_eq [OF digest32_pad32] demo_tail hashed_bytes_same by metis
  have c: "climb (node_hash pad32) (dsha pad32 (ser_legacy covenant_tx)) 1 [replicate 32 7] = merkle_root_of (node_hash pad32) demo_leaves"
    using climb_path [of 1 demo_leaves "node_hash pad32"] by (simp add: demo_leaves_at demo_tree)
  have "verify_merkle_proof pad32 (double_sha256 pad32 (da_raw_tx demo_args)) (da_proof demo_args) (da_pos demo_args)
       (map (\<lambda>k. merkle_w (w_headers demo_chain) k (da_height demo_args)) [0..<8])"
    using vault_merkle_check [OF digest32_pad32 demo_block, of "[replicate 32 7]" "dsha pad32 (ser_legacy covenant_tx)" 1] c
    by (simp add: demo_args_def tid demo_leaf)
  moreover have "parse_output (da_raw_tx demo_args) (da_vout demo_args) = Inr (10000, 0x51 # 0x20 # replicate 32 0)"
    using demo_parse by (simp add: demo_args_def)
  moreover have "script_matches_p2tr (0x51 # 0x20 # replicate 32 0) (vault_tapkey (w_vault demo_chain)) = Inr True"
    using script_matches_p2tr_eq by (simp add: demo_tapkey)
  moreover have "token_ok (w_token demo_chain)" "total_supply (w_token demo_chain) = 10"
    using demo_reserve(1) by (simp_all add: demo_chain_def reserve_ok_def, simp add: demo_world_def)
  moreover have "\<not> vc_commitments (w_vault demo_chain) (da_commitment demo_args)" "\<not> spent_txids (w_vault demo_chain) k"
    "hs_stored (w_headers demo_chain) (da_height demo_args)" "header_store_at (w_vault demo_chain) = headers_at demo_chain"
    "btc_token (w_vault demo_chain) = token_at demo_chain" "vault_at demo_chain \<noteq> 0" for k
    by (simp_all add: demo_chain_def demo_world_def vault_constructor_def demo_args_def)
  ultimately show "\<exists>w' es. vault_deposit pad32 demo_args demo_chain = Inr (w', es, DepositEvent 12 10000 9)"
    using vault_deposit_accepts [of demo_chain demo_args pad32 10000] by (auto simp: demo_args_def)
  show "deposit_sats demo_args = 10000" using demo_parse by (simp add: deposit_sats_def demo_args_def)
qed

text \<open>
  The honest proof: for a transaction of a relayed block and an explorer that answers with it, the backend builds a proof, and its
  calldata is read as the transaction's legacy serialization with the path of its leaf.
\<close>

lemma honest_proof:
  assumes sha: "digest32 sha" and tx: "wf_tx t" "serialization t raw" "length (ser_legacy t) < 2 ^ 32"
    and out: "i < length (bx_outs t)" "\<forall>j < i. script_pub (bx_outs t ! j) \<noteq> script_pub (bx_outs t ! i)"
    and block: "block_ok sha header leaves" "n < length leaves" "0 \<le> h" "h < 2 ^ 64" "n < 2 ^ 64"
    and ex: "ex_hex ex tid = Inr (hex_encode raw)"
      "ex_merkle ex tid = Inr \<lparr>block_height = h, pos = int n, merkle = map (\<lambda>s. hex_encode (rev s)) (merkle_path (node_hash sha) leaves n)\<rparr>"
    and cm: "big_int cm = Some c"
  shows "\<exists>p. buildSpvProof ex tid (hex_encode (script_pub (bx_outs t ! i))) = Inr p
     \<and> deposit_args_of (spv_calldata (params_of_proof cm p)) = Some \<lparr>da_commitment = c, da_height = h, da_pos = int n,
          da_raw_tx = ser_legacy t, da_vout = i, da_proof = map be_words (merkle_path (node_hash sha) leaves n)\<rparr>"
proof -
  have l32: "list_all (\<lambda>s. length s = 32) (merkle_path (node_hash sha) leaves n)"
    using list_all_merkle_path [OF sha _ block(2)] block(1) by (simp add: block_ok_def)
  have "length (bx_outs t) \<le> length (ser_legacy t)"
    using length_outs [of "bx_outs t"] by (simp add: ser_legacy_def ser_body_def)
  then have i: "i < 2 ^ 32" using out(1) tx(3) by linarith
  show ?thesis
    using buildSpvProof_ser [OF tx(1,2) ex _ l32 out(1) refl out(2)] deposit_args_of_proof [OF block(3,4) _ _ i l32 cm] block(5)
    by simp
qed

section \<open>Properties\<close>

text \<open>
  C3. An honest deposit is minted, from the explorer to the token: for a well-formed transaction of a block
  whose header was relayed, an explorer that answers with the transaction and its Merkle path, and
  an output that pays the covenant, the backend, when the contract hashes the transaction correctly (the bytes beyond
  the last whole word are zero, as with a length divisible by four or lock time 0), builds a proof whose calldata the vault accepts. The vault
  then holds exactly \<open>10 ^ 10\<close> units more for each satoshi of that output.
\<close>

theorem spv_deposit_mints:
  assumes sha: "digest32 sha" and tx: "wf_tx t" "serialization t raw" "length (ser_legacy t) < 2 ^ 32"
    and out: "i < length (bx_outs t)" "script_pub (bx_outs t ! i) = 0x51 # 0x20 # vault_tapkey (w_vault w)"
      "\<forall>j < i. script_pub (bx_outs t ! j) \<noteq> script_pub (bx_outs t ! i)" "0 < sats (bx_outs t ! i)"
    and tail: "zero_tail (ser_legacy t)"
    and block: "block_ok sha header leaves" "holds_header (w_headers w) h header" "n < length leaves"
      "leaves ! n = dsha sha (ser_legacy t)" "0 \<le> h" "h < 2 ^ 64" "n < 2 ^ 64"
    and ex: "ex_hex ex tid = Inr (hex_encode raw)"
      "ex_merkle ex tid = Inr \<lparr>block_height = h, pos = int n, merkle = map (\<lambda>s. hex_encode (rev s)) (merkle_path (node_hash sha) leaves n)\<rparr>"
    and w: "token_ok (w_token w)" "header_store_at (w_vault w) = headers_at w" "btc_token (w_vault w) = token_at w"
      "vault_at w \<noteq> 0" "length (tapkey_words (w_vault w)) = 8" "total_supply (w_token w) + sats (bx_outs t ! i) * 10 ^ 10 < 2 ^ 256"
    and fresh: "big_int cm = Some c" "\<not> vc_commitments (w_vault w) c"
      "\<not> spent_txids (w_vault w) (txid_key (be_words (dsha sha (ser_legacy t))))"
  shows "\<exists>p w' es. buildSpvProof ex tid (hex_encode (script_pub (bx_outs t ! i))) = Inr p
     \<and> send_deposit sha (spv_calldata (params_of_proof cm p)) w = Inr (w', es, DepositEvent c (sats (bx_outs t ! i)) h)
     \<and> reserve w' = reserve w + sats (bx_outs t ! i) * 10 ^ 10"
proof -
  let ?path = "merkle_path (node_hash sha) leaves n" and ?a = "sats (bx_outs t ! i)" and ?bs = "ser_legacy t"
  have l32: "list_all (\<lambda>s. length s = 32) ?path"
    using list_all_merkle_path [OF sha _ block(3)] block(1) by (simp add: block_ok_def)
  define a where "a = \<lparr>da_commitment = c, da_height = h, da_pos = int n, da_raw_tx = ?bs, da_vout = i, da_proof = map be_words ?path\<rparr>"
  obtain p where p: "buildSpvProof ex tid (hex_encode (script_pub (bx_outs t ! i))) = Inr p"
      "deposit_args_of (spv_calldata (params_of_proof cm p)) = Some a"
    using honest_proof [OF sha tx out(1,3) block(1,3,5-7) ex fresh(1)] by (auto simp: a_def)
  have leg: "serialization t ?bs" by (simp add: serialization_def)
  have po: "parse_output (da_raw_tx a) (da_vout a) = Inr (?a, script_pub (bx_outs t ! i))"
    using parse_output_ser [OF tx(1) leg tx(3) out(1)] by (simp add: a_def)
  have tid: "double_sha256 sha ?bs = be_words (dsha sha ?bs)"
    using double_sha256_eq [OF sha] tail hashed_bytes_same by metis
  have d32: "length (dsha sha ?bs) = 32" using sha by (simp add: dsha_def digest32_def)
  have "climb (node_hash sha) (dsha sha ?bs) n ?path = merkle_root_of (node_hash sha) leaves"
    using climb_path [OF block(3), of "node_hash sha"] block(4) by simp
  then have mk: "verify_merkle_proof sha (double_sha256 sha (da_raw_tx a)) (da_proof a) (da_pos a)
       (map (\<lambda>k. merkle_w (w_headers w) k (da_height a)) [0..<8])"
    using vault_merkle_check [OF sha block(1,2) l32 d32, of n] tid by (simp add: a_def)
  have a64: "?a < 2 ^ 64" using tx(1) out(1) by (force simp: wf_tx_def list_all_length wf_out_def)
  have sc: "script_matches_p2tr (script_pub (bx_outs t ! i)) (vault_tapkey (w_vault w)) = Inr True"
    using script_matches_p2tr_eq [of "vault_tapkey (w_vault w)"] out(2) w(5) by (simp add: length_vault_tapkey)
  have st: "hs_stored (w_headers w) (da_height a)" using block(2) by (simp add: holds_header_def a_def)
  have fr: "\<not> vc_commitments (w_vault w) (da_commitment a)" "\<not> spent_txids (w_vault w) (deposit_key sha a)"
    using fresh(2,3) tid by (simp_all add: a_def deposit_key_def)
  obtain w' es where "vault_deposit sha a w = Inr (w', es, DepositEvent c ?a h)" "reserve w' = reserve w + ?a * 10 ^ 10"
    using vault_deposit_accepts [OF fr st w(2-4) mk po out(4) a64 sc w(1,6)] by (auto simp: a_def)
  then show ?thesis using p by (auto simp: send_deposit_def)
qed

theorem spv_deposit_mints_witness:
  "\<exists>p w' es. buildSpvProof demo_electrum ''ab'' (hex_encode (0x51 # 0x20 # replicate 32 0)) = Inr p
     \<and> send_deposit pad32 (spv_calldata (params_of_proof ''0xc'' p)) demo_chain = Inr (w', es, DepositEvent 12 10000 9)
     \<and> reserve w' = 10 + 10000 * 10 ^ 10"
proof -
  have o: "bx_outs covenant_tx = [\<lparr>sats = 500, script_pub = [0, 20, 2]\<rparr>, \<lparr>sats = 10000, script_pub = 0x51 # 0x20 # replicate 32 0\<rparr>]"
    by (simp add: covenant_tx_def)
  have cm: "big_int ''0xc'' = Some 12" by code_simp
  have r: "reserve demo_chain = 10" "token_ok (w_token demo_chain)"
    using demo_reserve by (simp_all add: demo_chain_def reserve_def reserve_ok_def)
  have "\<exists>p w' es. buildSpvProof demo_electrum ''ab'' (hex_encode (script_pub (bx_outs covenant_tx ! 1))) = Inr p
     \<and> send_deposit pad32 (spv_calldata (params_of_proof ''0xc'' p)) demo_chain = Inr (w', es, DepositEvent 12 (sats (bx_outs covenant_tx ! 1)) 9)
     \<and> reserve w' = reserve demo_chain + sats (bx_outs covenant_tx ! 1) * 10 ^ 10"
    by (rule spv_deposit_mints [OF digest32_pad32 covenant_tx_ok(1) _ covenant_tx_ok(2) _ _ _ _ demo_tail demo_block,
          where raw = "ser_segwit covenant_tx" and i = 1 and n = 1])
       (simp_all add: o cm r demo_tapkey serialization_def demo_electrum_def demo_tree demo_leaves_at,
        simp_all add: demo_chain_def demo_world_def vault_constructor_def empty_token_def)
  then show ?thesis using o r by simp
qed

text \<open>
  C37. An honest deposit is refused, however well it is paid and proved, when the contract does not hash the transaction
  correctly: its length is not divisible by four, and the bytes beyond the last whole word (of the lock time) are not all
  zero. The backend builds the same proof as ever; the vault panics, unless hashes collide.
\<close>

theorem spv_deposit_refused:
  assumes sha: "digest32 sha" and tx: "wf_tx t" "serialization t raw" "length (ser_legacy t) < 2 ^ 32"
    and out: "i < length (bx_outs t)" "\<forall>j < i. script_pub (bx_outs t ! j) \<noteq> script_pub (bx_outs t ! i)"
    and tail: "\<not> zero_tail (ser_legacy t)"
    and block: "block_ok sha header leaves" "holds_header (w_headers w) h header" "n < length leaves"
      "leaves ! n = dsha sha (ser_legacy t)" "0 \<le> h" "h < 2 ^ 64" "n < 2 ^ 64"
    and ex: "ex_hex ex tid = Inr (hex_encode raw)"
      "ex_merkle ex tid = Inr \<lparr>block_height = h, pos = int n, merkle = map (\<lambda>s. hex_encode (rev s)) (merkle_path (node_hash sha) leaves n)\<rparr>"
    and cm: "big_int cm = Some c"
    and inj: "inj_on (dsha sha) {ser_legacy t, hashed_bytes (ser_legacy t)}"
      "inj_on (\<lambda>(x, y). node_hash sha x y)
        (set (climb_pairs (node_hash sha) (dsha sha (hashed_bytes (ser_legacy t))) n (merkle_path (node_hash sha) leaves n))
          \<union> set (climb_pairs (node_hash sha) (dsha sha (ser_legacy t)) n (merkle_path (node_hash sha) leaves n)))"
  shows "length (ser_legacy t) mod 4 \<noteq> 0
     \<and> (\<exists>p. buildSpvProof ex tid (hex_encode (script_pub (bx_outs t ! i))) = Inr p
          \<and> \<not> is_ok (send_deposit sha (spv_calldata (params_of_proof cm p)) w))"
proof -
  let ?path = "merkle_path (node_hash sha) leaves n" and ?bs = "ser_legacy t"
  define a where "a = \<lparr>da_commitment = c, da_height = h, da_pos = int n, da_raw_tx = ?bs, da_vout = i, da_proof = map be_words ?path\<rparr>"
  obtain p where p: "buildSpvProof ex tid (hex_encode (script_pub (bx_outs t ! i))) = Inr p"
      "deposit_args_of (spv_calldata (params_of_proof cm p)) = Some a"
    using honest_proof [OF sha tx out block(1,3,5-7) ex cm] by (auto simp: a_def)
  have l32: "list_all (\<lambda>s. length s = 32) ?path"
    using list_all_merkle_path [OF sha _ block(3)] block(1) by (simp add: block_ok_def)
  have d32: "length (dsha sha (hashed_bytes ?bs)) = 32" using sha by (simp add: dsha_def digest32_def)
  have "dsha sha (hashed_bytes ?bs) \<noteq> dsha sha ?bs" using inj(1) tail hashed_bytes_same by (force simp: inj_on_def)
  moreover have "climb (node_hash sha) (dsha sha ?bs) n ?path = merkle_root_of (node_hash sha) leaves"
    using climb_path [OF block(3), of "node_hash sha"] block(4) by simp
  ultimately have "climb (node_hash sha) (dsha sha (hashed_bytes ?bs)) n ?path \<noteq> merkle_root_of (node_hash sha) leaves"
    using climb_inject [OF _ inj(2)] by metis
  then have "\<not> verify_merkle_proof sha (double_sha256 sha ?bs) (map be_words ?path) (int n) (map (\<lambda>k. merkle_w (w_headers w) k h) [0..<8])"
    using vault_merkle_check [OF sha block(1,2) l32 d32] by (simp add: double_sha256_eq [OF sha])
  then have "\<not> is_ok (vault_deposit sha a w)"
    using vault_depositD(4) [of sha a w] by (cases "vault_deposit sha a w") (auto simp: a_def)
  moreover have "length ?bs mod 4 \<noteq> 0" using tail zero_tail_aligned by blast
  ultimately show ?thesis using p by (auto simp: send_deposit_def)
qed

text \<open>A toy hash of the end of a buffer, and a block of one transaction with a lock time.\<close>

definition end32 :: "buffer \<Rightarrow> buffer" where
  "end32 bs = drop (length bs) (replicate 32 0 @ bs)"

definition late_tx :: btx where
  "late_tx = covenant_tx\<lparr>bx_locktime := [0, 0, 4, 0]\<rparr>"

definition late_leaf :: buffer where
  "late_leaf = dsha end32 (ser_legacy late_tx)"

definition late_chain :: world where
  "late_chain = demo_world\<lparr>w_headers := \<lparr>hs_relayer = 1, merkle_w = (\<lambda>k _. be_words late_leaf ! k), hs_stored = (\<lambda>h. h = 9), latest_height = 9\<rparr>\<rparr>"

lemma late_tx_ok: "wf_tx late_tx" "length (ser_legacy late_tx) < 2 ^ 32" "\<not> zero_tail (ser_legacy late_tx)"
  using covenant_tx_ok(1)
  by (simp_all add: late_tx_def covenant_tx_def wf_tx_def demo_tx_def wf_in_def wf_out_def small_def ser_legacy_def ser_body_def
      ser_in_def ser_out_def vi_def zero_tail_def)

lemma end32_ok: "digest32 end32" "length late_leaf = 32"
proof -
  have "32 - n + n - (n - 32) = 32" for n :: nat by (cases "n \<le> 32") auto
  then show "digest32 end32" "length late_leaf = 32" by (simp_all add: digest32_def end32_def late_leaf_def dsha_def)
qed

lemma late_hashes: "dsha end32 (hashed_bytes (ser_legacy late_tx)) \<noteq> late_leaf"
proof -
  have "replicate 2 (0 :: byte) = [0, 0]" by (simp add: numeral_2_eq_2)
  then show ?thesis
    by (simp add: late_leaf_def dsha_def end32_def hashed_bytes_def hashed_tail_def late_tx_def covenant_tx_def demo_tx_def
        ser_legacy_def ser_body_def ser_in_def ser_out_def vi_def)
qed

lemma late_block:
  "block_ok end32 (replicate 36 0 @ late_leaf @ replicate 12 0) [late_leaf]"
  "holds_header (w_headers late_chain) 9 (replicate 36 0 @ late_leaf @ replicate 12 0)"
proof -
  have s: "slice 36 68 (replicate 36 0 @ late_leaf @ replicate 12 0) = late_leaf"
    using slice_append2 [of "replicate 36 0" 36 late_leaf "replicate 12 0"] end32_ok by simp
  then show "block_ok end32 (replicate 36 0 @ late_leaf @ replicate 12 0) [late_leaf]"
    using end32_ok by (simp add: block_ok_def merkle_root_of.simps)
  have "length (be_words late_leaf) = 8" by (rule list32) (rule end32_ok)
  then have "map (\<lambda>k. be_words late_leaf ! k) [0..<8] = be_words late_leaf" by (metis map_nth)
  then show "holds_header (w_headers late_chain) 9 (replicate 36 0 @ late_leaf @ replicate 12 0)"
    by (simp add: holds_header_def late_chain_def s)
qed

theorem spv_deposit_refused_witness:
  "\<exists>p. buildSpvProof \<lparr>ex_merkle = (\<lambda>_. Inr \<lparr>block_height = 9, pos = 0, merkle = []\<rparr>),
         ex_hex = (\<lambda>_. Inr (hex_encode (ser_segwit late_tx)))\<rparr> ''ab'' (hex_encode (script_pub (bx_outs late_tx ! 1))) = Inr p
     \<and> \<not> is_ok (send_deposit end32 (spv_calldata (params_of_proof ''0xc'' p)) late_chain)"
proof -
  have cm: "big_int ''0xc'' = Some 12" by code_simp
  have o: "bx_outs late_tx = [\<lparr>sats = 500, script_pub = [0, 20, 2]\<rparr>, \<lparr>sats = 10000, script_pub = 0x51 # 0x20 # replicate 32 0\<rparr>]"
    by (simp add: late_tx_def covenant_tx_def)
  have inj: "inj_on (dsha end32) {ser_legacy late_tx, hashed_bytes (ser_legacy late_tx)}"
    using late_hashes by (auto simp: late_leaf_def inj_on_def)
  have "length (ser_legacy late_tx) mod 4 \<noteq> 0
     \<and> (\<exists>p. buildSpvProof \<lparr>ex_merkle = (\<lambda>_. Inr \<lparr>block_height = 9, pos = 0, merkle = []\<rparr>),
         ex_hex = (\<lambda>_. Inr (hex_encode (ser_segwit late_tx)))\<rparr> ''ab'' (hex_encode (script_pub (bx_outs late_tx ! 1))) = Inr p
     \<and> \<not> is_ok (send_deposit end32 (spv_calldata (params_of_proof ''0xc'' p)) late_chain))"
    by (rule spv_deposit_refused [OF end32_ok(1) late_tx_ok(1) _ late_tx_ok(2) _ _ late_tx_ok(3) late_block,
          where raw = "ser_segwit late_tx" and n = 0, OF _ _ _ _ _ _ _ _ _ _ cm inj])
       (simp_all add: o serialization_def merkle_path.simps late_leaf_def)
  then show ?thesis by blast
qed

text \<open>
  C4. Nothing is minted without a Bitcoin payment: when a deposit succeeds at a height whose relayed
  header is that of a block, with as many siblings as the block's tree has levels, then, unless two
  pairs of nodes collide, the hash of the bytes that the contract hashes is that of a transaction of the block; these
  are the caller's bytes up to the last three; and the amount minted is what an output pays to the covenant, an
  output of that transaction, when the hashed bytes are one. (With fewer siblings an inner node is accepted:
  \<open>inner_node_accepted\<close>.)
\<close>

theorem minted_only_if_paid:
  assumes sha: "digest32 sha" and block: "block_ok sha header leaves" "holds_header (w_headers w) (da_height a) header"
    and dep: "vault_deposit sha a w = Inr (w', es, e)"
    and pf: "da_proof a = map be_words ss" "list_all (\<lambda>s. length s = 32) ss" "length ss = merkle_depth leaves" "da_pos a = int n"
    and key: "length (tapkey_words (w_vault w)) = 8"
    and inj: "inj_on (\<lambda>(x, y). node_hash sha x y)
      (set (tree_pairs (node_hash sha) leaves) \<union> set (climb_pairs (node_hash sha) (dsha sha (hashed_bytes (da_raw_tx a))) n ss))"
  shows "dsha sha (hashed_bytes (da_raw_tx a)) \<in> set leaves
     \<and> take (length (da_raw_tx a) - 3) (hashed_bytes (da_raw_tx a)) = take (length (da_raw_tx a) - 3) (da_raw_tx a)
     \<and> parse_output (da_raw_tx a) (da_vout a) = Inr (deposit_sats a, 0x51 # 0x20 # vault_tapkey (w_vault w))
     \<and> (\<forall>t. wf_tx t \<and> serialization t (hashed_bytes (da_raw_tx a)) \<and> length (da_raw_tx a) < 2 ^ 32 \<longrightarrow>
          da_vout a < length (bx_outs t)
          \<and> bx_outs t ! da_vout a = \<lparr>sats = deposit_sats a, script_pub = 0x51 # 0x20 # vault_tapkey (w_vault w)\<rparr>)
     \<and> e = DepositEvent (da_commitment a) (deposit_sats a) (da_height a)
     \<and> reserve w' = reserve w + deposit_sats a * 10 ^ 10"
proof -
  let ?bs = "hashed_bytes (da_raw_tx a)"
  have d32: "length (dsha sha ?bs) = 32" using sha by (simp add: dsha_def digest32_def)
  have "climb (node_hash sha) (dsha sha ?bs) n ss = merkle_root_of (node_hash sha) leaves"
    using vault_depositD(4) [OF dep] vault_merkle_check [OF sha block pf(2) d32] pf(1,4)
    by (simp add: double_sha256_eq [OF sha])
  then have "dsha sha ?bs \<in> set leaves"
    using climb_only_leaves [OF _ pf(3) _ inj] block(1) by (simp add: block_ok_def)
  moreover obtain script where "parse_output (da_raw_tx a) (da_vout a) = Inr (deposit_sats a, script)"
    "script_matches_p2tr script (vault_tapkey (w_vault w)) = Inr True"
    using vault_depositD(5) [OF dep] by blast
  then have po: "parse_output (da_raw_tx a) (da_vout a) = Inr (deposit_sats a, 0x51 # 0x20 # vault_tapkey (w_vault w))"
    using script_matches_p2tr_eq [of "vault_tapkey (w_vault w)" script] key by (simp add: length_vault_tapkey)
  moreover have "da_vout a < length (bx_outs t)
       \<and> bx_outs t ! da_vout a = \<lparr>sats = deposit_sats a, script_pub = 0x51 # 0x20 # vault_tapkey (w_vault w)\<rparr>"
    if "wf_tx t" "serialization t ?bs" "length (da_raw_tx a) < 2 ^ 32" for t
    using parse_output_hashed [OF that, of "da_vout a"] po
    by (cases "bx_outs t ! da_vout a") (auto simp: panic_def split: if_splits)
  moreover have "reserve w' = reserve w + deposit_sats a * 10 ^ 10"
    using vault_depositD(7) [OF dep] token_mint_spec by (fastforce simp: reserve_def)
  ultimately show ?thesis
    using vault_depositD(8) [OF dep] take_hashed_bytes by blast
qed

theorem minted_only_if_paid_witness:
  "\<exists>w' es e. vault_deposit pad32 demo_args demo_chain = Inr (w', es, e) \<and> dsha pad32 (da_raw_tx demo_args) \<in> set demo_leaves
     \<and> bx_outs covenant_tx ! da_vout demo_args = \<lparr>sats = 10000, script_pub = 0x51 # 0x20 # replicate 32 0\<rparr>
     \<and> reserve w' = reserve demo_chain + 10000 * 10 ^ 10"
proof -
  obtain w' es e where d: "vault_deposit pad32 demo_args demo_chain = Inr (w', es, e)" using demo_deposit(1) by blast
  have h: "hashed_bytes (ser_legacy covenant_tx) = ser_legacy covenant_tx" using demo_tail by (simp add: hashed_bytes_same)
  have "dsha pad32 (hashed_bytes (da_raw_tx demo_args)) \<in> set demo_leaves
     \<and> take (length (da_raw_tx demo_args) - 3) (hashed_bytes (da_raw_tx demo_args)) = take (length (da_raw_tx demo_args) - 3) (da_raw_tx demo_args)
     \<and> parse_output (da_raw_tx demo_args) (da_vout demo_args) = Inr (deposit_sats demo_args, 0x51 # 0x20 # vault_tapkey (w_vault demo_chain))
     \<and> (\<forall>t. wf_tx t \<and> serialization t (hashed_bytes (da_raw_tx demo_args)) \<and> length (da_raw_tx demo_args) < 2 ^ 32 \<longrightarrow>
          da_vout demo_args < length (bx_outs t)
          \<and> bx_outs t ! da_vout demo_args = \<lparr>sats = deposit_sats demo_args, script_pub = 0x51 # 0x20 # vault_tapkey (w_vault demo_chain)\<rparr>)
     \<and> e = DepositEvent (da_commitment demo_args) (deposit_sats demo_args) (da_height demo_args)
     \<and> reserve w' = reserve demo_chain + deposit_sats demo_args * 10 ^ 10"
    by (rule minted_only_if_paid [OF digest32_pad32 demo_block(1) _ d, where ss = "[replicate 32 7]" and n = 1])
       (use demo_block(2) in \<open>simp_all add: demo_args_def demo_tree demo_chain_def demo_world_def vault_constructor_def h\<close>)
  moreover have "da_raw_tx demo_args = ser_legacy covenant_tx" by (simp add: demo_args_def)
  moreover have "serialization covenant_tx (ser_legacy covenant_tx)" by (simp add: serialization_def)
  ultimately show ?thesis using d demo_deposit(2) h covenant_tx_ok demo_tapkey by auto
qed

lemma inner_node_accepted:
  assumes "digest32 sha" and "block_ok sha header leaves" and "holds_header hs h header" and "2 * k + 1 < length leaves"
  defines "inner \<equiv> leaves ! (2 * k) @ leaves ! (2 * k + 1)"
  shows "length inner = 64 \<and> verify_merkle_proof sha (double_sha256 sha inner)
     (map be_words (merkle_path (node_hash sha) (level_up (node_hash sha) leaves) k)) (int k) (map (\<lambda>j. merkle_w hs j h) [0..<8])"
proof -
  let ?l = "level_up (node_hash sha) leaves"
  have k: "k < length ?l" using assms(4) by simp
  have n: "?l ! k = dsha sha inner"
    using nth_level_up [of "2 * k" leaves "node_hash sha"] assms(4) by (simp add: sibling_def node_hash_def inner_def)
  have l32: "list_all (\<lambda>s. length s = 32) (merkle_path (node_hash sha) ?l k)"
    by (rule list_all_merkle_path [OF assms(1) list_all_level_up [OF assms(1)] k])
  have "climb (node_hash sha) (dsha sha inner) k (merkle_path (node_hash sha) ?l k) = merkle_root_of (node_hash sha) leaves"
    using climb_path [OF k, of "node_hash sha"] assms(4) by (simp add: n merkle_root_of.simps [of _ leaves])
  moreover have "length (dsha sha inner) = 32" using assms(1) by (simp add: dsha_def digest32_def)
  moreover have i64: "length inner = 64" using assms(2,4) by (simp add: inner_def block_ok_def list_all_length)
  ultimately have "verify_merkle_proof sha (double_sha256 sha inner)
     (map be_words (merkle_path (node_hash sha) ?l k)) (int k) (map (\<lambda>j. merkle_w hs j h) [0..<8])"
    using vault_merkle_check [OF assms(1-3) l32, of "dsha sha inner" k] by (simp add: double_sha256_eq [OF assms(1)])
  then show ?thesis using i64 by blast
qed

text \<open>
  C8. A deposit that the vault has accepted can never be confirmed: \<open>confirm-deposit\<close> looks for the commitment in the
  first data element of the vault's event, where the contract has the amount; the commitment is
  a key. So the answer is an error and the vault stays pending, unless the commitment, read as a number, happens to be the amount.
\<close>

theorem accepted_deposit_unconfirmed:
  assumes "vault_deposit sha a w = Inr (w', es, e)" and "receipt_of sel cfg e r"
    and "\<And>v. row_by v_id vid (vaults d) = Some v \<Longrightarrow> of_base 16 (norm_hex (v_commitment v)) \<noteq> Some (deposit_sats a)"
    and "confirmDeposit cfg uuid now waited (Inr r) ts vid h d = (resp, d')"
  shows "code resp \<noteq> 200 \<and> d' = d"
proof -
  have rc: "receipt_of sel cfg (DepositEvent (da_commitment a) (deposit_sats a) (da_height a)) r" "0 \<le> deposit_sats a"
    using assms(2) vault_depositD(6,8) [OF assms(1)] by simp_all
  have fail: "code (confirm_failed h e) \<noteq> 200" for e by (cases e) (simp_all add: confirm_failed_def)
  show ?thesis
  proof (cases "confirm_start vid d")
    case (Inl x)
    then show ?thesis using assms(4) by (auto simp: confirmDeposit_def confirm_start_def fail_with_def split: option.splits if_splits)
  next
    case (Inr v)
    then have "row_by v_id vid (vaults d) = Some v" by (auto simp: confirm_start_def split: option.splits if_splits)
    then have "verifyDepositEvent cfg (Inr r) (v_commitment v) ts = Inl (CommitmentMismatchError (v_commitment v) (felt_hex (deposit_sats a)))"
      using deposit_event_mismatch [OF rc] assms(3) by blast
    then show ?thesis using assms(4) Inr fail by (cases waited) (auto simp: confirmDeposit_def confirm_finish_def)
  qed
qed

theorem accepted_deposit_unconfirmed_witness:
  "\<exists>resp. confirmDeposit demo_cfg_sn ''t'' 5 (Inr demo_deposit_receipt)
       (Inr (demo_deposit_receipt\<lparr>rc_events := [log_event (\<lambda>_. 1) (vault_address demo_cfg_sn) (DepositEvent 12 10000 9)]\<rparr>))
       (Some 3) ''v'' ''0x55'' demo_pending_db = (resp, demo_pending_db) \<and> code resp \<noteq> 200"
proof -
  let ?r = "demo_deposit_receipt\<lparr>rc_events := [log_event (\<lambda>_. 1) (vault_address demo_cfg_sn) (DepositEvent 12 10000 9)]\<rparr>"
  obtain w' es where d: "vault_deposit pad32 demo_args demo_chain = Inr (w', es, DepositEvent 12 10000 9)" using demo_deposit(1) by blast
  have r: "receipt_of (\<lambda>_. 1) demo_cfg_sn (DepositEvent 12 10000 9) ?r" by (simp add: receipt_of_def)
  obtain resp d' where c: "confirmDeposit demo_cfg_sn ''t'' 5 (Inr demo_deposit_receipt) (Inr ?r) (Some 3) ''v'' ''0x55'' demo_pending_db
      = (resp, d')" by fastforce
  have n: "of_base 16 (norm_hex ''0xc'') = Some 12" by code_simp
  have "of_base 16 (norm_hex (v_commitment v)) \<noteq> Some (deposit_sats demo_args)"
    if "row_by v_id ''v'' (vaults demo_pending_db) = Some v" for v
  proof -
    have "v_commitment v = ''0xc''" using that by (auto simp: demo_pending_db_def demo_vault_def row_by_def)
    then show ?thesis using n demo_deposit(2) by simp
  qed
  from accepted_deposit_unconfirmed [OF d r this c] show ?thesis using c by blast
qed

text \<open>
  In the same way a withdrawal that the vault has executed is never recorded by \<open>/api/withdraw/execute\<close>: the nullifier is a key of
  the event, and the backend looks for it among the data.
\<close>

theorem executed_withdrawal_unrecorded:
  assumes "vault_withdraw n proof recipient amount w = Inr (w', es, e)" and "receipt_of sel cfg e r"
    and "0 \<le> recipient" and "0 \<le> amount"
    and "\<And>tp. jwt token = TokenOk tp \<Longrightarrow> of_base 16 (norm_hex (tp_nullifierHash tp))
          \<notin> {Some recipient, Some (amount mod 2 ^ 128), Some (amount div 2 ^ 128)}"
    and "withdrawExecute jwt cfg uuid now waited (Inr r) vid token h d = (resp, d')"
  shows "code resp \<noteq> 200 \<and> d' = d"
proof -
  have rc: "receipt_of sel cfg (WithdrawalEvent n recipient amount) r" using assms(1,2) vault_withdrawD(4) by blast
  have fail: "code (execute_failed e) \<noteq> 200" for e by (cases e) (simp_all add: execute_failed_def)
  show ?thesis
  proof (cases "execute_start jwt vid token d")
    case (Inl x)
    then show ?thesis using assms(6)
      by (auto simp: withdrawExecute_def execute_start_def split: token_check.splits option.splits if_splits)
  next
    case (Inr y)
    obtain tp v where y: "y = (tp, v)" by (cases y)
    then have "jwt token = TokenOk tp" using Inr by (auto simp: execute_start_def split: token_check.splits option.splits if_splits)
    then have "verifyWithdrawalEvent cfg (Inr r) (tp_nullifierHash tp) = Inr False"
      using withdrawal_event_missed [OF rc assms(3,4)] assms(5) by blast
    then show ?thesis using assms(6) Inr y fail by (cases waited) (auto simp: withdrawExecute_def execute_finish_def)
  qed
qed

theorem executed_withdrawal_unrecorded_witness:
  "\<exists>resp. withdrawExecute (\<lambda>_. TokenOk \<lparr>tp_vaultId = ''v'', tp_commitment = ''0xc'', tp_nullifierHash = ''0x7'', tp_ownerAddress = ''0x1''\<rparr>)
       demo_cfg_sn ''t'' 5 (Inr demo_deposit_receipt)
       (Inr (demo_deposit_receipt\<lparr>rc_events := [log_event (\<lambda>_. 1) (vault_address demo_cfg_sn) (WithdrawalEvent 7 5 10)]\<rparr>))
       ''v'' ''token'' ''0x55'' demo_db = (resp, demo_db) \<and> code resp \<noteq> 200"
proof -
  let ?r = "demo_deposit_receipt\<lparr>rc_events := [log_event (\<lambda>_. 1) (vault_address demo_cfg_sn) (WithdrawalEvent 7 5 10)]\<rparr>"
    and ?jwt = "\<lambda>_ :: string. TokenOk \<lparr>tp_vaultId = ''v'', tp_commitment = ''0xc'', tp_nullifierHash = ''0x7'', tp_ownerAddress = ''0x1''\<rparr>"
  obtain w' es where d: "vault_withdraw 7 [0] 5 10 demo_world = Inr (w', es, WithdrawalEvent 7 5 10)"
    by (simp add: vault_withdraw_def demo_world_def vault_constructor_def call_token_def token_move_def empty_token_def
        u256_sub_def u256_add_def Let_def)
  have r: "receipt_of (\<lambda>_. 1) demo_cfg_sn (WithdrawalEvent 7 5 10) ?r" by (simp add: receipt_of_def)
  obtain resp d' where c: "withdrawExecute ?jwt demo_cfg_sn ''t'' 5 (Inr demo_deposit_receipt) (Inr ?r) ''v'' ''token'' ''0x55'' demo_db
      = (resp, d')" by fastforce
  have n: "of_base 16 (norm_hex ''0x7'') = Some 7" by code_simp
  have "code resp \<noteq> 200 \<and> d' = demo_db"
    by (rule executed_withdrawal_unrecorded [OF d r _ _ _ c]) (auto simp: n)
  then show ?thesis using c by blast
qed

text \<open>
  C10. The withdrawal that the backend calls the burn burns nothing: the supply is as before, and the recipient holds the
  amount, as well as the bitcoins that the backend pays for it.
\<close>

theorem withdrawal_burns_nothing:
  assumes "vault_withdraw n proof r amount w = Inr (w', es, e)" and "r \<noteq> vault_at w" and "0 \<le> amount"
  shows "total_supply (w_token w') = total_supply (w_token w)
     \<and> balances (w_token w') r = balances (w_token w) r + amount"
proof -
  obtain t' where t': "token_move (vault_at w) r amount (w_token w) = Inr (t', es)" "w_token w' = t'"
    using vault_withdrawD(3) [OF assms(1)] by auto
  then show ?thesis using token_move_spec [OF t'(1) assms(3)] token_move_gives [OF t'(1) assms(2)] by simp
qed

theorem withdrawal_burns_nothing_witness:
  "\<exists>w' es e. vault_withdraw 7 [0] 5 10 demo_world = Inr (w', es, e) \<and> total_supply (w_token w') = 10 \<and> balances (w_token w') 5 = 10"
proof -
  obtain w' es e where d: "vault_withdraw 7 [0] 5 10 demo_world = Inr (w', es, e)"
    by (simp add: vault_withdraw_def demo_world_def vault_constructor_def call_token_def token_move_def empty_token_def
        u256_sub_def u256_add_def Let_def)
  have "total_supply (w_token w') = total_supply (w_token demo_world) \<and> balances (w_token w') 5 = balances (w_token demo_world) 5 + 10"
    by (rule withdrawal_burns_nothing [OF d]) (simp_all add: demo_world_def)
  then show ?thesis using d by (simp add: demo_world_def empty_token_def)
qed

text \<open>
  C29. The backend and the vault disagree on the address: without \<open>VAULT_BITCOIN_SCRIPT_PUBKEY\<close> the backend proves
  the output that pays its hot wallet's key hash, and the vault rejects every deposit whose output is not a
  taproot output.
\<close>

theorem default_script_rejected:
  assumes "parse_output (da_raw_tx a) (da_vout a) = Inr (amount, hex_decode (VAULT_SCRIPT_PUBKEY None))"
  shows "\<not> is_ok (vault_deposit sha a w)"
proof
  assume "is_ok (vault_deposit sha a w)"
  then obtain w' es e where "vault_deposit sha a w = Inr (w', es, e)" by (auto simp: is_ok_iff)
  then have "script_matches_p2tr (hex_decode (VAULT_SCRIPT_PUBKEY None)) (vault_tapkey (w_vault w)) = Inr True"
    using vault_depositD(5) assms by fastforce
  moreover have "length (hex_decode (VAULT_SCRIPT_PUBKEY None)) = 22"
    unfolding VAULT_SCRIPT_PUBKEY_def truthy_def by code_simp
  ultimately show False by (simp add: script_matches_p2tr_def)
qed

theorem default_script_rejected_witness:
  "\<not> is_ok (vault_deposit pad32 (demo_args\<lparr>da_raw_tx := ser_legacy (demo_tx\<lparr>bx_outs :=
       [\<lparr>sats = 500, script_pub = hex_decode (VAULT_SCRIPT_PUBKEY None)\<rparr>]\<rparr>), da_vout := 0\<rparr>) demo_chain)"
proof (rule default_script_rejected [where amount = 500])
  let ?t = "demo_tx\<lparr>bx_outs := [\<lparr>sats = 500, script_pub = hex_decode (VAULT_SCRIPT_PUBKEY None)\<rparr>]\<rparr>"
  have l: "length (hex_decode (VAULT_SCRIPT_PUBKEY None)) = 22"
    unfolding VAULT_SCRIPT_PUBKEY_def truthy_def by code_simp
  then have w: "wf_tx ?t" "length (ser_legacy ?t) < 2 ^ 32"
    by (simp_all add: wf_tx_def demo_tx_def wf_in_def wf_out_def wf_stack_def small_def ser_legacy_def ser_body_def
      ser_in_def ser_out_def vi_def)
  have "serialization ?t (ser_legacy ?t)" by (simp add: serialization_def)
  from parse_output_ser [OF w(1) this w(2), of 0]
  show "parse_output (da_raw_tx (demo_args\<lparr>da_raw_tx := ser_legacy ?t, da_vout := 0\<rparr>)) (da_vout (demo_args\<lparr>da_raw_tx := ser_legacy ?t, da_vout := 0\<rparr>))
      = Inr (500, hex_decode (VAULT_SCRIPT_PUBKEY None))" by simp
qed

end
