(* ===== verification/Circuits.thy ===== *)
theory Circuits
  imports Crypto
begin

text \<open>
  The two circuits of the repository: \<open>cairo/commitment.cairo\<close> (Cairo 0, for SHARP) and
  \<open>cairo2_proof/src/lib.cairo\<close> (the withdrawal circuit that \<open>SharpService\<close> proves). Pedersen's hash of two felts is an
  argument; what is proved of a circuit is its output.
\<close>

type_synonym pedersen2 = "int \<Rightarrow> int \<Rightarrow> int"

definition commitment_main :: "pedersen2 \<Rightarrow> int \<Rightarrow> int \<Rightarrow> int list" where
  "commitment_main ped secret salt = [ped secret salt]"

definition withdrawal_main :: "pedersen2 \<Rightarrow> int \<Rightarrow> int \<Rightarrow> int \<Rightarrow> int" where
  "withdrawal_main ped secret commitment_hash nullifier_hash = ped secret commitment_hash"

text \<open>
  The backend's nullifier is \<open>pedersen(commitmentHash, secret)\<close>, with the arguments the other way round: the circuit's output is that
  nullifier only where the hash commutes. The nullifier it is given does not enter the output.
\<close>

lemma circuit_nullifier_swapped:
  assumes "\<And>a b. pedersen cl a b = Inr (enc (ped (dec a) (dec b)))"
    and "ped (dec c) (dec s) \<noteq> ped (dec s) (dec c)" and "inj enc"
  shows "generateNullifier cl c s \<noteq> Inr (enc (withdrawal_main ped (dec s) (dec c) n))"
  using assms by (auto simp: generateNullifier_def withdrawal_main_def dest: injD)

lemma circuit_accepts_any_nullifier: "withdrawal_main ped s c n = withdrawal_main ped s c n'"
  by (simp add: withdrawal_main_def)

end
