(* ===== verification/Turns.thy ===== *)
theory Turns
  imports Vault AuditTrail Verifier Bridge Admin
begin

text \<open>
  The turns of the event loop that write to the database. Node runs a handler without interruption up
  to its next \<open>await\<close>, so that whatever the requests and the background jobs do together is a sequence of
  these turns, in some order; their arguments are what the handler has read and received before. A
  turn that throws writes nothing. The first part shows what a turn keeps of the rows, the second that
  every handler and every job is a sequence of turns.
\<close>

section \<open>Turns\<close>

text \<open>
  In the order of the routes: prepare-deposit, confirm-deposit, the record of a withdrawal, execute,
  commitment/deposit, spv-deposit, the audit, the synchronisation at the start, time-travel, and the
  authorizations, which the withdrawal, the processor and force-withdrawal write.
\<close>

datatype turn =
    Prepare vault_row
  | Confirm string int vault_row string deposit_check
  | RecordPayout string int vault_row string string
  | Execute string int string string string tx_receipt vault_row
  | StoreDeposit vault_row tx_row
  | StoreSpv vault_row
  | Audit string vault_status
  | Sync string
  | Travel string int
  | Authorize auth_cmd

definition or_same :: "db \<Rightarrow> db res \<Rightarrow> db" where
  "or_same d r = (case r of Inl _ \<Rightarrow> d | Inr d' \<Rightarrow> d')"

fun do_turn :: "turn \<Rightarrow> db \<Rightarrow> db" where
  "do_turn (Prepare v) d = or_same d (store_prepared v d)"
| "do_turn (Confirm uuid now v txHash dc) d = or_same d (confirm_store uuid now v txHash dc d)"
| "do_turn (RecordPayout uuid now v txHash addr) d = snd (withdraw_record uuid now v txHash addr d)"
| "do_turn (Execute uuid now vid nhash txHash rc v) d = or_same d (execute_store uuid now vid nhash txHash rc v d)"
| "do_turn (StoreDeposit v t) d = or_same d (store_deposit v t d)"
| "do_turn (StoreSpv v) d = or_same d (upsert_vault v d)"
| "do_turn (Audit h s) d = or_same d (update_vaults (\<lambda>v. deposit_tx_hash v = Some h) (\<lambda>v. v\<lparr>v_status := s\<rparr>) d)"
| "do_turn (Sync i) d = or_same d (update_vaults (\<lambda>v. v_id v = i) (\<lambda>v. v\<lparr>v_status := active\<rparr>) d)"
| "do_turn (Travel i past) d = or_same d (update_vaults (\<lambda>v. v_id v = i \<and> v_status v = active) (\<lambda>v. v\<lparr>unlock_at := past\<rparr>) d)"
| "do_turn (Authorize c) d = auth_step c d"

definition turns :: "turn list \<Rightarrow> db \<Rightarrow> db" where
  "turns ts d = fold do_turn ts d"

lemma or_same_simps [simp]: "or_same d (Inl e) = d" "or_same d (Inr d') = d'"
  by (simp_all add: or_same_def)

lemma or_sameI: "P d \<Longrightarrow> (\<And>d'. r = Inr d' \<Longrightarrow> P d') \<Longrightarrow> P (or_same d r)"
  by (cases r) auto

section \<open>What is kept\<close>

text \<open>
  A table grows: its rows stay, in their order, related by \<open>R\<close> to what they were, and rows are only added
  at its end.
\<close>

definition grows :: "('r \<Rightarrow> 'r \<Rightarrow> bool) \<Rightarrow> 'r list \<Rightarrow> 'r list \<Rightarrow> bool" where
  "grows R xs ys \<longleftrightarrow> length xs \<le> length ys \<and> list_all2 R xs (take (length xs) ys)"

text \<open>
  A vault keeps who owns it, its commitment, its encrypted amount and its term; a burn or a nullifier that
  it has is never taken from it. An authorization keeps its terms, and a payout that it has.
\<close>

definition vault_kept :: "vault_row \<Rightarrow> vault_row \<Rightarrow> bool" where
  "vault_kept v w \<longleftrightarrow> v_id w = v_id v \<and> owner_address w = owner_address v \<and> v_commitment w = v_commitment v
     \<and> encrypted_amount w = encrypted_amount v \<and> salt w = salt v \<and> randomness_hint w = randomness_hint v
     \<and> lock_duration_days w = lock_duration_days v \<and> v_created_at w = v_created_at v
     \<and> (withdraw_tx_hash v \<noteq> None \<longrightarrow> withdraw_tx_hash w \<noteq> None)
     \<and> (v_nullifier_hash v \<noteq> None \<longrightarrow> v_nullifier_hash w \<noteq> None)"

definition commitment_kept :: "commitment_row \<Rightarrow> commitment_row \<Rightarrow> bool" where
  "commitment_kept c e \<longleftrightarrow> c_commitment e = c_commitment c \<and> c_vault_id e = c_vault_id c \<and> c_revealed e = c_revealed c"

definition auth_kept :: "auth_row \<Rightarrow> auth_row \<Rightarrow> bool" where
  "auth_kept a b \<longleftrightarrow> terms b = terms a \<and> a_created_at b = a_created_at a
     \<and> (a_bitcoin_txid a \<noteq> None \<longrightarrow> a_bitcoin_txid b \<noteq> None)"

definition kept :: "db \<Rightarrow> db \<Rightarrow> bool" where
  "kept d d' \<longleftrightarrow> grows vault_kept (vaults d) (vaults d') \<and> grows commitment_kept (commitments d) (commitments d')
     \<and> grows (=) (nullifiers d) (nullifiers d') \<and> grows (=) (transactions d) (transactions d')
     \<and> grows auth_kept (auths d) (auths d')"

text \<open>
  The invariant of a turn and of a run: the constraints hold, a completed authorization has its payout,
  and nothing is lost.
\<close>

definition db_advances :: "db \<Rightarrow> db \<Rightarrow> bool" where
  "db_advances d d' \<longleftrightarrow> (schema_ok d \<longrightarrow> schema_ok d')
     \<and> (list_all evidence (auths d) \<longrightarrow> list_all evidence (auths d')) \<and> kept d d'"

lemma grows_refl: "reflp R \<Longrightarrow> grows R xs xs"
  by (simp add: grows_def list.rel_reflp [THEN reflpD])

lemma grows_split: "grows R xs ys \<longleftrightarrow> (\<exists>zs us. ys = zs @ us \<and> list_all2 R xs zs)"
proof
  assume "grows R xs ys"
  then show "\<exists>zs us. ys = zs @ us \<and> list_all2 R xs zs"
    unfolding grows_def by (metis append_take_drop_id)
next
  assume "\<exists>zs us. ys = zs @ us \<and> list_all2 R xs zs"
  then obtain zs us where "ys = zs @ us" "list_all2 R xs zs" by blast
  moreover from this have "length xs = length zs" by (simp add: list_all2_lengthD)
  ultimately show "grows R xs ys" by (simp add: grows_def)
qed

lemma grows_eq: "grows (=) xs ys \<longleftrightarrow> (\<exists>zs. ys = xs @ zs)"
  by (auto simp: grows_split list.rel_eq)

lemma grows_in:
  assumes "grows R xs ys" and "x \<in> set xs"
  shows "\<exists>y \<in> set ys. R x y"
proof -
  obtain zs us where "ys = zs @ us" and l: "list_all2 R xs zs" using assms(1) by (auto simp: grows_split)
  moreover have "x \<in> set xs \<Longrightarrow> \<exists>y \<in> set zs. R x y" using l by (induction rule: list_all2_induct) auto
  ultimately show ?thesis using assms(2) by auto
qed

lemma grows_trans:
  assumes "transp R" "grows R xs ys" "grows R ys zs"
  shows "grows R xs zs"
proof -
  obtain as us bs ws where *: "ys = as @ us" "list_all2 R xs as" "zs = bs @ ws" "list_all2 R ys bs"
    using assms(2,3) by (auto simp: grows_split)
  then obtain cs ds where "bs = cs @ ds" "list_all2 R as cs" by (auto simp: list_all2_append1)
  moreover from this * have "list_all2 R xs cs"
    using assms(1) list_all2_trans [of R R R xs as cs] by (auto simp: transp_def)
  ultimately show ?thesis using * by (auto simp: grows_split)
qed

lemma grows_append: "reflp R \<Longrightarrow> grows R xs (xs @ us)"
  by (simp add: grows_def list.rel_reflp [THEN reflpD])

lemma grows_update: "reflp R \<Longrightarrow> (\<And>r. R r (f r)) \<Longrightarrow> grows R xs (update_by p f xs)"
  by (auto simp: grows_def update_by_def list_all2_map2 list_all2_same reflpD)

lemma kept_order: "reflp vault_kept" "transp vault_kept" "reflp commitment_kept" "transp commitment_kept"
    "reflp auth_kept" "transp auth_kept" "reflp ((=) :: 'a \<Rightarrow> 'a \<Rightarrow> bool)" "transp ((=) :: 'a \<Rightarrow> 'a \<Rightarrow> bool)"
  by (auto simp: reflp_def transp_def vault_kept_def commitment_kept_def auth_kept_def)

lemma kept_refl [intro, simp]: "kept d d"
  by (simp add: kept_def grows_refl kept_order)

lemma kept_trans: "kept d1 d2 \<Longrightarrow> kept d2 d3 \<Longrightarrow> kept d1 d3"
  unfolding kept_def by (blast intro: grows_trans kept_order)

lemma db_advances_refl [intro, simp]: "db_advances d d"
  by (simp add: db_advances_def)

lemma db_advances_trans [trans]: "db_advances d1 d2 \<Longrightarrow> db_advances d2 d3 \<Longrightarrow> db_advances d1 d3"
  unfolding db_advances_def using kept_trans by blast

section \<open>Statements\<close>

text \<open>One lemma for each kind of statement, in the form in which the handlers' cases leave them.\<close>

named_theorems statement

lemma adv_insert_vault [statement]: "insert_vault v d = Inr d' \<Longrightarrow> db_advances d d'"
  using schema_insert_vault insert_vaultD
  by (fastforce simp: db_advances_def kept_def grows_append grows_refl kept_order)

lemma adv_update_vaults:
  assumes "update_vaults p f d = Inr d'" "\<And>v. vault_kept v (f v)"
  shows "db_advances d d'"
proof -
  have "v_id (f v) = v_id v" for v using assms(2) [of v] by (simp add: vault_kept_def)
  then show ?thesis using assms schema_update_vaults [OF _ assms(1)] update_vaultsD [OF assms(1)]
    by (simp add: db_advances_def kept_def grows_update grows_refl kept_order)
qed

lemma adv_insert_commitment [statement]: "insert_commitment c d = Inr d' \<Longrightarrow> db_advances d d'"
  using schema_insert_commitment insert_commitmentD
  by (fastforce simp: db_advances_def kept_def grows_append grows_refl kept_order)

lemma adv_insert_nullifier [statement]: "insert_nullifier n d = Inr d' \<Longrightarrow> db_advances d d'"
  using schema_insert_nullifier insert_nullifierD
  by (fastforce simp: db_advances_def kept_def grows_append grows_refl kept_order)

lemma adv_insert_transaction [statement]: "insert_transaction t d = Inr d' \<Longrightarrow> db_advances d d'"
  using schema_insert_transaction insert_transactionD
  by (fastforce simp: db_advances_def kept_def grows_append grows_refl kept_order)

lemma adv_commitment_block: "db_advances d (update_commitment_block vid n d)"
proof -
  let ?f = "\<lambda>c. c\<lparr>c_block_number := Some n\<rparr>"
  have "grows commitment_kept (commitments d) (update_by (\<lambda>c. c_vault_id c = vid) ?f (commitments d))"
    by (rule grows_update) (simp_all add: kept_order commitment_kept_def)
  moreover have "schema_ok d \<Longrightarrow> schema_ok (update_commitment_block vid n d)"
    by (simp add: schema_ok_def update_commitment_block_def list_all_iff) (auto simp: update_by_def)
  ultimately show ?thesis by (simp add: db_advances_def kept_def update_commitment_block_def grows_refl kept_order)
qed

lemma adv_create: "db_advances d (snd (createAuthorization uuid now p d))"
proof -
  have "grows auth_kept (auths d) (auths (snd (createAuthorization uuid now p d)))"
    by (rule createAuthorization_cases [of uuid now p d])
       (auto dest!: insert_authD simp: grows_append grows_refl kept_order)
  moreover have "vaults (snd (createAuthorization uuid now p d)) = vaults d"
      "commitments (snd (createAuthorization uuid now p d)) = commitments d"
      "nullifiers (snd (createAuthorization uuid now p d)) = nullifiers d"
      "transactions (snd (createAuthorization uuid now p d)) = transactions d"
    by (rule createAuthorization_cases [of uuid now p d]; auto dest!: insert_authD)+
  ultimately show ?thesis
    using auth_step_schema [of d "Create uuid now p"] auth_step_evidence [of d "Create uuid now p"] by (simp add: db_advances_def kept_def grows_refl kept_order)
qed

lemma adv_auth: "db_advances d (auth_step c d)"
proof (cases c)
  case (Create uuid now p)
  then show ?thesis by (simp add: adv_create)
next
  case (Update now i s txid err)
  show ?thesis
  proof (cases "updateStatus now i s txid err d")
    case (Inr d')
    have "db_advances d d'"
    proof -
      have d': "d' = update_auth i (\<lambda>a. let a1 = a\<lparr>a_status := s\<rparr>;
            a2 = (if s = a_completed then a1\<lparr>confirmed_at := Some now, a_bitcoin_txid := txid\<rparr> else a1)
          in if truthy err then a2\<lparr>error_message := err\<rparr> else a2) d" "s = a_completed \<longrightarrow> truthy txid"
        using Inr by (auto simp: updateStatus_def split: if_splits)
      have "grows auth_kept (auths d) (auths d')"
        unfolding d'(1) update_auth_def
        by (simp, rule grows_update) (use d'(2) in \<open>auto simp: kept_order auth_kept_def terms_def Let_def truthy_def split: option.splits\<close>)
      then show ?thesis using auth_step_schema [of d c] auth_step_evidence [of d c] Inr Update d'(1)
        by (simp add: db_advances_def kept_def update_auth_def grows_refl kept_order)
    qed
    then show ?thesis using Inr Update by simp
  qed (simp add: Update)
qed

section \<open>Every turn db_advances\<close>

lemma vault_kept_simps [simp]:
  "vault_kept v (v\<lparr>v_status := s\<rparr>)" "vault_kept v (v\<lparr>unlock_at := n\<rparr>)"
  "vault_kept v (v\<lparr>v_status := s, deposit_tx_hash := h\<rparr>)"
  "vault_kept v (v\<lparr>v_status := s, withdraw_tx_hash := Some x, bitcoin_withdrawal_address := b\<rparr>)"
  "vault_kept v (v\<lparr>v_status := s, withdraw_tx_hash := Some x, v_nullifier_hash := Some n'\<rparr>)"
  by (simp_all add: vault_kept_def)

lemma adv_bind:
  assumes "bind_res r k = Inr d'" and "\<And>d1. r = Inr d1 \<Longrightarrow> db_advances d d1" and "\<And>d1. k d1 = Inr d' \<Longrightarrow> db_advances d1 d'"
  shows "db_advances d d'"
  using assms db_advances_trans by auto

lemma adv_prepared [statement]: "store_prepared v d = Inr d' \<Longrightarrow> db_advances d d'"
  unfolding store_prepared_def by (erule adv_bind) (rule statement, assumption)+

lemma adv_confirmed [statement]: "confirm_store uuid now v h dc d = Inr d' \<Longrightarrow> db_advances d d'"
  unfolding confirm_store_def
  by (erule adv_bind) (auto intro: adv_update_vaults db_advances_trans [OF adv_commitment_block] adv_insert_transaction)

lemma adv_recorded: "db_advances d (snd (withdraw_record uuid now v h addr d))"
proof -
  have u: "db_advances d d1" if "update_vaults (\<lambda>r. v_id r = v_id v) (\<lambda>r. r\<lparr>v_status := withdrawn, withdraw_tx_hash := Some h,
      bitcoin_withdrawal_address := Some addr\<rparr>) d = Inr d1" for d1
    using that by (rule adv_update_vaults) simp
  show ?thesis
    by (auto simp: withdraw_record_def split: sum.splits dest!: u adv_insert_transaction intro: db_advances_trans)
qed

lemma adv_executed [statement]: "execute_store uuid now vid n h rc v d = Inr d' \<Longrightarrow> db_advances d d'"
  unfolding execute_store_def
  by (erule adv_bind, erule adv_insert_nullifier, erule adv_bind) (auto intro: adv_update_vaults adv_insert_transaction)

text \<open>The two updates that keep what a column had: \<open>COALESCE\<close>.\<close>

lemma vault_kept_coalesce [simp]:
  "vault_kept r (r\<lparr>deposit_tx_hash := h, v_bitcoin_txid := b,
     v_nullifier_hash := (case v_nullifier_hash r of None \<Rightarrow> n | Some m \<Rightarrow> Some m), v_status := s\<rparr>)"
  "vault_kept r (r\<lparr>deposit_tx_hash := h, v_bitcoin_txid := b,
     v_nullifier_hash := (case v_nullifier_hash r of None \<Rightarrow> n | Some m \<Rightarrow> Some m),
     deposit_sender_address := (case deposit_sender_address r of None \<Rightarrow> x | Some a \<Rightarrow> Some a), v_status := s\<rparr>)"
  by (auto simp: vault_kept_def split: option.splits)

lemma adv_inserted: "bind_res (insert_vault v d) (insert_transaction t) = Inr d' \<Longrightarrow> db_advances d d'"
  by (erule adv_bind) (rule statement, assumption)+

lemma adv_or_same: "db_advances d0 d \<Longrightarrow> (\<And>d'. r = Inr d' \<Longrightarrow> db_advances d d') \<Longrightarrow> db_advances d0 (or_same d r)"
  by (cases r) (auto intro: db_advances_trans)

lemma adv_deposited [statement]:
  assumes "store_deposit v t d = Inr d'"
  shows "db_advances d d'"
proof (cases "bind_res (insert_vault v d) (insert_transaction t)")
  case (Inr d2)
  then have "d' = d2" using assms by (simp add: store_deposit_def del: bind_res_eq_Inr)
  then show ?thesis using Inr by (simp only: adv_inserted)
next
  case (Inl e)
  then obtain d1 where d1: "update_vaults (\<lambda>r. v_id r = v_id v) (\<lambda>r. r\<lparr>deposit_tx_hash := deposit_tx_hash v,
      v_bitcoin_txid := v_bitcoin_txid v, v_nullifier_hash := (case v_nullifier_hash r of None \<Rightarrow> v_nullifier_hash v | Some n \<Rightarrow> Some n),
      v_status := active\<rparr>) d = Inr d1" "d' = or_same d1 (insert_transaction t d1)"
    using assms by (fastforce simp: store_deposit_def or_same_def split: if_splits sum.splits)
  have "db_advances d d1" using d1(1) by (rule adv_update_vaults) (rule vault_kept_coalesce)
  then show ?thesis unfolding d1(2) by (rule adv_or_same) (rule adv_insert_transaction)
qed

lemma adv_upserted [statement]:
  assumes "upsert_vault v d = Inr d'"
  shows "db_advances d d'"
proof (cases "has_vault d (v_id v)")
  case True
  then have "update_vaults (\<lambda>r. v_id r = v_id v) (\<lambda>r. r\<lparr>deposit_tx_hash := deposit_tx_hash v, v_bitcoin_txid := v_bitcoin_txid v,
      v_nullifier_hash := (case v_nullifier_hash r of None \<Rightarrow> v_nullifier_hash v | Some n \<Rightarrow> Some n),
      deposit_sender_address := (case deposit_sender_address r of None \<Rightarrow> deposit_sender_address v | Some a \<Rightarrow> Some a),
      v_status := active\<rparr>) d = Inr d'"
    using assms by (simp add: upsert_vault_def split: option.splits)
  then show ?thesis by (rule adv_update_vaults) (rule vault_kept_coalesce)
next
  case False
  then show ?thesis using assms by (simp add: upsert_vault_def adv_insert_vault split: option.splits)
qed

lemma adv_turn: "db_advances d (do_turn t d)"
proof (cases t)
  case (RecordPayout uuid now v h addr)
  then show ?thesis by (simp add: adv_recorded)
next
  case (Authorize c)
  then show ?thesis by (simp add: adv_auth del: auth_step.simps)
qed (auto intro!: adv_or_same [OF db_advances_refl] intro: statement adv_update_vaults)

lemma adv_turns: "db_advances d (turns ts d)"
  by (induction ts arbitrary: d) (auto simp: turns_def simp del: do_turn.simps intro: db_advances_trans adv_turn)

section \<open>Every handler is a sequence of turns\<close>

definition reaches :: "db \<Rightarrow> db \<Rightarrow> bool" where
  "reaches d d' \<longleftrightarrow> (\<exists>ts. d' = turns ts d)"

lemma reaches_advances: "reaches d d' \<Longrightarrow> db_advances d d'"
  by (auto simp: reaches_def adv_turns)

lemma reaches_refl [intro, simp]: "reaches d d"
  by (auto simp: reaches_def turns_def intro: exI [of _ "[]"])

lemma reaches_trans [trans]:
  assumes "reaches d1 d2" "reaches d2 d3"
  shows "reaches d1 d3"
proof -
  obtain ts us where "d2 = turns ts d1" "d3 = turns us d2" using assms by (auto simp: reaches_def)
  then have "d3 = turns (ts @ us) d1" by (simp add: turns_def)
  then show ?thesis by (auto simp: reaches_def)
qed

lemma reaches_turn: "do_turn t d = d' \<Longrightarrow> reaches d d'"
  by (auto simp: reaches_def turns_def intro!: exI [of _ "[t]"])

lemma reaches_auth: "reaches d (auth_step c d)"
  by (rule reaches_turn [of "Authorize c"]) simp

lemma reaches_touches: "touches i d d' \<Longrightarrow> reaches d d'"
  by (induction rule: touches.induct) (auto simp del: auth_step.simps intro: reaches_trans reaches_auth)

lemma reaches_prepare: "reaches d (snd (prepareDeposit env b d))"
proof -
  have "reaches d d'" if "store_prepared v d = Inr d'" for v d'
    using that by (intro reaches_turn [of "Prepare v"]) simp
  then show ?thesis by (auto simp: prepareDeposit_def Let_def split: option.splits sum.splits)
qed

lemma reaches_confirm: "reaches d (snd (confirmDeposit cfg uuid now waited again block_ts vid h d))"
proof -
  have "reaches d d'" if "confirm_store uuid now v h dc d = Inr d'" for v dc d'
    using that by (intro reaches_turn [of "Confirm uuid now v h dc"]) simp
  then show ?thesis by (auto simp: confirmDeposit_def confirm_finish_def split: sum.splits)
qed

lemma reaches_execute: "reaches d (snd (withdrawExecute jwt cfg uuid now waited again vid token h d))"
proof -
  have "reaches d d'" if "execute_store uuid now vid n h rc v d = Inr d'" for n rc v d'
    using that by (intro reaches_turn [of "Execute uuid now vid n h rc v"]) simp
  then show ?thesis by (auto simp: withdrawExecute_def execute_finish_def split: sum.splits prod.splits bool.splits)
qed

lemma reaches_deposit: "reaches d (snd (post_deposit env b d))"
proof -
  have s: "reaches d d'" if "store_deposit v t d = Inr d'" for v t d'
    using that by (intro reaches_turn [of "StoreDeposit v t"]) simp
  have sp: "reaches d (snd (case r of Inl e \<Rightarrow> (f e, d) | Inr x \<Rightarrow> g x))" if "\<And>x. r = Inr x \<Longrightarrow> reaches d (snd (g x))"
    for r :: "'a res" and f :: "exn \<Rightarrow> exn + response" and g
    using that by (cases r) auto
  have run: "reaches d (snd (run_deposit env p d))" for p
    unfolding run_deposit_def Let_def by (rule sp, rule sp, rule sp, rule if_split [THEN iffD2], intro conjI impI)
      (simp, rule sp, rule sp, simp add: s)
  show ?thesis
  proof (cases "deposit_schema b")
    case (Some p)
    obtain x d' where "run_deposit env p d = (x, d')" by fastforce
    then show ?thesis using run [of p] Some by (simp add: post_deposit_def split: sum.split)
  qed (simp add: post_deposit_def)
qed

lemma reaches_spv: "reaches d (snd (post_spv_deposit env j d))"
proof -
  have "reaches d d'" if "store_spv env b h d = Inr d'" for b h d'
  proof -
    have "reaches d (do_turn (StoreSpv v) d)" for v by (rule reaches_turn [OF refl])
    then have "reaches d (case upsert_vault v d of Inl _ \<Rightarrow> d | Inr x \<Rightarrow> x)" for v by (simp add: or_same_def)
    then show ?thesis using that by (fastforce simp: store_spv_def split: if_splits sum.splits)
  qed
  then show ?thesis
    by (auto simp: post_spv_deposit_def run_spv_deposit_def split: option.splits sum.splits)
qed

lemma reaches_audit_loop: "audit_loop rpc hs n res d = (n', res', d') \<Longrightarrow> reaches d d'"
proof (induction hs arbitrary: n res d)
  case (Cons h hs)
  obtain n1 r d1 where o: "audit_one rpc h n d = (n1, r, d1)" by (metis prod_cases3)
  have "reaches d d1"
  proof -
    have "reaches d x" if "update_vaults (\<lambda>v. deposit_tx_hash v = Some h) (\<lambda>v. v\<lparr>v_status := s\<rparr>) d = Inr x" for s x
      using that by (intro reaches_turn [of "Audit h s"]) simp
    then show ?thesis using o by (auto simp: audit_one_def Let_def split: if_splits sum.splits)
  qed
  then show ?case using Cons o by (auto intro: reaches_trans)
qed simp

lemma reaches_audit: "reaches d (snd (auditVerify rpc d))"
  by (auto simp: auditVerify_def split: prod.splits dest: reaches_audit_loop)

lemma reaches_sync_loop: "reaches d (sync_loop rpc todo d)"
proof (induction todo arbitrary: d)
  case (Cons p todo)
  obtain i h where p: "p = (i, h)" by fastforce
  have "reaches d (do_turn (Sync i) d)" by (rule reaches_turn [OF refl])
  then show ?case
    using Cons by (auto simp: p or_same_def intro: reaches_trans)
qed simp

lemma reaches_sync: "reaches d (autoSync rpc d)"
  by (simp add: autoSync_def reaches_sync_loop)

lemma reaches_travel: "reaches d (snd (timeTravel now vid d))"
proof -
  have "reaches d x" if "update_vaults (\<lambda>v. v_id v = vid \<and> v_status v = active) (\<lambda>v. v\<lparr>unlock_at := past\<rparr>) d = Inr x" for past x
    using that by (intro reaches_turn [of "Travel vid past"]) simp
  then show ?thesis by (auto simp: timeTravel_def Let_def split: sum.splits)
qed

text \<open>The payouts: every write is the status of one authorization.\<close>

lemma processAuthorization_touches: "processAuthorization cfg env auth d = (p, d') \<Longrightarrow> touches (a_id auth) d d'"
proof -
  let ?i = "a_id auth" and ?s = "\<lambda>x. auth_step (Update (clock env) (a_id auth) x None None)"
  have t: "touches ?i d (?s x y)" if "touches ?i (?s a_processing d) y" for x y
    using touches_trans [OF that] touches.intros by blast
  have po: "touches ?i (?s a_processing d) x" if "payout cfg env ?i (?s a_processing d) = (q, r, x)" for q r x
    using that by (rule payout_cases)
  assume "processAuthorization cfg env auth d = (p, d')"
  then show ?thesis
    by (auto simp: processAuthorization_def Let_def simp del: auth_step.simps split: if_splits prod.splits sum.splits
        dest!: po intro: t touches.none touches_completed touches_trans [OF _ touches.update [OF touches.none]])
qed

lemma reaches_process: "processor_run cfg es d = (paid, d') \<Longrightarrow> reaches d d'"
proof (induction es arbitrary: d paid)
  case (Cons envs es)
  have all: "process_all cfg envs todo x = (ps, y) \<Longrightarrow> reaches x y" for todo x ps y
  proof (induction todo arbitrary: x ps)
    case (Cons auth todo)
    then show ?case
      by (auto split: prod.splits dest!: processAuthorization_touches [THEN reaches_touches] intro: reaches_trans)
  qed simp
  obtain l d1 m d2 where "process_all cfg envs (getPendingAuthorizations d) d = (l, d1)" "processor_run cfg es d1 = (m, d2)"
    by (metis surj_pair)
  then show ?case using Cons.prems Cons.IH [of d1 m] all [of "getPendingAuthorizations d" d l d1] reaches_trans
    by (auto simp: processAuthorizations_def)
qed simp

lemma reaches_authorize: "reaches d (snd (withdraw_authorize uuid now vid n h addr amt d))"
proof -
  have "reaches d (snd (createAuthorization u m p d))" for u m p
    using reaches_auth [of d "Create u m p"] by simp
  then show ?thesis
    by (auto simp: withdraw_authorize_def simp del: auth_step.simps split: option.splits intro: reaches_auth)
qed

lemma reaches_pay: "reaches d (snd (snd (withdraw_pay env n addr v h amt d)))"
proof -
  have rec: "reaches d1 (snd (withdraw_record u m v h addr d1))" for u m d1
    by (rule reaches_turn [of "RecordPayout u m v h addr"]) simp
  obtain r d1 where a: "withdraw_authorize (we_uuid_auth env) (we_now env) (v_id v) n h addr amt d = (r, d1)" by fastforce
  have d1: "reaches d d1" using reaches_authorize [of d "we_uuid_auth env" "we_now env" "v_id v" n h addr amt] a by simp
  have fin: "reaches d (snd (snd (case withdraw_record (we_uuid_tx env) (we_now env) v h addr x of
      (Some e, d3) \<Rightarrow> (p, f e, d3) | (None, d3) \<Rightarrow> (p, g, d3))))" if "reaches d x"
    for x and f :: "exn \<Rightarrow> response" and g p
    using rec [of x "we_uuid_tx env" "we_now env"] that by (auto split: prod.splits option.splits intro: reaches_trans)
  show ?thesis
  proof (cases r)
    case (Inl e)
    then show ?thesis using fin [OF d1] a by (simp add: withdraw_pay_def)
  next
    case (Inr auth)
    obtain p t d2 where po: "withdraw_payout (we_cfg env) (we_proc env) (we_in_time env) (a_id auth) d1 = (p, t, d2)"
      by (metis prod_cases3)
    have "reaches d d2" using d1 reaches_touches [OF withdraw_payout_touches [OF po]] by (rule reaches_trans)
    then show ?thesis using fin a po Inr by (simp add: withdraw_pay_def)
  qed
qed

lemma reaches_withdraw: "reaches d (snd (snd (withdraw_request prove env secret n addr d)))"
  by (simp add: withdraw_request_def withdraw_def reaches_pay split: sum.split)

lemma reaches_force: "reaches d (snd (snd (forceWithdrawal now env i d)))"
proof -
  let ?s = "\<lambda>x. auth_step (Update now i x None None)"
  have u: "reaches x d2" if "updateStatus now i a_completed (Some t) None x = Inr d2" for t x d2
    using reaches_auth [of x "Update now i a_completed (Some t) None"] that by simp
  have "reaches d (?s a_processing d)" "reaches d (?s a_pending (?s a_processing d))"
    using reaches_auth reaches_trans by blast+
  then show ?thesis
    by (auto simp: forceWithdrawal_def Let_def simp del: auth_step.simps dest!: u intro: reaches_trans
        split: option.split prod.split sum.split)
qed

end
