(* ===== verification/Server.thy ===== *)
theory Server
  imports Turns Processor Htlc Commitments Sharp
begin

text \<open>
  The server: \<open>index.ts\<close> with the declarations of all routers, \<open>middleware/rateLimiters.ts\<close>, and a
  request from its arrival to its answer. Express is outside of \<open>src/\<close>. What the code relies on is that
  layers are tried in the order of their registration, and how a segment of a pattern matches one of a
  path, which is the argument \<open>st_path\<close> with the documented laws \<open>express_paths\<close>. Whether a request is
  within a limit is \<open>st_limit\<close>. A path is the list of its decoded segments, the body what the parsers
  leave in \<open>req.body\<close> (an empty object without one), or the error they pass on. \<open>OPTIONS\<close> is answered by
  \<open>cors\<close>, outside of the model.
\<close>

section \<open>Routes\<close>

datatype limiter = General | Strict | SharpLimit

text \<open>The window in seconds, the number of requests, and the answer beyond it.\<close>

fun limiter_settings :: "limiter \<Rightarrow> int \<times> int \<times> string" where
  "limiter_settings General = (15 * 60, 1000, ''General rate limit reached.'')"
| "limiter_settings Strict = (60, 250, ''Strict rate limit exceeded'')"
| "limiter_settings SharpLimit = (5 * 60, 20, ''SHARP rate limit exceeded. Proving jobs are resource intensive.'')"

definition too_many :: "limiter \<Rightarrow> response" where
  "too_many l = respond 429 [(''error'', JStr (snd (snd (limiter_settings l))))]"

datatype verb = Get | Post | Any
datatype seg = Lit string | Par string
datatype middleware = Limit limiter | Fields "string list" | TxHash

datatype endpoint =
    Health | NotAllowed
  | VaultPrepare | VaultConfirm | VaultBalance | VaultWithdraw | VaultList | VaultDetails
  | HtlcCreate | HtlcClaim | HtlcRefund | HtlcStatus | HtlcList
  | CommitmentDeposit | CommitmentCreate | CommitmentVerify | CommitmentNullifiers | CommitmentNullifier
  | BridgeAddress | BridgeDetect | BridgeVerifyTx | BridgeStatus | BridgeSender | BridgeBroadcast
  | BridgeProof | BridgeHeader | BridgeSpvDeposit
  | SharpSubmit | SharpStatus | SharpHistory
  | ProofVerify | WithdrawExecute | WithdrawNullifier | WithdrawEligibility
  | TxList | TxGet | TxVerify
  | AuditEvents | AuditVerify | AuditAll | AuditContracts | PoolStats
  | DebugTravel | DebugVaults | DebugAuths | DebugCovenant | DebugForce

type_synonym route = "verb \<times> seg list \<times> middleware list \<times> endpoint"

definition vault_routes :: "route list" where
  "vault_routes =
    [(Post, [Lit ''prepare-deposit''], [Limit Strict, Fields [''ownerAddress'', ''amountSats'', ''lockDurationDays'']], VaultPrepare),
     (Post, [Lit ''confirm-deposit''], [Limit Strict, Fields [''vaultId'', ''txHash''], TxHash], VaultConfirm),
     (Get, [Lit ''balance'', Par ''address''], [], VaultBalance),
     (Post, [Lit ''withdraw''], [Limit Strict, Fields [''secret'', ''nullifier_hash'', ''bitcoin_address'']], VaultWithdraw),
     (Any, [Lit ''deposit''], [], NotAllowed),
     (Any, [Lit ''withdraw''], [], NotAllowed),
     (Get, [Par ''address''], [], VaultList),
     (Get, [Par ''vaultId'', Lit ''details''], [], VaultDetails),
     (Any, [Lit ''prepare-deposit''], [], NotAllowed),
     (Any, [Lit ''confirm-deposit''], [], NotAllowed),
     (Any, [Lit ''deposit''], [], NotAllowed)]"

definition htlc_routes :: "route list" where
  "htlc_routes =
    [(Post, [Lit ''create''], [Limit Strict, Fields [''sender'', ''receiver'', ''amount'', ''timelockSeconds'']], HtlcCreate),
     (Post, [Lit ''claim''], [Limit Strict, Fields [''htlcId'', ''preimage'']], HtlcClaim),
     (Post, [Lit ''refund''], [Limit Strict, Fields [''htlcId'']], HtlcRefund),
     (Get, [Lit ''status'', Par ''id''], [], HtlcStatus),
     (Get, [Lit ''list'', Par ''address''], [], HtlcList),
     (Any, [Lit ''create''], [], NotAllowed), (Any, [Lit ''claim''], [], NotAllowed), (Any, [Lit ''refund''], [], NotAllowed)]"

definition commitment_routes :: "route list" where
  "commitment_routes =
    [(Post, [Lit ''deposit''], [Limit Strict], CommitmentDeposit),
     (Post, [Lit ''create''], [Limit Strict], CommitmentCreate),
     (Post, [Lit ''verify''], [Limit Strict, Fields [''secret'', ''salt'', ''commitment'']], CommitmentVerify),
     (Get, [Lit ''nullifiers''], [], CommitmentNullifiers),
     (Get, [Lit ''nullifier'', Par ''hash''], [], CommitmentNullifier),
     (Any, [Lit ''create''], [], NotAllowed), (Any, [Lit ''verify''], [], NotAllowed)]"

definition bridge_routes :: "route list" where
  "bridge_routes =
    [(Get, [Lit ''deposit-address''], [], BridgeAddress), (Get, [Lit ''detect-lock''], [], BridgeDetect),
     (Get, [Lit ''verify-tx''], [], BridgeVerifyTx), (Get, [Lit ''status''], [], BridgeStatus),
     (Get, [Lit ''sender-balance''], [], BridgeSender), (Post, [Lit ''broadcast''], [], BridgeBroadcast),
     (Get, [Lit ''spv-proof''], [], BridgeProof), (Get, [Lit ''header-status''], [], BridgeHeader),
     (Post, [Lit ''spv-deposit''], [], BridgeSpvDeposit)]"

definition sharp_routes :: "route list" where
  "sharp_routes =
    [(Post, [Lit ''submit''], [Limit SharpLimit, Fields [''secret'', ''salt'']], SharpSubmit),
     (Get, [Lit ''status'', Par ''jobKey''], [], SharpStatus), (Get, [Lit ''history''], [], SharpHistory),
     (Any, [Lit ''submit''], [], NotAllowed)]"

definition withdraw_routes :: "route list" where
  "withdraw_routes =
    [(Post, [Lit ''execute''], [Limit Strict, Fields [''vaultId'', ''proofToken'', ''txHash''], TxHash], WithdrawExecute),
     (Get, [Lit ''check-nullifier'', Par ''nullifierHash''], [], WithdrawNullifier),
     (Get, [Lit ''eligibility'', Par ''vaultId''], [], WithdrawEligibility), (Any, [Lit ''execute''], [], NotAllowed)]"

definition transactions_routes :: "route list" where
  "transactions_routes =
    [(Get, [Par ''address''], [], TxList), (Get, [Lit ''tx'', Par ''txHash''], [TxHash], TxGet),
     (Get, [Lit ''verify'', Par ''txHash''], [TxHash], TxVerify)]"

definition audit_routes :: "route list" where
  "audit_routes =
    [(Get, [], [], AuditEvents), (Post, [Lit ''verify''], [], AuditVerify),
     (Get, [Lit ''verify-all-transactions''], [], AuditAll), (Get, [Lit ''contract-status''], [], AuditContracts)]"

definition debug_routes :: "route list" where
  "debug_routes =
    [(Post, [Lit ''time-travel''], [], DebugTravel), (Get, [Lit ''vaults''], [], DebugVaults),
     (Get, [Lit ''authorizations''], [], DebugAuths), (Get, [Lit ''covenant-status''], [], DebugCovenant),
     (Post, [Lit ''force-withdrawal''], [], DebugForce)]"

definition mount :: "string \<Rightarrow> route list \<Rightarrow> route list" where
  "mount name rs = map (\<lambda>(v, p, m, e). (v, Lit ''api'' # Lit name # p, m, e)) rs"

text \<open>The routes in the order in which \<open>index.ts\<close> mounts them.\<close>

definition app_routes :: "env_config \<Rightarrow> route list" where
  "app_routes cfg =
     (Get, [Lit ''health''], [], Health) # mount ''vault'' vault_routes @ mount ''htlc'' htlc_routes
     @ mount ''commitment'' commitment_routes @ mount ''bridge'' bridge_routes @ mount ''sharp'' sharp_routes
     @ mount ''proof'' [(Post, [Lit ''verify-withdraw''], [], ProofVerify)] @ mount ''withdraw'' withdraw_routes
     @ mount ''transactions'' transactions_routes @ mount ''audit'' audit_routes
     @ mount ''privacy'' [(Get, [Lit ''pool-stats''], [], PoolStats)]
     @ (if debug_mounted cfg then mount ''debug'' debug_routes else [])"

text \<open>A \<open>GET\<close> route also answers \<open>HEAD\<close>.\<close>

fun verb_ok :: "verb \<Rightarrow> string \<Rightarrow> bool" where
  "verb_ok Get m = (m = ''GET'' \<or> m = ''HEAD'')"
| "verb_ok Post m = (m = ''POST'')"
| "verb_ok Any m = True"

definition route_ok :: "(seg \<Rightarrow> string \<Rightarrow> bool) \<Rightarrow> string \<Rightarrow> string list \<Rightarrow> route \<Rightarrow> bool" where
  "route_ok match m path r = (case r of (v, p, _, _) \<Rightarrow> verb_ok v m \<and> list_all2 match p path)"

fun path_args :: "seg list \<Rightarrow> string list \<Rightarrow> (string \<times> string) list" where
  "path_args (Par x # p) (s # ss) = (x, s) # path_args p ss"
| "path_args (Lit l # p) (s # ss) = path_args p ss"
| "path_args p ss = []"

text \<open>Literal segments match regardless of case, a parameter matches every segment.\<close>

definition express_paths :: "(seg \<Rightarrow> string \<Rightarrow> bool) \<Rightarrow> bool" where
  "express_paths match \<longleftrightarrow> (\<forall>l s. match (Lit l) s \<longleftrightarrow> to_lower l = to_lower s) \<and> (\<forall>x s. s \<noteq> [] \<longrightarrow> match (Par x) s)"

section \<open>Requests and what lies around the server\<close>

record http_request =
  rq_method :: string
  rq_url :: string
  rq_path :: "string list"
  rq_query :: "string \<Rightarrow> string option"
  rq_type :: "string option"
  rq_body :: "http_error + json"

text \<open>
  Everything that a request meets outside of \<open>src/\<close>, with the environments of the components' own models.
  The second and the third argument of a receipt function are the transaction hash.
\<close>

record site =
  st_path :: "seg \<Rightarrow> string \<Rightarrow> bool"
  st_limit :: "limiter \<Rightarrow> bool"
  st_config :: env_config
  st_now :: int
  st_now_ms :: int
  st_uuid :: string
  st_block :: "int res"
  st_vault_up :: "bool res"
  st_token_up :: "bool res"
  st_db_up :: bool
  st_circuit :: json
  st_relay :: relay_status
  st_prepare :: prepare_env
  st_sn :: sn_config
  st_waited :: "string \<Rightarrow> tx_receipt res"
  st_receipt :: "string \<Rightarrow> tx_receipt res"
  st_block_ts :: "int option"
  st_balance :: "string \<Rightarrow> int res"
  st_on_chain :: "string \<Rightarrow> bool"
  st_withdraw :: withdraw_env
  st_prove :: "string \<Rightarrow> string \<Rightarrow> string \<Rightarrow> bool"
  st_crypto :: crypto_lib
  st_bytes31 :: buffer
  st_call :: call
  st_zod :: string
  st_deposit :: deposit_env
  st_signet :: signet_env
  st_address :: "string res"
  st_verify_tx :: "string \<Rightarrow> json http"
  st_tip :: "string http"
  st_sender :: "string option"
  st_utxos :: "string \<Rightarrow> int list http"
  st_send :: "int \<Rightarrow> psbt option \<times> string res"
  st_explorer :: explorer
  st_script :: "string option"
  st_stored :: "int \<Rightarrow> bool"
  st_spv :: spv_env
  st_sharp :: sharp_env
  st_verify :: verify_env
  st_jwt :: "string \<Rightarrow> token_check"
  st_live :: "string \<Rightarrow> live_receipt res"
  st_reach :: "string \<Rightarrow> bool"
  st_min_set :: "string option"
  st_covenant_status :: "covenant_status res"
  st_covenant :: covenant_env

record server =
  s_db :: db
  s_locks :: lock_state
  s_htlcs :: htlcs
  s_commitments :: scs
  s_proofs :: "sharp_row list"

text \<open>
  \<open>NoAnswer\<close>: a promise that is rejected outside of every \<open>try\<close>. \<open>Outside\<close>: a field of the body that is not
  of the type that the route declares, or \<open>OPTIONS\<close>.
\<close>

datatype outcome = Answer response | NoAnswer | Outside

type_synonym served = "psbt list \<times> outcome \<times> server"

definition reply :: "response \<Rightarrow> server \<Rightarrow> served" where
  "reply r s = ([], Answer r, s)"

definition reply_db :: "response \<times> db \<Rightarrow> server \<Rightarrow> served" where
  "reply_db p s = ([], Answer (fst p), s\<lparr>s_db := snd p\<rparr>)"

definition reply_paid :: "psbt option \<times> response \<times> db \<Rightarrow> server \<Rightarrow> served" where
  "reply_paid p s = (case p of (q, r, d) \<Rightarrow> ((case q of None \<Rightarrow> [] | Some t \<Rightarrow> [t]), Answer r, s\<lparr>s_db := d\<rparr>))"

text \<open>A string field; one that may be missing is then the empty string.\<close>

definition with_text :: "json \<Rightarrow> string \<Rightarrow> server \<Rightarrow> (string \<Rightarrow> served) \<Rightarrow> served" where
  "with_text b k s f = (case json_field b k of Some (JStr x) \<Rightarrow> f x | _ \<Rightarrow> ([], Outside, s))"

definition with_text0 :: "json \<Rightarrow> string \<Rightarrow> server \<Rightarrow> (string \<Rightarrow> served) \<Rightarrow> served" where
  "with_text0 b k s f = (case json_field b k of
     None \<Rightarrow> f [] | Some JNull \<Rightarrow> f [] | Some (JStr x) \<Rightarrow> f x | _ \<Rightarrow> ([], Outside, s))"

section \<open>The handlers\<close>

fun handle_read :: "site \<Rightarrow> endpoint \<Rightarrow> (string \<Rightarrow> string) \<Rightarrow> (string \<Rightarrow> string option) \<Rightarrow> json \<Rightarrow> server \<Rightarrow> response res option" where
  "handle_read st Health a q b s = Some (Inr (health (st_block st) (st_vault_up st) (st_token_up st) (st_db_up st)
     (st_circuit st) (st_relay st) (st_now_ms st)))"
| "handle_read st NotAllowed a q b s = Some (Inr methodNotAllowed)"
| "handle_read st VaultBalance a q b s = Some (Inr (getBalance (st_balance st) (a ''address'')))"
| "handle_read st VaultList a q b s = Some (Inr (listVaults (st_now st) (st_on_chain st) (a ''address'') (s_db s)))"
| "handle_read st VaultDetails a q b s =
     Some (Inr (vaultDetails (st_now st) (st_block st) (st_on_chain st) (a ''vaultId'') (s_db s)))"
| "handle_read st HtlcStatus a q b s = Some (Inr (get_status (st_now st) (a ''id'') (s_htlcs s)))"
| "handle_read st HtlcList a q b s = Some (Inr (get_list (a ''address'') (s_htlcs s)))"
| "handle_read st CommitmentCreate a q b s = Some (Inr (post_create_commitment (st_crypto st) b))"
| "handle_read st CommitmentVerify a q b s = Some (Inr (post_verify (st_crypto st) (st_zod st) b))"
| "handle_read st CommitmentNullifiers a q b s = Some (Inr (get_nullifiers (s_commitments s)))"
| "handle_read st CommitmentNullifier a q b s = Some (Inr (get_nullifier (a ''hash'') (s_commitments s)))"
| "handle_read st BridgeAddress a q b s = Some (Inr (get_deposit_address (st_address st) (q ''vault_id'')))"
| "handle_read st BridgeDetect a q b s =
     Some (Inr (get_detect_lock (st_signet st) (q ''address'') (q ''amount'') (q ''since'') (s_db s)))"
| "handle_read st BridgeVerifyTx a q b s = Some (Inr (get_verify_tx (st_verify_tx st) (q ''txid'')))"
| "handle_read st BridgeStatus a q b s = Some (get_status_bridge (st_address st) (st_tip st))"
| "handle_read st BridgeSender a q b s = Some (Inr (get_sender_balance (st_sender st) (st_utxos st)))"
| "handle_read st BridgeProof a q b s = Some (Inr (get_spv_proof (st_explorer st) (st_script st) (q ''txid'')))"
| "handle_read st BridgeHeader a q b s =
     Some (Inr (get_header_status (st_stored st) (st_relay st) (st_now_ms st) (q ''height'')))"
| "handle_read st SharpHistory a q b s = Some (Inr (get_sharp_history (s_proofs s)))"
| "handle_read st WithdrawNullifier a q b s = Some (Inr (checkNullifier (st_on_chain st) (a ''nullifierHash'') (s_db s)))"
| "handle_read st WithdrawEligibility a q b s =
     Some (Inr (eligibility (st_now st) (st_on_chain st) (a ''vaultId'') (s_db s)))"
| "handle_read st TxList a q b s =
     Some (Inr (listTransactions (st_receipt st) (a ''address'') (q ''limit'') (q ''cursor'') (q ''type'') (s_db s)))"
| "handle_read st TxGet a q b s = Some (Inr (getTransaction (st_receipt st (a ''txHash'')) (a ''txHash'') (s_db s)))"
| "handle_read st TxVerify a q b s =
     Some (Inr (verifyTransaction (st_sn st) (st_receipt st (a ''txHash'')) (a ''txHash'') (s_db s)))"
| "handle_read st AuditEvents a q b s = Some (Inr (getAudit (s_db s)))"
| "handle_read st AuditAll a q b s = Some (Inr (verifyAllTransactions (st_now_ms st) (st_receipt st) (s_db s)))"
| "handle_read st AuditContracts a q b s = Some (Inr (contractStatus (st_sn st) (st_now_ms st) (st_reach st) (st_block st)))"
| "handle_read st PoolStats a q b s = Some (Inr (poolStats (st_min_set st) (s_db s)))"
| "handle_read st DebugVaults a q b s = Some (Inr (debugVaults (s_db s)))"
| "handle_read st DebugAuths a q b s = Some (Inr (debugAuthorizations (s_db s)))"
| "handle_read st DebugCovenant a q b s = Some (Inr (debugCovenantStatus (st_covenant_status st)))"
| "handle_read st _ a q b s = None"

text \<open>The handlers that write, in the order of \<open>endpoint\<close>.\<close>

fun handle_write :: "site \<Rightarrow> endpoint \<Rightarrow> (string \<Rightarrow> string) \<Rightarrow> http_request \<Rightarrow> json \<Rightarrow> server \<Rightarrow> served" where
  "handle_write st VaultPrepare a rq b s = reply_db (prepareDeposit (st_prepare st) b (s_db s)) s"
| "handle_write st VaultConfirm a rq b s = with_text b ''vaultId'' s (\<lambda>vid. with_text b ''txHash'' s (\<lambda>h.
     reply_db (confirmDeposit (st_sn st) (st_uuid st) (st_now st) (st_waited st h) (st_receipt st h) (st_block_ts st) vid h (s_db s)) s))"
| "handle_write st VaultWithdraw a rq b s = with_text b ''secret'' s (\<lambda>secret. with_text b ''nullifier_hash'' s (\<lambda>n.
     with_text b ''bitcoin_address'' s (\<lambda>addr.
       reply_paid (withdraw_request (st_prove st) (st_withdraw st) secret n addr (s_db s)) s)))"
| "handle_write st HtlcCreate a rq b s =
     (case post_create (st_crypto st) (st_bytes31 st) (st_uuid st) (st_now st) (st_zod st) b (s_htlcs s) of
        (r, t) \<Rightarrow> reply r (s\<lparr>s_htlcs := t\<rparr>))"
| "handle_write st HtlcClaim a rq b s =
     (case post_claim (st_call st) (st_crypto st) (st_zod st) b (s_locks s) (s_htlcs s) of
        (r, l, t) \<Rightarrow> reply r (s\<lparr>s_locks := l, s_htlcs := t\<rparr>))"
| "handle_write st HtlcRefund a rq b s =
     (case post_refund (st_call st) (st_now st) (st_zod st) b (s_locks s) (s_htlcs s) of
        (r, l, t) \<Rightarrow> reply r (s\<lparr>s_locks := l, s_htlcs := t\<rparr>))"
| "handle_write st CommitmentDeposit a rq b s = reply_db (post_deposit (st_deposit st) b (s_db s)) s"
| "handle_write st BridgeBroadcast a rq b s = (case post_broadcast (st_send st) b of (p, r) \<Rightarrow> reply_paid (p, r, s_db s) s)"
| "handle_write st BridgeSpvDeposit a rq b s = reply_db (post_spv_deposit (st_spv st) b (s_db s)) s"
| "handle_write st SharpSubmit a rq b s =
     (case post_submit (st_sharp st) (rq_type rq) b (s_proofs s) of (r, t) \<Rightarrow> reply r (s\<lparr>s_proofs := t\<rparr>))"
| "handle_write st SharpStatus a rq b s =
     (case get_sharp_status (st_sharp st) (a ''jobKey'') (s_proofs s) of (r, t) \<Rightarrow> reply r (s\<lparr>s_proofs := t\<rparr>))"
| "handle_write st ProofVerify a rq b s = with_text0 b ''vaultId'' s (\<lambda>vid. with_text0 b ''randomness'' s (\<lambda>rnd.
     with_text0 b ''ownerAddress'' s (\<lambda>owner. reply (post_verify_withdraw (st_verify st) vid rnd owner (s_db s)) s)))"
| "handle_write st WithdrawExecute a rq b s = with_text b ''vaultId'' s (\<lambda>vid. with_text b ''proofToken'' s (\<lambda>token.
     with_text b ''txHash'' s (\<lambda>h.
       reply_db (withdrawExecute (st_jwt st) (st_sn st) (st_uuid st) (st_now st) (st_waited st h) (st_receipt st h) vid token h (s_db s)) s)))"
| "handle_write st AuditVerify a rq b s = reply_db (auditVerify (st_live st) (s_db s)) s"
| "handle_write st DebugTravel a rq b s = with_text0 b ''vaultId'' s (\<lambda>vid. reply_db (timeTravel (st_now st) vid (s_db s)) s)"
| "handle_write st DebugForce a rq b s = with_text0 b ''authId'' s (\<lambda>i.
     reply_paid (forceWithdrawal (st_now st) (st_covenant st) i (s_db s)) s)"
| "handle_write st _ a rq b s = ([], NoAnswer, s)"

definition handle :: "site \<Rightarrow> endpoint \<Rightarrow> (string \<Rightarrow> string) \<Rightarrow> http_request \<Rightarrow> json \<Rightarrow> server \<Rightarrow> served" where
  "handle st e a rq b s = (case handle_read st e a (rq_query rq) b s of
     Some (Inr r) \<Rightarrow> reply r s | Some (Inl _) \<Rightarrow> ([], NoAnswer, s) | None \<Rightarrow> handle_write st e a rq b s)"

section \<open>A request\<close>

text \<open>The first middleware that answers instead of calling \<open>next\<close>.\<close>

definition refusal :: "site \<Rightarrow> (string \<times> string) list \<Rightarrow> http_request \<Rightarrow> json \<Rightarrow> middleware \<Rightarrow> response option" where
  "refusal st ps rq b m = (case m of
     Limit l \<Rightarrow> if st_limit st l then None else Some (too_many l)
   | Fields fs \<Rightarrow> validateBody fs (rq_method rq) (rq_type rq) (Some b)
   | TxHash \<Rightarrow> validateTxHash (Some b) (map_of ps ''txHash''))"

fun first_refusal :: "site \<Rightarrow> (string \<times> string) list \<Rightarrow> http_request \<Rightarrow> json \<Rightarrow> middleware list \<Rightarrow> response option" where
  "first_refusal st ps rq b [] = None"
| "first_refusal st ps rq b (m # ms) =
     (case refusal st ps rq b m of Some r \<Rightarrow> Some r | None \<Rightarrow> first_refusal st ps rq b ms)"

definition serve_parsed :: "site \<Rightarrow> http_request \<Rightarrow> json \<Rightarrow> server \<Rightarrow> served" where
  "serve_parsed st rq b s =
     (if \<not> st_limit st General then reply (too_many General) s
      else (case List.find (route_ok (st_path st) (rq_method rq) (rq_path rq)) (app_routes (st_config st)) of
          None \<Rightarrow> reply (notFound (rq_method rq) (rq_url rq)) s
        | Some (v, p, ms, e) \<Rightarrow> let ps = path_args p (rq_path rq) in
            (case first_refusal st ps rq b ms of
               Some r \<Rightarrow> reply r s
             | None \<Rightarrow> handle st e (\<lambda>x. the (map_of ps x)) rq b s)))"

text \<open>\<open>express.json\<close> comes before the general limiter; its errors go to \<open>errorHandler\<close>.\<close>

definition serve :: "site \<Rightarrow> http_request \<Rightarrow> server \<Rightarrow> served" where
  "serve st rq s =
     (if rq_method rq = ''OPTIONS'' then ([], Outside, s)
      else (case rq_body rq of Inl e \<Rightarrow> reply (errorHandler e) s | Inr b \<Rightarrow> serve_parsed st rq b s))"

section \<open>The server and its background jobs\<close>

text \<open>
  A request served in one piece, a poll of the processor, the synchronisation at the start, and one turn
  of a request or a job whose other turns come earlier or later.
\<close>

datatype server_event =
    Request site http_request
  | Poll proc_config "string \<Rightarrow> proc_env"
  | StartSync "string \<Rightarrow> live_receipt res"
  | Interleaved turn

fun server_step :: "server_event \<Rightarrow> server \<Rightarrow> server" where
  "server_step (Request st rq) s = snd (snd (serve st rq s))"
| "server_step (Poll cfg envs) s = s\<lparr>s_db := snd (processAuthorizations cfg envs (s_db s))\<rparr>"
| "server_step (StartSync rpc) s = s\<lparr>s_db := autoSync rpc (s_db s)\<rparr>"
| "server_step (Interleaved t) s = s\<lparr>s_db := do_turn t (s_db s)\<rparr>"

definition server_run :: "server_event list \<Rightarrow> server \<Rightarrow> server" where
  "server_run es s = fold server_step es s"

section \<open>Lemmas\<close>

lemma reply_simps [simp]:
  "snd (snd (reply r s)) = s" "s_db (snd (snd (reply_db p s))) = snd p" "s_db (snd (snd (reply_paid q s))) = snd (snd q)"
  by (simp_all add: reply_def reply_db_def reply_paid_def split: prod.split)

lemma with_text_reaches:
  assumes "\<And>x. reaches d (s_db (snd (snd (f x))))" and "s_db s = d"
  shows "reaches d (s_db (snd (snd (with_text b k s f))))" "reaches d (s_db (snd (snd (with_text0 b k s f))))"
  using assms by (auto simp: with_text_def with_text0_def split: option.split json.split)

lemma handle_write_reaches: "reaches (s_db s) (s_db (snd (snd (handle_write st e a rq b s))))"
  by (cases e) (auto intro!: with_text_reaches reaches_prepare reaches_confirm reaches_withdraw reaches_deposit reaches_spv
      reaches_execute reaches_audit reaches_travel reaches_force split: prod.split)

lemma handle_reaches: "reaches (s_db s) (s_db (snd (snd (handle st e a rq b s))))"
  by (auto simp: handle_def handle_write_reaches split: option.split sum.split)

lemma serve_reaches: "reaches (s_db s) (s_db (snd (snd (serve st rq s))))"
  by (auto simp: serve_def serve_parsed_def handle_reaches Let_def split: option.split sum.split)

lemma step_reaches: "reaches (s_db s) (s_db (server_step e s))"
proof (cases e)
  case (Poll cfg envs)
  then show ?thesis using reaches_process [of cfg "[envs]" "s_db s"] by (auto split: prod.splits) (metis surjective_pairing)
next
  case (Interleaved t)
  then show ?thesis using reaches_turn [OF refl] by simp
qed (simp_all add: serve_reaches reaches_sync)

lemma run_reaches: "reaches (s_db s) (s_db (server_run es s))"
proof (induction es arbitrary: s)
  case (Cons e es)
  then show ?case using step_reaches [of s e] by (auto simp: server_run_def intro: reaches_trans)
qed (simp add: server_run_def)

text \<open>Which route takes a request, by evaluating the table under the laws of the paths.\<close>

definition routed :: "env_config \<Rightarrow> string \<Rightarrow> string list \<Rightarrow> route option \<Rightarrow> bool" where
  "routed cfg m path r \<longleftrightarrow> (\<forall>match. express_paths match \<longrightarrow> List.find (route_ok match m path) (app_routes cfg) = r)"

lemmas route_tables = app_routes_def mount_def vault_routes_def htlc_routes_def commitment_routes_def bridge_routes_def
  sharp_routes_def withdraw_routes_def transactions_routes_def audit_routes_def debug_routes_def

lemma routed_execute: "routed cfg ''POST'' [''api'', ''withdraw'', ''execute'']
    (Some (Post, [Lit ''api'', Lit ''withdraw'', Lit ''execute''],
      [Limit Strict, Fields [''vaultId'', ''proofToken'', ''txHash''], TxHash], WithdrawExecute))"
  by (simp add: routed_def route_tables route_ok_def express_paths_def to_lower_def lower_char_def Let_def char_code_def)

lemma lit_eval: "express_paths match \<Longrightarrow> match (Lit l) s \<longleftrightarrow> to_lower l = to_lower s"
    "express_paths match \<Longrightarrow> s \<noteq> [] \<Longrightarrow> match (Par x) s"
  by (auto simp: express_paths_def)

lemmas route_eval = routed_def route_tables route_ok_def lit_eval to_lower_def lower_char_def Let_def char_code_def

lemma routed_broadcast: "routed cfg ''POST'' [''api'', ''bridge'', ''broadcast'']
    (Some (Post, [Lit ''api'', Lit ''bridge'', Lit ''broadcast''], [], BridgeBroadcast))"
  by (simp add: route_eval)

lemma routed_withdraw: "routed cfg ''POST'' [''api'', ''vault'', ''withdraw'']
    (Some (Post, [Lit ''api'', Lit ''vault'', Lit ''withdraw''],
      [Limit Strict, Fields [''secret'', ''nullifier_hash'', ''bitcoin_address'']], VaultWithdraw))"
  by (simp add: route_eval)

lemma routed_get_list: "x \<in> {''prepare-deposit'', ''confirm-deposit''} \<Longrightarrow> m \<in> {''GET'', ''HEAD''} \<Longrightarrow>
    routed cfg m [''api'', ''vault'', x] (Some (Get, [Lit ''api'', Lit ''vault'', Par ''address''], [], VaultList))"
  by (elim insertE emptyE; hypsubst; simp add: route_eval)

lemma routed_any_list: "x \<in> {''prepare-deposit'', ''confirm-deposit''} \<Longrightarrow> m \<notin> {''GET'', ''HEAD'', ''POST''} \<Longrightarrow>
    routed cfg m [''api'', ''vault'', x] (Some (Any, [Lit ''api'', Lit ''vault'', Lit x], [], NotAllowed))"
  by (elim insertE emptyE; hypsubst; simp add: route_eval)

lemma routed_vault_deposit:
  "routed cfg m [''api'', ''vault'', ''deposit''] (Some (Any, [Lit ''api'', Lit ''vault'', Lit ''deposit''], [], NotAllowed))"
  by (simp add: route_eval)

lemma routed_commitment_deposit: "m \<noteq> ''POST'' \<Longrightarrow> routed cfg m [''api'', ''commitment'', ''deposit''] None"
  by (simp add: route_eval)

lemma routed_debug: "\<not> debug_mounted cfg \<Longrightarrow> routed cfg m (''api'' # ''debug'' # p) None"
  by (simp add: route_eval)

lemma serve_routed:
  assumes "routed (st_config st) m path (Some (v, p, ms, e))" and "express_paths (st_path st)"
    and "st_limit st General" and "rq_method rq = m" "m \<noteq> ''OPTIONS''" and "rq_path rq = path" and "rq_body rq = Inr b"
  shows "serve st rq s = (case first_refusal st (path_args p path) rq b ms of
     Some r \<Rightarrow> reply r s | None \<Rightarrow> handle st e (\<lambda>x. the (map_of (path_args p path) x)) rq b s)"
  using assms by (simp add: routed_def serve_def serve_parsed_def Let_def)

lemma serve_unrouted:
  assumes "routed (st_config st) m path None" and "express_paths (st_path st)"
    and "st_limit st General" and "rq_method rq = m" "m \<noteq> ''OPTIONS''" and "rq_path rq = path" and "rq_body rq = Inr b"
  shows "serve st rq s = reply (notFound m (rq_url rq)) s"
  using assms by (simp add: routed_def serve_def serve_parsed_def)

text \<open>A refusal is never an answer of 200.\<close>

lemma refused_code: "first_refusal st ps rq b ms = Some r \<Longrightarrow> code r \<noteq> 200"
  by (induction ms)
     (auto simp: refusal_def too_many_def validateBody_def validateTxHash_def Let_def
       split: middleware.splits if_splits option.splits json.splits)

lemma serve_execute:
  assumes "express_paths (st_path st)" "rq_method rq = ''POST''" "rq_path rq = [''api'', ''withdraw'', ''execute'']"
    and "rq_body rq = Inr b" "json_field b ''proofToken'' = Some (JStr token)"
    and "serve st rq s = (ps, Answer r, s')" "code r = 200"
  shows "\<exists>vid h. withdrawExecute (st_jwt st) (st_sn st) (st_uuid st) (st_now st) (st_waited st h) (st_receipt st h) vid token h (s_db s)
     = (r, s_db s')"
proof -
  have g: "st_limit st General" using assms(2,4,6,7) by (auto simp: serve_def serve_parsed_def reply_def too_many_def split: if_splits)
  note sr = serve_routed [OF routed_execute assms(1) g assms(2) _ assms(3,4)]
  show ?thesis
  proof (cases "first_refusal st (path_args [Lit ''api'', Lit ''withdraw'', Lit ''execute''] [''api'', ''withdraw'', ''execute'']) rq b
      [Limit Strict, Fields [''vaultId'', ''proofToken'', ''txHash''], TxHash]")
    case (Some x)
    then show ?thesis using sr [of s] refused_code [OF Some] assms(6,7) by (simp add: assms(2,3) reply_def del: first_refusal.simps)
  next
    case None
    then show ?thesis using sr [of s] assms(5,6)
      by (auto simp: assms(2,3) handle_def with_text_def reply_db_def simp del: first_refusal.simps split: option.splits json.splits)
  qed
qed

lemma run_advances: "db_advances (s_db s) (s_db (server_run es s))"
  by (rule reaches_advances) (rule run_reaches)

section \<open>A site\<close>

definition demo_path :: "seg \<Rightarrow> string \<Rightarrow> bool" where
  "demo_path g s = (case g of Lit l \<Rightarrow> to_lower l = to_lower s | Par _ \<Rightarrow> s \<noteq> [])"

definition demo_site :: site where
  "demo_site = \<lparr>st_path = demo_path, st_limit = (\<lambda>l. l \<noteq> Strict), st_config = env_parse (\<lambda>_. True) demo_environ,
     st_now = 5, st_now_ms = 5000, st_uuid = ''t'', st_block = Inr 7, st_vault_up = Inr True, st_token_up = Inr True,
     st_db_up = True, st_circuit = JNull, st_relay = \<lparr>rs_running = True, rs_lastRelayedHeight = None, rs_pollIntervalMs = 30000\<rparr>,
     st_prepare = demo_prepare, st_sn = demo_cfg_sn, st_waited = (\<lambda>_. Inr demo_deposit_receipt),
     st_receipt = (\<lambda>_. Inr (demo_deposit_receipt\<lparr>rc_events := [\<lparr>from_address = ''0x1'', keys = [], data = [''n'']\<rparr>]\<rparr>)),
     st_block_ts = Some 3, st_balance = (\<lambda>_. Inr 0), st_on_chain = (\<lambda>_. True), st_withdraw = demo_withdraw_env,
     st_prove = (\<lambda>_ _ _. True), st_crypto = demo_lib, st_bytes31 = replicate 31 7, st_call = 1, st_zod = ''invalid'',
     st_deposit = \<lparr>de_cl = demo_lib, de_salt = replicate 32 7, de_rand = replicate 31 7, de_iv = replicate 12 7,
       de_now_ms = 5000, de_account = ''0x5'', de_execute = (\<lambda>_ _. Inr ''0x5''), de_wait = (\<lambda>_. Inr ())\<rparr>,
     st_signet = demo_signet, st_address = Inr ''tb1q'', st_verify_tx = (\<lambda>_. HttpOk JNull), st_tip = HttpOk ''5'',
     st_sender = Some ''tb1q'', st_utxos = (\<lambda>_. HttpOk [60000]),
     st_send = (\<lambda>n. (Some \<lparr>p_inputs = [demo_coin 60000], p_outputs = [\<lparr>o_address = ''tb1p'', o_value = n\<rparr>]\<rparr>, Inr ''t'')),
     st_explorer = demo_explorer, st_script = None, st_stored = (\<lambda>_. True), st_spv = demo_spv, st_sharp = demo_sharp demo_proved,
     st_verify = demo_verify,
     st_jwt = (\<lambda>_. TokenOk \<lparr>tp_vaultId = ''v'', tp_commitment = ''0xc'', tp_nullifierHash = ''n'', tp_ownerAddress = ''0x1''\<rparr>),
     st_live = (\<lambda>_. Inr \<lparr>execution_status = Some ''SUCCEEDED'', finality_status = None\<rparr>), st_reach = (\<lambda>_. True),
     st_min_set = None, st_covenant_status = Inr (getCovenantStatus demo_env), st_covenant = demo_env\<rparr>"

definition demo_rq :: "string list \<Rightarrow> (string \<times> json) list \<Rightarrow> http_request" where
  "demo_rq path fs = \<lparr>rq_method = ''POST'', rq_url = ''/'', rq_path = path, rq_query = (\<lambda>_. None),
     rq_type = Some ''application/json'', rq_body = Inr (JObj fs)\<rparr>"

definition demo_server :: "db \<Rightarrow> server" where
  "demo_server d = \<lparr>s_db = d, s_locks = init_locks, s_htlcs = [], s_commitments = [], s_proofs = []\<rparr>"

definition demo_hash :: string where
  "demo_hash = ''0x'' @ replicate 64 (CHR ''1'')"

definition open_site :: site where
  "open_site = demo_site\<lparr>st_limit := \<lambda>_. True\<rparr>"

definition demo_execute_rq :: http_request where
  "demo_execute_rq = demo_rq [''api'', ''withdraw'', ''execute'']
     [(''vaultId'', JStr ''v''), (''proofToken'', JStr ''token''), (''txHash'', JStr demo_hash)]"

lemma demo_paths: "express_paths (st_path demo_site)" "express_paths (st_path open_site)"
  by (auto simp: express_paths_def demo_site_def open_site_def demo_path_def)

lemma demo_rq_simps [simp]: "rq_method (demo_rq p fs) = ''POST''" "rq_path (demo_rq p fs) = p" "rq_body (demo_rq p fs) = Inr (JObj fs)"
    "rq_type (demo_rq p fs) = Some ''application/json''" "(demo_rq p fs)\<lparr>rq_path := p'\<rparr> = demo_rq p' fs"
  by (simp_all add: demo_rq_def)

lemma demo_server_simps [simp]: "s_db (demo_server d) = d"
  by (simp add: demo_server_def)

lemma demo_hash_ok: "hex_0x 63 64 demo_hash" "34 \<le> length demo_hash" "starts_with demo_hash ''0x''" "length (trim demo_hash) \<noteq> 0"
    "like_prefix ''0x'' demo_hash"
  by code_simp+

lemma demo_execute_accepted:
  "first_refusal open_site [] demo_execute_rq (JObj [(''vaultId'', JStr ''v''), (''proofToken'', JStr ''token''), (''txHash'', JStr demo_hash)])
     [Limit Strict, Fields [''vaultId'', ''proofToken'', ''txHash''], TxHash] = None"
proof -
  have "str_includes ''application/json'' ''application/json''" "length (trim ''v'') \<noteq> 0" "length (trim ''token'') \<noteq> 0"
    by code_simp+
  then show ?thesis
    using demo_hash_ok
    by (simp add: refusal_def open_site_def demo_execute_rq_def validateBody_def truthy_json_def no_keys_def field_error_def
        json_field_def validateTxHash_def Let_def)
qed

lemma open_site_simps [simp]:
  "st_sn open_site = demo_cfg_sn" "st_uuid open_site = ''t''" "st_now open_site = 5" "st_limit open_site l"
  "st_waited open_site h = Inr demo_deposit_receipt"
  "st_receipt open_site h = Inr (demo_deposit_receipt\<lparr>rc_events := [\<lparr>from_address = ''0x1'', keys = [], data = [''n'']\<rparr>]\<rparr>)"
  "st_jwt open_site k = TokenOk \<lparr>tp_vaultId = ''v'', tp_commitment = ''0xc'', tp_nullifierHash = ''n'', tp_ownerAddress = ''0x1''\<rparr>"
  by (simp_all add: open_site_def demo_site_def)

lemma demo_execute_db:
  "\<exists>r d. withdrawExecute (st_jwt open_site) demo_cfg_sn ''t'' 5 (Inr demo_deposit_receipt) (st_receipt open_site demo_hash)
       ''v'' ''token'' demo_hash demo_db = (r, d) \<and> code r = 200 \<and> n_nullifier_hash ` set (nullifiers d) = {''n''}"
proof -
  have h: "tx_hash_ok demo_hash" "\<not> length demo_hash < 34" "like_prefix ''0x'' demo_hash" by code_simp+
  obtain d where s: "execute_store ''t'' 5 ''v'' ''n'' demo_hash demo_deposit_receipt demo_vault demo_db = Inr d"
      "n_nullifier_hash ` set (nullifiers d) = {''n''}"
    using h by (simp add: execute_store_def demo_db_def demo_vault_def insert_nullifier_def insert_transaction_def table_eval
        del: like_prefix_def tx_hash_ok_def to_lower_def)
  have st: "execute_start (st_jwt open_site) ''v'' ''token'' demo_db
      = Inr (\<lparr>tp_vaultId = ''v'', tp_commitment = ''0xc'', tp_nullifierHash = ''n'', tp_ownerAddress = ''0x1''\<rparr>, demo_vault)"
    by (simp add: execute_start_def demo_db_def demo_vault_def row_by_def empty_db_def)
  have "verifyWithdrawalEvent demo_cfg_sn (st_receipt open_site demo_hash) ''n'' = Inr True"
    by (simp add: verifyWithdrawalEvent_def norm_hex_def demo_cfg_sn_def demo_deposit_receipt_def)
  then show ?thesis using s st by (simp add: withdrawExecute_def execute_finish_def)
qed

lemma demo_executed:
  "\<exists>r s'. serve open_site demo_execute_rq (demo_server demo_db) = ([], Answer r, s') \<and> code r = 200
     \<and> n_nullifier_hash ` set (nullifiers (s_db s')) = {''n''}"
proof -
  obtain r d where x: "withdrawExecute (st_jwt open_site) demo_cfg_sn ''t'' 5 (Inr demo_deposit_receipt) (st_receipt open_site demo_hash) ''v'' ''token'' demo_hash demo_db = (r, d)" "code r = 200"
      "n_nullifier_hash ` set (nullifiers d) = {''n''}"
    using demo_execute_db by (elim exE conjE) (rule that)
  have "serve open_site demo_execute_rq (demo_server demo_db) = ([], Answer r, (demo_server demo_db)\<lparr>s_db := d\<rparr>)"
    using serve_routed [OF routed_execute demo_paths(2), of demo_execute_rq _ "demo_server demo_db"] demo_execute_accepted x(1)
    by (simp add: demo_execute_rq_def handle_def with_text_def json_field_def reply_db_def del: first_refusal.simps)
  then show ?thesis using x by simp
qed

section \<open>Properties\<close>

text \<open>
  C2. The server's history: whatever requests, polls and start-up jobs it runs, in whatever interleaving
  of their turns, with whatever answers of the world around it, the constraints of the database hold, every
  completed authorization has its Bitcoin transaction, the lists of spent nullifiers and of transactions
  only grow, no vault loses its owner, commitment, amount, term, burn or nullifier, and no authorization
  changes its terms or loses its payout.
\<close>

theorem server_history:
  assumes "schema_ok (s_db s)" and "list_all evidence (auths (s_db s))" and "d = s_db s" and "d' = s_db (server_run es s)"
  shows "schema_ok d' \<and> list_all evidence (auths d')
     \<and> (\<exists>ns. nullifiers d' = nullifiers d @ ns) \<and> (\<exists>ts. transactions d' = transactions d @ ts)
     \<and> (\<forall>v \<in> set (vaults d). \<exists>w \<in> set (vaults d'). vault_kept v w)
     \<and> (\<forall>a \<in> set (auths d). \<exists>b \<in> set (auths d'). auth_kept a b)"
proof -
  have "db_advances d d'" using run_advances assms(3,4) by simp
  then have a: "schema_ok d'" "list_all evidence (auths d')" "kept d d'" using assms by (auto simp: db_advances_def)
  have "(\<exists>ns. nullifiers d' = nullifiers d @ ns) \<and> (\<exists>ts. transactions d' = transactions d @ ts)"
    using a(3) by (simp add: kept_def grows_eq)
  moreover have "grows vault_kept (vaults d) (vaults d')" "grows auth_kept (auths d) (auths d')"
    using a(3) by (simp_all add: kept_def)
  ultimately show ?thesis using a(1,2) grows_in [of vault_kept] grows_in [of auth_kept] by blast
qed

theorem server_history_witness:
  "\<exists>d'. s_db (server_run [Request open_site demo_execute_rq, Poll demo_cfg (\<lambda>_. demo_proc)] (demo_server demo_db)) = d' \<and> schema_ok d'
     \<and> (\<exists>ns. nullifiers d' = nullifiers demo_db @ ns) \<and> (\<exists>w \<in> set (vaults d'). vault_kept demo_vault w)"
proof -
  have "list_all evidence (auths (s_db (demo_server demo_db)))" "demo_vault \<in> set (vaults demo_db)"
    by (simp_all add: demo_db_def empty_db_def)
  then show ?thesis
    using server_history [of "demo_server demo_db" _ _ "[Request open_site demo_execute_rq, Poll demo_cfg (\<lambda>_. demo_proc)]"] schema_demo
    by fastforce
qed

text \<open>
  C17. Spent for good: once a nullifier is in the table, no request to execute with a token for it is ever
  answered with 200, whatever the server has done in between.
\<close>

theorem spent_stays_spent:
  assumes "schema_ok (s_db s)" and "n \<in> n_nullifier_hash ` set (nullifiers (s_db s))" and "express_paths (st_path st)"
    and "rq_method rq = ''POST''" and "rq_path rq = [''api'', ''withdraw'', ''execute'']"
    and "rq_body rq = Inr b" and "json_field b ''proofToken'' = Some (JStr token)"
    and "st_jwt st token = TokenOk tp" and "tp_nullifierHash tp = n"
    and "serve st rq (server_run es s) = (ps, Answer r, s')"
  shows "code r \<noteq> 200"
proof
  assume "code r = 200"
  then obtain vid h where "withdrawExecute (st_jwt st) (st_sn st) (st_uuid st) (st_now st) (st_waited st h) (st_receipt st h)
      vid token h (s_db (server_run es s)) = (r, s_db s')"
    using serve_execute [OF assms(3-7,10)] by blast
  then show False
  proof (cases rule: withdrawExecute_cases)
    case (executed tp' v rc)
    have "kept (s_db s) (s_db (server_run es s))" using run_advances by (simp add: db_advances_def)
    then have "n \<in> n_nullifier_hash ` set (nullifiers (s_db (server_run es s)))"
      using assms(2) by (auto simp: kept_def grows_eq)
    moreover have "schema_ok (s_db (server_run es s))" using run_advances assms(1) by (simp add: db_advances_def)
    ultimately show False
      using execute_store_spec(2) [OF _ executed(4,8)] executed(2) assms(8,9) by auto
  qed (use \<open>code r = 200\<close> in simp)
qed

theorem spent_stays_spent_witness:
  "\<exists>s r s'. s = server_step (Request open_site demo_execute_rq) (demo_server demo_db)
     \<and> serve open_site demo_execute_rq (server_run [StartSync (\<lambda>_. Inl (Error []))] s) = ([], Answer r, s') \<and> code r \<noteq> 200"
proof -
  obtain q s where s: "serve open_site demo_execute_rq (demo_server demo_db) = ([], Answer q, s)"
      "n_nullifier_hash ` set (nullifiers (s_db s)) = {''n''}"
    using demo_executed by (elim exE conjE) (rule that)
  have e: "s = server_run [Request open_site demo_execute_rq] (demo_server demo_db)" by (simp add: server_run_def s(1))
  then have ok: "schema_ok (s_db s)" using run_advances schema_demo by (simp add: db_advances_def)
  let ?s = "server_run [StartSync (\<lambda>_. Inl (Error []))] s"
  obtain r s' where r: "serve open_site demo_execute_rq ?s = ([], Answer r, s')"
    using serve_routed [OF routed_execute demo_paths(2), of demo_execute_rq _ ?s] demo_execute_accepted
    by (simp add: demo_execute_rq_def handle_def with_text_def json_field_def reply_db_def del: first_refusal.simps)
  have "code r \<noteq> 200"
    by (rule spent_stays_spent [OF ok _ demo_paths(2) _ _ _ _ open_site_simps(7) _ r,
          where n = "''n''" and token = "''token''"
          and b = "JObj [(''vaultId'', JStr ''v''), (''proofToken'', JStr ''token''), (''txHash'', JStr demo_hash)]"])
       (simp_all add: s(2) demo_execute_rq_def json_field_def)
  then show ?thesis using r e by (auto simp: server_run_def)
qed

text \<open>
  What is not there: a request that no route takes. A \<open>GET\<close> of the two routes of a deposit is answered as a
  list of vaults, with 400, not with 405 (any other method is, and so is every request to
  \<open>/api/vault/deposit\<close>, which has no handler); a \<open>GET\<close> of \<open>/api/commitment/deposit\<close> with 404; and outside
  development the debug routes do not exist.
\<close>

theorem wrong_method_answers:
  assumes "express_paths (st_path st)" "st_limit st General" "rq_body rq = Inr b" "rq_method rq = m" "m \<notin> {''POST'', ''OPTIONS''}"
    and served: "served = (\<lambda>path. serve st (rq\<lparr>rq_path := path\<rparr>) s)"
    and missing: "missing = reply (notFound m (rq_url rq)) s"
  shows "(\<forall>x \<in> {''prepare-deposit'', ''confirm-deposit''}. served [''api'', ''vault'', x] =
        reply (if m \<in> {''GET'', ''HEAD''} then fail_with 400 ''Invalid Starknet address'' else methodNotAllowed) s)
     \<and> served [''api'', ''vault'', ''deposit''] = reply methodNotAllowed s
     \<and> served [''api'', ''commitment'', ''deposit''] = missing
     \<and> (debug_mounted (st_config st) \<or> served (''api'' # ''debug'' # p) = missing)"
proof -
  have nf: "served path = missing" if "routed (st_config st) m path None" for path
    using serve_unrouted [OF that assms(1,2), of "rq\<lparr>rq_path := path\<rparr>" b s] assms(3-5) by (simp add: served missing)
  have na: "served path = reply methodNotAllowed s" if "routed (st_config st) m path (Some (v, p, [], NotAllowed))" for path v p
    using serve_routed [OF that assms(1,2), of "rq\<lparr>rq_path := path\<rparr>" b s] assms(3-5) by (simp add: served handle_def)
  have li: "served [''api'', ''vault'', x] = reply (fail_with 400 ''Invalid Starknet address'') s"
    if "x \<in> {''prepare-deposit'', ''confirm-deposit''}"
      "routed (st_config st) m [''api'', ''vault'', x] (Some (Get, [Lit ''api'', Lit ''vault'', Par ''address''], [], VaultList))" for x
  proof -
    have "\<not> isValidAddress ''prepare-deposit''" "\<not> isValidAddress ''confirm-deposit''" by code_simp+
    then show ?thesis using that(1)
      serve_routed [OF that(2) assms(1,2), of "rq\<lparr>rq_path := [''api'', ''vault'', x]\<rparr>" b s] assms(3-5)
      by (auto simp: served handle_def listVaults_def)
  qed
  have "served [''api'', ''vault'', x] =
      reply (if m \<in> {''GET'', ''HEAD''} then fail_with 400 ''Invalid Starknet address'' else methodNotAllowed) s"
    if x: "x \<in> {''prepare-deposit'', ''confirm-deposit''}" for x
  proof (cases "m \<in> {''GET'', ''HEAD''}")
    case True
    then show ?thesis using li [OF x] routed_get_list [OF x] by simp
  next
    case False
    then have "m \<notin> {''GET'', ''HEAD'', ''POST''}" using assms(5) by simp
    then show ?thesis using na [OF routed_any_list [OF x]] False by simp
  qed
  moreover have "served [''api'', ''vault'', ''deposit''] = reply methodNotAllowed s"
    by (rule na [OF routed_vault_deposit])
  moreover have "served [''api'', ''commitment'', ''deposit''] = missing"
    using assms(5) by (intro nf routed_commitment_deposit) simp
  moreover have "served (''api'' # ''debug'' # p) = missing" if "\<not> debug_mounted (st_config st)"
    using that by (intro nf routed_debug)
  ultimately show ?thesis by blast
qed

theorem wrong_method_answers_witness:
  "serve demo_site (demo_rq [''api'', ''vault'', ''prepare-deposit''] []\<lparr>rq_method := ''GET''\<rparr>) (demo_server demo_db)
     = reply (fail_with 400 ''Invalid Starknet address'') (demo_server demo_db)"
proof -
  have "demo_rq p fs\<lparr>rq_method := m, rq_path := q\<rparr> = demo_rq q fs\<lparr>rq_method := m\<rparr>" for p q fs m
    by (simp add: demo_rq_def)
  then show ?thesis
    using wrong_method_answers [OF demo_paths(1), of "demo_rq [] []\<lparr>rq_method := ''GET''\<rparr>" "JObj []" "''GET''" _ "demo_server demo_db"]
    by (simp add: demo_site_def)
qed

text \<open>
  C9. The transfer that is not limited: a request to \<open>/api/bridge/broadcast\<close> passes no strict limiter and no
  check of who asks; it spends the hot wallet's bitcoins, the amount of its body as \<open>st_send\<close> builds it,
  while the strict limiter refuses the same client's withdrawal.
\<close>

theorem broadcast_unlimited:
  assumes "express_paths (st_path st)" "st_limit st General" "\<not> st_limit st Strict" "rq_body rq = Inr b" "rq_method rq = ''POST''"
    and "json_field b ''amount'' = Some (JStr a)" "a \<noteq> []" "parseFloat a = Some x"
    and "st_send st (math_round (mul x (10 ^ 8))) = (Some p, Inr t)"
  shows "\<exists>r. serve st (rq\<lparr>rq_path := [''api'', ''bridge'', ''broadcast'']\<rparr>) s = ([p], Answer r, s) \<and> code r = 200
     \<and> serve st (rq\<lparr>rq_path := [''api'', ''vault'', ''withdraw'']\<rparr>) s = reply (too_many Strict) s"
proof -
  let ?q = "rq\<lparr>rq_path := [''api'', ''bridge'', ''broadcast'']\<rparr>" and ?w = "rq\<lparr>rq_path := [''api'', ''vault'', ''withdraw'']\<rparr>"
  have "serve st ?w s = reply (too_many Strict) s"
    using serve_routed [OF routed_withdraw assms(1,2), of ?w b s] assms(3-5) by (simp add: refusal_def)
  moreover have "serve st ?q s = handle st BridgeBroadcast (\<lambda>x. the (map_of [] x)) ?q b s"
    using serve_routed [OF routed_broadcast assms(1,2), of ?q b s] assms(4,5) by simp
  ultimately show ?thesis
    using assms(6-9) by (simp add: handle_def post_broadcast_def truthy_json_def reply_paid_def)
qed

theorem broadcast_unlimited_witness:
  "\<exists>p r. serve demo_site (demo_rq [''api'', ''bridge'', ''broadcast''] [(''amount'', JStr ''0.01'')]) (demo_server demo_db) = ([p], Answer r, demo_server demo_db)
     \<and> p_outputs p = [\<lparr>o_address = ''tb1p'', o_value = 1000000\<rparr>]"
proof -
  have p: "parseFloat ''0.01'' = Some (fl (1 / 100))" "math_round (mul (fl (1 / 100)) (10 ^ 8)) = 1000000" by code_simp+
  show ?thesis
    using broadcast_unlimited [OF demo_paths(1), of "demo_rq [] [(''amount'', JStr ''0.01'')]" _ "''0.01''" _ _ _ "demo_server demo_db"] p
    by (fastforce simp: demo_site_def json_field_def)
qed

end
