(* ===== verification/View.thy ===== *)
theory View
  imports Client
begin

text \<open>
  What a page shows, as a list of elements in the order of the markup: headings, texts, links, input
  fields, bars and buttons. A button carries its label, whether it is disabled, and the action of its
  handler; a field the action of its change handler, of the text typed. Inline emphasis is part of the
  text around it; colours, icons and spacing are left out. What React makes of a value between braces
  is \<open>jsx\<close>.
\<close>

datatype 'a element =
    Heading string
  | Text string
  | Link string string
  | Mark string bool
  | Bar "rat option"
  | Field string string "string \<Rightarrow> 'a"
  | Button string bool 'a

section \<open>What the user can do with it\<close>

fun clickable :: "'a element list \<Rightarrow> 'a list" where
  "clickable [] = []"
| "clickable (Button l off a # es) = (if off then clickable es else a # clickable es)"
| "clickable (e # es) = clickable es"

fun typable :: "'a element list \<Rightarrow> (string \<Rightarrow> 'a) list" where
  "typable [] = []"
| "typable (Field l v f # es) = f # typable es"
| "typable (e # es) = typable es"

fun texts :: "'a element list \<Rightarrow> string list" where
  "texts [] = []"
| "texts (Heading t # es) = t # texts es"
| "texts (Text t # es) = t # texts es"
| "texts (e # es) = texts es"

fun links :: "'a element list \<Rightarrow> (string \<times> string) list" where
  "links [] = []"
| "links (Link l h # es) = (l, h) # links es"
| "links (e # es) = links es"

fun bars :: "'a element list \<Rightarrow> rat option list" where
  "bars [] = []"
| "bars (Bar w # es) = w # bars es"
| "bars (e # es) = bars es"

text \<open>The actions that a page offers: its enabled buttons, and what may be typed into its fields.\<close>

definition offers :: "'a element list \<Rightarrow> 'a \<Rightarrow> bool" where
  "offers es a \<longleftrightarrow> a \<in> set (clickable es) \<or> (\<exists>f \<in> set (typable es). \<exists>t. a = f t)"

text \<open>\<open>{condition && element}\<close>.\<close>

definition shown_if :: "bool \<Rightarrow> 'a element list \<Rightarrow> 'a element list" where
  "shown_if c es = (if c then es else [])"

section \<open>Values between braces\<close>

text \<open>
  \<open>undefined\<close>, \<open>null\<close> and booleans show nothing, an array its members. (An object makes React throw;
  no route sends one where a page shows a value. It stands for the empty text here.)
\<close>

fun jsx_json :: "json \<Rightarrow> string" where
  "jsx_json JNull = []"
| "jsx_json (JBool b) = []"
| "jsx_json (JNum x) = num_str x"
| "jsx_json (JStr s) = s"
| "jsx_json (JArr js) = concat (map jsx_json js)"
| "jsx_json (JObj fs) = []"

definition jsx :: "json option \<Rightarrow> string" where
  "jsx j = (case j of None \<Rightarrow> [] | Some v \<Rightarrow> jsx_json v)"

text \<open>A value where arithmetic takes a number; \<open>None\<close> is \<open>NaN\<close>.\<close>

definition as_number :: "json option \<Rightarrow> rat option" where
  "as_number j = (case j of Some (JNum x) \<Rightarrow> Some x | Some JNull \<Rightarrow> Some 0 | Some (JBool b) \<Rightarrow> Some (if b then 1 else 0)
     | Some (JStr s) \<Rightarrow> number_of_string s | _ \<Rightarrow> None)"

section \<open>Symbols of the texts (UTF-8)\<close>

definition warning_sign :: string where "warning_sign = [CHR 0xE2, CHR 0x9A, CHR 0xA0, CHR 0xEF, CHR 0xB8, CHR 0x8F]"
definition warning_plain :: string where "warning_plain = [CHR 0xE2, CHR 0x9A, CHR 0xA0]"
definition info_sign :: string where "info_sign = [CHR 0xE2, CHR 0x84, CHR 0xB9, CHR 0xEF, CHR 0xB8, CHR 0x8F]"
definition lock_sign :: string where "lock_sign = [CHR 0xF0, CHR 0x9F, CHR 0x94, CHR 0x92]"
definition memo_sign :: string where "memo_sign = [CHR 0xF0, CHR 0x9F, CHR 0x93, CHR 0x9D]"
definition done_sign :: string where "done_sign = [CHR 0xE2, CHR 0x9C, CHR 0x85]"
definition tick_sign :: string where "tick_sign = [CHR 0xE2, CHR 0x9C, CHR 0x93]"
definition cross_sign :: string where "cross_sign = [CHR 0xE2, CHR 0x9C, CHR 0x97]"
definition hourglass :: string where "hourglass = [CHR 0xE2, CHR 0x8F, CHR 0xB3]"
definition again_sign :: string where "again_sign = [CHR 0xE2, CHR 0x86, CHR 0xBA]"
definition busy_sign :: string where "busy_sign = [CHR 0xE2, CHR 0x9F, CHR 0xB3]"
definition out_sign :: string where "out_sign = [CHR 0xE2, CHR 0x86, CHR 0x97]"
definition copy_sign :: string where "copy_sign = [CHR 0xE2, CHR 0xA7, CHR 0x89]"
definition jewel_sign :: string where "jewel_sign = [CHR 0xE2, CHR 0x97, CHR 0x88]"
definition full_dot :: string where "full_dot = [CHR 0xE2, CHR 0x97, CHR 0x8F]"
definition hollow_dot :: string where "hollow_dot = [CHR 0xE2, CHR 0x97, CHR 0x8C]"
definition hexagon :: string where "hexagon = [CHR 0xE2, CHR 0xAC, CHR 0xA1]"
definition bitcoin_sign :: string where "bitcoin_sign = [CHR 0xE2, CHR 0x82, CHR 0xBF]"
definition play_sign :: string where "play_sign = [CHR 0xE2, CHR 0x96, CHR 0xB6]"
definition down_arrow :: string where "down_arrow = [CHR 0xE2, CHR 0x86, CHR 0x93]"
definition up_arrow :: string where "up_arrow = [CHR 0xE2, CHR 0x86, CHR 0x91]"
definition left_arrow :: string where "left_arrow = [CHR 0xE2, CHR 0x86, CHR 0x90]"
definition middle_dot :: string where "middle_dot = [CHR 0xC2, CHR 0xB7]"
definition ellipsis :: string where "ellipsis = [CHR 0xE2, CHR 0x80, CHR 0xA6]"

section \<open>Lemmas\<close>

named_theorems view_simps

lemma clickable_append [simp, view_simps]: "clickable (xs @ ys) = clickable xs @ clickable ys"
  by (induction xs rule: clickable.induct) auto

lemma typable_append [simp, view_simps]: "typable (xs @ ys) = typable xs @ typable ys"
  by (induction xs rule: typable.induct) auto

lemma texts_append [simp, view_simps]: "texts (xs @ ys) = texts xs @ texts ys"
  by (induction xs rule: texts.induct) auto

lemma links_append [simp, view_simps]: "links (xs @ ys) = links xs @ links ys"
  by (induction xs rule: links.induct) auto

lemma bars_append [simp, view_simps]: "bars (xs @ ys) = bars xs @ bars ys"
  by (induction xs rule: bars.induct) auto

lemma clickable_shown_if [simp]: "clickable (shown_if c es) = (if c then clickable es else [])"
  by (simp add: shown_if_def)

lemma typable_shown_if [simp]: "typable (shown_if c es) = (if c then typable es else [])"
  by (simp add: shown_if_def)

lemma texts_shown_if [simp]: "texts (shown_if c es) = (if c then texts es else [])"
  by (simp add: shown_if_def)

lemma links_shown_if [simp]: "links (shown_if c es) = (if c then links es else [])"
  by (simp add: shown_if_def)

lemma bars_shown_if [simp]: "bars (shown_if c es) = (if c then bars es else [])"
  by (simp add: shown_if_def)

text \<open>A list built element by element, one list of elements for each item.\<close>

lemma clickable_concat: "clickable (concat (map f xs)) = concat (map (\<lambda>x. clickable (f x)) xs)"
  by (induction xs) auto

lemma typable_concat: "typable (concat (map f xs)) = concat (map (\<lambda>x. typable (f x)) xs)"
  by (induction xs) auto

lemma texts_concat: "texts (concat (map f xs)) = concat (map (\<lambda>x. texts (f x)) xs)"
  by (induction xs) auto

lemma bars_concat: "bars (concat (map f xs)) = concat (map (\<lambda>x. bars (f x)) xs)"
  by (induction xs) auto

lemma offers_append [simp]: "offers (xs @ ys) a \<longleftrightarrow> offers xs a \<or> offers ys a"
  by (auto simp: offers_def)

lemma offers_none: "clickable es = [] \<Longrightarrow> typable es = [] \<Longrightarrow> \<not> offers es a"
  by (simp add: offers_def)

end
