(* ===== verification/DepositView.thy ===== *)
theory DepositView
  imports View DepositPage
begin

text \<open>
  What \<open>frontend/src/app/deposit/page.tsx\<close> shows in each of the four steps, as a function of its
  state: the texts and their conditions, the links, the fields and the buttons with their handlers.
  The state of the view is the page's, and the hooks beside it (\<open>deposit_hooks\<close>): the wallet's, the
  pool's statistics, and the flags of the broadcast. The browser's locale, which formats the number
  of satoshis, is a parameter.
\<close>

record deposit_hooks =
  dp_wallet :: wallet_state
  dp_poolStats :: "json option"
  dp_autoBroadcastAvailable :: bool
  dp_senderBalanceInfo :: "json option"
  dp_isBroadcasting :: bool
  dp_isWalletSending :: bool

datatype deposit_action = Set_amount string | Set_secret string | Generate_commitment | Connect_wallet
  | Disconnect_wallet | Wallet_send | Auto_send | Manually_sent | Submit_starknet | Copy_hash | New_deposit
  | Return_to_dashboard | No_handler

type_synonym deposit_view = "deposit_action element list"

section \<open>Header and progress\<close>

definition view_header :: deposit_view where
  "view_header = [Heading ''Deposit Bitcoin'', Text ''Bridge native BTC into shielded Starknet assets'']"

definition view_progress :: "page \<Rightarrow> deposit_view" where
  "view_progress s = Bar (Some (of_int ((int (pg_step s) - 1) * 33)))
     # map (\<lambda>i. Mark (str_of_nat i) (i \<le> pg_step s)) [1, 2, 3, 4]"

section \<open>Step 1\<close>

text \<open>The width of the bar of the pool: \<open>Math.max\<close> and \<open>Math.min\<close> of \<open>NaN\<close> are \<open>NaN\<close>.\<close>

definition pool_width :: "json \<Rightarrow> rat option" where
  "pool_width p = (case (as_number (json_field p ''anonymitySetSize''), as_number (json_field p ''minRequired'')) of
     (Some n, Some m) \<Rightarrow> Some (min 100 (mul (dvd_js n (max m 1)) 100))
   | _ \<Rightarrow> None)"

definition view_pool :: "json \<Rightarrow> deposit_view" where
  "view_pool p = [Text (lock_sign @ '' Privacy Pool Depth''),
     Mark (jsx (json_field p ''anonymitySetSize'') @ '' / '' @ jsx (json_field p ''minRequired'') @ '' min'')
       (truthy_json (json_field p ''withdrawalReady'')),
     Bar (pool_width p), Text (jsx (json_field p ''message''))]"

definition view_amounts :: "(rat option \<Rightarrow> string) \<Rightarrow> page \<Rightarrow> deposit_view" where
  "view_amounts locale s = [Text ''Bitcoin Amount'', Text ''Fixed denominations prevent amount-based correlation attacks'']
     @ concat (map (\<lambda>d. [Mark (num_str d) (pg_amount s = num_str d), Button (num_str d) False (Set_amount (num_str d))])
         page_denominations)
     @ shown_if (pg_amount s \<noteq> [])
         [Text (''Selected: '' @ pg_amount s @ '' BTC ('' @ locale (map_option (\<lambda>x. mul x 100000000) (parseFloat (pg_amount s)))
            @ '' sats)'')]"

definition view_secret :: "page \<Rightarrow> deposit_view" where
  "view_secret s = [Text ''Withdrawal Secret (32-byte Hex)'', Field ''Withdrawal Secret'' (pg_secret s) Set_secret,
     Text (warning_sign @ '' SAVE THIS SECRET. If you lose this, you cannot withdraw your funds from the Vault. ''
       @ ''It acts as your private signing key for the ZK-circuit.'')]"

definition view_step1 :: "(rat option \<Rightarrow> string) \<Rightarrow> page \<Rightarrow> deposit_hooks \<Rightarrow> deposit_view" where
  "view_step1 locale s d = [Heading ''1. Generate Privacy Commitment'',
     Text ''We use Pedersen hashing to seal your deposit amount and secret before it touches the chain.'']
     @ (case dp_poolStats d of None \<Rightarrow> [] | Some p \<Rightarrow> shown_if (truthy_json (Some p)) (view_pool p))
     @ view_amounts locale s @ view_secret s
     @ [Button (if pg_loading s then ''Generating...'' else ''Generate Hash '' @ arrow) (pg_loading s)
          Generate_commitment]"

section \<open>Step 2\<close>

definition view_locking :: "page \<Rightarrow> deposit_view" where
  "view_locking s = [Heading ''2. Send Real Bitcoin to Lock'',
     Text (''Action Required: Send exactly '' @ pg_amount s
       @ '' BTC from your Xverse wallet (or any Bitcoin wallet) to the vault address below.''),
     Text ''Generated Commitment Hash'', Text (pg_commitment s), Text ''Derived Nullifier Hash'', Text (pg_nullifierHash s),
     Text ''Deposit Address (Signet)'', Text (pg_depositAddress s)]"

text \<open>The instructions name an address of their own.\<close>

definition shown_vault :: string where
  "shown_vault = ''tb1qgua8e...''"

definition view_instructions :: "page \<Rightarrow> deposit_view" where
  "view_instructions s = [Text ''How to Send Bitcoin (BTC):'',
     Text ''Open Xverse Wallet (or any Bitcoin wallet with Signet support)'',
     Text ''Make sure you're on Bitcoin Signet network (testnet)'',
     Text (''Click \"Send\" and paste the vault address above: '' @ shown_vault),
     Text (''Enter amount: '' @ pg_amount s @ '' BTC''),
     Text ''Confirm and send the transaction'',
     Text ''Wait 2-3 minutes, then click \"I've manually sent the BTC\" below'',
     Text (info_sign @ '' Need Signet BTC? Get test coins from: ''), Link ''signetfaucet.com'' ''https://signetfaucet.com'']"

definition view_not_installed :: deposit_view where
  "view_not_installed = [Heading ''Xverse Wallet Not Detected'',
     Text ''Install the Xverse browser extension to send BTC directly. After installing, refresh this page.'',
     Link ''Install Xverse Wallet'' ''https://www.xverse.app/download'',
     Text (''Or send BTC manually using the options below '' @ down_arrow)]"

definition view_connect :: "wallet_state \<Rightarrow> deposit_view" where
  "view_connect w = [Heading ''Connect Xverse Wallet'',
     Text (warning_sign @ '' Required: Switch Xverse to Signet First''),
     Text ''1. Click the Xverse icon in your browser toolbar'',
     Text ''2. At the top, click the current network (e.g. \"Bitcoin\" or \"Mainnet\")'',
     Text ''3. Select \"Bitcoin Signet\"'', Text ''4. Hard refresh this page: Cmd+Shift+R'',
     Text (''If Xverse is already on Signet, also try: Brave '' @ arrow @ '' Settings '' @ arrow @ '' Wallet '' @ arrow
       @ '' disable Brave Wallet '' @ arrow @ '' hard refresh.''),
     Button (if wl_isConnecting w then ''Waiting for Xverse popup'' @ ellipsis
             else if wl_isInstalled w = None then ''Detecting wallet...'' else ''Connect Xverse Wallet'')
       (wl_isConnecting w \<or> wl_isInstalled w = None) Connect_wallet]
     @ shown_if (wl_isConnecting w) [Text (''A popup should appear from the Xverse extension. ''
         @ ''If nothing happens after a few seconds, Xverse is on the wrong network.'')]
     @ (case wl_error w of None \<Rightarrow> [] | Some e \<Rightarrow> shown_if (e \<noteq> []) (Text e
         # shown_if (str_includes e ''timed out'')
             [Text (left_arrow @ '' This confirms Xverse is on the wrong network. Switch to Signet and hard-refresh.'')]))"

definition view_connected :: "page \<Rightarrow> deposit_hooks \<Rightarrow> deposit_view" where
  "view_connected s d = [Text ''Wallet Connected'', Button ''Disconnect'' False Disconnect_wallet, Text ''Payment Address'',
     Text (case wl_paymentAddress (dp_wallet d) of None \<Rightarrow> [] | Some a \<Rightarrow> a)]
     @ shown_if (\<not> pg_hasSentBTC s)
         (Button (if dp_isWalletSending d then ''Processing Transaction...''
                  else ''Send '' @ pg_amount s @ '' BTC from Wallet'') (dp_isWalletSending d) Wallet_send
          # shown_if (dp_isWalletSending d) [Text (hourglass @ '' Waiting for Xverse popup''),
              Text (''Confirm the transaction in Xverse. After confirming, we'' @ [CHR 0x27]
                @ ''ll automatically detect your transaction.'')])"

definition view_wallet :: "page \<Rightarrow> deposit_hooks \<Rightarrow> deposit_view" where
  "view_wallet s d = (let w = dp_wallet d in
     shown_if (wl_isInstalled w = Some False \<and> \<not> wl_isConnected w) view_not_installed
     @ shown_if ((wl_isInstalled w = Some True \<or> wl_isInstalled w = None) \<and> \<not> wl_isConnected w) (view_connect w)
     @ shown_if (wl_isConnected w) (view_connected s d))"

definition view_unavailable :: "deposit_hooks \<Rightarrow> deposit_view" where
  "view_unavailable d =
     shown_if (\<not> dp_autoBroadcastAvailable d \<and> truthy_json (dp_senderBalanceInfo d))
       [Text warning_sign, Text ''Auto-Broadcast Unavailable'', Text (jsx (dp_senderBalanceInfo d)),
        Text (''Please use manual deposit by sending BTC from your own wallet to the address above, ''
          @ ''or fund the sender address at a Bitcoin Signet faucet.'')]"

definition view_sending :: "page \<Rightarrow> deposit_hooks \<Rightarrow> deposit_view" where
  "view_sending s d = ((if \<not> pg_hasSentBTC s then
        [Button (if dp_isBroadcasting d then ''Broadcasting...''
                 else if \<not> dp_autoBroadcastAvailable d then ''Auto-Broadcast Unavailable'' else ''Broadcast Real Signet BTC'')
           (dp_isBroadcasting d \<or> \<not> dp_autoBroadcastAvailable d) Auto_send,
         Button ''I've manually sent the BTC'' False Manually_sent]
      else if pg_isScanning s then [Button (busy_sign @ '' Scanning mempool...'') True No_handler]
      else [])
     @ (case pg_scanError s of None \<Rightarrow> [] | Some e \<Rightarrow> shown_if (e \<noteq> []) [Text e])
     @ shown_if (pg_isScanning s)
         [Text (''It can take up to 2-3 minutes for the Signet transaction to appear. '' @ ''Please leave this page open.'')])"

definition view_step2 :: "page \<Rightarrow> deposit_hooks \<Rightarrow> deposit_view" where
  "view_step2 s d = view_locking s @ view_instructions s @ view_wallet s d
     @ shown_if (\<not> pg_hasSentBTC s) [Text ''OR''] @ view_unavailable d @ view_sending s d"

section \<open>Step 3\<close>

definition mempool_link :: "string \<Rightarrow> string" where
  "mempool_link t = ''https://mempool.space/signet/tx/'' @ t"

definition view_bitcoin_proof :: "page \<Rightarrow> deposit_view" where
  "view_bitcoin_proof s = [Heading ''3. Bitcoin Locked - Finalize on Starknet'',
     Text (done_sign @ '' Real Bitcoin transaction detected on Signet blockchain. ''
       @ ''Now mint sBTC tokens on Starknet to complete the bridge.''),
     Text ''Bitcoin Transaction Confirmed'', Text ''Real Bitcoin Transaction ID'']
     @ (if pg_bitcoinTx s \<noteq> []
        then [Link (pg_bitcoinTx s) (mempool_link (pg_bitcoinTx s)), Link (''View on Mempool.space '' @ arrow) (mempool_link (pg_bitcoinTx s))]
        else [Text (warning_sign @ '' Transaction ID not available. Check browser console (F12) for debugging info.'')])
     @ [Text ''Amount Locked'', Text (pg_amount s @ '' BTC''), Text ''Confirmations'',
        Text (num_str (pg_confirmations s) @ '' '' @ (if 1 \<le> pg_confirmations s then tick_sign else hourglass))]"

definition view_explanation :: "page \<Rightarrow> deposit_view" where
  "view_explanation s = [Text (memo_sign @ '' What Just Happened:''),
     Text (''You sent '' @ pg_amount s @ '' BTC from your Xverse wallet (or another wallet)''),
     Text (''BTC arrived at vault address: '' @ shown_vault),
     Text ''Transaction confirmed on Bitcoin Signet blockchain (see txid above)'',
     Text (''Now click below to mint '' @ pg_amount s @ '' sBTC tokens on Starknet'')]"

definition faucets :: "(string \<times> string \<times> string) list" where
  "faucets =
     [(''Starknet Faucet (Fastest)'', ''https://starknet-faucet.vercel.app'', ''0.001 ETH '' @ emdash @ '' instant''),
      (''Blast API Faucet (Backup)'', ''https://blastapi.io/faucets/starknet-testnet-eth'', ''Connect wallet required''),
      (''Bridge from Ethereum Sepolia'', ''https://sepolia.starkgate.starknet.io'', ''Get ETH Sepolia first at sepoliafaucet.com'')]"

definition view_funding_help :: deposit_view where
  "view_funding_help = [Text (warning_plain @ '' Starknet Account Needs Gas (Sepolia ETH)''),
     Text (''Your Starknet account has insufficient Sepolia ETH to pay for gas. ''
       @ ''Use one of the faucets below to fund it, then retry.'')]
     @ concat (map (\<lambda>(label, url, note). [Link (out_sign @ '' '' @ label) url, Text note]) faucets)
     @ [Button (again_sign @ '' Retry After Funding'') False Submit_starknet]"

definition view_submit_error :: "page \<Rightarrow> deposit_view" where
  "view_submit_error s =
     shown_if (pg_submitError s = Some ''INSUFFICIENT_GAS'') view_funding_help
     @ (case pg_submitError s of None \<Rightarrow> []
        | Some e \<Rightarrow> shown_if (e \<noteq> [] \<and> e \<noteq> ''INSUFFICIENT_GAS'') [Text (cross_sign @ '' '' @ e)])"

definition view_submitted :: "page \<Rightarrow> deposit_view" where
  "view_submitted s = shown_if (pg_submitSuccess s \<and> pg_txHash s \<noteq> [])
     [Text jewel_sign, Text ''Transaction Submitted to Starknet'', Text ''Transaction Hash'', Text (pg_txHash s),
      Text (''Scarb 2.12.2 / Stwo prover generating ZK proof for your commitment'' @ ellipsis),
      Link (out_sign @ '' Verify on Voyager'') (pg_voyagerUrl s),
      Button (copy_sign @ '' Copy Hash'') False Copy_hash, Link (arrow @ '' View in Audit Ledger'') ''/audit'',
      Button (again_sign @ '' Start New Deposit'') False New_deposit]"

definition view_waiting :: "page \<Rightarrow> deposit_view" where
  "view_waiting s = shown_if (\<not> pg_submitSuccess s)
     [Button (if pg_confirmations s = 0 then ''Waiting for 1 Bitcoin Block (to generate SPV Proof)...''
              else ''Verifying SPV Proof on Starknet...'') True No_handler]"

definition view_step3 :: "page \<Rightarrow> deposit_view" where
  "view_step3 s = view_bitcoin_proof s @ view_explanation s @ view_submit_error s @ view_submitted s @ view_waiting s"

section \<open>Step 4\<close>

definition view_final_bitcoin :: "page \<Rightarrow> deposit_view" where
  "view_final_bitcoin s = shown_if (pg_bitcoinTx s \<noteq> [])
     [Text ''Bitcoin Transaction'', Text ''Transaction ID'', Link (pg_bitcoinTx s) (mempool_link (pg_bitcoinTx s)),
      Link (''View on Mempool.space '' @ arrow) (mempool_link (pg_bitcoinTx s))]"

definition view_final_starknet :: "page \<Rightarrow> deposit_view" where
  "view_final_starknet s = shown_if (pg_txHash s \<noteq> [])
     [Text ''Starknet Transaction'', Text ''Transaction Hash'', Link (pg_txHash s) (pg_voyagerUrl s),
      Link (''View on Voyager '' @ arrow) (pg_voyagerUrl s)]"

definition view_step4 :: "page \<Rightarrow> deposit_view" where
  "view_step4 s = [Heading ''Deposit Successful!'',
     Text ''Your Bitcoin remains locked on Signet, and your shielded sBTC has been minted to your Starknet account.'']
     @ view_final_bitcoin s @ view_final_starknet s
     @ [Text ''Amount Locked'', Text (pg_amount s @ '' BTC''), Text ''Status'', Text (''Minted '' @ tick_sign),
        Button ''Return to Dashboard'' False Return_to_dashboard]"

section \<open>The page\<close>

definition deposit_view :: "(rat option \<Rightarrow> string) \<Rightarrow> page \<Rightarrow> deposit_hooks \<Rightarrow> deposit_view" where
  "deposit_view locale s d = (view_header @ view_progress s
     @ shown_if (pg_step s = 1) (view_step1 locale s d) @ shown_if (pg_step s = 2) (view_step2 s d)
     @ shown_if (pg_step s = 3) (view_step3 s) @ shown_if (pg_step s = 4) (view_step4 s))"

section \<open>Lemmas\<close>

lemma fl_nonneg:
  assumes "0 \<le> x"
  shows "0 \<le> fl x"
proof -
  obtain n d where q: "quotient_of x = (n, d)" by force
  have d: "0 < d" and x: "x = of_int n / of_int d" using q quotient_of_denom_pos quotient_of_div by auto
  have n: "0 \<le> n" using assms d unfolding x by (simp add: zero_le_divide_iff)
  obtain a b where s: "scaled n d (fl_exp n d) = (a, b)" by force
  then have "0 \<le> a" "0 < b" using n d by (auto simp: scaled_def split: if_splits)
  then have "0 \<le> div_half_even a b" using div_half_even_bounds by blast
  then have "0 \<le> fl_pos n d" by (simp add: fl_pos_def Let_def s pow2_def)
  then show ?thesis using n by (simp add: fl_def q)
qed

lemma frame_bars:
  "bars view_header = []" "bars (view_amounts l s) = []" "bars (view_secret s) = []" "bars (view_step2 s d) = []"
  "bars (view_step3 s) = []" "bars (view_step4 s) = []"
  by (simp_all add: view_header_def view_amounts_def view_secret_def view_step2_def view_locking_def view_instructions_def
      view_wallet_def view_not_installed_def view_connect_def view_connected_def view_unavailable_def view_sending_def
      view_step3_def view_bitcoin_proof_def view_explanation_def view_submit_error_def view_funding_help_def faucets_def
      view_submitted_def view_waiting_def view_step4_def view_final_bitcoin_def view_final_starknet_def Let_def bars_concat
      split: option.splits)

text \<open>The statistics of the server give the bar a width, whatever the minimum is configured to.\<close>

lemma pool_width_server: "\<exists>x. pool_width (body (poolStats min_env d)) = Some x \<and> 0 \<le> x \<and> x \<le> 100"
proof -
  let ?n = "int (unspent_count (pool_stats_of d))" and ?p = "body (poolStats min_env d)"
  have "as_number (json_field ?p ''anonymitySetSize'') = Some (of_int ?n)"
    by (simp add: poolStats_def Let_def client_eval as_number_def JInt_def)
  moreover obtain m where "as_number (json_field ?p ''minRequired'') = Some m"
    by (cases "MIN_ANONYMITY_SET min_env") (auto simp: poolStats_def Let_def client_eval as_number_def JInt_def)
  moreover have "0 \<le> mul (dvd_js (of_int ?n) (max m 1)) 100"
    unfolding mul_def dvd_js_def by (intro fl_nonneg mult_nonneg_nonneg divide_nonneg_nonneg) auto
  ultimately show ?thesis by (simp add: pool_width_def)
qed

section \<open>Properties\<close>

text \<open>
  Every bar of the page has a width from 0 to 100 per cent, at each of the four steps, with the
  statistics of the pool that the server sends, also when the pool is larger than the minimum or the minimum is not a number.
\<close>

theorem bars_within_page:
  assumes "1 \<le> pg_step s" and "pg_step s \<le> 4" and "dp_poolStats d = Some (body (poolStats min_env db))"
    and "w \<in> set (bars (deposit_view l s d))"
  shows "\<exists>x. w = Some x \<and> 0 \<le> x \<and> x \<le> 100"
proof -
  have "pg_step s = 1 \<or> pg_step s = 2 \<or> pg_step s = 3 \<or> pg_step s = 4" using assms(1,2) by auto
  then have "w = Some (of_int ((int (pg_step s) - 1) * 33)) \<or> w = pool_width (body (poolStats min_env db))"
    using assms(3,4)
    by (auto simp: deposit_view_def frame_bars view_progress_def view_step1_def view_pool_def split: if_splits)
  then show ?thesis using \<open>pg_step s = 1 \<or> _\<close> pool_width_server [of min_env db] by auto
qed

theorem bars_within_page_witness:
  "\<exists>x. pool_width (body (poolStats (Some ''many'') empty_db)) = Some x \<and> 0 \<le> x \<and> x \<le> 100"
proof -
  let ?d = "\<lparr>dp_wallet = init_wallet, dp_poolStats = Some (body (poolStats (Some ''many'') empty_db)),
    dp_autoBroadcastAvailable = True, dp_senderBalanceInfo = None, dp_isBroadcasting = False, dp_isWalletSending = False\<rparr>"
  have "truthy_json (Some (body (poolStats (Some ''many'') empty_db)))" by (simp add: poolStats_def Let_def client_eval)
  then have "pool_width (body (poolStats (Some ''many'') empty_db)) \<in> set (bars (deposit_view (\<lambda>_. []) (init_page [] []) ?d))"
    by (simp add: deposit_view_def view_step1_def view_pool_def init_page_def)
  then show ?thesis
    using bars_within_page [of "init_page [] []" ?d "Some ''many''" empty_db] by (simp add: init_page_def)
qed

text \<open>
  A payment that the wallet has only just reported is shown as confirmed: with no confirmation yet,
  step 3 says so in its heading and again in its explanation.
\<close>

theorem payment_shown_confirmed:
  assumes "known_txid (Some t)"
  shows "pg_confirmations (c_page (start_polling i s (Some t) c)) = 0
     \<and> {''Bitcoin Transaction Confirmed'', ''Transaction confirmed on Bitcoin Signet blockchain (see txid above)''}
         \<subseteq> set (texts (deposit_view l (c_page (start_polling i s (Some t) c)) d))"
proof -
  let ?s = "c_page (start_polling i s (Some t) c)"
  have "pg_confirmations ?s = 0" "pg_step ?s = 3"
    using assms by (simp_all add: start_polling_def startPolling_def Let_def render_def)
  then show ?thesis by (simp add: deposit_view_def view_step3_def view_bitcoin_proof_def view_explanation_def)
qed

theorem payment_shown_confirmed_witness:
  "pg_confirmations (c_page (start_polling 0 (init_page [] []) (Some ''ab'') demo_client)) = 0"
  using payment_shown_confirmed [of "''ab''"] by (simp add: known_txid_def truthy_def)

end
