(* ===== verification/DepositRun.thy ===== *)
theory DepositRun
  imports DepositView
begin

text \<open>
  The deposit page in use: the user, who can only press what the page offers and type into its fields,
  the answers of the server and of the wallet, and the timers, in any order. \<open>occurs\<close> says what an
  event does to the state, and is \<open>None\<close> when the event cannot happen there: a button that is not
  shown or is disabled, an answer to a request that is not on its way, a timer that is not armed. What
  is on its way carries the state of the render that sent it. \<open>reached\<close> are the states of all runs.
  Loading the page anew, which starts from \<open>init_run\<close>, is not an event.
\<close>

section \<open>State\<close>

datatype pending = Balance | Pool | Detecting | Generating page | Addressing | Connecting
  | Wallet_sending page | Broadcasting page | Submitting page

record deposit_run =
  ru_client :: client
  ru_hooks :: deposit_hooks
  ru_pending :: "pending list"

abbreviation ru_page :: "deposit_run \<Rightarrow> page" where
  "ru_page u \<equiv> c_page (ru_client u)"

definition init_hooks :: deposit_hooks where
  "init_hooks = \<lparr>dp_wallet = init_wallet, dp_poolStats = None, dp_autoBroadcastAvailable = True, dp_senderBalanceInfo = None,
     dp_isBroadcasting = False, dp_isWalletSending = False\<rparr>"

definition init_run :: "buffer \<Rightarrow> string \<Rightarrow> deposit_run" where
  "init_run rand uuid = \<lparr>ru_client = \<lparr>c_page = init_page rand uuid, c_pollers = (\<lambda>_. None), c_live = [], c_flight = [],
     c_submits = 0\<rparr>, ru_hooks = init_hooks, ru_pending = [Balance, Pool, Detecting]\<rparr>"

section \<open>Renders\<close>

text \<open>
  A client's new state; when its render made the effect start a submission, the submission is on its
  way, with the page of that render, and its first statements have run.
\<close>

definition settle :: "client \<Rightarrow> deposit_run \<Rightarrow> deposit_run" where
  "settle c u = (if c_submits (ru_client u) < c_submits c
     then u\<lparr>ru_client := c\<lparr>c_page := submit_start (c_page c)\<rparr>, ru_pending := ru_pending u @ [Submitting (c_page c)]\<rparr>
     else u\<lparr>ru_client := c\<rparr>)"

definition set_page :: "page \<Rightarrow> deposit_run \<Rightarrow> deposit_run" where
  "set_page s u = settle (render s (ru_client u)) u"

definition set_wallet :: "wallet_state \<Rightarrow> deposit_run \<Rightarrow> deposit_run" where
  "set_wallet w u = set_page ((ru_page u)\<lparr>pg_walletAddress := wl_paymentAddress w\<rparr>) (u\<lparr>ru_hooks := (ru_hooks u)\<lparr>dp_wallet := w\<rparr>\<rparr>)"

definition await :: "pending \<Rightarrow> deposit_run \<Rightarrow> deposit_run" where
  "await p u = u\<lparr>ru_pending := ru_pending u @ [p]\<rparr>"

definition arrived :: "pending \<Rightarrow> deposit_run \<Rightarrow> deposit_run" where
  "arrived p u = u\<lparr>ru_pending := remove1 p (ru_pending u)\<rparr>"

section \<open>The handlers, up to their first await\<close>

definition start_new_deposit :: "string \<Rightarrow> page \<Rightarrow> page" where
  "start_new_deposit uuid s = s\<lparr>pg_step := 1, pg_txHash := [], pg_voyagerUrl := [], pg_submitSuccess := False,
     pg_commitment := [], pg_vaultId := uuid, pg_amount := []\<rparr>"

text \<open>\<open>i\<close> is the interval that \<open>setInterval\<close> hands out, \<open>uuid\<close> the fresh vault id, where the handler takes one.\<close>

fun press :: "nat \<Rightarrow> string \<Rightarrow> deposit_action \<Rightarrow> deposit_run \<Rightarrow> deposit_run" where
  "press i uuid (Set_amount t) u = set_page ((ru_page u)\<lparr>pg_amount := t\<rparr>) u"
| "press i uuid (Set_secret t) u = set_page ((ru_page u)\<lparr>pg_secret := t\<rparr>) u"
| "press i uuid Generate_commitment u = (if commitment_request (ru_page u) = None then u
     else await (Generating (ru_page u)) (set_page ((ru_page u)\<lparr>pg_loading := True\<rparr>) u))"
| "press i uuid Connect_wallet u = await Connecting (set_wallet (connect_start (dp_wallet (ru_hooks u))) u)"
| "press i uuid Disconnect_wallet u = set_wallet (disconnectWallet (dp_wallet (ru_hooks u))) u"
| "press i uuid Wallet_send u =
     (let w = dp_wallet (ru_hooks u) in
      if \<not> wl_isConnected w \<or> \<not> truthy (wl_paymentAddress w) then u
      else await (Wallet_sending (ru_page u)) (u\<lparr>ru_hooks := (ru_hooks u)\<lparr>dp_isWalletSending := True\<rparr>\<rparr>))"
| "press i uuid Auto_send u = await (Broadcasting (ru_page u)) (u\<lparr>ru_hooks := (ru_hooks u)\<lparr>dp_isBroadcasting := True\<rparr>\<rparr>)"
| "press i uuid Manually_sent u = settle (start_polling i (ru_page u) None (ru_client u)) u"
| "press i uuid Submit_starknet u = await (Submitting (ru_page u)) (set_page (submit_start (ru_page u)) u)"
| "press i uuid New_deposit u = set_page (start_new_deposit uuid (ru_page u)) u"
| "press i uuid Copy_hash u = u"
| "press i uuid Return_to_dashboard u = u"
| "press i uuid No_handler u = u"

section \<open>The answers\<close>

text \<open>\<open>handleGenerateCommitment\<close> after its first and after its second request.\<close>

definition generated :: "reply \<Rightarrow> page \<Rightarrow> page \<times> bool" where
  "generated r s = (case depositCommitment r of
     Inl _ \<Rightarrow> (s\<lparr>pg_loading := False\<rparr>, False)
   | Inr res \<Rightarrow>
       if \<not> truthy_json (dr_commitment res) \<or> \<not> truthy_json (dr_nullifier_hash res) then (s\<lparr>pg_loading := False\<rparr>, False)
       else (s\<lparr>pg_commitment := js_text (the (dr_commitment res)), pg_nullifierHash := js_text (the (dr_nullifier_hash res))\<rparr>, True))"

definition addressed :: "reply \<Rightarrow> page \<Rightarrow> page" where
  "addressed r s = (case axios_data r of
     Inl _ \<Rightarrow> s\<lparr>pg_loading := False\<rparr>
   | Inr a \<Rightarrow> if \<not> truthy_json (json_field a ''address'') then s\<lparr>pg_loading := False\<rparr>
       else s\<lparr>pg_depositAddress := js_text (the (json_field a ''address'')), pg_step := 2, pg_loading := False\<rparr>)"

definition polled_from :: "nat \<Rightarrow> page \<Rightarrow> string option \<Rightarrow> deposit_run \<Rightarrow> deposit_run" where
  "polled_from i closure t u = settle (start_polling i closure t (ru_client u)) u"

definition wallet_sent :: "nat \<Rightarrow> page \<Rightarrow> string res \<Rightarrow> deposit_run \<Rightarrow> deposit_run" where
  "wallet_sent i closure sent u =
     (let v = u\<lparr>ru_hooks := (ru_hooks u)\<lparr>dp_isWalletSending := False\<rparr>\<rparr> in
      case sent of Inl _ \<Rightarrow> v | Inr t \<Rightarrow> polled_from i closure (if t \<noteq> [] \<and> t \<noteq> ''pending'' then Some t else None) v)"

definition broadcast_answered :: "nat \<Rightarrow> page \<Rightarrow> reply \<Rightarrow> deposit_run \<Rightarrow> deposit_run" where
  "broadcast_answered i closure r u =
     (let v = u\<lparr>ru_hooks := (ru_hooks u)\<lparr>dp_isBroadcasting := False\<rparr>\<rparr> in
      case axios_data r of Inl _ \<Rightarrow> v | Inr res \<Rightarrow> if res = JNull then v else polled_from i closure None v)"

text \<open>The two requests on mounting.\<close>

definition balance_checked :: "reply \<Rightarrow> deposit_hooks \<Rightarrow> deposit_hooks" where
  "balance_checked r d = (case checkBroadcastAvailability r of
     (ok, info) \<Rightarrow> d\<lparr>dp_autoBroadcastAvailable := ok, dp_senderBalanceInfo := (if ok then dp_senderBalanceInfo d else info)\<rparr>)"

definition pool_fetched :: "reply \<Rightarrow> deposit_hooks \<Rightarrow> deposit_hooks" where
  "pool_fetched r d = (case axios_data r of Inl _ \<Rightarrow> d | Inr p \<Rightarrow> d\<lparr>dp_poolStats := Some p\<rparr>)"

section \<open>Events\<close>

datatype deposit_event =
    Press nat string deposit_action
  | Balance_answer reply
  | Pool_answer reply
  | Wallet_detected
  | Commitment_answer page reply
  | Address_answer reply
  | Connect_answer "string option + wallet_answer" "string option + wallet_answer"
  | Connect_timeout
  | Wallet_answer nat page "string res"
  | Broadcast_answer nat page reply
  | Submit_answer page "string + json"
  | Tick nat
  | Poll_answer nat reply

definition fresh :: "nat \<Rightarrow> deposit_run \<Rightarrow> bool" where
  "fresh i u \<longleftrightarrow> c_pollers (ru_client u) i = None"

definition answer :: "pending \<Rightarrow> (deposit_run \<Rightarrow> deposit_run) \<Rightarrow> deposit_run \<Rightarrow> deposit_run option" where
  "answer p f u = (if p \<in> set (ru_pending u) then Some (f (arrived p u)) else None)"

fun occurs :: "(rat option \<Rightarrow> string) \<Rightarrow> deposit_event \<Rightarrow> deposit_run \<Rightarrow> deposit_run option" where
  "occurs l (Press i uuid a) u =
     (if offers (deposit_view l (ru_page u) (ru_hooks u)) a \<and> fresh i u then Some (press i uuid a u) else None)"
| "occurs l (Balance_answer r) u = answer Balance (\<lambda>v. v\<lparr>ru_hooks := balance_checked r (ru_hooks v)\<rparr>) u"
| "occurs l (Pool_answer r) u = answer Pool (\<lambda>v. v\<lparr>ru_hooks := pool_fetched r (ru_hooks v)\<rparr>) u"
| "occurs l Wallet_detected u = answer Detecting (\<lambda>v. set_wallet (wallet_mounted (dp_wallet (ru_hooks v))) v) u"
| "occurs l (Commitment_answer s r) u = answer (Generating s) (\<lambda>v. case generated r (ru_page v) of
     (s', ok) \<Rightarrow> (if ok then await Addressing else id) (set_page s' v)) u"
| "occurs l (Address_answer r) u = answer Addressing (\<lambda>v. set_page (addressed r (ru_page v)) v) u"
| "occurs l (Connect_answer a b) u = answer Connecting (\<lambda>v. set_wallet (connect_answered a b (dp_wallet (ru_hooks v))) v) u"
| "occurs l Connect_timeout u =
     (if Connecting \<in> set (ru_pending u) then Some (set_wallet (connect_timeout (dp_wallet (ru_hooks u))) u) else None)"
| "occurs l (Wallet_answer i s sent) u = (if fresh i u then answer (Wallet_sending s) (wallet_sent i s sent) u else None)"
| "occurs l (Broadcast_answer i s r) u = (if fresh i u then answer (Broadcasting s) (broadcast_answered i s r) u else None)"
| "occurs l (Submit_answer s a) u = answer (Submitting s) (\<lambda>v. set_page (submit_done a (ru_page v)) v) u"
| "occurs l (Tick i) u = (if i \<in> set (c_live (ru_client u)) then Some (u\<lparr>ru_client := tick i (ru_client u)\<rparr>) else None)"
| "occurs l (Poll_answer i r) u =
     (if i \<in> set (c_flight (ru_client u)) then Some (settle (answered i r (ru_client u)) u) else None)"

fun occur_all :: "(rat option \<Rightarrow> string) \<Rightarrow> deposit_event list \<Rightarrow> deposit_run \<Rightarrow> deposit_run option" where
  "occur_all l [] u = Some u"
| "occur_all l (e # es) u = (case occurs l e u of None \<Rightarrow> None | Some v \<Rightarrow> occur_all l es v)"

inductive reached :: "(rat option \<Rightarrow> string) \<Rightarrow> deposit_run \<Rightarrow> bool" for l where
  start: "reached l (init_run rand uuid)"
| event: "reached l u \<Longrightarrow> occurs l e u = Some v \<Longrightarrow> reached l v"

text \<open>Nothing can happen any more.\<close>

definition stuck :: "(rat option \<Rightarrow> string) \<Rightarrow> deposit_run \<Rightarrow> bool" where
  "stuck l u \<longleftrightarrow> (\<forall>e. occurs l e u = None)"

section \<open>Lemmas\<close>

text \<open>The two halves of \<open>handleGenerateCommitment\<close> are the handler, when nothing comes in between.\<close>

lemma handleGenerateCommitment_halves:
  "commitment_request s = Some q \<Longrightarrow> handleGenerateCommitment r a s =
     (case generated r (s\<lparr>pg_loading := True\<rparr>) of (s', ok) \<Rightarrow> if ok then addressed a s' else s')"
  by (simp add: handleGenerateCommitment_def generated_def addressed_def Let_def split: sum.splits)

lemma occur_all_reached: "occur_all l es u = Some v \<Longrightarrow> reached l u \<Longrightarrow> reached l v"
  by (induction es arbitrary: u) (auto split: option.splits intro: reached.event)

lemma answer_Some: "answer p f u = Some v \<longleftrightarrow> p \<in> set (ru_pending u) \<and> v = f (arrived p u)"
  by (auto simp: answer_def)

lemma answer_None: "answer p f u = None \<longleftrightarrow> p \<notin> set (ru_pending u)"
  by (simp add: answer_def)

text \<open>Where the buttons of the page are.\<close>

lemma step1_offers:
  "clickable (view_step1 l s d) = map (\<lambda>x. Set_amount (num_str x)) page_denominations
     @ (if pg_loading s then [] else [Generate_commitment])"
  "typable (view_step1 l s d) = [Set_secret]"
  by (auto simp: view_step1_def view_amounts_def view_secret_def view_pool_def clickable_concat typable_concat page_denominations_def
      split: option.splits)

lemma step2_offers:
  "set (clickable (view_step2 s d)) \<subseteq> {Connect_wallet, Disconnect_wallet, Wallet_send, Auto_send, Manually_sent}"
  "typable (view_step2 s d) = []"
  by (auto simp: view_step2_def view_locking_def view_instructions_def view_wallet_def view_not_installed_def view_connect_def
      view_connected_def view_unavailable_def view_sending_def Let_def split: option.splits if_splits)

lemma step3_offers:
  "clickable (view_step3 s) = (if pg_submitError s = Some ''INSUFFICIENT_GAS'' then [Submit_starknet] else [])
     @ (if pg_submitSuccess s \<and> pg_txHash s \<noteq> [] then [Copy_hash, New_deposit] else [])"
  "typable (view_step3 s) = []"
  by (auto simp: view_step3_def view_bitcoin_proof_def view_explanation_def view_submit_error_def view_submitted_def
      view_waiting_def view_funding_help_def faucets_def clickable_concat typable_concat split: option.splits)

lemma step4_offers:
  "clickable (view_step4 s) = [Return_to_dashboard]" "typable (view_step4 s) = []"
  by (auto simp: view_step4_def view_final_bitcoin_def view_final_starknet_def)

lemma frame_offers: "clickable (view_header @ view_progress s) = []" "typable (view_header @ view_progress s) = []"
  by (simp_all add: view_header_def view_progress_def)

lemmas offers_by_step = step1_offers step2_offers step3_offers step4_offers frame_offers

lemma deposit_view_split:
  "clickable (deposit_view l s d) = (if pg_step s = 1 then clickable (view_step1 l s d) else if pg_step s = 2 then clickable (view_step2 s d)
     else if pg_step s = 3 then clickable (view_step3 s) else if pg_step s = 4 then clickable (view_step4 s) else [])"
  "typable (deposit_view l s d) = (if pg_step s = 1 then [Set_secret] else [])"
  using frame_offers [of s] by (auto simp: deposit_view_def step1_offers(2) step2_offers(2) step3_offers(2) step4_offers(2))

text \<open>The step at which an action is offered.\<close>

lemma offered_at:
  assumes "offers (deposit_view l s d) a"
  shows "(a \<in> {Connect_wallet, Disconnect_wallet, Wallet_send, Auto_send, Manually_sent} \<longrightarrow> pg_step s = 2)
     \<and> (a \<in> {Submit_starknet, Copy_hash, New_deposit} \<longrightarrow> pg_step s = 3) \<and> (a = Generate_commitment \<longrightarrow> pg_step s = 1)
     \<and> (\<forall>t. a = Set_amount t \<or> a = Set_secret t \<longrightarrow> pg_step s = 1) \<and> a \<noteq> No_handler"
  using assms step2_offers(1) [of s d]
  by (auto simp: offers_def deposit_view_split step1_offers step3_offers step4_offers split: if_splits)

section \<open>An invariant of all runs\<close>

text \<open>
  From step 3 on there is a transaction; every poll was started at step 2, as were the payments on
  their way; what is being submitted was submitted at step 3, with a transaction.
\<close>

definition page_ok :: "page \<Rightarrow> bool" where
  "page_ok s \<longleftrightarrow> 1 \<le> pg_step s \<and> pg_step s \<le> 4 \<and> (3 \<le> pg_step s \<longrightarrow> pg_bitcoinTx s \<noteq> [])"

definition pollers_ok :: "client \<Rightarrow> bool" where
  "pollers_ok c \<longleftrightarrow> (\<forall>i p. c_pollers c i = Some p \<longrightarrow> po_step p = 2)
     \<and> (\<forall>i \<in> set (c_live c) \<union> set (c_flight c). c_pollers c i \<noteq> None)"

fun pending_ok :: "bool \<Rightarrow> pending \<Rightarrow> bool" where
  "pending_ok has (Wallet_sending q) \<longleftrightarrow> pg_step q = 2"
| "pending_ok has (Broadcasting q) \<longleftrightarrow> pg_step q = 2"
| "pending_ok has (Submitting q) \<longleftrightarrow> pg_step q = 3 \<and> pg_bitcoinTx q \<noteq> [] \<and> has"
| "pending_ok has _ \<longleftrightarrow> True"

definition run_ok :: "deposit_run \<Rightarrow> bool" where
  "run_ok u \<longleftrightarrow> page_ok (ru_page u) \<and> pollers_ok (ru_client u)
     \<and> (\<forall>p \<in> set (ru_pending u). pending_ok (pg_bitcoinTx (ru_page u) \<noteq> []) p)"

lemma pending_ok_mono: "pending_ok h p \<Longrightarrow> (h \<Longrightarrow> k) \<Longrightarrow> pending_ok k p"
  by (cases p) auto

text \<open>What a new render keeps.\<close>

lemma settle_ok:
  assumes "run_ok u" and "page_ok (c_page c)" and "pollers_ok c"
    and "pg_bitcoinTx (ru_page u) \<noteq> [] \<Longrightarrow> pg_bitcoinTx (c_page c) \<noteq> []"
    and "c_submits (ru_client u) < c_submits c \<Longrightarrow> pg_step (c_page c) = 3 \<and> pg_bitcoinTx (c_page c) \<noteq> []"
  shows "run_ok (settle c u)"
  using assms by (auto simp: run_ok_def settle_def submit_start_def page_ok_def pollers_ok_def intro: pending_ok_mono)

lemma render_submits:
  "c_submits c < c_submits (render s c) \<Longrightarrow> pg_step s = 3 \<and> pg_bitcoinTx s \<noteq> []"
  by (simp add: render_def effect_fires_def split: if_splits)

lemma set_page_ok:
  assumes "run_ok u" and "page_ok s" and "pg_bitcoinTx (ru_page u) \<noteq> [] \<Longrightarrow> pg_bitcoinTx s \<noteq> []"
  shows "run_ok (set_page s u)"
  unfolding set_page_def using assms render_submits [of "ru_client u" s]
  by (intro settle_ok) (auto simp: render_def run_ok_def pollers_ok_def)

lemma set_page_same:
  assumes "run_ok u" and "pg_step s = pg_step (ru_page u)" and "pg_bitcoinTx s = pg_bitcoinTx (ru_page u)"
  shows "run_ok (set_page s u)"
  using assms by (intro set_page_ok) (auto simp: run_ok_def page_ok_def)

lemma hooks_ok: "run_ok (u\<lparr>ru_hooks := d\<rparr>) = run_ok u"
  by (simp add: run_ok_def)

lemma set_wallet_ok: "run_ok u \<Longrightarrow> run_ok (set_wallet w u)"
  unfolding set_wallet_def by (rule set_page_same) (simp_all add: hooks_ok)

lemma await_ok: "run_ok u \<Longrightarrow> pending_ok (pg_bitcoinTx (ru_page u) \<noteq> []) p \<Longrightarrow> run_ok (await p u)"
  by (auto simp: run_ok_def await_def)

lemma arrived_ok: "run_ok u \<Longrightarrow> run_ok (arrived p u)"
  using notin_set_remove1 by (fastforce simp: run_ok_def arrived_def)

lemma start_polling_ok:
  assumes "run_ok u" and "pg_step closure = 2"
  shows "run_ok (settle (start_polling i closure t (ru_client u)) u)"
proof (rule settle_ok [OF assms(1)])
  let ?c = "start_polling i closure t (ru_client u)"
  let ?s = "fst (startPolling i closure t (ru_page u))"
  have c: "c_page ?c = ?s" "c_pollers ?c = (c_pollers (ru_client u))(i \<mapsto> (snd (startPolling i closure t (ru_page u)))\<lparr>po_attempts := 1\<rparr>)"
    "c_submits ?c = c_submits (render ?s (ru_client u))"
    by (simp_all add: start_polling_def render_def split: prod.split)
  have tx: "known_txid t \<Longrightarrow> the t \<noteq> []" by (auto simp: known_txid_def truthy_def split: option.splits)
  show "page_ok (c_page ?c)" using assms(1) tx unfolding c(1)
    by (auto simp: startPolling_def Let_def run_ok_def page_ok_def)
  have "set (c_live ?c) = insert i (set (c_live (ru_client u)))" "set (c_flight ?c) = insert i (set (c_flight (ru_client u)))"
    by (simp_all add: start_polling_def split: prod.split)
  then show "pollers_ok ?c" using assms c(2)
    by (auto simp: startPolling_def Let_def run_ok_def pollers_ok_def)
  show "pg_bitcoinTx (ru_page u) \<noteq> [] \<Longrightarrow> pg_bitcoinTx (c_page ?c) \<noteq> []" using tx unfolding c(1)
    by (auto simp: startPolling_def Let_def)
  show "c_submits (ru_client u) < c_submits ?c \<Longrightarrow> pg_step (c_page ?c) = 3 \<and> pg_bitcoinTx (c_page ?c) \<noteq> []"
    using render_submits unfolding c(1,3) .
qed

lemma answered_ok:
  assumes "run_ok u"
  shows "run_ok (settle (answered i r (ru_client u)) u)"
proof (cases "i \<in> set (c_flight (ru_client u)) \<and> c_pollers (ru_client u) i \<noteq> None")
  case True
  then obtain p where p: "c_pollers (ru_client u) i = Some p" by blast
  let ?s = "fst (poll_answer (detectLock r) p (ru_page u))" and ?c = "answered i r (ru_client u)"
  have c: "c_page ?c = ?s" "c_pollers ?c = c_pollers (ru_client u)" "c_submits ?c = c_submits (render ?s (ru_client u))"
    using True p by (auto simp: answered_def render_def split: prod.split)
  show ?thesis
  proof (rule settle_ok [OF assms])
    show "page_ok (c_page ?c)" using assms unfolding c(1)
      by (auto simp: poll_answer_def run_ok_def page_ok_def split: sum.splits)
    have "set (c_live ?c) \<subseteq> set (c_live (ru_client u))" "set (c_flight ?c) \<subseteq> set (c_flight (ru_client u))"
      using True p by (auto simp: answered_def split: prod.split option.splits if_splits dest: subsetD [OF set_remove1_subset])
    then show "pollers_ok ?c" using assms c(2) by (auto simp: run_ok_def pollers_ok_def)
    show "pg_bitcoinTx (ru_page u) \<noteq> [] \<Longrightarrow> pg_bitcoinTx (c_page ?c) \<noteq> []" unfolding c(1)
      by (auto simp: poll_answer_def split: sum.splits)
    show "c_submits (ru_client u) < c_submits ?c \<Longrightarrow> pg_step (c_page ?c) = 3 \<and> pg_bitcoinTx (c_page ?c) \<noteq> []"
      using render_submits unfolding c(1,3) .
  qed
next
  case False
  then have "answered i r (ru_client u) = ru_client u" by (auto simp: answered_def)
  then show ?thesis using assms by (simp add: settle_def)
qed

lemma press_ok:
  assumes "run_ok u" and "offers (deposit_view l (ru_page u) (ru_hooks u)) a"
  shows "run_ok (press i uuid a u)"
proof (cases a)
  case Generate_commitment
  then show ?thesis using assms(1) by (auto intro!: await_ok set_page_same)
next
  case Connect_wallet
  then show ?thesis using assms(1) by (auto intro!: await_ok set_wallet_ok)
next
  case Disconnect_wallet
  then show ?thesis using assms(1) by (auto intro!: set_wallet_ok)
next
  case Wallet_send
  then show ?thesis using assms offered_at [OF assms(2)] by (auto simp: Let_def hooks_ok intro!: await_ok)
next
  case Auto_send
  then show ?thesis using assms offered_at [OF assms(2)] by (auto simp: hooks_ok intro!: await_ok)
next
  case Manually_sent
  then show ?thesis using assms(1) offered_at [OF assms(2)] by (auto intro!: start_polling_ok)
next
  case Submit_starknet
  then have s: "pg_step (ru_page u) = 3" "pg_bitcoinTx (ru_page u) \<noteq> []"
    using assms(1) offered_at [OF assms(2)] by (auto simp: run_ok_def page_ok_def)
  have "pg_bitcoinTx (ru_page (set_page (submit_start (ru_page u)) u)) \<noteq> []"
    using s(2) by (simp add: set_page_def settle_def render_def submit_start_def)
  then show ?thesis using Submit_starknet assms(1) s by (auto simp: submit_start_def intro!: await_ok set_page_same)
next
  case New_deposit
  then show ?thesis using assms(1) by (auto simp: start_new_deposit_def page_ok_def intro!: set_page_ok)
qed (use assms(1) in \<open>auto intro!: set_page_same\<close>)

lemma arrived_page [simp]: "ru_client (arrived p u) = ru_client u" "ru_hooks (arrived p u) = ru_hooks u"
  by (simp_all add: arrived_def)

lemma generated_keeps: "generated r s = (s', ok) \<Longrightarrow> pg_step s' = pg_step s \<and> pg_bitcoinTx s' = pg_bitcoinTx s"
  by (auto simp: generated_def split: sum.splits if_splits)

lemma addressed_ok: "page_ok s \<Longrightarrow> page_ok (addressed r s)"
  by (auto simp: addressed_def page_ok_def split: sum.splits)

lemma addressed_tx: "pg_bitcoinTx (addressed r s) = pg_bitcoinTx s"
  by (simp add: addressed_def split: sum.splits)

lemma submit_done_tx: "pg_bitcoinTx (submit_done a s) = pg_bitcoinTx s"
  by (simp add: submit_done_def split: sum.splits)

lemma pending_okD: "run_ok u \<Longrightarrow> p \<in> set (ru_pending u) \<Longrightarrow> pending_ok (pg_bitcoinTx (ru_page u) \<noteq> []) p"
  by (simp add: run_ok_def)

lemma polled_from_ok: "run_ok u \<Longrightarrow> pg_step closure = 2 \<Longrightarrow> run_ok (polled_from i closure t u)"
  unfolding polled_from_def by (rule start_polling_ok)

lemma tick_page [simp]: "c_page (tick i c) = c_page c" "c_submits (tick i c) = c_submits c"
  by (simp_all add: tick_def)

lemma tick_ok: "run_ok u \<Longrightarrow> run_ok (u\<lparr>ru_client := tick i (ru_client u)\<rparr>)"
  by (auto simp: run_ok_def pollers_ok_def tick_def split: if_splits)

lemma occurs_ok:
  assumes "run_ok u" and "occurs l e u = Some v"
  shows "run_ok v"
proof (cases e)
  case (Press i uuid a)
  then show ?thesis using assms press_ok by (auto split: if_splits)
next
  case (Commitment_answer s r)
  then have v: "v = (case generated r (ru_page u) of (s', ok) \<Rightarrow> (if ok then await Addressing else id) (set_page s' (arrived (Generating s) u)))"
    using assms(2) by (simp add: answer_Some)
  obtain s' ok where g: "generated r (ru_page u) = (s', ok)" by force
  have "run_ok (set_page s' (arrived (Generating s) u))"
    using generated_keeps [OF g] by (auto intro!: set_page_same arrived_ok assms(1))
  then show ?thesis unfolding v g by (auto intro: await_ok)
next
  case (Address_answer r)
  then have v: "v = set_page (addressed r (ru_page u)) (arrived Addressing u)" using assms(2) by (simp add: answer_Some)
  have "page_ok (addressed r (ru_page u))" using assms(1) by (intro addressed_ok) (simp add: run_ok_def)
  then show ?thesis unfolding v by (auto simp: addressed_tx intro!: set_page_ok arrived_ok assms(1))
next
  case (Wallet_answer i s sent)
  then have "pg_step s = 2" "v = wallet_sent i s sent (arrived (Wallet_sending s) u)"
    using assms pending_okD [OF assms(1), of "Wallet_sending s"] by (auto simp: answer_Some split: if_splits)
  then show ?thesis using arrived_ok [OF assms(1)]
    by (auto simp: wallet_sent_def Let_def hooks_ok split: sum.splits intro!: polled_from_ok)
next
  case (Broadcast_answer i s r)
  then have "pg_step s = 2" "v = broadcast_answered i s r (arrived (Broadcasting s) u)"
    using assms pending_okD [OF assms(1), of "Broadcasting s"] by (auto simp: answer_Some split: if_splits)
  then show ?thesis using arrived_ok [OF assms(1)]
    by (auto simp: broadcast_answered_def Let_def hooks_ok split: sum.splits intro!: polled_from_ok)
next
  case (Submit_answer s a)
  then have p: "pg_bitcoinTx (ru_page u) \<noteq> []" "v = set_page (submit_done a (ru_page u)) (arrived (Submitting s) u)"
    using assms pending_okD [OF assms(1), of "Submitting s"] by (auto simp: answer_Some)
  have "page_ok (submit_done a (ru_page u))" using p(1) assms(1)
    by (auto simp: submit_done_def page_ok_def run_ok_def split: sum.splits)
  then show ?thesis unfolding p(2) by (auto simp: submit_done_tx intro!: set_page_ok arrived_ok assms(1))
next
  case (Poll_answer i r)
  then show ?thesis using assms by (auto split: if_splits intro!: answered_ok)
qed (use assms in \<open>auto simp: answer_Some hooks_ok arrived_ok split: if_splits intro!: set_wallet_ok tick_ok\<close>)

lemma init_run_ok: "run_ok (init_run rand uuid)"
  by (simp add: run_ok_def init_run_def init_page_def page_ok_def pollers_ok_def)

lemma reached_ok: "reached l u \<Longrightarrow> run_ok u"
  by (induction rule: reached.induct) (auto intro: init_run_ok occurs_ok)

text \<open>A state in which nothing is on its way, no timer is armed and nothing is offered is final.\<close>

lemma stuckI:
  assumes "ru_pending u = []" and "c_live (ru_client u) = []" and "c_flight (ru_client u) = []"
    and "\<And>a. \<not> offers (deposit_view l (ru_page u) (ru_hooks u)) a"
  shows "stuck l u"
proof -
  have "occurs l e u = None" for e
    using assms by (cases e) (simp_all add: answer_None)
  then show ?thesis by (simp add: stuck_def)
qed

lemma nothing_offered:
  assumes "pg_step s = 3" and "pg_submitError s \<noteq> Some ''INSUFFICIENT_GAS''" and "\<not> pg_submitSuccess s"
  shows "\<not> offers (deposit_view l s d) a"
  using assms by (intro offers_none) (simp_all add: deposit_view_split step3_offers)

section \<open>A concrete run\<close>

lemmas run_eval = occur_all.simps occurs.simps press.simps answer_def set_page_def set_wallet_def settle_def render_def
  effect_fires_def await_def arrived_def fresh_def

text \<open>From the first render: the requests on mounting are answered, and an amount is chosen.\<close>

definition demo_mounted :: "deposit_event list" where
  "demo_mounted = [Balance_answer (NoReply [] []), Pool_answer (NoReply [] []), Wallet_detected, Press 0 [] (Set_amount ''0.01'')]"

definition demo_commitment :: reply where
  "demo_commitment = Reply (respond 200 [(''commitment_hash'', JStr ''0x5''), (''nullifier_hash'', JStr ''0x6'')])"

definition demo_address :: reply where
  "demo_address = Reply (respond 200 [(''address'', JStr ''tb1q'')])"

lemma demo_denomination: "num_str (fl (1 / 100)) = ''0.01''" "\<exists>x > 0. number_of_string ''0.01'' = Some x"
proof -
  show "num_str (fl (1 / 100)) = ''0.01''" by code_simp
  have "number_of_string ''0.01'' = Some (fl (1 / 100)) \<and> 0 < fl (1 / 100)" by code_simp
  then show "\<exists>x > 0. number_of_string ''0.01'' = Some x" by blast
qed

lemma amount_offered: "pg_step s = 1 \<Longrightarrow> offers (deposit_view l s h) (Set_amount ''0.01'')"
  using demo_denomination(1) by (auto simp: offers_def deposit_view_split step1_offers page_denominations_def)

lemma demo_replies:
  "depositCommitment demo_commitment = Inr \<lparr>dr_commitment = Some (JStr ''0x5''), dr_nullifier_hash = Some (JStr ''0x6'')\<rparr>"
  "axios_data demo_address = Inr (JObj [(''address'', JStr ''tb1q'')])"
  by (simp_all add: depositCommitment_def demo_commitment_def demo_address_def client_eval)

lemma demo_chosen:
  "\<exists>u. occur_all l demo_mounted (init_run (replicate 31 7) []) = Some u \<and> ru_pending u = [] \<and> c_live (ru_client u) = []
     \<and> c_flight (ru_client u) = [] \<and> c_pollers (ru_client u) = (\<lambda>_. None) \<and> pg_step (ru_page u) = 1
     \<and> \<not> pg_hasSentBTC (ru_page u) \<and> \<not> pg_submitSuccess (ru_page u) \<and> commitment_request (ru_page u) \<noteq> None"
proof -
  have o: "offers (deposit_view l s h) (Set_amount ''0.01'')" if "pg_step s = 1" for s h
    using that by (rule amount_offered)
  obtain x where x: "number_of_string ''0.01'' = Some x" "0 < x" using demo_denomination(2) by blast
  show ?thesis
    by (simp add: demo_mounted_def run_eval o init_run_def init_page_def balance_checked_def checkBroadcastAvailability_def
        pool_fetched_def init_hooks_def client_eval commitment_request_def x not_le)
qed

lemma demo_reached:
  "\<exists>u. reached l u \<and> ru_pending u = [] \<and> c_live (ru_client u) = [] \<and> c_flight (ru_client u) = []
     \<and> c_pollers (ru_client u) = (\<lambda>_. None) \<and> pg_step (ru_page u) = 1 \<and> \<not> pg_hasSentBTC (ru_page u)
     \<and> \<not> pg_submitSuccess (ru_page u) \<and> commitment_request (ru_page u) \<noteq> None"
  using demo_chosen [of l] occur_all_reached [OF _ reached.start] by (elim exE conjE) blast

text \<open>The commitment is created and the payment announced; then the first poll finds it confirmed.\<close>

lemma demo_announced:
  "\<exists>v. reached l v \<and> ru_pending v = [] \<and> c_live (ru_client v) = [0] \<and> c_flight (ru_client v) = [0]
     \<and> c_pollers (ru_client v) 0 = Some \<lparr>po_id = 0, po_step = 2, po_attempts = 1\<rparr> \<and> pg_interval (ru_page v) = Some 0
     \<and> pg_step (ru_page v) = 2 \<and> \<not> pg_submitSuccess (ru_page v)"
proof -
  obtain u where u: "reached l u" "ru_pending u = []" "c_live (ru_client u) = []" "c_flight (ru_client u) = []"
    "c_pollers (ru_client u) = (\<lambda>_. None)" "pg_step (ru_page u) = 1" "\<not> pg_hasSentBTC (ru_page u)"
    "\<not> pg_submitSuccess (ru_page u)" "commitment_request (ru_page u) \<noteq> None"
    using demo_reached [of l] by (elim exE conjE) (rule that)
  then have n: "\<not> pg_loading (ru_page u)" by (auto simp: commitment_request_def split: if_splits)
  have o: "pg_step s = 1 \<Longrightarrow> \<not> pg_loading s \<Longrightarrow> offers (deposit_view l s h) Generate_commitment"
    "pg_step s = 2 \<Longrightarrow> \<not> pg_hasSentBTC s \<Longrightarrow> offers (deposit_view l s h) Manually_sent" for s h
    by (simp_all add: offers_def deposit_view_split step1_offers view_step2_def view_sending_def Let_def)
  let ?es = "[Press 0 [] Generate_commitment, Commitment_answer (ru_page u) demo_commitment, Address_answer demo_address,
    Press 0 [] Manually_sent]"
  obtain v where v: "occur_all l ?es u = Some v" "ru_pending v = []" "c_live (ru_client v) = [0]" "c_flight (ru_client v) = [0]"
    "c_pollers (ru_client v) 0 = Some \<lparr>po_id = 0, po_step = 2, po_attempts = 1\<rparr>" "pg_interval (ru_page v) = Some 0"
    "pg_step (ru_page v) = 2" "\<not> pg_submitSuccess (ru_page v)"
    using u(2-9) n o
    by (simp add: run_eval generated_def addressed_def demo_replies truthy_json_def json_field_def start_polling_def startPolling_def
        known_txid_def truthy_def Let_def)
  then show ?thesis using occur_all_reached [OF v(1) u(1)] by blast
qed

lemma demo_submitting:
  "\<exists>u q. reached l u \<and> ru_pending u = [Submitting q] \<and> c_live (ru_client u) = [] \<and> c_flight (ru_client u) = []
     \<and> pg_step (ru_page u) = 3 \<and> \<not> pg_submitSuccess (ru_page u)"
proof -
  obtain v where v: "reached l v" "ru_pending v = []" "c_live (ru_client v) = [0]" "c_flight (ru_client v) = [0]"
    "c_pollers (ru_client v) 0 = Some \<lparr>po_id = 0, po_step = 2, po_attempts = 1\<rparr>" "pg_interval (ru_page v) = Some 0"
    "pg_step (ru_page v) = 2" "\<not> pg_submitSuccess (ru_page v)"
    using demo_announced [of l] by (elim exE conjE) (rule that)
  obtain w q where w: "occurs l (Poll_answer 0 (demo_reply True 1)) v = Some w" "ru_pending w = [Submitting q]"
    "c_live (ru_client w) = []" "c_flight (ru_client w) = []" "pg_step (ru_page w) = 3" "\<not> pg_submitSuccess (ru_page w)"
    using v(2-8) demo_detected [of 1]
    by (auto simp: answered_def poll_answer_def detected_def settle_def render_def effect_fires_def submit_start_def)
  then show ?thesis using reached.event [OF v(1) w(1)] by blast
qed

lemma demo_polling: "\<exists>u. reached l u \<and> 0 \<in> set (c_flight (ru_client u)) \<and> pg_step (ru_page u) = 2"
  using demo_announced [of l] by (elim exE conjE) auto

section \<open>Properties\<close>

text \<open>
  C30. A submission that fails strands the deposit. When it was the last thing on its way, the page shows
  the error, and from there nothing can happen any more: no button of the view is enabled, no timer
  is armed and no answer is awaited. The only offer to try again belongs to the text
  \<open>INSUFFICIENT_GAS\<close>; the instruction to wait and try again comes without a button, and loading the
  page anew discards the secret, the commitment and the transaction.
\<close>

theorem failed_submission_strands:
  assumes "reached l u" and "ru_pending u = [Submitting s]" and "c_live (ru_client u) = []" and "c_flight (ru_client u) = []"
    and "pg_step (ru_page u) = 3" and "\<not> pg_submitSuccess (ru_page u)" and "m \<noteq> ''INSUFFICIENT_GAS''"
  shows "\<exists>v. occurs l (Submit_answer s (Inl m)) u = Some v \<and> reached l v \<and> stuck l v
     \<and> (m \<noteq> [] \<longrightarrow> cross_sign @ '' '' @ m \<in> set (texts (deposit_view l (ru_page v) (ru_hooks v))))"
proof -
  let ?s = "submit_done (Inl m) (ru_page u)" and ?v = "set_page (submit_done (Inl m) (ru_page u)) (arrived (Submitting s) u)"
  have o: "occurs l (Submit_answer s (Inl m)) u = Some ?v" using assms(2) by (simp add: answer_def)
  have "\<not> effect_fires (ru_page u) ?s" by (simp add: effect_fires_def submit_done_def)
  then have v: "ru_page ?v = ?s" "ru_pending ?v = []" "c_live (ru_client ?v) = []" "c_flight (ru_client ?v) = []"
    using assms(2-4) by (simp_all add: set_page_def settle_def render_def arrived_def)
  have s: "pg_step ?s = 3" "pg_submitError ?s = Some m" "\<not> pg_submitSuccess ?s"
    using assms(5,6) by (simp_all add: submit_done_def)
  have "stuck l ?v" using v s assms(7) by (intro stuckI nothing_offered) simp_all
  moreover have "m \<noteq> [] \<longrightarrow> cross_sign @ '' '' @ m \<in> set (texts (deposit_view l (ru_page ?v) (ru_hooks ?v)))"
    using s assms(7) by (simp add: v(1) deposit_view_def view_step3_def view_submit_error_def)
  ultimately show ?thesis using o reached.event [OF assms(1) o] by blast
qed

theorem failed_submission_strands_witness:
  "\<exists>u v s. reached (\<lambda>_. []) u \<and> occurs (\<lambda>_. []) (Submit_answer s (Inl ''Insufficient funds'')) u = Some v
     \<and> stuck (\<lambda>_. []) v"
proof -
  obtain u q where u: "reached (\<lambda>_. []) u" "ru_pending u = [Submitting q]" "c_live (ru_client u) = []"
    "c_flight (ru_client u) = []" "pg_step (ru_page u) = 3" "\<not> pg_submitSuccess (ru_page u)"
    using demo_submitting [of "\<lambda>_. []"] by (elim exE conjE) (rule that)
  have m: "''Insufficient funds'' \<noteq> ''INSUFFICIENT_GAS''" by simp
  show ?thesis using failed_submission_strands [OF u m] u(1) by (elim exE conjE) (intro exI conjI)
qed

text \<open>
  Every sighting leads to step 3, whatever the step was: a poll compares with the step of the render
  that started it, which is always 2, so that the branch that only updates the confirmations is never taken.
  A confirmed one that finds the page elsewhere, as after a finished deposit, submits again.
\<close>

theorem sighting_returns_to_step3:
  assumes "reached l u" and "i \<in> set (c_flight (ru_client u))" and "detected t x r"
  shows "\<exists>v. occurs l (Poll_answer i r) u = Some v \<and> pg_step (ru_page v) = 3 \<and> pg_bitcoinTx (ru_page v) = t
     \<and> pg_confirmations (ru_page v) = x
     \<and> (pg_step (ru_page u) \<noteq> 3 \<and> 1 \<le> x \<longrightarrow> (\<exists>q. ru_pending v = ru_pending u @ [Submitting q] \<and> pg_bitcoinTx q = t))"
proof -
  obtain p where p: "c_pollers (ru_client u) i = Some p" "po_step p = 2"
    using reached_ok [OF assms(1)] assms(2) unfolding run_ok_def pollers_ok_def by blast
  obtain res where r: "detectLock r = Inr res" "truthy_json (lk_locked res)" "txid_of res = t" "t \<noteq> []" "confs_of res = x"
    using assms(3) by (auto simp: detected_def)
  let ?c = "answered i r (ru_client u)"
  obtain s where a: "fst (poll_answer (detectLock r) p (ru_page u)) = s" "pg_step s = 3" "pg_bitcoinTx s = t" "pg_confirmations s = x"
    using r p(2) by (simp add: poll_answer_def)
  have c: "c_page ?c = s" "c_submits ?c = c_submits (ru_client u) + (if effect_fires (ru_page u) s then 1 else 0)"
    using assms(2) p(1) a(1) by (auto simp: answered_def render_def split: prod.split)
  have o: "occurs l (Poll_answer i r) u = Some (settle ?c u)" using assms(2) by simp
  have "effect_fires (ru_page u) s" if "pg_step (ru_page u) \<noteq> 3" "1 \<le> x"
    using that a r(4) by (simp add: effect_fires_def)
  then show ?thesis using o a c by (auto simp: settle_def submit_start_def)
qed

theorem sighting_returns_to_step3_witness:
  "\<exists>u v i q. reached (\<lambda>_. []) u \<and> occurs (\<lambda>_. []) (Poll_answer i (demo_reply True 1)) u = Some v \<and> pg_step (ru_page v) = 3
     \<and> ru_pending v = ru_pending u @ [Submitting q]"
proof -
  obtain u where u: "reached (\<lambda>_. []) u" "0 \<in> set (c_flight (ru_client u))" "pg_step (ru_page u) = 2"
    using demo_polling [of "\<lambda>_. []"] by (elim exE conjE) (rule that)
  have d: "detected ''t1'' 1 (demo_reply True 1)" using demo_detected [of 1] by simp
  show ?thesis using sighting_returns_to_step3 [OF u(1,2) d] u by fastforce
qed

text \<open>
  C18. From step 3 on the page knows a transaction, in every run: it links to it (the text for
  a missing one is never shown); and whatever is being submitted was submitted at step 3 with one.
\<close>

theorem transaction_always_known:
  assumes "reached l u"
  shows "1 \<le> pg_step (ru_page u) \<and> pg_step (ru_page u) \<le> 4
     \<and> (3 \<le> pg_step (ru_page u) \<longrightarrow>
         pg_bitcoinTx (ru_page u) \<noteq> []
         \<and> (pg_bitcoinTx (ru_page u), mempool_link (pg_bitcoinTx (ru_page u)))
              \<in> set (links (deposit_view l (ru_page u) (ru_hooks u))))
     \<and> (\<forall>q. Submitting q \<in> set (ru_pending u) \<longrightarrow> pg_step q = 3 \<and> pg_bitcoinTx q \<noteq> [])"
proof -
  let ?s = "ru_page u"
  have ok: "page_ok ?s" "\<And>q. Submitting q \<in> set (ru_pending u) \<Longrightarrow> pg_step q = 3 \<and> pg_bitcoinTx q \<noteq> []"
    using reached_ok [OF assms] by (auto simp: run_ok_def)
  have "(pg_bitcoinTx ?s, mempool_link (pg_bitcoinTx ?s)) \<in> set (links (deposit_view l ?s (ru_hooks u)))" if "3 \<le> pg_step ?s"
  proof -
    have "pg_step ?s = 3 \<or> pg_step ?s = 4" "pg_bitcoinTx ?s \<noteq> []" using ok(1) that by (auto simp: page_ok_def)
    then show ?thesis
      by (auto simp: deposit_view_def view_step3_def view_bitcoin_proof_def view_step4_def view_final_bitcoin_def)
  qed
  then show ?thesis using ok by (auto simp: page_ok_def)
qed

theorem transaction_always_known_witness:
  "\<exists>u q. reached (\<lambda>_. []) u \<and> Submitting q \<in> set (ru_pending u) \<and> pg_bitcoinTx q \<noteq> []"
proof -
  obtain u q where u: "reached (\<lambda>_. []) u" "Submitting q \<in> set (ru_pending u)"
    using demo_submitting [of "\<lambda>_. []"] by (elim exE conjE) (rule that, auto)
  then show ?thesis using transaction_always_known [OF u(1)] by blast
qed

text \<open>
  C31. The amount and the secret can change under the commitment. While the request is on its way only
  the button that sent it is disabled; what is chosen and typed then stays, and at step 2 the page asks to send
  exactly the new amount, beside the commitment to the old amount and secret.
\<close>

theorem amount_changes_under_commitment:
  assumes "reached l u" and "pg_step (ru_page u) = 1" and "commitment_request (ru_page u) = Some q" and "fresh i u"
    and "depositCommitment r = Inr res" and "truthy_json (dr_commitment res)" and "truthy_json (dr_nullifier_hash res)"
    and "axios_data a = Inr b" and "truthy_json (json_field b ''address'')" and "d \<in> set page_denominations"
  shows "\<exists>v. occur_all l [Press i x Generate_commitment, Press i x (Set_amount (num_str d)), Press i x (Set_secret t),
         Commitment_answer (ru_page u) r, Address_answer a] u = Some v \<and> reached l v \<and> pg_step (ru_page v) = 2
     \<and> pg_commitment (ru_page v) = js_text (the (dr_commitment res)) \<and> pg_secret (ru_page v) = t
     \<and> ''Action Required: Send exactly '' @ num_str d @ '' BTC from your Xverse wallet (or any Bitcoin wallet) to the vault address below.''
         \<in> set (texts (deposit_view l (ru_page v) (ru_hooks v)))"
proof -
  have q: "\<not> pg_loading (ru_page u)" using assms(3) by (simp add: commitment_request_def split: if_splits)
  have o: "offers (deposit_view l s h) a" if "pg_step s = 1" "a \<in> {Set_amount (num_str d), Set_secret t}
      \<or> a = Generate_commitment \<and> \<not> pg_loading s" for s h a
    using that assms(10) by (auto simp: offers_def deposit_view_split step1_offers)
  note run = occur_all.simps occurs.simps press.simps o assms(2-9) q answer_def set_page_def settle_def render_def
    effect_fires_def await_def arrived_def fresh_def generated_def addressed_def
  obtain v where v: "occur_all l [Press i x Generate_commitment, Press i x (Set_amount (num_str d)), Press i x (Set_secret t),
         Commitment_answer (ru_page u) r, Address_answer a] u = Some v" "pg_step (ru_page v) = 2"
    "pg_commitment (ru_page v) = js_text (the (dr_commitment res))" "pg_secret (ru_page v) = t" "pg_amount (ru_page v) = num_str d"
    using assms(4) by (simp add: run)
  have "''Action Required: Send exactly '' @ num_str d @ '' BTC from your Xverse wallet (or any Bitcoin wallet) to the vault address below.''
      \<in> set (texts (deposit_view l (ru_page v) (ru_hooks v)))"
    using v(2,5) by (simp add: deposit_view_def view_step2_def view_locking_def)
  then show ?thesis using v occur_all_reached [OF v(1) assms(1)] by blast
qed

theorem amount_changes_under_commitment_witness:
  "\<exists>u v q. reached (\<lambda>_. []) u \<and> commitment_request (ru_page u) = Some q \<and> reached (\<lambda>_. []) v \<and> pg_step (ru_page v) = 2
     \<and> pg_commitment (ru_page v) = ''0x5'' \<and> pg_secret (ru_page v) = ''0x99''"
proof -
  obtain u q where u: "reached (\<lambda>_. []) u" "pg_step (ru_page u) = 1" "commitment_request (ru_page u) = Some q" "fresh 0 u"
    using demo_reached [of "\<lambda>_. []"] by (auto simp: fresh_def)
  have d: "fl (1 / 10) \<in> set page_denominations" by (simp add: page_denominations_def)
  show ?thesis
    using amount_changes_under_commitment [OF u demo_replies(1) _ _ demo_replies(2) _ d, of _ "''0x99''"] u
    by (fastforce simp: truthy_json_def json_field_def)
qed

end
