(* ===== verification/PageViews.thy ===== *)
theory PageViews
  imports View Pages DepositPage
begin

text \<open>
  What the other pages show, as functions of their states: the dashboard (\<open>page.tsx\<close>), the audit
  ledger (\<open>audit/page.tsx\<close>), the withdrawal (\<open>withdraw/page.tsx\<close>), the header
  (\<open>components/Header.tsx\<close>) and the store of the toasts (\<open>components/ui/toaster.tsx\<close>). A view that
  reads a property of \<open>undefined\<close> or calls a method that the value lacks throws, and is \<open>None\<close>. The
  locale's formats of numbers and dates are parameters.
\<close>

section \<open>Withdrawal\<close>

datatype withdraw_action = Set_wd_secret string | Set_wd_nullifier string | Set_wd_address string | Infer_nullifier
  | Withdraw_now

type_synonym withdraw_view = "withdraw_action element list"

definition view_claim :: "withdraw_page \<Rightarrow> withdraw_view" where
  "view_claim s = [Heading ''Withdraw Bitcoin'', Text ''Burn sBTC and release native Bitcoin'', Heading ''Prepare Claim'',
     Text (''Enter the secret generated during your deposit to construct the Zero-Knowledge '' @ ''withdrawal proof.''),
     Text ''Withdrawal Secret'', Field ''0x...'' (wd_secret s) Set_wd_secret,
     Text ''Nullifier Hash'', Button ''Auto-derive'' False Infer_nullifier, Field ''0x...'' (wd_nullifier s) Set_wd_nullifier,
     Text ''Bitcoin Withdrawal Address (Signet)'',
     Field ''tb1q... (Enter a DIFFERENT address, not the vault address)'' (wd_bitcoinAddress s) Set_wd_address,
     Text (warning_sign @ '' Enter a different Bitcoin address where you want to receive your funds. ''
       @ ''Do NOT use the vault address (tb1qhkjy7mc9nwg3rtnjapuqg5xczc50nv6ysm5ak8) - that just consolidates UTXOs!''),
     Button (if wd_proofParams s \<noteq> None then ''Withdrawal Complete'' else ''Generate ZK Proof & Withdraw'') (withdraw_disabled s)
       Withdraw_now]"

definition view_withdrawn :: "shown_withdrawal \<Rightarrow> withdraw_view" where
  "view_withdrawn p =
     [Text (''WITHDRAWAL COMPLETE: The ZK proof was verified and your MockBTC was burned on Starknet. '' @ banner p),
      Text ''Starknet Transaction'']
     @ shown_if (sw_txHash p \<noteq> [])
         [Text (sw_txHash p), Link (''View on Voyager '' @ arrow) (''https://sepolia.voyager.online/tx/'' @ sw_txHash p)]"

definition view_payout :: "shown_withdrawal \<Rightarrow> withdraw_view" where
  "view_payout p =
     shown_if (shows_link p)
       [Text ''Bitcoin Payout'', Text ''Transaction ID:'', Text (sw_bitcoinTxid p), Text ''Sent to:'', Text (sw_bitcoinAddress p),
        Link (''View on Mempool.space '' @ arrow) (''https://mempool.space/signet/tx/'' @ sw_bitcoinTxid p)]
     @ shown_if (sw_bitcoinTxid p = [] \<or> sw_bitcoinTxid p = ''Pending'')
       [Text (warning_sign @ '' Bitcoin Payout Pending: Starknet withdrawal succeeded, but Bitcoin sending failed. ''
          @ ''Please contact support with your withdrawal secret.'')]"

definition withdraw_view :: "withdraw_page \<Rightarrow> withdraw_view" where
  "withdraw_view s = view_claim s @ (case wd_proofParams s of None \<Rightarrow> [] | Some p \<Rightarrow> view_withdrawn p @ view_payout p)"

text \<open>\<open>Auto-derive\<close> only shows a message; the other actions set a field or send the request.\<close>

fun withdraw_press :: "withdraw_action \<Rightarrow> withdraw_page \<Rightarrow> withdraw_page" where
  "withdraw_press (Set_wd_secret t) s = s\<lparr>wd_secret := t\<rparr>"
| "withdraw_press (Set_wd_nullifier t) s = s\<lparr>wd_nullifier := t\<rparr>"
| "withdraw_press (Set_wd_address t) s = s\<lparr>wd_bitcoinAddress := t\<rparr>"
| "withdraw_press Infer_nullifier s = s"
| "withdraw_press Withdraw_now s = (if withdraw_guard s = None then s\<lparr>wd_proofLoading := True\<rparr> else s)"

section \<open>Audit ledger\<close>

datatype audit_action = Refresh_ledger | Verify_on_chain | Toggle_refresh | Copy_tx string | Close_modal

type_synonym audit_view = "audit_action element list"

definition view_badge :: "string \<Rightarrow> string" where
  "view_badge st = (let l = statusBadge st in
     (if l = ''Confirmed'' then full_dot else if l = ''Failed'' then cross_sign else hollow_dot) @ '' '' @ l)"

definition view_hash :: "string \<Rightarrow> audit_view" where
  "view_hash h = [Text (short_hash h), Button copy_sign False (Copy_tx h), Link out_sign (''https://sepolia.voyager.online/tx/'' @ h)]"

text \<open>The text of a field on which a string method is called.\<close>

definition string_field :: "json \<Rightarrow> string \<Rightarrow> string option" where
  "string_field j k = (case json_field j k of Some (JStr s) \<Rightarrow> Some s | _ \<Rightarrow> None)"

definition view_event :: "(json option \<Rightarrow> string) \<Rightarrow> nat \<Rightarrow> json \<Rightarrow> audit_view option" where
  "view_event date i e = map_option (\<lambda>h.
     [Text (str_of_nat (Suc i)), Text (date (json_field e ''timestamp'')), Text (jsx (json_field e ''type'')),
      Text (jsx (json_field e ''amount'') @ '' BTC'')] @ view_hash h @ [Text (view_badge (shown (json_field e ''status'')))])
     (string_field e ''tx_hash'')"

definition all_views :: "(nat \<Rightarrow> json \<Rightarrow> 'a element list option) \<Rightarrow> json list \<Rightarrow> 'a element list option" where
  "all_views f es = map_option concat (those (map (\<lambda>(i, e). f i e) (zip [0..<length es] es)))"

text \<open>The body of the table: 24 placeholders while loading, a notice, or a row for each event.\<close>

definition view_rows :: "(json option \<Rightarrow> string) \<Rightarrow> audit_page \<Rightarrow> audit_view option" where
  "view_rows date s =
     (if ap_isLoading s then Some (replicate 24 (Text []))
      else (case ap_events s of
          Some (JArr es) \<Rightarrow> if es = [] then Some [Text ''No audit events yet. Make a deposit to generate records.'']
            else all_views (view_event date) es
        | Some (JStr []) \<Rightarrow> Some [Text ''No audit events yet. Make a deposit to generate records.'']
        | _ \<Rightarrow> None))"

definition view_audit_bar :: "audit_page \<Rightarrow> audit_view" where
  "view_audit_bar s = [Text (emdash @ '' Verification Hub''), Heading ''Audit Ledger'',
     Text ''On-chain verification of every stored transaction hash'',
     Button (if ap_isLoading s then busy_sign @ '' Loading...'' else again_sign @ '' Refresh Ledger'') (ap_isLoading s) Refresh_ledger,
     Button (if ap_isVerifying s then busy_sign @ '' Verifying...'' else jewel_sign @ '' Verify On-Chain'') (ap_isVerifying s)
       Verify_on_chain,
     Text ''Auto-refresh 30s'', Mark [] (ap_autoRefresh s), Button [] False Toggle_refresh]
     @ map Text [''#'', ''Timestamp'', ''Type'', ''Amount'', ''TX Hash'', ''Status'']"

definition view_result :: "nat \<Rightarrow> json \<Rightarrow> audit_view option" where
  "view_result i r = map_option (\<lambda>h. [Text (take 12 h @ ''...'' @ last_chars 6 h), Text (view_badge (shown (json_field r ''status'')))]
     @ shown_if (truthy_json (json_field r ''voyager_url'')) [Link out_sign (js_text (the (json_field r ''voyager_url'')))])
     (string_field r ''tx_hash'')"

definition view_modal :: "audit_page \<Rightarrow> audit_view option" where
  "view_modal s = (if \<not> ap_showModal s then Some []
     else let title = [Button [] False Close_modal, Heading (jewel_sign @ '' On-Chain Verification Results'')] in
       if \<not> truthy_json (ap_verifyResults s) then Some title
       else (let v = the (ap_verifyResults s) in case json_field v ''results'' of
           Some (JArr rs) \<Rightarrow> map_option (\<lambda>rows. title
             @ concat (map (\<lambda>(label, k). [Text (jsx (json_field v k)), Text label])
                 [(''Confirmed'', ''verified''), (''Pending'', ''pending''), (''Failed'', ''failed'')]) @ rows) (all_views view_result rs)
         | _ \<Rightarrow> None))"

definition audit_view :: "(json option \<Rightarrow> string) \<Rightarrow> audit_page \<Rightarrow> audit_view option" where
  "audit_view date s = (case (view_rows date s, view_modal s) of
     (Some rows, Some modal) \<Rightarrow> Some (view_audit_bar s @ rows @ modal) | _ \<Rightarrow> None)"

section \<open>Dashboard\<close>

datatype home_action = Refresh_data | Copy_text string | Run_checks

type_synonym home_view = "home_action element list"

definition view_hero :: home_view where
  "view_hero = [Text (''ZK-STARK Powered '' @ middle_dot @ '' Starknet Sepolia''), Heading ''Private Bitcoin Bridge on Starknet'',
     Text (''Deposit Bitcoin via Signet. Generate zero-knowledge proofs via SHARP. ''
       @ ''Withdraw securely and privately on the Sepolia testnet.''),
     Link (down_arrow @ '' Deposit BTC'') ''/deposit'', Link (up_arrow @ '' Withdraw BTC'') ''/withdraw'']"

text \<open>The metrics are the constant 0 of \<open>getVaultStatus\<close>, which \<open>||\<close> replaces by the text \<open>0\<close>.\<close>

definition metric :: "vault_stats option \<Rightarrow> string" where
  "metric st = (case map_option (\<lambda>_. 0 :: rat) st of None \<Rightarrow> ''0'' | Some x \<Rightarrow> if x = 0 then ''0'' else num_str x)"

definition contract_reachable :: "vault_stats option \<Rightarrow> bool" where
  "contract_reachable st \<longleftrightarrow> (case st of None \<Rightarrow> False | Some v \<Rightarrow> truthy_json (vs_vaultContractReachable v))"

definition block_text :: "(rat \<Rightarrow> string) \<Rightarrow> vault_stats option \<Rightarrow> string" where
  "block_text locale st = (case st of None \<Rightarrow> ''---''
     | Some v \<Rightarrow> if truthy_json (vs_blockNumber v)
         then (case vs_blockNumber v of Some (JNum x) \<Rightarrow> locale x | b \<Rightarrow> js_text (the b)) else ''---'')"

definition view_stats :: "(rat \<Rightarrow> string) \<Rightarrow> dashboard \<Rightarrow> home_view" where
  "view_stats locale s = [Text ''Starknet Block'', Text (block_text locale (db_status s)), Text ''Live Sepolia Network'',
     Text ''Total Deposits'', Text (metric (db_status s)), Text ''sBTC locked in vault'',
     Text ''Active HTLCs'', Text (metric (db_status s)), Text ''Pending claims'', Text ''Backend Status'',
     Text (full_dot @ (if contract_reachable (db_status s) then '' Online'' else '' Degraded'')),
     Text (if contract_reachable (db_status s) then ''Connected to Starknet RPC'' else ''RPC Failure Detected'')]"

definition operational :: string where
  "operational = ''Operational '' @ tick_sign"

definition view_network :: home_view where
  "view_network = map Text [''Network'', ''Starknet Sepolia'', ''RPC Provider'', ''Alchemy'', ''Bitcoin Network'', ''Signet'',
     ''BTC API'', ''Tatum Gateway'', ''Vault Status'', operational, ''Hash Functions'', ''Pedersen '' @ middle_dot @ '' Poseidon'',
     hexagon, ''Starknet Interaction'', full_dot @ '' Real '' @ emdash @ '' On-chain RPC'',
     bitcoin_sign, ''Bitcoin Signet'', full_dot @ '' Real '' @ emdash @ '' Tatum Gateway'',
     jewel_sign, ''SHARP ZK Prover'', full_dot @ '' Real '' @ emdash @ '' Cairo Output Processed'']"

text \<open>\<open>type.replace(/_/g, ' ').replace('MOCKBTC', 'SBTC')\<close>, which replaces the first occurrence only.\<close>

fun replace_first :: "string \<Rightarrow> string \<Rightarrow> string \<Rightarrow> string" where
  "replace_first old new [] = (if old = [] then new else [])"
| "replace_first old new (c # cs) =
     (if starts_with (c # cs) old then new @ drop (length old) (c # cs) else c # replace_first old new cs)"

definition type_text :: "string \<Rightarrow> string" where
  "type_text t = replace_first ''MOCKBTC'' ''SBTC'' (map (\<lambda>c. if c = CHR ''_'' then CHR '' '' else c) t)"

definition view_log :: "(json option \<Rightarrow> string) \<Rightarrow> nat \<Rightarrow> json \<Rightarrow> home_view option" where
  "view_log date i e = (case string_field e ''type'' of
     None \<Rightarrow> None
   | Some t \<Rightarrow>
       let row = [Mark (dot e) True, Text (type_text t), Text (date (json_field e ''timestamp''))] in
       if truthy_json (json_field e ''tx_hash'')
       then map_option (\<lambda>h. row @ [Link (formatHash h @ '' '' @ out_sign) (''https://sepolia.voyager.online/tx/'' @ h)])
              (string_field e ''tx_hash'')
       else Some row)"

definition view_feed :: "(json option \<Rightarrow> string) \<Rightarrow> dashboard \<Rightarrow> home_view option" where
  "view_feed date s = map_option (\<lambda>rows. [Text ''Live Activity Feed'',
       Button (if db_loading s then again_sign @ '' Refreshing...'' else again_sign @ '' Refresh'') False Refresh_data] @ rows)
     (if db_logs s = [] then Some [Text hexagon, Text ''No activity recorded yet. Make a deposit to see events appear here.'']
      else all_views (view_log date) (db_logs s))"

text \<open>The two addresses, from the build's environment or the source's defaults.\<close>

definition VAULT_ADDRESS :: "string option \<Rightarrow> string" where
  "VAULT_ADDRESS e = (if truthy e then the e else ''0x03e735d12f81f2f4beb45634bef9997ae3bde996c2f84a204957dc5ef2209de2'')"

definition SBTC_ADDRESS :: "string option \<Rightarrow> string" where
  "SBTC_ADDRESS e = (if truthy e then the e else ''0x0291c79b16b1541361c8efe84c5558994066948cfe9b7075db781a758c2cec52'')"

definition view_contracts :: "string \<Rightarrow> string \<Rightarrow> home_view" where
  "view_contracts vault sbtc = [Text ''Contract Addresses'', Text (''Vault Contract '' @ middle_dot @ '' Starknet Sepolia''),
     Button vault False (Copy_text vault), Text (out_sign @ '' Voyager '' @ middle_dot @ '' Starkscan''),
     Text (''sBTC Token '' @ middle_dot @ '' ERC-20 Sepolia''), Button sbtc False (Copy_text sbtc), Text (out_sign @ '' Verify on Voyager''),
     Text ''Proof System'', Text ''ZK-STARK via SHARP'', Text (''Cairo 2/3 '' @ middle_dot @ '' Pedersen + Poseidon''),
     Text (''SQLite '' @ middle_dot @ '' LockManager '' @ middle_dot @ '' Rate Limiter''), Text ''Quick Verify'',
     Link (out_sign @ '' Open Voyager Explorer'') ''https://sepolia.voyager.online/'',
     Link (out_sign @ '' Open Starkscan'') ''https://sepolia.starkscan.co/'']"

definition check_labels :: "string list" where
  "check_labels = [''Backend running'', ''Block number live'', ''Vault contract reachable'', ''Bitcoin Signet API alive'']"

fun check_text :: "check_status \<Rightarrow> string" where
  "check_text Idle = emdash @ '' Idle''"
| "check_text Checking = busy_sign @ '' Checking...''"
| "check_text Pass = tick_sign @ '' Pass''"
| "check_text Fail = cross_sign @ '' Fail''"

definition view_checks :: "bool \<Rightarrow> check_status list \<Rightarrow> home_view" where
  "view_checks busy cs = [Text (emdash @ '' System Verification Checklist''),
     Button (if busy then busy_sign @ '' Running...'' else play_sign @ '' Run Checks'') busy Run_checks]
     @ concat (map2 (\<lambda>label c. [Text label, Text (check_text c)]) check_labels cs)"

text \<open>The page; \<open>shown_toast\<close> is its own short message after copying.\<close>

definition home_view :: "(rat \<Rightarrow> string) \<Rightarrow> (json option \<Rightarrow> string) \<Rightarrow> string \<Rightarrow> string \<Rightarrow> dashboard \<Rightarrow> bool \<Rightarrow> check_status list
    \<Rightarrow> string option \<Rightarrow> home_view option" where
  "home_view locale date vault sbtc s busy cs shown_toast = map_option (\<lambda>feed.
     view_hero @ view_stats locale s @ view_network @ feed @ view_contracts vault sbtc @ view_checks busy cs
     @ [Text (case shown_toast of None \<Rightarrow> [] | Some t \<Rightarrow> t)]) (view_feed date s)"

section \<open>Header\<close>

datatype header_action = Connect_starknet | Disconnect_starknet

definition truncateAddress :: "string \<Rightarrow> string" where
  "truncateAddress a = (if a = [] then [] else take 6 a @ ''...'' @ last_chars 4 a)"

text \<open>\<open>fetchBlock\<close>: the block shown, which a failed request or a malformed answer leaves as it is.\<close>

definition fetchBlock :: "reply \<Rightarrow> json option \<Rightarrow> json option" where
  "fetchBlock r block = (case axios_data r of
     Inl _ \<Rightarrow> block
   | Inr h \<Rightarrow> (case read_prop (Some h) ''starknet'' of
       Inl _ \<Rightarrow> block
     | Inr sn \<Rightarrow> (case read_prop sn ''blockNumber'' of Inl _ \<Rightarrow> block | Inr b \<Rightarrow> b)))"

definition header_view :: "string \<Rightarrow> json option \<Rightarrow> wallet_context \<Rightarrow> header_action element list" where
  "header_view pathname block c = [Link ''PrivateBTC Vault'' ''/'']
     @ concat (map (\<lambda>(label, href). [Link label href, Mark label (pathname = href)])
         [(''Dashboard'', ''/''), (''Deposit'', ''/deposit''), (''Withdraw'', ''/withdraw''), (''Audit'', ''/audit'')])
     @ [Text ''SEPOLIA'', Text (''#'' @ (if truthy_json block then jsx block else ''---'')),
        (if truthy (snd c) \<and> fst c \<noteq> None then Button (jewel_sign @ '' '' @ truncateAddress (the (snd c))) False Disconnect_starknet
         else Button (jewel_sign @ '' Connect Wallet'') False Connect_starknet)]"

section \<open>Toasts\<close>

record toast =
  to_id :: string
  to_title :: "string option"
  to_description :: "string option"

definition toast_added :: "toast \<Rightarrow> toast list \<Rightarrow> toast list" where
  "toast_added t ts = ts @ [t]"

definition toast_expired :: "string \<Rightarrow> toast list \<Rightarrow> toast list" where
  "toast_expired i ts = filter (\<lambda>t. to_id t \<noteq> i) ts"

definition toaster_view :: "toast list \<Rightarrow> unit element list" where
  "toaster_view ts = concat (map (\<lambda>t.
     shown_if (truthy (to_title t)) [Text (the (to_title t))]
     @ shown_if (truthy (to_description t)) [Text (the (to_description t))]) ts)"

section \<open>Lemmas\<close>

lemma those_Some: "(\<And>x. x \<in> set xs \<Longrightarrow> f x = Some (g x)) \<Longrightarrow> those (map f xs) = Some (map g xs)"
  by (induction xs) auto

text \<open>A view of each member, when none throws.\<close>

lemma all_views_Some:
  assumes "\<And>i e. e \<in> set es \<Longrightarrow> f i e = Some (g i e)"
  shows "all_views f es = Some (concat (map (\<lambda>(i, e). g i e) (zip [0..<length es] es)))"
  using assms unfolding all_views_def by (subst those_Some [where g = "\<lambda>(i, e). g i e"]) (auto dest: set_zip_rightD)

lemma links_concat: "links (concat (map f xs)) = concat (map (\<lambda>x. links (f x)) xs)"
  by (induction xs) auto

lemma zip_snd: "map (\<lambda>(i, e). f e) (zip [0..<length es] es) = map f es"
  by (rule nth_equalityI) simp_all

lemma links_rows:
  assumes "\<And>i e. links (g i e) = [h e]"
  shows "links (concat (map (\<lambda>(i, e). g i e) (zip [0..<length es] es))) = map h es"
proof -
  have "links (concat (map (\<lambda>(i, e). g i e) zs)) = map (\<lambda>(i, e). h e) zs" for zs
    by (induction zs) (auto simp: assms)
  then show ?thesis by (simp add: zip_snd)
qed

lemma links_Text: "links (map Text ts) = []"
  by (induction ts) auto

text \<open>The events that the server sends, and what the page reads of them.\<close>

definition audited_vaults :: "db \<Rightarrow> vault_row list" where
  "audited_vaults d = take 50 (sort_key (\<lambda>v. - v_created_at v) (filter (\<lambda>v. deposit_tx_hash v \<noteq> None) (vaults d)))"

lemma audit_body: "body (getAudit d) = JObj [(''events'', JArr (map audit_event (audited_vaults d)))]" "code (getAudit d) = 200"
  by (simp_all add: getAudit_def audited_vaults_def respond_def)

lemma audited_hash: "v \<in> set (audited_vaults d) \<Longrightarrow> \<exists>h. deposit_tx_hash v = Some h"
  by (auto simp: audited_vaults_def dest: in_set_takeD)

lemma event_fields:
  assumes "deposit_tx_hash v = Some h"
  shows "string_field (audit_event v) ''tx_hash'' = Some h" "\<exists>t. string_field (audit_event v) ''type'' = Some t"
  using assms by (simp_all add: string_field_def audit_event_def Let_def json_field_def)

section \<open>Properties\<close>

text \<open>
  The ledger shows every event that the server sends, in its order: once the answer is there the
  table never throws, and its links lead to the deposits' transactions on the explorer, newest
  first and fifty at most.
\<close>

theorem ledger_shows_every_event:
  assumes "\<not> ap_showModal s"
  shows "\<exists>es. audit_view date (fetchAudit (Reply (getAudit d)) s) = Some es
     \<and> links es = map (\<lambda>v. (out_sign, ''https://sepolia.voyager.online/tx/'' @ the (deposit_tx_hash v))) (audited_vaults d)"
proof -
  let ?s = "fetchAudit (Reply (getAudit d)) s"
  have s: "ap_events ?s = Some (JArr (map audit_event (audited_vaults d)))" "\<not> ap_isLoading ?s" "\<not> ap_showModal ?s"
    using assms audit_body [of d] by (simp_all add: fetchAudit_def axios_data_def ok_code_def json_field_def)
  let ?h = "\<lambda>e. the (string_field e ''tx_hash'')"
  let ?g = "\<lambda>i e. [Text (str_of_nat (Suc i)), Text (date (json_field e ''timestamp'')), Text (jsx (json_field e ''type'')),
      Text (jsx (json_field e ''amount'') @ '' BTC'')] @ view_hash (?h e) @ [Text (view_badge (shown (json_field e ''status'')))]"
  have e: "view_event date i e = Some (?g i e)" if "e \<in> set (map audit_event (audited_vaults d))" for i e
    using that event_fields(1) audited_hash by (fastforce simp: view_event_def)
  have g: "links (?g i e) = [(out_sign, ''https://sepolia.voyager.online/tx/'' @ ?h e)]" for i e
    by (simp add: view_hash_def)
  have r: "\<exists>rows. view_rows date ?s = Some rows
      \<and> links rows = map (\<lambda>e. (out_sign, ''https://sepolia.voyager.online/tx/'' @ ?h e)) (map audit_event (audited_vaults d))"
  proof (cases "audited_vaults d = []")
    case False
    let ?rows = "concat (map (\<lambda>(i, e). ?g i e) (zip [0..<length (map audit_event (audited_vaults d))] (map audit_event (audited_vaults d))))"
    have "view_rows date ?s = all_views (view_event date) (map audit_event (audited_vaults d))"
      using s False by (simp add: view_rows_def)
    also have "\<dots> = Some ?rows" by (rule all_views_Some) (rule e)
    finally have "view_rows date ?s = Some ?rows" .
    moreover have "links ?rows = map (\<lambda>e. (out_sign, ''https://sepolia.voyager.online/tx/'' @ ?h e)) (map audit_event (audited_vaults d))"
      by (rule links_rows) (rule g)
    ultimately show ?thesis by (intro exI [where x = ?rows] conjI)
  qed (use s in \<open>simp add: view_rows_def\<close>)
  moreover have "map (\<lambda>e. (out_sign, ''https://sepolia.voyager.online/tx/'' @ ?h e)) (map audit_event (audited_vaults d))
      = map (\<lambda>v. (out_sign, ''https://sepolia.voyager.online/tx/'' @ the (deposit_tx_hash v))) (audited_vaults d)"
    using event_fields(1) audited_hash by fastforce
  moreover have "links (view_audit_bar t) = []" for t by (simp add: view_audit_bar_def links_Text)
  ultimately show ?thesis using s(3) by (auto simp: audit_view_def view_modal_def)
qed

theorem ledger_shows_every_event_witness:
  "\<exists>es. audit_view (\<lambda>_. []) (fetchAudit (Reply (getAudit (empty_db\<lparr>vaults := [demo_vault\<lparr>deposit_tx_hash := Some ''0xab''\<rparr>]\<rparr>))) init_audit)
     = Some es \<and> links es = [(out_sign, ''https://sepolia.voyager.online/tx/0xab'')]"
  using ledger_shows_every_event [of init_audit "\<lambda>_. []" "empty_db\<lparr>vaults := [demo_vault\<lparr>deposit_tx_hash := Some ''0xab''\<rparr>]\<rparr>"]
  by (simp add: init_audit_def audited_vaults_def)

text \<open>
  The dashboard says \<open>Operational\<close> whatever the server reports: beside \<open>Degraded\<close> and \<open>RPC Failure
  Detected\<close> too, when the vault contract cannot be reached.
\<close>

theorem operational_while_degraded:
  assumes "vault_ok = Inl e \<or> vault_ok = Inr False"
    and "s' = fetchDashboardData (Reply (health live vault_ok token_ok dbc (JObj circ) rs now)) (Reply (getAudit d)) s"
  shows "\<exists>es. home_view locale date va sa s' busy cs shown_toast = Some es
     \<and> {operational, full_dot @ '' Degraded'', ''RPC Failure Detected''} \<subseteq> set (texts es)"
proof -
  let ?h = "Reply (health live vault_ok token_ok dbc (JObj circ) rs now)"
  obtain v where v: "getVaultStatus ?h = Inr v" using health_status by blast
  then have "vs_vaultContractReachable v = Some (JBool False)"
    using assms(1) unfolding getVaultStatus_def health_answers
    by (auto simp: health_def Let_def json_field_def read_prop_def opt_field_def)
  moreover have "getAuditLogs (Reply (getAudit d)) = JArr (map audit_event (audited_vaults d))"
    by (simp add: getAuditLogs_def axios_data_def audit_body ok_code_def json_field_def or_else_def truthy_json_def)
  then have s': "s' = \<lparr>db_status = Some v, db_logs = take 5 (map audit_event (audited_vaults d)), db_loading = False\<rparr>"
    using assms(2) v by (simp add: fetchDashboardData_def)
  ultimately have r: "\<not> contract_reachable (db_status s')"
    by (simp add: contract_reachable_def truthy_json_def)
  have "view_log date i e \<noteq> None" if "e \<in> set (db_logs s')" for i e
  proof -
    have "e \<in> audit_event ` set (audited_vaults d)" using that by (auto simp: s' take_map dest: in_set_takeD)
    then obtain w where w: "e = audit_event w" "w \<in> set (audited_vaults d)" by auto
    then obtain h where h: "deposit_tx_hash w = Some h" using audited_hash by blast
    then show ?thesis using event_fields [OF h] w(1) by (auto simp: view_log_def Let_def)
  qed
  then have "all_views (view_log date) (db_logs s') = Some (concat (map (\<lambda>(i, e). the (view_log date i e)) (zip [0..<length (db_logs s')] (db_logs s'))))"
    by (intro all_views_Some) simp
  then have "view_feed date s' \<noteq> None" by (simp add: view_feed_def)
  then obtain feed where "view_feed date s' = Some feed" by blast
  then show ?thesis using r by (simp add: home_view_def view_stats_def view_network_def)
qed

theorem operational_while_degraded_witness:
  "\<exists>es. home_view (\<lambda>_. []) (\<lambda>_. []) [] [] (fetchDashboardData (Reply (health (Inr 5) (Inr False) (Inr True) True
       (JObj [(''isTripped'', JBool False)]) \<lparr>rs_running = True, rs_lastRelayedHeight = None, rs_pollIntervalMs = 30000\<rparr> 0))
       (Reply (getAudit empty_db)) \<lparr>db_status = None, db_logs = [], db_loading = True\<rparr>) False [] None = Some es
     \<and> operational \<in> set (texts es)"
  using operational_while_degraded [of "Inr False" _ _ "Inr 5" "Inr True" True "[(''isTripped'', JBool False)]"
      "\<lparr>rs_running = True, rs_lastRelayedHeight = None, rs_pollIntervalMs = 30000\<rparr>" 0 empty_db, OF _ refl] by blast

text \<open>
  The withdrawal page claims the payout and denies it at once: for an answer without a Bitcoin
  transaction its banner says that Bitcoin has been sent, and the notice below that sending failed.
\<close>

theorem payout_claimed_and_denied:
  assumes "withdraw_guard s = None" and "axios_data r = Inr d" and "d \<noteq> JNull" and "\<not> truthy_json (json_field d ''bitcoinTxid'')"
  shows "{''WITHDRAWAL COMPLETE: The ZK proof was verified and your MockBTC was burned on Starknet. Bitcoin has been sent to your address!'',
      warning_sign @ '' Bitcoin Payout Pending: Starknet withdrawal succeeded, but Bitcoin sending failed. Please contact support with your withdrawal secret.''}
     \<subseteq> set (texts (withdraw_view (snd (handleWithdraw r s))))"
  using assms by (simp add: handleWithdraw_def withdraw_view_def view_withdrawn_def view_payout_def banner_def field_or_def)

theorem payout_claimed_and_denied_witness:
  "''WITHDRAWAL COMPLETE: The ZK proof was verified and your MockBTC was burned on Starknet. Bitcoin has been sent to your address!''
     \<in> set (texts (withdraw_view (snd (handleWithdraw (Reply (respond 200 [(''bitcoinTxid'', JNull)])) demo_withdraw_page))))"
proof -
  have g: "withdraw_guard demo_withdraw_page = None"
    by (simp add: withdraw_guard_def demo_withdraw_page_def starts_with_def)
  have a: "axios_data (Reply (respond 200 [(''bitcoinTxid'', JNull)])) = Inr (JObj [(''bitcoinTxid'', JNull)])"
    by (simp add: axios_data_def respond_def ok_code_def)
  show ?thesis
    by (rule subsetD [OF payout_claimed_and_denied [OF g a]]) (simp_all add: json_field_def truthy_json_def)
qed

end
