(* ===== verification/Api.thy ===== *)
theory Api
  imports Server DepositPage Pages
begin

text \<open>
  The requests of the frontend, \<open>lib/api.ts\<close> and the three that the deposit page sends itself, as the
  server receives them, and the handlers that they reach. Values that a URL carries need no escape
  (ids, hashes, addresses and numbers).
\<close>

section \<open>Requests\<close>

datatype api_call =
    GetHealth | GetBtcStatus | GetDepositAddress string | CreateCommitment string string | WithdrawCommitment withdraw_page
  | DetectLock string rat "int option" | BroadcastTx string | CheckSenderBalance | SubmitDeposit json
  | VerifyAudit | GetAudit | GetPoolStats | FetchSpvProof string | FetchHeaderStatus "json option" | PostSpvDeposit json

fun query_text :: "(string \<times> string) list \<Rightarrow> string" where
  "query_text [] = []"
| "query_text [(k, v)] = k @ ''='' @ v"
| "query_text ((k, v) # q) = k @ ''='' @ v @ ''&'' @ query_text q"

definition get_request :: "string list \<Rightarrow> (string \<times> string) list \<Rightarrow> http_request" where
  "get_request path q = \<lparr>rq_method = ''GET'',
     rq_url = concat (map (\<lambda>s. ''/'' @ s) path) @ (if q = [] then [] else ''?'' @ query_text q),
     rq_path = path, rq_query = map_of q, rq_type = None, rq_body = Inr (JObj [])\<rparr>"

definition post_request :: "string list \<Rightarrow> json option \<Rightarrow> http_request" where
  "post_request path b = \<lparr>rq_method = ''POST'', rq_url = concat (map (\<lambda>s. ''/'' @ s) path), rq_path = path,
     rq_query = (\<lambda>_. None), rq_type = map_option (\<lambda>_. ''application/json'') b,
     rq_body = Inr (case b of None \<Rightarrow> JObj [] | Some j \<Rightarrow> j)\<rparr>"

fun api_request :: "api_call \<Rightarrow> http_request" where
  "api_request GetHealth = get_request [''health''] []"
| "api_request GetBtcStatus = get_request [''api'', ''bridge'', ''status''] []"
| "api_request (GetDepositAddress v) = get_request [''api'', ''bridge'', ''deposit-address''] [(''vault_id'', v)]"
| "api_request (CreateCommitment a se) =
     post_request [''api'', ''commitment'', ''create''] (Some (JObj [(''amount'', JStr a), (''secret'', JStr se)]))"
| "api_request (WithdrawCommitment p) = post_request [''api'', ''vault'', ''withdraw''] (Some (withdraw_request_body p))"
| "api_request (DetectLock a x since) = get_request [''api'', ''bridge'', ''detect-lock''] (detect_query a x since)"
| "api_request (BroadcastTx a) = post_request [''api'', ''bridge'', ''broadcast''] (Some (JObj [(''amount'', JStr a)]))"
| "api_request CheckSenderBalance = get_request [''api'', ''bridge'', ''sender-balance''] []"
| "api_request (SubmitDeposit j) = post_request [''api'', ''commitment'', ''deposit''] (Some j)"
| "api_request VerifyAudit = post_request [''api'', ''audit'', ''verify''] None"
| "api_request GetAudit = get_request [''api'', ''audit''] []"
| "api_request GetPoolStats = get_request [''api'', ''privacy'', ''pool-stats''] []"
| "api_request (FetchSpvProof t) = get_request [''api'', ''bridge'', ''spv-proof''] [(''txid'', t)]"
| "api_request (FetchHeaderStatus h) = get_request [''api'', ''bridge'', ''header-status''] [(''height'', shown h)]"
| "api_request (PostSpvDeposit j) = post_request [''api'', ''bridge'', ''spv-deposit''] (Some j)"

section \<open>The handlers they are meant for\<close>

fun api_served :: "site \<Rightarrow> api_call \<Rightarrow> server \<Rightarrow> served" where
  "api_served st GetHealth s = reply (health (st_block st) (st_vault_up st) (st_token_up st) (st_db_up st) (st_circuit st)
     (st_relay st) (st_now_ms st)) s"
| "api_served st GetBtcStatus s = (case get_status_bridge (st_address st) (st_tip st) of
     Inr r \<Rightarrow> reply r s | Inl _ \<Rightarrow> ([], NoAnswer, s))"
| "api_served st (GetDepositAddress v) s = reply (get_deposit_address (st_address st) (Some v)) s"
| "api_served st (CreateCommitment a se) s =
     reply (post_create_commitment (st_crypto st) (JObj [(''amount'', JStr a), (''secret'', JStr se)])) s"
| "api_served st (WithdrawCommitment p) s =
     reply_paid (withdraw_request (st_prove st) (st_withdraw st) (wd_secret p) (wd_nullifier p) (wd_bitcoinAddress p) (s_db s)) s"
| "api_served st (DetectLock a x since) s = reply (get_detect_lock (st_signet st) (Some a) (Some (num_str x))
     (case since of None \<Rightarrow> None | Some t \<Rightarrow> if t = 0 then None else Some (str_of_int t)) (s_db s)) s"
| "api_served st (BroadcastTx a) s =
     (case post_broadcast (st_send st) (JObj [(''amount'', JStr a)]) of (p, r) \<Rightarrow> reply_paid (p, r, s_db s) s)"
| "api_served st CheckSenderBalance s = reply (get_sender_balance (st_sender st) (st_utxos st)) s"
| "api_served st (SubmitDeposit j) s = reply_db (post_deposit (st_deposit st) j (s_db s)) s"
| "api_served st VerifyAudit s = reply_db (auditVerify (st_live st) (s_db s)) s"
| "api_served st GetAudit s = reply (getAudit (s_db s)) s"
| "api_served st GetPoolStats s = reply (poolStats (st_min_set st) (s_db s)) s"
| "api_served st (FetchSpvProof t) s = reply (get_spv_proof (st_explorer st) (st_script st) (Some t)) s"
| "api_served st (FetchHeaderStatus h) s = reply (get_header_status (st_stored st) (st_relay st) (st_now_ms st) (Some (shown h))) s"
| "api_served st (PostSpvDeposit j) s = reply_db (post_spv_deposit (st_spv st) j (s_db s)) s"

text \<open>The fields that the withdrawal's middleware asks for: none is blank.\<close>

fun well_filled :: "api_call \<Rightarrow> bool" where
  "well_filled (WithdrawCommitment p) \<longleftrightarrow>
     length (trim (wd_secret p)) \<noteq> 0 \<and> length (trim (wd_nullifier p)) \<noteq> 0 \<and> length (trim (wd_bitcoinAddress p)) \<noteq> 0"
| "well_filled _ \<longleftrightarrow> True"

section \<open>Lemmas\<close>

lemma request_simps [simp]:
  "rq_method (get_request p q) = ''GET''" "rq_path (get_request p q) = p" "rq_query (get_request p q) = map_of q"
  "rq_body (get_request p q) = Inr (JObj [])"
  "rq_method (post_request p b) = ''POST''" "rq_path (post_request p b) = p"
  "rq_body (post_request p b) = Inr (case b of None \<Rightarrow> JObj [] | Some j \<Rightarrow> j)"
  "rq_type (post_request p b) = map_option (\<lambda>_. ''application/json'') b"
  by (simp_all add: get_request_def post_request_def)

text \<open>A request whose route has only limiters is handled as soon as the limits allow it.\<close>

lemma serve_limited:
  assumes "routed (st_config st) m path (Some (v, p, ms, e))" and "express_paths (st_path st)" and "\<forall>l. st_limit st l"
    and "rq_method rq = m" "m \<noteq> ''OPTIONS''" and "rq_path rq = path" and "rq_body rq = Inr b" and "ms = [] \<or> (\<exists>l. ms = [Limit l])"
  shows "serve st rq s = handle st e (\<lambda>x. the (map_of (path_args p path) x)) rq b s"
  using serve_routed [OF assms(1,2) _ assms(4-7), of s] assms(3,8) by (auto simp: refusal_def)

lemma routed_api:
  "routed cfg ''GET'' [''health''] (Some (Get, [Lit ''health''], [], Health))"
  "routed cfg ''GET'' [''api'', ''bridge'', ''status''] (Some (Get, [Lit ''api'', Lit ''bridge'', Lit ''status''], [], BridgeStatus))"
  "routed cfg ''GET'' [''api'', ''bridge'', ''deposit-address'']
     (Some (Get, [Lit ''api'', Lit ''bridge'', Lit ''deposit-address''], [], BridgeAddress))"
  "routed cfg ''POST'' [''api'', ''commitment'', ''create'']
     (Some (Post, [Lit ''api'', Lit ''commitment'', Lit ''create''], [Limit Strict], CommitmentCreate))"
  "routed cfg ''GET'' [''api'', ''bridge'', ''detect-lock''] (Some (Get, [Lit ''api'', Lit ''bridge'', Lit ''detect-lock''], [], BridgeDetect))"
  "routed cfg ''GET'' [''api'', ''bridge'', ''sender-balance'']
     (Some (Get, [Lit ''api'', Lit ''bridge'', Lit ''sender-balance''], [], BridgeSender))"
  "routed cfg ''POST'' [''api'', ''commitment'', ''deposit'']
     (Some (Post, [Lit ''api'', Lit ''commitment'', Lit ''deposit''], [Limit Strict], CommitmentDeposit))"
  "routed cfg ''POST'' [''api'', ''audit'', ''verify''] (Some (Post, [Lit ''api'', Lit ''audit'', Lit ''verify''], [], AuditVerify))"
  "routed cfg ''GET'' [''api'', ''audit''] (Some (Get, [Lit ''api'', Lit ''audit''], [], AuditEvents))"
  "routed cfg ''GET'' [''api'', ''privacy'', ''pool-stats''] (Some (Get, [Lit ''api'', Lit ''privacy'', Lit ''pool-stats''], [], PoolStats))"
  "routed cfg ''GET'' [''api'', ''bridge'', ''spv-proof''] (Some (Get, [Lit ''api'', Lit ''bridge'', Lit ''spv-proof''], [], BridgeProof))"
  "routed cfg ''GET'' [''api'', ''bridge'', ''header-status''] (Some (Get, [Lit ''api'', Lit ''bridge'', Lit ''header-status''], [], BridgeHeader))"
  "routed cfg ''POST'' [''api'', ''bridge'', ''spv-deposit''] (Some (Post, [Lit ''api'', Lit ''bridge'', Lit ''spv-deposit''], [], BridgeSpvDeposit))"
  by (simp_all add: route_eval)

lemma withdraw_unrefused:
  assumes "well_filled (WithdrawCommitment p)" and "\<forall>l. st_limit st l"
  shows "first_refusal st ps (api_request (WithdrawCommitment p)) (withdraw_request_body p)
     [Limit Strict, Fields [''secret'', ''nullifier_hash'', ''bitcoin_address'']] = None"
proof -
  have "str_includes ''application/json'' ''application/json''" by code_simp
  then show ?thesis using assms
    by (simp add: refusal_def validateBody_def withdraw_request_body_def truthy_json_def no_keys_def field_error_def json_field_def)
qed

text \<open>The limiters are out of the way, and each kind of request is taken by its route.\<close>

lemma withdraw_served:
  assumes "express_paths (st_path st)" and "\<forall>l. st_limit st l" and "well_filled (WithdrawCommitment p)"
  shows "serve st (api_request (WithdrawCommitment p)) s = api_served st (WithdrawCommitment p) s"
proof -
  have "serve st (api_request (WithdrawCommitment p)) s
      = handle st VaultWithdraw (\<lambda>x. the (map_of (path_args [Lit ''api'', Lit ''vault'', Lit ''withdraw''] [''api'', ''vault'', ''withdraw'']) x))
          (api_request (WithdrawCommitment p)) (withdraw_request_body p) s"
    using serve_routed [OF routed_withdraw assms(1), of "api_request (WithdrawCommitment p)" "withdraw_request_body p" s]
      withdraw_unrefused [OF assms(3,2)] assms(2) by (simp del: first_refusal.simps path_args.simps)
  then show ?thesis by (simp add: handle_def with_text_def withdraw_request_body_def json_field_def)
qed

fun api_endpoint :: "api_call \<Rightarrow> middleware list \<times> endpoint" where
  "api_endpoint GetHealth = ([], Health)"
| "api_endpoint GetBtcStatus = ([], BridgeStatus)"
| "api_endpoint (GetDepositAddress v) = ([], BridgeAddress)"
| "api_endpoint (CreateCommitment a se) = ([Limit Strict], CommitmentCreate)"
| "api_endpoint (WithdrawCommitment p) = ([Limit Strict, Fields [''secret'', ''nullifier_hash'', ''bitcoin_address'']], VaultWithdraw)"
| "api_endpoint (DetectLock a x since) = ([], BridgeDetect)"
| "api_endpoint (BroadcastTx a) = ([], BridgeBroadcast)"
| "api_endpoint CheckSenderBalance = ([], BridgeSender)"
| "api_endpoint (SubmitDeposit j) = ([Limit Strict], CommitmentDeposit)"
| "api_endpoint VerifyAudit = ([], AuditVerify)"
| "api_endpoint GetAudit = ([], AuditEvents)"
| "api_endpoint GetPoolStats = ([], PoolStats)"
| "api_endpoint (FetchSpvProof t) = ([], BridgeProof)"
| "api_endpoint (FetchHeaderStatus h) = ([], BridgeHeader)"
| "api_endpoint (PostSpvDeposit j) = ([], BridgeSpvDeposit)"

lemma api_routed:
  "routed cfg (rq_method (api_request c)) (rq_path (api_request c))
     (Some (if rq_method (api_request c) = ''GET'' then Get else Post, map Lit (rq_path (api_request c)), api_endpoint c))"
  by (cases c) (simp_all add: routed_api routed_broadcast routed_withdraw)

lemma api_handled:
  assumes "\<nexists>p. c = WithdrawCommitment p" and "rq_body (api_request c) = Inr b"
  shows "handle st (snd (api_endpoint c)) a (api_request c) b s = api_served st c s"
  using assms by (cases c) (auto simp: handle_def detect_query_def reply_def split: option.split sum.split prod.split)

section \<open>Properties\<close>

text \<open>
  C33. What the frontend asks for is what the server does: each of its requests passes the routers, the
  middlewares and the dispatch to the handler it is meant for, with the arguments it was made of, as long
  as no limit is exceeded and no field of a withdrawal is blank.
\<close>

theorem frontend_served:
  assumes "express_paths (st_path st)" and "\<forall>l. st_limit st l" and "well_filled c"
  shows "serve st (api_request c) s = api_served st c s"
proof (cases "\<exists>p. c = WithdrawCommitment p")
  case True
  then show ?thesis using withdraw_served [OF assms(1,2)] assms(3) by auto
next
  case False
  then have m: "fst (api_endpoint c) = [] \<or> (\<exists>l. fst (api_endpoint c) = [Limit l])" "rq_method (api_request c) \<noteq> ''OPTIONS''"
    by (cases c; simp)+
  obtain b where b: "rq_body (api_request c) = Inr b" by (cases c) simp_all
  have r: "routed (st_config st) (rq_method (api_request c)) (rq_path (api_request c)) (Some (if rq_method (api_request c) = ''GET''
      then Get else Post, map Lit (rq_path (api_request c)), fst (api_endpoint c), snd (api_endpoint c)))"
    using api_routed by simp
  show ?thesis using serve_limited [OF r assms(1,2) refl m(2) refl b m(1)] api_handled [OF False b] by simp
qed

theorem frontend_served_witness:
  "serve open_site (api_request GetAudit) (demo_server empty_db) = ([], Answer (getAudit empty_db), demo_server empty_db)
   \<and> serve open_site (api_request (WithdrawCommitment (demo_withdraw_page\<lparr>wd_bitcoinAddress := ''tb1q''\<rparr>))) (demo_server empty_db)
     = api_served open_site (WithdrawCommitment (demo_withdraw_page\<lparr>wd_bitcoinAddress := ''tb1q''\<rparr>)) (demo_server empty_db)"
proof -
  have l: "\<forall>l. st_limit open_site l" by simp
  have "length (trim ''0x1'') \<noteq> 0" "length (trim ''0x2'') \<noteq> 0" "length (trim ''tb1q'') \<noteq> 0" by code_simp+
  then have w: "well_filled (WithdrawCommitment (demo_withdraw_page\<lparr>wd_bitcoinAddress := ''tb1q''\<rparr>))"
    by (simp add: demo_withdraw_page_def)
  show ?thesis
    using frontend_served [OF demo_paths(2) l, of GetAudit "demo_server empty_db"]
      frontend_served [OF demo_paths(2) l w, of "demo_server empty_db"] by (simp add: reply_def del: api_request.simps)
qed

end
