(* ===== verification/Interfaces.thy ===== *)
theory Interfaces
  imports Relay
begin

text \<open>
  The calls that the backend sends to Starknet against the interfaces of the contracts: the traits of
  \<open>vault.cairo\<close>, \<open>mock_btc.cairo\<close> and \<open>header_store.cairo\<close>, and the ABI fragments of
  \<open>StarknetService\<close> that claim to match them. An entry point reads its arguments from the calldata one
  after the other, each in the range of its type, and panics when felts are missing or left over.
\<close>

section \<open>Types and interfaces\<close>

datatype cairo_type = Felt | UInt nat | Address | U256 | Fixed nat cairo_type | Span cairo_type

definition STARK_P :: int where
  "STARK_P = 2 ^ 251 + 17 * 2 ^ 192 + 1"

fun take_felt :: "int \<Rightarrow> int list \<Rightarrow> int list option" where
  "take_felt bound [] = None"
| "take_felt bound (x # xs) = (if 0 \<le> x \<and> x < bound then Some xs else None)"

fun take_times :: "(int list \<Rightarrow> int list option) \<Rightarrow> nat \<Rightarrow> int list \<Rightarrow> int list option" where
  "take_times f 0 xs = Some xs"
| "take_times f (Suc n) xs = (case f xs of None \<Rightarrow> None | Some ys \<Rightarrow> take_times f n ys)"

text \<open>What is left of the calldata after a value of a type.\<close>

primrec take_type :: "cairo_type \<Rightarrow> int list \<Rightarrow> int list option" where
  "take_type Felt = take_felt STARK_P"
| "take_type (UInt w) = take_felt (2 ^ w)"
| "take_type Address = take_felt (2 ^ 251)"
| "take_type U256 = take_times (take_felt (2 ^ 128)) 2"
| "take_type (Fixed n t) = take_times (take_type t) n"
| "take_type (Span t) = (\<lambda>xs. case xs of [] \<Rightarrow> None
     | n # ys \<Rightarrow> if 0 \<le> n \<and> n < 2 ^ 32 then take_times (take_type t) (nat n) ys else None)"

fun take_args :: "cairo_type list \<Rightarrow> int list \<Rightarrow> int list option" where
  "take_args [] xs = Some xs"
| "take_args (t # ts) xs = (case take_type t xs of None \<Rightarrow> None | Some ys \<Rightarrow> take_args ts ys)"

type_synonym interface = "(string \<times> cairo_type list) list"

definition IPrivateBTCVault :: interface where
  "IPrivateBTCVault =
     [(''deposit'', [Felt, UInt 64, UInt 64, Span (UInt 8), UInt 32, Span (Fixed 8 (UInt 32))]),
      (''withdraw'', [Felt, Span Felt, Address, U256]),
      (''get_total_staked'', []), (''is_commitment_registered'', [Felt])]"

definition IMockBTC :: interface where
  "IMockBTC = [(''name'', []), (''symbol'', []), (''decimals'', []), (''total_supply'', []), (''balance_of'', [Address]),
     (''transfer'', [Address, U256]), (''approve'', [Address, U256]), (''transfer_from'', [Address, Address, U256]),
     (''allowance'', [Address, Address]), (''mint'', [Address, U256])]"

definition IHeaderStore :: interface where
  "IHeaderStore = [(''store_header'', [UInt 64, Fixed 8 (UInt 32)]), (''get_merkle_root'', [UInt 64]),
     (''is_header_stored'', [UInt 64]), (''get_relayer'', [])]"

text \<open>A call that an interface takes; starknet.js reads each string of the calldata as a number.\<close>

definition fits :: "interface \<Rightarrow> sn_call \<Rightarrow> bool" where
  "fits i c = (case map_of i (entrypoint c) of
     None \<Rightarrow> False
   | Some ts \<Rightarrow> (case those (map big_int (calldata c)) of None \<Rightarrow> False | Some xs \<Rightarrow> take_args ts xs = Some []))"

section \<open>The fragments of StarknetService.ts and WalletService.ts\<close>

text \<open>The names with the types of their inputs, in Cairo's names for them.\<close>

definition VAULT_ABI :: interface where
  "VAULT_ABI = [(''deposit'', [Felt]), (''withdraw'', [Felt, Span Felt, Address, U256]), (''get_total_staked'', [])]"

definition ERC20_ABI :: interface where
  "ERC20_ABI = [(''balanceOf'', [Address]), (''balance_of'', [Address]), (''mint'', [Address, U256]), (''approve'', [Address, U256])]"

text \<open>The calls of views: the ABI given to \<open>Contract\<close>, the name called, and the contract's interface.\<close>

definition view_calls :: "(interface \<times> string \<times> interface) list" where
  "view_calls = [(VAULT_ABI, ''is_commitment_registered'', IPrivateBTCVault), (ERC20_ABI, ''balanceOf'', IMockBTC),
     ([(''balanceOf'', [Felt])], ''balanceOf'', IMockBTC)]"

section \<open>Lemmas\<close>

definition felt_text :: "int \<Rightarrow> string \<Rightarrow> bool" where
  "felt_text bound s \<longleftrightarrow> (\<exists>x. big_int s = Some x \<and> 0 \<le> x \<and> x < bound)"

lemma those_append: "those xs = Some as \<Longrightarrow> those ys = Some bs \<Longrightarrow> those (xs @ ys) = Some (as @ bs)"
  by (induction xs arbitrary: as) (auto split: option.splits)

lemma those_felts: "those (map big_int (map str_of_int xs)) = Some xs"
  by (induction xs) (simp_all add: big_int_str_of_int)

lemma those_texts:
  "list_all (felt_text bound) ss \<Longrightarrow> \<exists>xs. those (map big_int ss) = Some xs \<and> length xs = length ss \<and> list_all (\<lambda>x. 0 \<le> x \<and> x < bound) xs"
  by (induction ss) (auto simp: felt_text_def)

lemma those_felts_comp: "those (map (big_int \<circ> str_of_int) xs) = Some xs"
  using those_felts [of xs] by simp

lemma take_times_felts:
  "list_all (\<lambda>x. 0 \<le> x \<and> x < bound) xs \<Longrightarrow> take_times (take_felt bound) (length xs) (xs @ ys) = Some ys"
  by (induction xs) auto

lemma take_times_words:
  assumes "list_all (\<lambda>w. length w = n \<and> list_all (\<lambda>x. 0 \<le> x \<and> x < bound) w) ws"
  shows "take_times (take_times (take_felt bound) n) (length ws) (concat ws @ ys) = Some ys"
  using assms
proof (induction ws)
  case (Cons w ws)
  then show ?case using take_times_felts [of bound w "concat ws @ ys"] by auto
qed simp

lemma str_of_nat_int: "big_int (str_of_nat n) = Some (int n)"
  by (simp add: str_of_nat_def big_int_str_of_int)

text \<open>The library's split of an amount into two halves.\<close>

definition u256_law :: "sn_config \<Rightarrow> int \<Rightarrow> bool" where
  "u256_law cfg n \<longleftrightarrow> big_int (fst (u256 cfg n)) = Some (n mod 2 ^ 128) \<and> big_int (snd (u256 cfg n)) = Some (n div 2 ^ 128)"

lemma take_u256:
  assumes "0 \<le> n" "n < 2 ^ 256"
  shows "take_type U256 (n mod 2 ^ 128 # n div 2 ^ 128 # xs) = Some xs"
proof -
  have "n div 2 ^ 128 * 2 ^ 128 \<le> n" using div_mult_mod_eq [of n "2 ^ 128"] pos_mod_sign [of "2 ^ 128" n] by simp
  then have "n div 2 ^ 128 < 2 ^ 128" using assms(2) by (simp add: not_le [symmetric])
  moreover have "0 \<le> n div 2 ^ 128" using assms(1) by (simp add: pos_imp_zdiv_nonneg_iff)
  ultimately show ?thesis by (simp add: numeral_2_eq_2)
qed

lemma withdraw_fits:
  assumes "u256_law cfg n" "0 \<le> n" "n < 2 ^ 256" and "felt_text STARK_P nullifier" "felt_text (2 ^ 251) recipient"
    and "list_all (felt_text STARK_P) pf" "length pf < 2 ^ 32"
  shows "fits IPrivateBTCVault (withdraw_call cfg nullifier pf recipient n)"
proof -
  obtain x r where x: "big_int nullifier = Some x" "0 \<le> x" "x < STARK_P" "big_int recipient = Some r" "0 \<le> r" "r < 2 ^ 251"
    using assms(4,5) by (auto simp: felt_text_def)
  obtain xs where xs: "those (map big_int pf) = Some xs" "length xs = length pf" "list_all (\<lambda>x. 0 \<le> x \<and> x < STARK_P) xs"
    using those_texts [OF assms(6)] by blast
  have "those (map big_int (calldata (withdraw_call cfg nullifier pf recipient n)))
      = Some ([x, int (length pf)] @ xs @ [r, n mod 2 ^ 128, n div 2 ^ 128])"
    unfolding withdraw_call_def sn_call.select_convs map_append using x(1,4) assms(1)
    by (intro those_append xs(1)) (simp_all add: u256_law_def str_of_nat_int)
  moreover have "take_args [Felt, Span Felt, Address, U256] ([x, int (length pf)] @ xs @ [r, n mod 2 ^ 128, n div 2 ^ 128]) = Some []"
    using x take_times_felts [OF xs(3), of "[r, n mod 2 ^ 128, n div 2 ^ 128]"] xs(2) assms(7) take_u256 [OF assms(2,3), of "[]"]
    by (simp del: take_type.simps(4))
  ultimately show ?thesis by (simp add: fits_def IPrivateBTCVault_def withdraw_call_def)
qed

lemma mint_fits:
  assumes "u256_law cfg n" "0 \<le> n" "n < 2 ^ 256" and "felt_text (2 ^ 251) (vault_address cfg)"
  shows "fits IMockBTC (hd (deposit_calls cfg c n))"
  using assms(1,4) take_u256 [OF assms(2,3), of "[]"]
  by (auto simp: fits_def IMockBTC_def deposit_calls_def felt_text_def u256_law_def simp del: take_type.simps(4))

lemma header_fits:
  assumes "0 \<le> h" "h < 2 ^ 64" "length ws = 8" "list_all (\<lambda>x. 0 \<le> x \<and> x < 2 ^ 32) ws"
  shows "fits IHeaderStore (store_header_call a h ws)"
  using assms take_times_felts [OF assms(4), of "[]"] those_append [OF _ those_felts, of "[big_int (str_of_int h)]" "[h]" ws]
  by (simp add: fits_def IHeaderStore_def store_header_call_def big_int_str_of_int)

text \<open>The ranges of the parameters of an SPV proof.\<close>

definition spv_in_range :: "spv_params \<Rightarrow> bool" where
  "spv_in_range p \<longleftrightarrow> felt_text STARK_P (sp_commitment p) \<and> 0 \<le> sp_blockHeight p \<and> sp_blockHeight p < 2 ^ 64
     \<and> 0 \<le> sp_txPos p \<and> sp_txPos p < 2 ^ 64 \<and> 0 \<le> sp_voutIndex p \<and> sp_voutIndex p < 2 ^ 32
     \<and> list_all (\<lambda>x. 0 \<le> x \<and> x < 2 ^ 8) (sp_rawTxBytes p) \<and> length (sp_rawTxBytes p) < 2 ^ 32
     \<and> list_all (\<lambda>w. length w = 8 \<and> list_all (\<lambda>x. 0 \<le> x \<and> x < 2 ^ 32) w) (sp_merkleProofWords p)
     \<and> length (sp_merkleProofWords p) < 2 ^ 32"

definition spv_deposit_call :: "sn_config \<Rightarrow> spv_params \<Rightarrow> sn_call" where
  "spv_deposit_call cfg p = \<lparr>contractAddress = vault_address cfg, entrypoint = ''deposit'', calldata = spv_calldata p\<rparr>"

lemma spv_deposit_sent:
  "executeSpvDeposit cfg now later True acc p cb =
     withResilience now later (Some (send_calls [''insufficient''] ''SPV deposit failed: '' acc [spv_deposit_call cfg p])) cb"
  by (simp add: executeSpvDeposit_def spv_deposit_call_def)

lemma spv_fits:
  assumes "spv_in_range p"
  shows "fits IPrivateBTCVault (spv_deposit_call cfg p)"
proof -
  note r = assms [unfolded spv_in_range_def]
  obtain x where x: "big_int (sp_commitment p) = Some x" "0 \<le> x" "x < STARK_P" using r by (auto simp: felt_text_def)
  let ?ms = "concat (sp_merkleProofWords p)"
  let ?fs = "[x, sp_blockHeight p, sp_txPos p] @ (int (length (sp_rawTxBytes p)) # sp_rawTxBytes p) @ [sp_voutIndex p]
    @ (int (length (sp_merkleProofWords p)) # ?ms)"
  have "those (map big_int (spv_calldata p)) = Some ?fs"
    unfolding spv_calldata_def map_append
    by (intro those_append) (simp_all add: x(1) big_int_str_of_int str_of_nat_int those_felts_comp)
  moreover have "take_args [Felt, UInt 64, UInt 64, Span (UInt 8), UInt 32, Span (Fixed 8 (UInt 32))] ?fs = Some []"
    using x r take_times_felts [of "2 ^ 8" "sp_rawTxBytes p"] take_times_words [of 8 "2 ^ 32" "sp_merkleProofWords p" "[]"] by simp
  ultimately show ?thesis by (simp add: fits_def IPrivateBTCVault_def spv_deposit_call_def)
qed

text \<open>The call of \<open>isHeaderStored\<close>.\<close>

definition header_query :: "string \<Rightarrow> int \<Rightarrow> sn_call" where
  "header_query a h = \<lparr>contractAddress = a, entrypoint = ''is_header_stored'', calldata = [str_of_int h]\<rparr>"

lemma query_fits: "0 \<le> h \<Longrightarrow> h < 2 ^ 64 \<Longrightarrow> fits IHeaderStore (header_query a h)"
  by (simp add: fits_def IHeaderStore_def header_query_def big_int_str_of_int)

text \<open>The deposit that follows the mint carries one felt where the vault reads six values.\<close>

lemma deposit_misfits: "\<not> fits IPrivateBTCVault (deposit_calls cfg c n ! 1)"
  by (auto simp: fits_def IPrivateBTCVault_def deposit_calls_def split: option.splits)

text \<open>A call of a view answers only where the ABI and the contract both know its name.\<close>

lemma views_unknown:
  "list_all (\<lambda>(abi, name, contract). map_of abi name = None \<or> map_of contract name = None) view_calls"
  by (simp add: view_calls_def VAULT_ABI_def ERC20_ABI_def IPrivateBTCVault_def IMockBTC_def)

lemma abi_deposit_differs: "map_of VAULT_ABI ''deposit'' \<noteq> map_of IPrivateBTCVault ''deposit''"
  by (simp add: VAULT_ABI_def IPrivateBTCVault_def)

section \<open>Properties\<close>

text \<open>
  C39. Which of the calls that the backend sends to the contracts have the types of an entry point, to the last felt. The
  withdrawal's, the mint's, the relay's, the query for a header and, for a proof with parameters in range, the SPV deposit's
  do. The others do not: the deposit that \<open>executeDeposit\<close> sends behind its mint has too few values,
  whatever the commitment; and each of the three views called through a \<open>Contract\<close>
  (\<open>is_commitment_registered\<close>, and \<open>balanceOf\<close> twice) has a name that its ABI or the contract lacks.
\<close>

theorem backend_calls_fit:
  assumes "u256_law cfg n" "0 \<le> n" "n < 2 ^ 256" and "felt_text STARK_P nullifier" "felt_text (2 ^ 251) recipient"
    and "list_all (felt_text STARK_P) pf" "length pf < 2 ^ 32" and "felt_text (2 ^ 251) (vault_address cfg)"
    and "0 \<le> h" "h < 2 ^ 64" "length ws = 8" "list_all (\<lambda>x. 0 \<le> x \<and> x < 2 ^ 32) ws"
    and "spv_in_range p"
  shows "fits IPrivateBTCVault (withdraw_call cfg nullifier pf recipient n)
     \<and> fits IMockBTC (hd (deposit_calls cfg c n)) \<and> fits IHeaderStore (store_header_call a h ws)
     \<and> fits IHeaderStore (header_query a h) \<and> fits IPrivateBTCVault (spv_deposit_call cfg p)
     \<and> \<not> fits IPrivateBTCVault (deposit_calls cfg c n ! 1)
     \<and> list_all (\<lambda>(abi, name, contract). map_of abi name = None \<or> map_of contract name = None) view_calls"
proof (intro conjI)
  show "fits IPrivateBTCVault (withdraw_call cfg nullifier pf recipient n)"
    using assms(1-7) by (rule withdraw_fits)
  show "fits IMockBTC (hd (deposit_calls cfg c n))" using assms(1-3,8) by (rule mint_fits)
  show "fits IHeaderStore (store_header_call a h ws)" using assms(9-12) by (rule header_fits)
  show "fits IHeaderStore (header_query a h)" using assms(9,10) by (rule query_fits)
  show "fits IPrivateBTCVault (spv_deposit_call cfg p)" using assms(13) by (rule spv_fits)
  show "\<not> fits IPrivateBTCVault (deposit_calls cfg c n ! 1)" by (rule deposit_misfits)
  show "list_all (\<lambda>(abi, name, contract). map_of abi name = None \<or> map_of contract name = None) view_calls"
    by (rule views_unknown)
qed

definition demo_cfg_u256 :: sn_config where
  "demo_cfg_u256 = demo_cfg_sn\<lparr>u256 := (\<lambda>n. (str_of_int (n mod 2 ^ 128), str_of_int (n div 2 ^ 128)))\<rparr>"

definition demo_spv_params :: spv_params where
  "demo_spv_params = \<lparr>sp_commitment = ''0xc'', sp_blockHeight = 700, sp_txPos = 2,
          sp_rawTxBytes = [1, 255], sp_voutIndex = 0, sp_merkleProofWords = [replicate 8 4]\<rparr>"

theorem backend_calls_fit_witness:
  "fits IPrivateBTCVault (withdraw_call demo_cfg_u256 ''0x7'' [''0x1''] ''0x5'' 10000)
     \<and> fits IMockBTC (hd (deposit_calls demo_cfg_u256 ''0xc'' 10000))
     \<and> fits IHeaderStore (store_header_call ''0x9'' 700 (replicate 8 3))
     \<and> fits IHeaderStore (header_query ''0x9'' 700) \<and> fits IPrivateBTCVault (spv_deposit_call demo_cfg_u256 demo_spv_params)
     \<and> \<not> fits IPrivateBTCVault (deposit_calls demo_cfg_u256 ''0xc'' 10000 ! 1)
     \<and> list_all (\<lambda>(abi, name, contract). map_of abi name = None \<or> map_of contract name = None) view_calls"
proof (rule backend_calls_fit)
  have b: "big_int ''0x1'' = Some 1" "big_int ''0x5'' = Some 5" "big_int ''0x7'' = Some 7" "big_int ''0xc'' = Some 12"
    by code_simp+
  show "u256_law demo_cfg_u256 10000"
    by (simp add: u256_law_def demo_cfg_u256_def big_int_str_of_int)
  show "felt_text STARK_P ''0x7''" "felt_text (2 ^ 251) ''0x5''" "list_all (felt_text STARK_P) [''0x1'']"
    "felt_text (2 ^ 251) (vault_address demo_cfg_u256)"
    using b by (simp_all add: felt_text_def STARK_P_def demo_cfg_u256_def demo_cfg_sn_def)
  show "spv_in_range demo_spv_params"
    using b by (simp add: spv_in_range_def felt_text_def STARK_P_def list_all_iff demo_spv_params_def)
qed (simp_all add: list_all_iff)

end
