(* ===== verification/OnChain.thy ===== *)
theory OnChain
  imports Interfaces Verifier
begin

text \<open>
  \<open>isCommitmentOnChain\<close> with the ABI that \<open>StarknetService\<close> gives to the library, and the components
  that rely on it: the verification of withdrawal proofs, the lists of vaults, and, through the circuit
  breaker, every other call. starknet.js's \<open>Contract.call\<close> is a parameter, of which one law is used: it
  refuses a name that the ABI does not have.
\<close>

section \<open>The call\<close>

type_synonym contract_call = "interface \<Rightarrow> string \<Rightarrow> string list \<Rightarrow> string res"

definition refuses_unknown :: "contract_call \<Rightarrow> bool" where
  "refuses_unknown call \<longleftrightarrow> (\<forall>abi name args. map_of abi name = None \<longrightarrow>
     (\<exists>e. call abi name args = Inl e \<and> \<not> isApplicationError (message e)))"

text \<open>What the function passed to \<open>withResilience\<close> gives.\<close>

definition registered :: "contract_call \<Rightarrow> string \<Rightarrow> bool res" where
  "registered call c = bind_res (call VAULT_ABI ''is_commitment_registered'' [c]) (\<lambda>s. bind_res (big_int_res s) (\<lambda>z. Inr (z \<noteq> 0)))"

text \<open>
  \<open>Promise.all\<close> over the vaults of a list: every call enters before one settles, and they settle in
  turn, each within the time limit. A refused call answers false.
\<close>

definition on_chain_together :: "contract_call \<Rightarrow> int \<Rightarrow> (string \<times> int) list \<Rightarrow> circuit \<Rightarrow> bool list \<times> circuit" where
  "on_chain_together call now cs cb = (case circuit_enter now cb of
     Inl _ \<Rightarrow> (map (\<lambda>_. False) cs, cb)
   | Inr cb1 \<Rightarrow> (map (\<lambda>(c, _). registered call c = Inr True) cs,
        fold (\<lambda>(c, later). circuit_settle later (registered call c)) cs cb1))"

definition owned_vaults :: "string \<Rightarrow> db \<Rightarrow> vault_row list" where
  "owned_vaults address d = sort_key (\<lambda>v. - v_created_at v) (filter (\<lambda>v. owner_address v = address) (vaults d))"

text \<open>The commitments that the list of an address asks for.\<close>

definition list_checks :: "string \<Rightarrow> db \<Rightarrow> string list" where
  "list_checks address d = (if isValidAddress address
     then map v_commitment (filter (\<lambda>v. v_status v = active \<or> v_status v = withdrawn) (owned_vaults address d)) else [])"

section \<open>Lemmas\<close>

lemma registered_fails:
  assumes "refuses_unknown call"
  obtains e where "registered call c = Inl e" "\<not> isApplicationError (message e)"
proof -
  have "map_of VAULT_ABI ''is_commitment_registered'' = None" by (simp add: VAULT_ABI_def)
  then obtain e where "call VAULT_ABI ''is_commitment_registered'' [c] = Inl e" "\<not> isApplicationError (message e)"
    using assms unfolding refuses_unknown_def by blast
  then show thesis by (intro that) (simp_all add: registered_def)
qed

lemma registered_not_true: "refuses_unknown call \<Longrightarrow> registered call c \<noteq> Inr True"
  using registered_fails by (metis sum.distinct(1))

lemma isCommitmentOnChain_false:
  assumes "refuses_unknown call"
  shows "\<not> fst (isCommitmentOnChain now later (Some (call VAULT_ABI ''is_commitment_registered'' [c])) cb)"
proof -
  obtain e where "registered call c = Inl e" using registered_fails [OF assms] by blast
  then show ?thesis
    by (auto simp: isCommitmentOnChain_def withResilience_def registered_def raced_def split: sum.splits)
qed

text \<open>A list of one is the call itself.\<close>

lemma isCommitmentOnChain_registered:
  "isCommitmentOnChain now later (Some (call VAULT_ABI ''is_commitment_registered'' [c])) cb
     = (case withResilience now later (Some (registered call c)) cb of (Inr b, cb') \<Rightarrow> (b, cb') | (Inl _, cb') \<Rightarrow> (False, cb'))"
  by (simp add: isCommitmentOnChain_def registered_def)

lemma on_chain_single:
  "on_chain_together call now [(c, later)] cb = (case isCommitmentOnChain now later
     (Some (call VAULT_ABI ''is_commitment_registered'' [c])) cb of (b, cb') \<Rightarrow> ([b], cb'))"
  unfolding isCommitmentOnChain_registered
  by (cases "registered call c") (auto simp: on_chain_together_def withResilience_def raced_def split: sum.splits)

text \<open>A refused name is an unknown error to the breaker: it counts.\<close>

lemma settle_counts:
  assumes "refuses_unknown call"
  shows "circuit_settle later (registered call c) cb = count_failure later cb"
proof -
  obtain e where "registered call c = Inl e" "\<not> isApplicationError (message e)" using registered_fails [OF assms] by blast
  then show ?thesis by (simp add: circuit_settle_def)
qed

lemma counted_failures:
  assumes "refuses_unknown call"
  shows "consecutiveFailures (fold (\<lambda>(c, later). circuit_settle later (registered call c)) cs cb) = consecutiveFailures cb + length cs"
  by (induction cs arbitrary: cb) (auto simp: settle_counts [OF assms] count_failure_def Let_def)

lemma last_failure_opens:
  assumes "refuses_unknown call" "THRESHOLD \<le> length cs"
  shows "open_until (snd (last cs) + RESET_TIMEOUT_MS) (fold (\<lambda>(c, later). circuit_settle later (registered call c)) cs cb)"
proof (cases cs rule: rev_cases)
  case Nil
  then show ?thesis using assms(2) by (simp add: THRESHOLD_def)
next
  case (snoc ds x)
  obtain c later where x: "x = (c, later)" by fastforce
  show ?thesis using assms(2)
    by (simp add: snoc x settle_counts [OF assms(1)] open_until_count counted_failures [OF assms(1)])
qed

lemma listVaults_owned:
  "isValidAddress address \<Longrightarrow> listVaults now on_chain address d
     = respond 200 [(''success'', JBool True), (''address'', JStr address),
         (''vaults'', JArr (map (vault_summary now on_chain) (owned_vaults address d))),
         (''count'', JInt (int (length (owned_vaults address d))))]"
  by (simp add: listVaults_def owned_vaults_def)

section \<open>Properties\<close>

text \<open>
  C19. No withdrawal proof is ever verified: whatever the proof, the vault, the state of the breaker and
  the chain, \<open>POST /api/proof/verify-withdraw\<close> is refused and gives no token, because
  \<open>is_commitment_registered\<close>, which the contract has, is missing from the ABI the backend calls it by.
\<close>

theorem proofs_never_verified:
  assumes "refuses_unknown call"
    and "\<forall>c. ve_on_chain env c = fst (isCommitmentOnChain (now c) (later c) (Some (call VAULT_ABI ''is_commitment_registered'' [c])) (cb c))"
  shows "\<not> vr_valid (verifyWithdrawProof env p d) \<and> proofToken (verifyWithdrawProof env p d) = None
     \<and> code (post_verify_withdraw env vid rnd owner d) = 400
     \<and> map_of IPrivateBTCVault ''is_commitment_registered'' \<noteq> None"
proof -
  have n: "\<not> ve_on_chain env c" for c using assms(2) isCommitmentOnChain_false [OF assms(1)] by simp
  have v: "\<not> vr_valid (verifyWithdrawProof env q d) \<and> proofToken (verifyWithdrawProof env q d) = None" for q
    by (simp add: verifyWithdrawProof_def Let_def check_list_def vault_checks_def n split: option.splits)
  then have "code (post_verify_withdraw env vid rnd owner d) = 400"
    by (simp add: post_verify_withdraw_def Let_def)
  then show ?thesis using v by (simp add: IPrivateBTCVault_def)
qed

definition demo_call :: contract_call where
  "demo_call abi name args = (if map_of abi name = None then Inl (Error ''viewable method not found in abi'') else Inr ''0x1'')"

lemma demo_call_refuses: "refuses_unknown demo_call"
proof -
  have "\<not> isApplicationError ''viewable method not found in abi''" by code_simp
  then show ?thesis by (simp add: refuses_unknown_def demo_call_def)
qed

theorem proofs_never_verified_witness:
  "\<not> vr_valid (verifyWithdrawProof
       (demo_verify\<lparr>ve_on_chain := (\<lambda>c. fst (isCommitmentOnChain 0 0 (Some (demo_call VAULT_ABI ''is_commitment_registered'' [c])) init_circuit))\<rparr>)
       \<lparr>wp_vaultId = ''u'', wp_randomness = demo_randomness, wp_ownerAddress = ''0X1''\<rparr> demo_ready_db)
     \<and> vr_valid (verifyWithdrawProof demo_verify \<lparr>wp_vaultId = ''u'', wp_randomness = demo_randomness, wp_ownerAddress = ''0X1''\<rparr> demo_ready_db)"
  using proofs_never_verified [OF demo_call_refuses, of _ "\<lambda>_. 0" "\<lambda>_. 0" "\<lambda>_. init_circuit"] demo_verifies by simp

text \<open>
  C34. Listing an address with five active or withdrawn vaults opens the circuit breaker: all of them are
  answered as not registered, and for a minute after the last answer, whatever calls try to enter and whatever calls in flight fail
  meanwhile, every call that goes through \<open>withResilience\<close> is refused, the deposits and withdrawals of other
  users included. Only a call in flight that succeeds ends this early. (The header relay, the audit, the start-up and
  \<open>WalletService\<close> do not go through it.)
\<close>

theorem listing_opens_circuit:
  assumes "refuses_unknown call" and "map fst cs = list_checks address d" and "THRESHOLD \<le> length cs"
    and "circuit_enter now cb = Inr cb1" and "on_chain_together call now cs cb = (answers, cb')"
  shows "True \<notin> set answers \<and> isTripped cb'
     \<and> (\<forall>evs t. list_all (within_minute (snd (last cs))) evs \<and> t < snd (last cs) + 60000 \<longrightarrow>
          (let cb2 = fold circuit_after evs cb'
           in (\<forall>later out. withResilience t later (out :: 'a res option) cb2 = (Inl (refusal t cb2), cb2))
              \<and> (\<forall>later in_time acc p. executeSpvDeposit cfg t later in_time acc p cb2 = (Inl (refusal t cb2), cb2))
              \<and> (\<forall>later in_time acc n pf r x. sn_withdraw cfg t later in_time acc n pf r x cb2 = (Inl (refusal t cb2), cb2))))
     \<and> (\<forall>t (x :: 'a). circuitStatus (circuit_settle t (Inr x) cb') = CLOSED)"
proof -
  have e: "answers = map (\<lambda>(c, _). registered call c = Inr True) cs"
      "cb' = fold (\<lambda>(c, later). circuit_settle later (registered call c)) cs cb1"
    using assms(4,5) by (simp_all add: on_chain_together_def)
  have o: "open_until (snd (last cs) + RESET_TIMEOUT_MS) cb'" using last_failure_opens [OF assms(1,3)] by (simp add: e(2))
  have "True \<notin> set answers" using registered_not_true [OF assms(1)] by (auto simp: e(1))
  moreover have "isTripped cb'" using o by (simp add: open_until_def isTripped_def)
  ultimately show ?thesis
    by (auto simp: refused_within_minute [OF o] executeSpvDeposit_def sn_withdraw_def circuit_settle_def Let_def)
qed

definition demo_address :: string where
  "demo_address = ''0x'' @ replicate 64 CHR ''1''"

definition demo_five_db :: db where
  "demo_five_db = demo_ready_db\<lparr>vaults := concat (map (\<lambda>s. map (\<lambda>v. v\<lparr>v_id := s, owner_address := demo_address\<rparr>) (vaults demo_ready_db))
     [''a'', ''b'', ''c'', ''d'', ''e''])\<rparr>"

lemma five_checks: "length (list_checks demo_address demo_five_db) = 5"
proof -
  have "isValidAddress demo_address" by code_simp
  moreover obtain v where "prepare_row demo_prepare ''0x1'' 50000 30 = Inr v" using demo_prepared by blast
  ultimately show ?thesis
    by (simp add: list_checks_def owned_vaults_def demo_five_db_def demo_ready_db_def filter_sort)
qed

theorem listing_opens_circuit_witness:
  "\<exists>answers cb'. on_chain_together demo_call 0 (map (\<lambda>c. (c, 10)) (list_checks demo_address demo_five_db)) init_circuit = (answers, cb')
     \<and> (let cb2 = fold circuit_after [Entered 20] cb'
        in withResilience 60009 60010 (None :: int res option) cb2 = (Inl (refusal 60009 cb2), cb2))"
proof -
  let ?cs = "map (\<lambda>c. (c, 10 :: int)) (list_checks demo_address demo_five_db)"
  obtain answers cb' where o: "on_chain_together demo_call 0 ?cs init_circuit = (answers, cb')" by fastforce
  have l: "?cs \<noteq> []" using five_checks by auto
  have "snd (last ?cs) = 10" using l by (simp add: last_map)
  then have t: "list_all (within_minute (snd (last ?cs))) [Entered 20] \<and> (60009 :: int) < snd (last ?cs) + 60000"
    by (simp add: RESET_TIMEOUT_MS_def)
  have c: "map fst ?cs = list_checks demo_address demo_five_db" by (simp add: comp_def)
  have n: "THRESHOLD \<le> length ?cs" by (simp add: five_checks THRESHOLD_def)
  have i: "circuit_enter 0 init_circuit = Inr init_circuit" by (simp add: circuit_enter_def init_circuit_def)
  note s = conjunct1 [OF conjunct2 [OF conjunct2 [OF listing_opens_circuit [OF demo_call_refuses c n i o, where 'a = int]]]]
  show ?thesis using s t o unfolding Let_def by blast
qed

end
