(* ===== verification/Spec2Isabelle.thy ===== *)
theory Spec2Isabelle
  imports LockManager Crypto Processor Validators Htlc Starknet Commitments Spv Relay BurnProof Vault AuditTrail
    Verifier Bridge Admin Sharp Ledger DepositPage Pages Journey HtlcContract Chain Circuits
    Server DepositRun PageViews Api OnChain
begin

text \<open>
  A verification development of the PrivateBTC Vault: its backend (\<open>backend/src\<close>), a server in
  TypeScript that takes deposits of Bitcoin, mints a wrapped token on Starknet for them, and pays
  Bitcoin back once the token has been burnt; the logic of the web pages (\<open>frontend/src\<close>) that
  drive it; and the Cairo contracts it calls (\<open>contracts/src\<close>, \<open>htlc_swap\<close>) with the two circuits.

  \<^bold>\<open>The program.\<close> A client asks \<open>/api/vault\<close> or \<open>/api/commitment\<close> for a commitment, sends bitcoins,
  and the deposit is recognised (\<open>BitcoinSignetService\<close>), proved (\<open>BitcoinProofService\<close>, against the
  headers that \<open>BitcoinHeaderRelayService\<close> copies to Starknet) and executed (\<open>StarknetService\<close>); a row
  of \<open>vaults\<close> remembers it. A withdrawal burns the token, and a \<^emph>\<open>withdrawal authorization\<close>, at most
  one per nullifier and per burn, says what Bitcoin payout is owed. Payouts are made by the
  background \<open>WithdrawalProcessor\<close>, by the request itself, or by the debug route, from the covenant
  address (\<open>BitcoinCovenantService\<close>) or from a hot wallet (\<open>BitcoinBroadcastService\<close>). All state is
  in one SQLite database, an in-memory lock manager and an in-memory circuit breaker; on Starknet, in the
  storage of three contracts, a header store, a token and the vault, that call each other.

  \<^bold>\<open>Theories and the code they model.\<close>

  \<^item> \<open>Prelude\<close>: exceptions (\<open>types/errors.ts\<close>), results, JSON, HTTP responses, JavaScript strings, and
    the collections \<open>table_eval\<close> and \<open>client_eval\<close> of the rules that evaluate concrete tables and responses.
  \<^item> \<open>JsNum\<close>: binary64 arithmetic as rounding of rationals, parsing and printing of numbers, with
    an error bound for the rounding. \<open>Bytes\<close>: Node's \<open>Buffer\<close>, hexadecimal and base64.
  \<^item> \<open>Db\<close>: the tables of \<open>db/schema.ts\<close> with their constraints; \<open>schema_ok\<close> is the invariant every
    statement keeps, and \<open>keyed_table\<close> the interface of a table with a unique key.
  \<^item> \<open>LockManager\<close>: \<open>middleware/lockManager.ts\<close>, with the events of the event loop as steps.
  \<^item> \<open>Validators\<close>: \<open>middleware/\<close> (validators, validateBody, validateTxHash, error handlers),
    \<open>config/apy.ts\<close>, \<open>utils/\<close>.
  \<^item> \<open>Crypto\<close>: \<open>services/CryptoService.ts\<close>. \<open>Commitments\<close>: \<open>services/CommitmentService.ts\<close> and
    \<open>routes/commitment.ts\<close>. \<open>Htlc\<close>: \<open>services/HTLCService.ts\<close> and \<open>routes/htlc.ts\<close>.
  \<^item> \<open>Authorization\<close>: \<open>services/WithdrawalAuthorizationService.ts\<close>. \<open>Utxo\<close>: outputs and coin selection
    shared by the two payouts. \<open>Covenant\<close>: \<open>services/BitcoinCovenantService.ts\<close>. \<open>Broadcast\<close>:
    \<open>services/BitcoinBroadcastService.ts\<close>. \<open>Processor\<close>: \<open>services/WithdrawalProcessor.ts\<close>.
  \<^item> \<open>Starknet\<close>: \<open>services/StarknetService.ts\<close>, its circuit breaker and every call. \<open>BurnProof\<close>:
    \<open>services/StarknetProofService.ts\<close>. \<open>Spv\<close>: \<open>services/BitcoinProofService.ts\<close>. \<open>Relay\<close>:
    \<open>services/BitcoinHeaderRelayService.ts\<close>.
  \<^item> \<open>Vault\<close>: \<open>routes/vault.ts\<close>. \<open>AuditTrail\<close>: \<open>routes/audit.ts\<close>, \<open>transactions.ts\<close>, \<open>privacy.ts\<close>.
    \<open>Verifier\<close>: \<open>services/ProofVerifier.ts\<close>, \<open>routes/proof.ts\<close>, \<open>routes/withdraw.ts\<close>. \<open>Bridge\<close>:
    \<open>services/BitcoinSignetService.ts\<close> and \<open>routes/bridge.ts\<close>. \<open>Admin\<close>: \<open>config/env.ts\<close>,
    \<open>services/WalletService.ts\<close>, the start-up and health check of \<open>index.ts\<close>, \<open>routes/debug.ts\<close>.
    \<open>Sharp\<close>: \<open>services/SharpService.ts\<close> and \<open>routes/sharp.ts\<close>.
  \<^item> \<open>Client\<close>: \<open>frontend/src/lib/api.ts\<close> and \<open>lib/useXverseWallet.ts\<close>. \<open>DepositPage\<close>:
    \<open>app/deposit/page.tsx\<close>, its polls, timers and effect as a state machine. \<open>Pages\<close>: \<open>app/withdraw\<close>,
    \<open>app/audit\<close>, \<open>app/page.tsx\<close> and \<open>app/context\<close>. They import the server's routes, so that their theorems
    run a page against the server. \<open>Journey\<close>: lemmas that follow one withdrawal through all the
    components; with them this theory proves that what the page deposits can be withdrawn.
  \<^item> \<open>View\<close>: what a page shows, as a list of elements, and which actions it thereby offers. \<open>DepositView\<close>: the
    view of the deposit page in each step. \<open>DepositRun\<close>: that page in use, by events of the user (who
    can only do what the view offers), the server, the wallet and the timers, in any order. \<open>PageViews\<close>:
    the views of the other pages, of \<open>components/Header.tsx\<close> and of the toasts. \<open>Api\<close>: the requests
    of the frontend as \<open>Server\<close> receives them.
  \<^item> \<open>Turns\<close>: the writes of all handlers and background jobs as the turns of the event loop, the uninterrupted
    pieces between two awaits, with what each keeps of the database. \<open>Server\<close>: \<open>index.ts\<close>, the routes of all
    routers with their middlewares and limiters, and a request from its arrival to its answer; a run of the
    server is any list of requests, polls, start-up jobs and single turns.
  \<^item> The contracts. \<open>Merkle\<close>: what a Bitcoin Merkle tree and the path of a leaf are, with the hash as a
    parameter, and when a path determines its leaf. \<open>CairoSpv\<close>: \<open>contracts/src/bitcoin_spv.cairo\<close>, its
    parser of transactions, its Merkle check and its two script tests. \<open>MockBtc\<close>: \<open>mock_btc.cairo\<close>.
    \<open>VaultContract\<close>: \<open>header_store.cairo\<close> and \<open>vault.cairo\<close>, whose calls of the other two contracts are
    made on their storage; a run is a list of transactions of any callers. \<open>HtlcContract\<close>:
    \<open>htlc_swap/src/lib.cairo\<close> over any token that keeps the laws of the locale \<open>erc20_ledger\<close>, which
    the repository's own token does. \<open>Circuits\<close>: \<open>cairo/commitment.cairo\<close> and \<open>cairo2_proof\<close> against
    \<open>CryptoService\<close>.
  \<^item> \<open>Chain\<close>: the backend against the contracts: the explorer's data through \<open>buildSpvProof\<close>, the calldata
    and the vault's deposit; and the logs of the contracts as the backend's event checks read them.
  \<^item> \<open>Interfaces\<close>: the traits of the contracts with the types of their arguments, the ABI fragments of
    \<open>StarknetService\<close> and \<open>WalletService\<close>, and the calls of the backend against them. \<open>OnChain\<close>:
    \<open>isCommitmentOnChain\<close> with its ABI, alone and for a list of vaults, and the components that rely on it.
  \<^item> \<open>Ledger\<close>: abstract specifications of the authorizations and the nullifiers, and the
    simulations that the services implement them.

  \<^bold>\<open>How code becomes definitions.\<close> A row, a request body or a result object is a record; an enumeration a
  datatype; a \<open>throw\<close> is \<open>Inl\<close> of an \<open>exn\<close>. An operation on the database is a function from the
  database it finds to the result and the database it leaves. A handler that awaits is one
  function per part between its awaits where the interleaving matters (\<open>Vault\<close>, \<open>Verifier\<close>,
  \<open>Processor\<close>), composed at the end. What lies outside \<open>src/\<close> is an argument: the explorer, the
  Starknet node, hashes, ciphers, signatures, random bytes, uuids and the clock. What the Bitcoin network does with a transaction and what the caller that posts it sees are separate
  arguments, since an answer can be lost. Where a proof needs
  a law of such a library, it is a named predicate (\<open>aead_law\<close>, \<open>pedersen_law\<close>) that a concrete
  function satisfies in the witness. Bytes are \<open>8 word\<close>; a double is the rational it denotes, and each
  operation of the source rounds with \<open>fl\<close>; a JavaScript \<open>bigint\<close> is an \<open>int\<close>.

  \<^bold>\<open>What the lemmas show.\<close> Money: the processor pays exactly, and each authorization at most once as
  long as the answers to its broadcasts arrive; each lost answer can cost one more payment (\<open>Processor\<close>); a payout transaction balances and selects as few coins as possible (\<open>Covenant\<close>);
  a request pays only what was burnt (\<open>Vault\<close>), and where these guarantees end: after an audit has
  reopened vaults, through a completed authorization, through the debug route, and for whoever
  knows a nullifier, since the secret is never checked (\<open>AuditTrail\<close>, \<open>Vault\<close>, \<open>Admin\<close>).
  Single use: nullifiers, authorization terms and swaps (\<open>Verifier\<close>, \<open>Authorization\<close>, \<open>Ledger\<close>, \<open>Htlc\<close>). Parsing and encoding: removing the witness of any serialized transaction, the SPV
  proof, its calldata, the burn proof and encrypted amounts (\<open>Spv\<close>, \<open>Starknet\<close>, \<open>BurnProof\<close>, \<open>Crypto\<close>).
  Concurrency: mutual exclusion up to the safety timeout, the circuit breaker, the relay's
  contiguous heights, the deposit page's polls (\<open>LockManager\<close>, \<open>Starknet\<close>, \<open>Relay\<close>, \<open>DepositPage\<close>).
  The server as a whole: whatever the interleaving, the schema holds and no recorded burn, payout, nullifier or
  term is lost; a spent nullifier stays spent (\<open>Server\<close>); each request of the frontend reaches its handler (\<open>Api\<close>).
  The deposit page in all its runs: from step 3 on it knows a transaction; every sighting leads back to
  step 3; a failed submission leaves it without anything to press, and amount and secret can
  change under the commitment (\<open>DepositRun\<close>).
  End to end: the page's request is what the server's schema takes, and a submission stores the
  page's vault (\<open>DepositPage\<close>), from which the same amount is paid back (\<open>Journey\<close>). On chain: an honest
  deposit is minted when the contract hashes its transaction correctly, and refused when it does not (it loses bytes
  of a length that four does not divide), nothing is minted for a transaction that does not pay the covenant, every
  commitment, Bitcoin transaction (by a key that different hashes can share) and nullifier is used once, the reserve covers the deposits
  less the withdrawals (\<open>Chain\<close>, \<open>VaultContract\<close>, \<open>MockBtc\<close>); and where this ends: anyone withdraws, nothing is
  burnt, the backend cannot read the events of either transaction, its default script is not the
  covenant's, and a swap contract that is funded twice loses the first amount (\<open>HtlcContract\<close>). The backend's
  transactions fit the contracts' entry points except one, and none of the views called through an ABI does (\<open>Interfaces\<close>);
  one missing from that ABI means that no withdrawal proof is ever verified, and that listing five vaults opens the circuit
  breaker for every call that goes through it (\<open>OnChain\<close>). Where the code does not do what it means to,
  the theorem states what it does.

  \<^bold>\<open>Bounds and termination.\<close> Every definition is total. Retries count down from the number of attempts of
  the source (3 for the relay and the explorer, 24 for a header). The parsing loops count down
  from a number read from the transaction; \<open>parsing_bounded\<close> shows that they stop within the
  buffer whatever that number is. A run of the processor is a function of the list of its polls, and
  so is the polling of the deposit page, which ends after 180 of them (\<open>polling_gives_up\<close>). The contracts'
  integers are \<open>nat\<close>s: where Cairo's \<open>u32\<close>, \<open>u64\<close>, \<open>u128\<close> or \<open>u256\<close> operations panic on overflow, the
  definitions test the bound and fail; the parser's loops are bounded by the length of the array,
  past which Cairo's \<open>at\<close> panics.

  \<^bold>\<open>Not modelled.\<close> Console output and the request log; how \<open>express-rate-limit\<close> counts and how
  Express matches and parses (arguments of \<open>Server\<close>), headers and \<open>OPTIONS\<close>, body fields of another type
  than the route declares; opening and migrating the database file; the
  background proof job of the deposit route, which nothing awaits; subnormal doubles and overflow
  to infinity; styling, icons and the contents of the toasts, and reloading a page, which loses its state; of the contracts, gas, class hashes, the
  header store's event and the prover; the deployment, repair and test scripts.
\<close>

section \<open>Properties of the whole\<close>

text \<open>
  C1. The money comes back: when a page that is ready submits a deposit of a denomination, and the world
  cooperates, its vault is stored; a withdrawal for its nullifier then pays exactly that
  denomination in satoshis to the address of the request, the vault ends as withdrawn with the burn
  recorded, and the withdrawal page reports the payout.
\<close>

theorem deposit_can_be_withdrawn:
  assumes "schema_ok d" and "ready_to_submit s" and "proof_in_range p"
    and "buildSpvProof ex (pg_bitcoinTx s) (VAULT_SCRIPT_PUBKEY e) = Inr p"
    and "parseFloat (pg_amount s) = Some x" and "x \<in> set ALLOWED_DENOMINATIONS_BTC"
    and "\<exists>k < 24. sv_header env k"
    and "sv_execute env (pg_commitment s) (blockHeight p) (txPos p) (fst (encodeSpvProofAsCalldata p)) (int (voutIndex p))
           (map (map of_int) (snd (encodeSpvProofAsCalldata p))) = Inr h" and "sv_wait env h = Inr ()"
    and "pg_nullifierHash s \<noteq> []" and "generateRandomness (sv_rand env) = Inr hint"
    and v: "v = spv_vault env (requested s p) (pg_vaultId s) (pg_nullifierHash s) hint h"
    and fresh: "vaults_violation (vaults d @ [v]) = None"
    and lib: "aead_law (sv_cl env)" "length (sv_iv env) = 12" "we_cl w = sv_cl env"
    and pay: "cooperates w v \<lfloor>mul x (10 ^ 18)\<rfloor> burn tid d" "starts_with addr ''tb1''" "we_sender w \<noteq> Some addr"
    and page: "withdraw_guard wp = None"
  shows "\<exists>s' d1 q r d2. handleSubmitStarknet (spv_server ex e) (deposit_server env) s s d = (s', d1) \<and> pg_step s' = 4
     \<and> withdraw w (pg_nullifierHash s) addr d1 = (Some q, r, d2)
     \<and> hd (p_outputs q) = \<lparr>o_address = addr, o_value = expectedSats x\<rparr>
     \<and> (\<exists>v'. row_by v_id (pg_vaultId s) (vaults d2) = Some v' \<and> v_status v' = withdrawn \<and> withdraw_tx_hash v' = Some burn)
     \<and> fst (handleWithdraw (Reply r) wp) = Complete (take 12 (wd_bitcoinAddress wp))"
proof -
  let ?d1 = "d\<lparr>vaults := vaults d @ [v]\<rparr>"
  obtain s' where s': "handleSubmitStarknet (spv_server ex e) (deposit_server env) s s d = (s', ?d1)" "pg_step s' = 4"
    using page_deposit [OF assms(2,4,3,7-11)] fresh unfolding v by blast
  have ok: "schema_ok ?d1"
    using schema_insert_vault [OF assms(1), of v ?d1] fresh by (simp add: insert_vault_def set_vaults_def)
  have f: "v_id v = pg_vaultId s" "v_nullifier_hash v = Some (pg_nullifierHash s)" "v_status v = active" "withdraw_tx_hash v = None"
    by (simp_all add: v spv_vault_def Let_def)
  have "sb_amount (requested s p) = Some x" using assms(5) by (simp add: requested_def)
  then have amt: "vault_amount (we_cl w) (v_id v) ?d1 = Inr \<lfloor>mul x (10 ^ 18)\<rfloor>"
    using stored_amount [OF lib(1,2)] fresh lib(3) f(1) unfolding v by simp
  have "cooperates w v \<lfloor>mul x (10 ^ 18)\<rfloor> burn tid ?d1" using pay(1) by (simp add: cooperates_def)
  from withdraw_in_full [OF ok _ f(2-4) amt this pay(2,3)] obtain q r d2
    where w: "withdraw w (pg_nullifierHash s) addr ?d1 = (Some q, r, d2)" "code r = 200"
      "json_field (body r) ''bitcoinTxid'' = Some (JStr tid)"
      "hd (p_outputs q) = \<lparr>o_address = addr, o_value = actualSats \<lfloor>mul x (10 ^ 18)\<rfloor>\<rparr>"
      "row_by v_id (v_id v) (vaults d2) = Some (v\<lparr>v_status := withdrawn, withdraw_tx_hash := Some burn, bitcoin_withdrawal_address := Some addr\<rparr>)"
    by auto
  have "tid \<noteq> []" using pay(1) by (simp add: cooperates_def can_pay_def)
  then have "fst (handleWithdraw (Reply r) wp) = Complete (take 12 (wd_bitcoinAddress wp))"
    using w(2,3) page by (auto simp: handleWithdraw_def axios_data_def truthy_json_def json_field_def)
  moreover have "actualSats \<lfloor>mul x (10 ^ 18)\<rfloor> = expectedSats x"
    using denominations_kept assms(6) by (simp add: list_all_iff)
  ultimately show ?thesis using s' w f(1) by auto
qed

theorem deposit_can_be_withdrawn_witness:
  "\<exists>s' d1 q r d2. handleSubmitStarknet (spv_server demo_explorer demo_script) (deposit_server demo_spv) demo_page demo_page empty_db
       = (s', d1) \<and> withdraw demo_payer (pg_nullifierHash demo_page) ''tb1q'' d1 = (Some q, r, d2)
     \<and> hd (p_outputs q) = \<lparr>o_address = ''tb1q'', o_value = expectedSats (fl (1 / 100))\<rparr>"
proof -
  obtain p where p: "buildSpvProof demo_explorer (pg_bitcoinTx demo_page) (VAULT_SCRIPT_PUBKEY demo_script) = Inr p"
    "proof_in_range p" using demo_built by blast
  let ?h = "''0x00112233445566778899aabbccddeeff''" and ?hint = "''0x'' @ concat (replicate 31 ''07'')"
  define v where "v = spv_vault demo_spv (requested demo_page p) (pg_vaultId demo_page) (pg_nullifierHash demo_page) ?hint ?h"
  have e: "sv_execute demo_spv (pg_commitment demo_page) (blockHeight p) (txPos p) (fst (encodeSpvProofAsCalldata p))
      (int (voutIndex p)) (map (map of_int) (snd (encodeSpvProofAsCalldata p))) = Inr ?h"
    "sv_wait demo_spv ?h = Inr ()" by (simp_all add: demo_spv_def)
  have n: "pg_nullifierHash demo_page \<noteq> []" by (simp add: demo_page_def init_page_def)
  have g: "generateRandomness (sv_rand demo_spv) = Inr ?hint" using demo_hint by (simp add: demo_spv_def)
  have x: "parseFloat (pg_amount demo_page) = Some (fl (1 / 100))" "fl (1 / 100) \<in> set ALLOWED_DENOMINATIONS_BTC"
    unfolding demo_page_def by code_simp+
  have fresh: "vaults_violation (vaults empty_db @ [v]) = None"
    by (simp add: v_def spv_vault_def Let_def table_eval)
  have a: "aead_law (sv_cl demo_spv)" "length (sv_iv demo_spv) = 12" "we_cl demo_payer = sv_cl demo_spv"
    using aead_law_demo by (simp_all add: demo_spv_def demo_payer_def demo_withdraw_env_def)
  have "owner_address v = sv_account demo_spv" by (simp add: v_def spv_vault_def Let_def)
  then have c: "cooperates demo_payer v \<lfloor>mul (fl (1 / 100)) (10 ^ 18)\<rfloor> ?h ''t'' empty_db"
    using demo_cooperates [of v "[]"] by (simp add: empty_db_def)
  have w: "starts_with ''tb1q'' ''tb1''" "we_sender demo_payer \<noteq> Some ''tb1q''" "withdraw_guard demo_withdraw_page = None"
    by (simp_all add: starts_with_def demo_payer_def demo_withdraw_env_def withdraw_guard_def demo_withdraw_page_def)
  show ?thesis
    using deposit_can_be_withdrawn [OF schema_empty demo_ready p(2,1) x demo_headers e n g v_def fresh a c w] by blast
qed

end
